(* ===== verification/Prelude.thy ===== *)
theory Prelude
  imports Main "HOL-Library.Code_Target_Numeral"
begin

text \<open>
  What every component of the library shares: results with errors as values, the
  monadic plumbing over them, and generic lemmas on lists, options and association
  lists.  Python dictionaries keep insertion order, so they are association lists:
  \<open>dict_get\<close> is \<^verbatim>\<open>d.get(k)\<close>, \<open>dict_set\<close> is \<^verbatim>\<open>d[k] = v\<close> (in place when the key
  is there, at the end otherwise).
\<close>

named_theorems ltvm_simps \<open>unfolding rules of the model's small definitions\<close>
named_theorems ltvm_wf \<open>well-formedness facts every operation keeps\<close>

subsection \<open>Results: a raise of the source is an \<open>Inl\<close>\<close>

type_synonym ('e, 'a) result = "'e + 'a"

definition res_bind :: "('e, 'a) result \<Rightarrow> ('a \<Rightarrow> ('e, 'b) result) \<Rightarrow> ('e, 'b) result" where
  "res_bind r f = (case r of Inl e \<Rightarrow> Inl e | Inr x \<Rightarrow> f x)"

definition res_map :: "('a \<Rightarrow> 'b) \<Rightarrow> ('e, 'a) result \<Rightarrow> ('e, 'b) result" where
  "res_map f r = (case r of Inl e \<Rightarrow> Inl e | Inr x \<Rightarrow> Inr (f x))"

fun res_list :: "('a \<Rightarrow> ('e, 'b) result) \<Rightarrow> 'a list \<Rightarrow> ('e, 'b list) result" where
  "res_list f [] = Inr []"
| "res_list f (x # xs) =
     (case f x of Inl e \<Rightarrow> Inl e
      | Inr y \<Rightarrow> (case res_list f xs of Inl e \<Rightarrow> Inl e | Inr ys \<Rightarrow> Inr (y # ys)))"

lemma res_bind_simps [simp]:
  "res_bind (Inl e) f = Inl e"
  "res_bind (Inr x) f = f x"
  by (simp_all add: res_bind_def)

lemma res_map_simps [simp]:
  "res_map f (Inl e) = Inl e"
  "res_map f (Inr x) = Inr (f x)"
  by (simp_all add: res_map_def)

lemma res_bind_eq_Inr: "res_bind r f = Inr y \<longleftrightarrow> (\<exists>x. r = Inr x \<and> f x = Inr y)"
  by (cases r) auto

lemma res_map_eq_Inr: "res_map f r = Inr y \<longleftrightarrow> (\<exists>x. r = Inr x \<and> y = f x)"
  by (cases r) auto

lemma res_list_all_Inr: "(\<And>x. x \<in> set xs \<Longrightarrow> f x = Inr (g x)) \<Longrightarrow> res_list f xs = Inr (map g xs)"
  by (induction xs) auto

lemma res_list_Inr_iff:
  "res_list f xs = Inr ys \<longleftrightarrow> list_all2 (\<lambda>x y. f x = Inr y) xs ys"
proof (induction xs arbitrary: ys)
  case (Cons x xs)
  show ?case
  proof (cases "f x")
    case (Inr y)
    with Cons show ?thesis
      by (cases "res_list f xs") (auto simp: list_all2_Cons1 dest: sym)
  qed (simp add: list_all2_Cons1)
qed auto

lemma res_list_Inr_length: "res_list f xs = Inr ys \<Longrightarrow> length ys = length xs"
  by (auto simp: res_list_Inr_iff dest: list_all2_lengthD)

subsection \<open>Dictionaries in insertion order\<close>

type_synonym ('k, 'v) dict = "('k \<times> 'v) list"

abbreviation dict_get :: "('k, 'v) dict \<Rightarrow> 'k \<Rightarrow> 'v option" where
  "dict_get \<equiv> map_of"

fun dict_set :: "('k, 'v) dict \<Rightarrow> 'k \<Rightarrow> 'v \<Rightarrow> ('k, 'v) dict" where
  "dict_set [] k v = [(k, v)]"
| "dict_set ((k', v') # d) k v = (if k' = k then (k', v) # d else (k', v') # dict_set d k v)"

definition get_or :: "'v \<Rightarrow> 'v option \<Rightarrow> 'v" where
  "get_or dflt o' = (case o' of None \<Rightarrow> dflt | Some v \<Rightarrow> v)"

lemma get_or_simps [simp]:
  "get_or d None = d"
  "get_or d (Some v) = v"
  by (simp_all add: get_or_def)

lemma dict_get_set [simp]: "dict_get (dict_set d k v) = (dict_get d)(k \<mapsto> v)"
  by (induction d k v rule: dict_set.induct) (auto simp: fun_eq_iff)

lemma keys_dict_set [simp]: "set (map fst (dict_set d k v)) = insert k (set (map fst d))"
  by (induction d k v rule: dict_set.induct) auto

lemma distinct_dict_set: "distinct (map fst d) \<Longrightarrow> distinct (map fst (dict_set d k v))"
proof (induction d k v rule: dict_set.induct)
  case (2 k' v' d k v)
  then show ?case using keys_dict_set [of d k v] by auto
qed simp

lemma dict_set_new: "k \<notin> set (map fst d) \<Longrightarrow> dict_set d k v = d @ [(k, v)]"
  by (induction d k v rule: dict_set.induct) auto

subsection \<open>Lists\<close>

text \<open>\<^verbatim>\<open>dict.fromkeys(xs)\<close>: the elements in order of their first occurrence.\<close>

fun uniq_aux :: "'a list \<Rightarrow> 'a list \<Rightarrow> 'a list" where
  "uniq_aux seen [] = []"
| "uniq_aux seen (x # xs) =
     (if x \<in> set seen then uniq_aux seen xs else x # uniq_aux (x # seen) xs)"

abbreviation uniq :: "'a list \<Rightarrow> 'a list" where
  "uniq \<equiv> uniq_aux []"

lemma set_uniq_aux: "set (uniq_aux seen xs) = set xs - set seen"
  by (induction seen xs rule: uniq_aux.induct) auto

lemma set_uniq [simp]: "set (uniq xs) = set xs"
  by (simp add: set_uniq_aux)

lemma distinct_uniq_aux: "distinct (uniq_aux seen xs)"
  by (induction seen xs rule: uniq_aux.induct) (auto simp: set_uniq_aux)

lemma find_Some_iff_first:
  "find P xs = Some x \<Longrightarrow> x \<in> set xs \<and> P x"
  by (auto simp: find_Some_iff)

lemma takeWhile_all: "(\<And>x. x \<in> set xs \<Longrightarrow> P x) \<Longrightarrow> takeWhile P xs = xs"
  by (induction xs) auto

lemma dropWhile_none: "(xs \<noteq> [] \<Longrightarrow> \<not> P (hd xs)) \<Longrightarrow> dropWhile P xs = xs"
  by (cases xs) auto

subsection \<open>Splitting at a separator\<close>

lemma first_part_unique:
  assumes "s @ c # a = t @ c # b" "c \<notin> set s" "c \<notin> set t"
  shows "s = t" "a = b"
proof -
  have part: "takeWhile (\<lambda>x. x \<noteq> c) (s @ c # a) = s" if "c \<notin> set s" for s a
    using that by (induction s) auto
  have "s = t" using arg_cong [OF assms(1), of "takeWhile (\<lambda>x. x \<noteq> c)"] part assms(2,3) by simp
  then show "s = t" "a = b" using assms(1) by simp_all
qed

lemma last_part_unique:
  assumes "a @ c # s = b @ c # t" "c \<notin> set s" "c \<notin> set t"
  shows "a = b" "s = t"
  using first_part_unique [of "rev s" c "rev a" "rev t" "rev b"] arg_cong [OF assms(1), of rev] assms(2,3) by simp_all

end
