(* ===== verification/PyStr.thy ===== *)
theory PyStr
  imports Prelude
begin

text \<open>
  The part of Python's \<^verbatim>\<open>str\<close> and \<^verbatim>\<open>int\<close> the sources use.  A string is a list of
  \<^typ>\<open>char\<close>, read as the code points 0 to 255 (Latin-1), so the model has Python's
  non-ASCII white space, digits and line boundaries up to there: \<^verbatim>\<open>str.isdigit\<close> holds
  of the superscripts 0xB2, 0xB3 and 0xB9, which \<^verbatim>\<open>int\<close> refuses, and
  \<^verbatim>\<open>str.splitlines\<close> breaks lines at 0x0B, 0x0C, 0x1C to 0x1E and 0x85 as well as at
  newline and carriage return.  Code points above 255 are outside the model.
\<close>

subsection \<open>Character classes\<close>

definition ascii_space :: "char \<Rightarrow> bool" where
  "ascii_space c \<longleftrightarrow> c \<in> set [CHR 0x20, CHR 0x09, CHR 0x0A, CHR 0x0B, CHR 0x0C, CHR 0x0D]"

definition isspace :: "char \<Rightarrow> bool" where
  "isspace c \<longleftrightarrow> ascii_space c \<or>
     c \<in> set [CHR 0x1C, CHR 0x1D, CHR 0x1E, CHR 0x1F, CHR 0x85, CHR 0xA0]"

definition isdecimal :: "char \<Rightarrow> bool" where
  "isdecimal c \<longleftrightarrow> c \<in> set ''0123456789''"

definition isdigit :: "char \<Rightarrow> bool" where
  "isdigit c \<longleftrightarrow> isdecimal c \<or> c \<in> set [CHR 0xB2, CHR 0xB3, CHR 0xB9]"

definition isxdigit :: "char \<Rightarrow> bool" where
  "isxdigit c \<longleftrightarrow> c \<in> set ''0123456789abcdefABCDEF''"

definition isascii :: "char \<Rightarrow> bool" where
  "isascii c \<longleftrightarrow> (of_char c :: nat) < 128"

definition islinebreak :: "char \<Rightarrow> bool" where
  "islinebreak c \<longleftrightarrow>
     c \<in> set [CHR 0x0A, CHR 0x0D, CHR 0x0B, CHR 0x0C, CHR 0x1C, CHR 0x1D, CHR 0x1E, CHR 0x85]"

definition isalpha_ascii :: "char \<Rightarrow> bool" where
  "isalpha_ascii c \<longleftrightarrow>
     c \<in> set ''abcdefghijklmnopqrstuvwxyzABCDEFGHIJKLMNOPQRSTUVWXYZ''"

definition lower_char :: "char \<Rightarrow> char" where
  "lower_char c = (let n = (of_char c :: nat)
     in if (65 \<le> n \<and> n \<le> 90) \<or> (192 \<le> n \<and> n \<le> 222 \<and> n \<noteq> 215) then char_of (n + 32) else c)"

lemmas char_class_defs = ascii_space_def isspace_def isdecimal_def isdigit_def
  isxdigit_def isascii_def islinebreak_def isalpha_ascii_def

lemma isdecimal_isdigit: "isdecimal c \<Longrightarrow> isdigit c"
  by (simp add: isdigit_def)

lemma isdecimal_not_space: "isdecimal c \<Longrightarrow> \<not> isspace c"
  by (auto simp: char_class_defs)

lemma isdecimal_not_break: "isdecimal c \<Longrightarrow> \<not> islinebreak c"
  by (auto simp: char_class_defs)

subsection \<open>Whole-string operations\<close>

definition lower :: "string \<Rightarrow> string" where
  "lower s = map lower_char s"

definition lstrip :: "string \<Rightarrow> string" where
  "lstrip s = dropWhile isspace s"

definition rstrip :: "string \<Rightarrow> string" where
  "rstrip s = rev (dropWhile isspace (rev s))"

definition strip :: "string \<Rightarrow> string" where
  "strip s = rstrip (lstrip s)"

definition rstrip_char :: "char \<Rightarrow> string \<Rightarrow> string" where
  "rstrip_char c s = rev (dropWhile (\<lambda>x. x = c) (rev s))"

text \<open>\<^verbatim>\<open>s.isdigit()\<close>: some character, and every one a digit.\<close>

definition str_isdigit :: "string \<Rightarrow> bool" where
  "str_isdigit s \<longleftrightarrow> s \<noteq> [] \<and> list_all isdigit s"

definition startswith :: "string \<Rightarrow> string \<Rightarrow> bool" where
  "startswith s p \<longleftrightarrow> take (length p) s = p"

definition endswith :: "string \<Rightarrow> string \<Rightarrow> bool" where
  "endswith s p \<longleftrightarrow> length p \<le> length s \<and> drop (length s - length p) s = p"

fun contains :: "string \<Rightarrow> string \<Rightarrow> bool" where
  "contains p [] = (p = [])"
| "contains p (x # xs) = (startswith (x # xs) p \<or> contains p xs)"

definition replace_char :: "char \<Rightarrow> char \<Rightarrow> string \<Rightarrow> string" where
  "replace_char a b s = map (\<lambda>c. if c = a then b else c) s"

text \<open>\<^verbatim>\<open>s.partition(c)\<close> for a one-character separator: the part before it, whether it
  was found, the part after it.\<close>

fun partition1 :: "char \<Rightarrow> string \<Rightarrow> string \<times> bool \<times> string" where
  "partition1 c [] = ([], False, [])"
| "partition1 c (x # xs) =
     (if x = c then ([], True, xs)
      else (case partition1 c xs of (a, f, b) \<Rightarrow> (x # a, f, b)))"

text \<open>\<^verbatim>\<open>s.split(c)\<close> for a one-character separator, and \<^verbatim>\<open>sep.join(ws)\<close>.\<close>

fun split_on :: "char \<Rightarrow> string \<Rightarrow> string list" where
  "split_on c [] = [[]]"
| "split_on c (x # xs) =
     (if x = c then [] # split_on c xs
      else (case split_on c xs of [] \<Rightarrow> [[x]] | w # ws \<Rightarrow> (x # w) # ws))"

fun join :: "string \<Rightarrow> string list \<Rightarrow> string" where
  "join sep [] = []"
| "join sep [w] = w"
| "join sep (w # v # ws) = w @ sep @ join sep (v # ws)"

text \<open>\<^verbatim>\<open>s.split()\<close>: the maximal runs of non-space characters.\<close>

fun words_aux :: "string \<Rightarrow> string \<Rightarrow> string list" where
  "words_aux acc [] = (if acc = [] then [] else [rev acc])"
| "words_aux acc (c # cs) =
     (if isspace c then (if acc = [] then words_aux [] cs else rev acc # words_aux [] cs)
      else words_aux (c # acc) cs)"

definition split_ws :: "string \<Rightarrow> string list" where
  "split_ws s = words_aux [] s"

text \<open>\<^verbatim>\<open>s.splitlines()\<close>: a carriage return followed by a newline is one boundary, and a
  boundary at the end opens no further line.\<close>

fun lines_aux :: "string \<Rightarrow> string \<Rightarrow> string list" where
  "lines_aux acc [] = (if acc = [] then [] else [rev acc])"
| "lines_aux acc [c] = (if islinebreak c then [rev acc] else [rev (c # acc)])"
| "lines_aux acc (c # d # cs) =
     (if c = CHR 0x0D \<and> d = CHR 0x0A then rev acc # lines_aux [] cs
      else if islinebreak c then rev acc # lines_aux [] (d # cs)
      else lines_aux (c # acc) (d # cs))"

definition splitlines :: "string \<Rightarrow> string list" where
  "splitlines s = lines_aux [] s"

text \<open>\<^verbatim>\<open>Path.read_text()\<close> opens in text mode, where a carriage return, alone or before
  a newline, reads as a newline.\<close>

fun universal_newlines :: "string \<Rightarrow> string" where
  "universal_newlines [] = []"
| "universal_newlines [c] = [if c = CHR 0x0D then CHR 0x0A else c]"
| "universal_newlines (c # d # cs) =
     (if c = CHR 0x0D then
        (if d = CHR 0x0A then CHR 0x0A # universal_newlines cs
         else CHR 0x0A # universal_newlines (d # cs))
      else c # universal_newlines (d # cs))"

subsection \<open>Numbers\<close>

definition digit_char :: "nat \<Rightarrow> char" where
  "digit_char d = ''0123456789abcdef'' ! d"

text \<open>The value of a digit in base 16, which is its value in base 10 where it has one.\<close>

definition digit_val :: "char \<Rightarrow> nat" where
  "digit_val c = (let n = of_char c
     in if 97 \<le> n then n - 87 else if 65 \<le> n then n - 55 else n - 48)"

text \<open>\<^verbatim>\<open>str(n)\<close> of an integer, and \<^verbatim>\<open>int(s)\<close> of a string: optional white space around an
  optional sign and decimal digits, with single underscores between digits.  Which
  characters count as white space there depends on the string being ASCII.\<close>

fun str_nat :: "nat \<Rightarrow> string" where
  "str_nat n = (if n < 10 then [digit_char n] else str_nat (n div 10) @ [digit_char (n mod 10)])"

declare str_nat.simps [simp del]

definition str_int :: "int \<Rightarrow> string" where
  "str_int i = (if i < 0 then CHR ''-'' # str_nat (nat (- i)) else str_nat (nat i))"

definition dec_val :: "string \<Rightarrow> nat" where
  "dec_val s = foldl (\<lambda>n c. 10 * n + digit_val c) 0 s"

fun int_digits :: "string \<Rightarrow> bool" where
  "int_digits [] = False"
| "int_digits [c] = isdecimal c"
| "int_digits (c # d # cs) =
     (isdecimal c \<and> (if d = CHR ''_'' then int_digits cs else int_digits (d # cs)))"

definition int_space :: "string \<Rightarrow> char \<Rightarrow> bool" where
  "int_space s c \<longleftrightarrow> (if list_all isascii s then ascii_space c else isspace c)"

definition int_strip :: "string \<Rightarrow> string" where
  "int_strip s = rev (dropWhile (int_space s) (rev (dropWhile (int_space s) s)))"

definition int_body :: "string \<Rightarrow> int option" where
  "int_body s =
     (if int_digits s then Some (int (dec_val (filter (\<lambda>c. c \<noteq> CHR ''_'') s))) else None)"

text \<open>\<open>None\<close> is the \<^verbatim>\<open>ValueError\<close> of \<^verbatim>\<open>int(s)\<close>.\<close>

definition py_int :: "string \<Rightarrow> int option" where
  "py_int s = (case int_strip s of
       [] \<Rightarrow> None
     | c # cs \<Rightarrow> (if c = CHR ''-'' then map_option uminus (int_body cs)
                   else if c = CHR ''+'' then int_body cs
                   else int_body (c # cs)))"

subsection \<open>Splitting and joining\<close>

lemma split_on_nonempty [simp]: "split_on c s \<noteq> []"
  by (induction s) (auto split: list.splits)

lemma split_on_notin: "c \<notin> set s \<Longrightarrow> split_on c s = [s]"
  by (induction s) auto

lemma split_on_append:
  "c \<notin> set w \<Longrightarrow> split_on c (w @ c # s) = w # split_on c s"
  by (induction w) auto

lemma split_on_join:
  "ws \<noteq> [] \<Longrightarrow> \<forall>w \<in> set ws. c \<notin> set w \<Longrightarrow> split_on c (join [c] ws) = ws"
  by (induction "[c]" ws rule: join.induct) (auto simp: split_on_append split_on_notin)

lemma split_on_parts: "w \<in> set (split_on c s) \<Longrightarrow> c \<notin> set w \<and> set w \<subseteq> set s"
proof (induction s arbitrary: w)
  case (Cons x xs)
  then show ?case
    by (cases "split_on c xs") (fastforce split: if_splits)+
qed simp

lemma join_push: "join sep ((x # w) # ws) = x # join sep (w # ws)"
  by (cases ws) auto

lemma join_split_on: "join [c] (split_on c s) = s"
proof (induction s)
  case (Cons x xs)
  obtain w ws where sp: "split_on c xs = w # ws"
    by (cases "split_on c xs") auto
  with Cons have "join [c] (w # ws) = xs" by simp
  with sp show ?case by (simp add: join_push)
qed simp

lemma set_join: "set (join sep ws) \<subseteq> set sep \<union> (\<Union>w \<in> set ws. set w)"
  by (induction sep ws rule: join.induct) auto

lemma partition1_notin: "c \<notin> set s \<Longrightarrow> partition1 c s = (s, False, [])"
  by (induction s) auto

lemma partition1_append: "c \<notin> set a \<Longrightarrow> partition1 c (a @ c # b) = (a, True, b)"
  by (induction a) auto

lemma partition1_found: "partition1 c s = (a, True, b) \<Longrightarrow> s = a @ c # b \<and> c \<notin> set a"
  by (induction s arbitrary: a) (auto split: if_splits prod.splits)

lemma partition1_not_found: "partition1 c s = (a, False, b) \<Longrightarrow> a = s \<and> b = [] \<and> c \<notin> set s"
  by (induction s arbitrary: a) (auto split: if_splits prod.splits)

lemma startswith_append [simp]: "startswith (p @ s) p"
  by (simp add: startswith_def)

lemma strip_clean:
  assumes "s \<noteq> [] \<Longrightarrow> \<not> isspace (hd s) \<and> \<not> isspace (last s)"
  shows "strip s = s"
proof (cases s)
  case (Cons a list)
  then have "s \<noteq> []" by simp
  with assms have "lstrip s = s" and "dropWhile isspace (rev s) = rev s"
    unfolding lstrip_def by (auto intro!: dropWhile_none simp: hd_rev)
  then show ?thesis by (simp add: strip_def rstrip_def)
qed (simp add: strip_def lstrip_def rstrip_def)

lemma strip_no_space: "(\<And>c. c \<in> set s \<Longrightarrow> \<not> isspace c) \<Longrightarrow> strip s = s"
  by (rule strip_clean) auto

lemma strip_edges:
  assumes "strip s \<noteq> []"
  shows "\<not> isspace (hd (strip s))" and "\<not> isspace (last (strip s))"
proof -
  let ?l = "dropWhile isspace s"
  let ?r = "dropWhile isspace (rev ?l)"
  have eq: "strip s = rev ?r" by (simp add: strip_def rstrip_def lstrip_def)
  with assms have r: "?r \<noteq> []" by auto
  then have l: "?l \<noteq> []" by (cases ?l) auto
  show "\<not> isspace (last (strip s))"
    using eq r hd_dropWhile [of isspace "rev ?l"] by (simp add: last_rev)
  obtain pre where "rev ?l = pre @ ?r"
    by (metis takeWhile_dropWhile_id)
  then have "last (rev ?l) = last ?r" using r by (metis last_appendR)
  then have "hd (strip s) = hd ?l" using eq r l by (simp add: hd_rev last_rev)
  then show "\<not> isspace (hd (strip s))"
    using l hd_dropWhile [of isspace s] by simp
qed

lemma strip_idem [simp]: "strip (strip s) = strip s"
  by (rule strip_clean) (auto dest: strip_edges)

lemma lower_id: "(\<And>c. c \<in> set s \<Longrightarrow> lower_char c = c) \<Longrightarrow> lower s = s"
  by (simp add: lower_def map_idI)

subsection \<open>Lines\<close>

lemma lines_aux_no_break:
  assumes "\<And>c. c \<in> set w \<Longrightarrow> \<not> islinebreak c"
  shows "lines_aux acc (w @ CHR 0x0A # s) = (rev acc @ w) # lines_aux [] s"
  using assms
proof (induction w arbitrary: acc)
  case Nil
  have "islinebreak (CHR 0x0A)" by (simp add: islinebreak_def)
  then show ?case by (cases s) auto
next
  case (Cons c w)
  then have c: "\<not> islinebreak c" and "c \<noteq> CHR 0x0D" by (auto simp: islinebreak_def)
  then have "lines_aux acc ((c # w) @ CHR 0x0A # s) = lines_aux (c # acc) (w @ CHR 0x0A # s)"
    by (cases "w @ CHR 0x0A # s") auto
  with Cons show ?case by simp
qed

text \<open>A text written line by line reads back as its lines.\<close>

lemma splitlines_concat:
  assumes "\<And>w c. w \<in> set ws \<Longrightarrow> c \<in> set w \<Longrightarrow> \<not> islinebreak c"
  shows "splitlines (concat (map (\<lambda>w. w @ [CHR 0x0A]) ws)) = ws"
proof -
  have "lines_aux [] (concat (map (\<lambda>w. w @ [CHR 0x0A]) ws)) = ws"
    using assms
  proof (induction ws)
    case (Cons w ws)
    then have "\<And>c. c \<in> set w \<Longrightarrow> \<not> islinebreak c" by auto
    from lines_aux_no_break [of w "[]", OF this] Cons show ?case by fastforce
  qed simp
  then show ?thesis by (simp add: splitlines_def)
qed

lemma universal_newlines_id: "CHR 0x0D \<notin> set s \<Longrightarrow> universal_newlines s = s"
  by (induction s rule: universal_newlines.induct) auto

subsection \<open>Numerals\<close>

lemma less_16_cases: "(d :: nat) < 16 \<Longrightarrow>
    d = 0 \<or> d = 1 \<or> d = 2 \<or> d = 3 \<or> d = 4 \<or> d = 5 \<or> d = 6 \<or> d = 7 \<or>
    d = 8 \<or> d = 9 \<or> d = 10 \<or> d = 11 \<or> d = 12 \<or> d = 13 \<or> d = 14 \<or> d = 15"
  by arith

lemma digit_char_val [simp]: "d < 16 \<Longrightarrow> digit_val (digit_char d) = d"
  by (drule less_16_cases) (elim disjE; simp add: digit_val_def digit_char_def)

lemma digit_char_inj: "d < 16 \<Longrightarrow> e < 16 \<Longrightarrow> digit_char d = digit_char e \<Longrightarrow> d = e"
  by (metis digit_char_val)

lemma isxdigit_digit_char: "d < 16 \<Longrightarrow> isxdigit (digit_char d)"
  by (drule less_16_cases) (elim disjE; simp add: isxdigit_def digit_char_def)

lemma isdecimal_digit_char: "d < 10 \<Longrightarrow> isdecimal (digit_char d)"
  by (frule less_16_cases [OF less_trans]) (auto simp: isdecimal_def digit_char_def)

lemma str_nat_nonempty [simp]: "str_nat n \<noteq> []"
  by (subst str_nat.simps) simp

lemma str_nat_decimal: "c \<in> set (str_nat n) \<Longrightarrow> isdecimal c"
proof (induction n rule: str_nat.induct)
  case (1 n)
  show ?case
  proof (cases "n < 10")
    case True
    with "1.prems" show ?thesis
      by (subst (asm) str_nat.simps) (auto simp: isdecimal_digit_char)
  next
    case False
    with "1.prems" have "c \<in> set (str_nat (n div 10)) \<or> c = digit_char (n mod 10)"
      by (subst (asm) str_nat.simps) auto
    with "1.IH" False show ?thesis by (auto simp: isdecimal_digit_char)
  qed
qed

lemma dec_val_append: "dec_val (s @ [c]) = 10 * dec_val s + digit_val c"
  by (simp add: dec_val_def)

lemma dec_val_str_nat [simp]: "dec_val (str_nat n) = n"
proof (induction n rule: str_nat.induct)
  case (1 n)
  show ?case
  proof (cases "n < 10")
    case True
    then show ?thesis by (subst str_nat.simps) (simp add: dec_val_def)
  next
    case False
    with 1 show ?thesis by (subst str_nat.simps) (simp add: dec_val_append)
  qed
qed

lemma str_nat_inj: "str_nat m = str_nat n \<Longrightarrow> m = n"
  by (metis dec_val_str_nat)

lemma int_digits_decimal: "s \<noteq> [] \<Longrightarrow> (\<And>c. c \<in> set s \<Longrightarrow> isdecimal c) \<Longrightarrow> int_digits s"
proof (induction s rule: int_digits.induct)
  case (3 c d cs)
  then have "d \<noteq> CHR ''_''" by (auto simp: isdecimal_def)
  with 3 show ?case by auto
qed auto

lemma int_body_decimal:
  assumes "s \<noteq> []" and "\<And>c. c \<in> set s \<Longrightarrow> isdecimal c"
  shows "int_body s = Some (int (dec_val s))"
proof -
  have "filter (\<lambda>c. c \<noteq> CHR ''_'') s = s"
    using assms(2) by (auto simp: filter_id_conv isdecimal_def)
  then show ?thesis using assms by (simp add: int_body_def int_digits_decimal)
qed

lemma int_strip_clean:
  assumes "s \<noteq> [] \<Longrightarrow> \<not> isspace (hd s) \<and> \<not> isspace (last s)"
  shows "int_strip s = s"
proof -
  have sp: "int_space s c \<Longrightarrow> isspace c" for c
    by (auto simp: int_space_def isspace_def split: if_splits)
  have "dropWhile (int_space s) s = s" and "dropWhile (int_space s) (rev s) = rev s"
    using assms sp by (auto intro!: dropWhile_none simp: hd_rev)
  then show ?thesis by (simp add: int_strip_def)
qed

lemma py_int_str_nat [simp]: "py_int (str_nat n) = Some (int n)"
proof -
  have dec: "\<And>c. c \<in> set (str_nat n) \<Longrightarrow> isdecimal c" by (rule str_nat_decimal)
  have "int_strip (str_nat n) = str_nat n"
    using dec by (intro int_strip_clean) (auto simp: isdecimal_not_space)
  moreover have "hd (str_nat n) \<noteq> CHR ''-''" "hd (str_nat n) \<noteq> CHR ''+''"
    using dec [of "hd (str_nat n)"] by (auto simp: isdecimal_def)
  moreover have "int_body (str_nat n) = Some (int n)"
    using dec by (simp add: int_body_decimal)
  ultimately show ?thesis
    by (cases "str_nat n") (auto simp: py_int_def)
qed

text \<open>Printing an integer and reading it back is the identity.\<close>

lemma py_int_str_int [simp]: "py_int (str_int i) = Some i"
proof (cases "i < 0")
  case True
  have dec: "\<And>c. c \<in> set (str_nat (nat (- i))) \<Longrightarrow> isdecimal c" by (rule str_nat_decimal)
  have "\<not> isspace CHR ''-''" by (simp add: char_class_defs)
  moreover have "\<not> isspace (last (str_nat (nat (- i))))"
    by (rule isdecimal_not_space) (simp add: dec)
  ultimately have "int_strip (CHR ''-'' # str_nat (nat (- i))) = CHR ''-'' # str_nat (nat (- i))"
    by (intro int_strip_clean) simp
  with True dec show ?thesis
    by (simp add: str_int_def py_int_def int_body_decimal)
qed (simp add: str_int_def)

lemma py_int_nonneg: "py_int s = Some n \<Longrightarrow> CHR ''-'' \<notin> set s \<Longrightarrow> 0 \<le> n"
proof -
  assume *: "py_int s = Some n" "CHR ''-'' \<notin> set s"
  have "set (int_strip s) \<subseteq> set s"
    by (auto simp: int_strip_def dest!: set_dropWhileD)
  then have "hd (int_strip s) \<noteq> CHR ''-''" if "int_strip s \<noteq> []"
    using *(2) that by (metis hd_in_set subsetD)
  with * show ?thesis
    by (auto simp: py_int_def int_body_def split: list.splits if_splits)
qed

lemma str_int_chars: "c \<in> set (str_int i) \<Longrightarrow> isdecimal c \<or> c = CHR ''-''"
  by (auto simp: str_int_def split: if_splits dest: str_nat_decimal)

lemma str_int_clean: "c \<in> set (str_int i) \<Longrightarrow> \<not> isspace c \<and> \<not> islinebreak c"
  by (drule str_int_chars) (auto simp: char_class_defs)

end
