(* ===== verification/IpNet.thy ===== *)
theory IpNet
  imports PyStr
begin

text \<open>
  The part of Python's \<^verbatim>\<open>ipaddress\<close> module the network code uses: addresses as numbers,
  networks as a version, a network address and a prefix length, their text form and
  \<^verbatim>\<open>overlaps\<close>.  A failed parse is \<open>None\<close> (the module's \<^verbatim>\<open>ValueError\<close>).  Scope
  identifiers (a percent sign in an IPv6 text) are refused by every caller before it
  reaches \<^verbatim>\<open>ip_network\<close>, so a text with one parses to \<open>None\<close> here.

  The lemmas show that two networks overlap exactly when they share an address, and that
  the text form of an address or network parses back to it, zero compression of IPv6
  included.
\<close>

subsection \<open>Networks\<close>

record ipnet =
  net_version :: nat
  net_address :: nat
  net_prefixlen :: nat

definition ip_width :: "nat \<Rightarrow> nat" where
  "ip_width v = (if v = 4 then 32 else 128)"

text \<open>\<open>a AND netmask\<close>: the address with its host bits cleared.\<close>

definition mask_addr :: "nat \<Rightarrow> nat \<Rightarrow> nat \<Rightarrow> nat" where
  "mask_addr v p a = a div 2 ^ (ip_width v - p) * 2 ^ (ip_width v - p)"

definition num_addresses :: "ipnet \<Rightarrow> nat" where
  "num_addresses n = 2 ^ (ip_width (net_version n) - net_prefixlen n)"

definition broadcast_address :: "ipnet \<Rightarrow> nat" where
  "broadcast_address n = net_address n + num_addresses n - 1"

text \<open>\<^verbatim>\<open>address in network\<close>.\<close>

definition in_net :: "ipnet \<Rightarrow> nat \<Rightarrow> nat \<Rightarrow> bool" where
  "in_net n v a \<longleftrightarrow>
     v = net_version n \<and> mask_addr (net_version n) (net_prefixlen n) a = net_address n"

definition overlaps :: "ipnet \<Rightarrow> ipnet \<Rightarrow> bool" where
  "overlaps n m \<longleftrightarrow>
     in_net m (net_version n) (net_address n) \<or>
     in_net m (net_version n) (broadcast_address n) \<or>
     in_net n (net_version m) (net_address m) \<or>
     in_net n (net_version m) (broadcast_address m)"

definition wf_net :: "ipnet \<Rightarrow> bool" where
  "wf_net n \<longleftrightarrow> (net_version n = 4 \<or> net_version n = 6) \<and>
     net_prefixlen n \<le> ip_width (net_version n) \<and>
     mask_addr (net_version n) (net_prefixlen n) (net_address n) = net_address n \<and>
     net_address n < 2 ^ ip_width (net_version n)"

subsection \<open>IPv4 text\<close>

definition str_isascii :: "string \<Rightarrow> bool" where
  "str_isascii s \<longleftrightarrow> list_all isascii s"

definition parse_octet :: "string \<Rightarrow> nat option" where
  "parse_octet s =
     (if s = [] then None
      else if \<not> (str_isascii s \<and> str_isdigit s) then None
      else if length s > 3 then None
      else if s \<noteq> ''0'' \<and> hd s = CHR ''0'' then None
      else if dec_val s > 255 then None
      else Some (dec_val s))"

fun opt_list :: "('a \<Rightarrow> 'b option) \<Rightarrow> 'a list \<Rightarrow> 'b list option" where
  "opt_list f [] = Some []"
| "opt_list f (x # xs) =
     (case f x of None \<Rightarrow> None
      | Some y \<Rightarrow> (case opt_list f xs of None \<Rightarrow> None | Some ys \<Rightarrow> Some (y # ys)))"

definition base_val :: "nat \<Rightarrow> nat list \<Rightarrow> nat" where
  "base_val b ds = foldl (\<lambda>n d. n * b + d) 0 ds"

definition ip4_int :: "string \<Rightarrow> nat option" where
  "ip4_int s =
     (if s = [] then None
      else let octets = split_on CHR ''.'' s
      in if length octets \<noteq> 4 then None
         else map_option (base_val 256) (opt_list parse_octet octets))"

definition ip4_octets :: "nat \<Rightarrow> nat list" where
  "ip4_octets a = [a div 2 ^ 24 mod 256, a div 2 ^ 16 mod 256, a div 2 ^ 8 mod 256, a mod 256]"

definition ip4_str :: "nat \<Rightarrow> string" where
  "ip4_str a = join ''.'' (map str_nat (ip4_octets a))"

definition prefix_from_string :: "nat \<Rightarrow> string \<Rightarrow> nat option" where
  "prefix_from_string w s =
     (if \<not> (str_isascii s \<and> str_isdigit s) then None
      else if dec_val s > w then None else Some (dec_val s))"

text \<open>Dotted masks: \<^verbatim>\<open>255.255.255.0\<close> and its inverse \<^verbatim>\<open>0.0.0.255\<close> are both \<^verbatim>\<open>/24\<close>.\<close>

fun trailing_zeros :: "nat \<Rightarrow> nat \<Rightarrow> nat" where
  "trailing_zeros 0 n = 0"
| "trailing_zeros (Suc b) n = (if even n then Suc (trailing_zeros b (n div 2)) else 0)"

definition prefix_from_int :: "nat \<Rightarrow> nat \<Rightarrow> nat option" where
  "prefix_from_int w m =
     (let tz = trailing_zeros w m; p = w - tz
      in if m div 2 ^ tz \<noteq> 2 ^ p - 1 then None else Some p)"

definition prefix_from_ip4_string :: "string \<Rightarrow> nat option" where
  "prefix_from_ip4_string s = (case ip4_int s of None \<Rightarrow> None
     | Some m \<Rightarrow> (case prefix_from_int 32 m of Some p \<Rightarrow> Some p
         | None \<Rightarrow> prefix_from_int 32 (2 ^ 32 - 1 - m)))"

subsection \<open>IPv6 text\<close>

fun str_hex :: "nat \<Rightarrow> string" where
  "str_hex n = (if n < 16 then [digit_char n] else str_hex (n div 16) @ [digit_char (n mod 16)])"

declare str_hex.simps [simp del]

definition hex_val :: "string \<Rightarrow> nat" where
  "hex_val s = foldl (\<lambda>n c. 16 * n + digit_val c) 0 s"

text \<open>The empty string passes the two checks and then fails in \<^verbatim>\<open>int('', 16)\<close>.\<close>

definition parse_hextet :: "string \<Rightarrow> nat option" where
  "parse_hextet s =
     (if \<not> list_all isxdigit s then None else if length s > 4 then None
      else if s = [] then None else Some (hex_val s))"

definition ip6_suffix :: "string list \<Rightarrow> string list option" where
  "ip6_suffix parts =
     (if CHR ''.'' \<in> set (last parts) then
        (case ip4_int (last parts) of None \<Rightarrow> None
         | Some a \<Rightarrow> Some (butlast parts @ [str_hex (a div 2 ^ 16 mod 65536), str_hex (a mod 65536)]))
      else Some parts)"

text \<open>The two halves around a double colon: how many parts are copied from before it
  and from after it, and how many zero parts it stands for.\<close>

definition ip6_layout :: "string list \<Rightarrow> (nat \<times> nat \<times> nat) option" where
  "ip6_layout parts =
     (let n = length parts;
          skips = filter (\<lambda>i. parts ! i = []) [1..<n - 1]
      in case skips of
           [] \<Rightarrow> (if n \<noteq> 8 then None
                  else if hd parts = [] then None
                  else if last parts = [] then None
                  else Some (n, 0, 0))
         | [i] \<Rightarrow> (if hd parts = [] \<and> i - 1 \<noteq> 0 then None
                   else if last parts = [] \<and> n - i - 1 - 1 \<noteq> 0 then None
                   else let hi = (if hd parts = [] then i - 1 else i);
                            lo = (if last parts = [] then n - i - 1 - 1 else n - i - 1)
                        in if hi + lo \<ge> 8 then None else Some (hi, 8 - (hi + lo), lo))
         | _ \<Rightarrow> None)"

definition ip6_int :: "string \<Rightarrow> nat option" where
  "ip6_int s =
     (if s = [] then None
      else let parts0 = split_on CHR '':'' s
      in if length parts0 < 3 then None
      else case ip6_suffix parts0 of None \<Rightarrow> None
      | Some parts \<Rightarrow>
          if length parts > 9 then None
          else case ip6_layout parts of None \<Rightarrow> None
          | Some (hi, skipped, lo) \<Rightarrow>
              (case opt_list parse_hextet (take hi parts) of None \<Rightarrow> None
               | Some his \<Rightarrow> (case opt_list parse_hextet (drop (length parts - lo) parts) of None \<Rightarrow> None
                  | Some los \<Rightarrow> Some (base_val 65536 (his @ replicate skipped 0 @ los)))))"

text \<open>The longest run of zero parts, the first of several: state is the best run so
  far (start, length) and the current one.\<close>

fun best_run :: "nat \<Rightarrow> string list \<Rightarrow> (nat \<times> nat) \<Rightarrow> (nat \<times> nat) \<Rightarrow> nat \<times> nat" where
  "best_run i [] best cur = best"
| "best_run i (h # hs) best cur =
     (if h = ''0'' then
        (let st = (if snd cur = 0 then i else fst cur); ln = snd cur + 1
         in best_run (i + 1) hs (if ln > snd best then (st, ln) else best) (st, ln))
      else best_run (i + 1) hs best (0, 0))"

definition compress_hextets :: "string list \<Rightarrow> string list" where
  "compress_hextets hs =
     (case best_run 0 hs (0, 0) (0, 0) of (bs, bl) \<Rightarrow>
        if bl > 1 then
          let e = bs + bl;
              hs1 = (if e = length hs then hs @ [[]] else hs);
              hs2 = take bs hs1 @ [[]] @ drop e hs1
          in if bs = 0 then [] # hs2 else hs2
        else hs)"

definition ip6_hextets :: "nat \<Rightarrow> nat list" where
  "ip6_hextets a = map (\<lambda>k. a div 2 ^ (16 * k) mod 65536) [7, 6, 5, 4, 3, 2, 1, 0]"

definition ip6_str :: "nat \<Rightarrow> string" where
  "ip6_str a = join '':'' (compress_hextets (map str_hex (ip6_hextets a)))"

text \<open>\<^verbatim>\<open>str(ipaddress.IPv6Address(s))\<close>, scope identifier kept.\<close>

definition ip6_canon :: "string \<Rightarrow> string option" where
  "ip6_canon s =
     (if CHR ''/'' \<in> set s then None
      else case partition1 (CHR ''%'') s of
          (a, False, _) \<Rightarrow> map_option ip6_str (ip6_int a)
        | (a, True, scope) \<Rightarrow>
            if scope = [] \<or> CHR ''%'' \<in> set scope then None
            else map_option (\<lambda>n. ip6_str n @ ''%'' @ scope) (ip6_int a))"

subsection \<open>Networks as text\<close>

datatype ip_exc = AddressValueError | HostBitsSet

definition addr_int :: "nat \<Rightarrow> string \<Rightarrow> nat option" where
  "addr_int v s = (if v = 4 then ip4_int s else ip6_int s)"

definition make_prefix :: "nat \<Rightarrow> string \<Rightarrow> nat option" where
  "make_prefix v s = (case prefix_from_string (ip_width v) s of
       Some p \<Rightarrow> Some p
     | None \<Rightarrow> if v = 4 then prefix_from_ip4_string s else None)"

definition net_of_version :: "nat \<Rightarrow> bool \<Rightarrow> string \<Rightarrow> (ip_exc, ipnet) result" where
  "net_of_version v strict s =
     (let parts = split_on CHR ''/'' s
      in if length parts > 2 then Inl AddressValueError
         else case addr_int v (hd parts) of None \<Rightarrow> Inl AddressValueError
         | Some a \<Rightarrow>
             (case (if length parts > 1 then make_prefix v (parts ! 1) else Some (ip_width v)) of
                None \<Rightarrow> Inl AddressValueError
              | Some p \<Rightarrow>
                  if mask_addr v p a \<noteq> a \<and> strict then Inl HostBitsSet
                  else Inr \<lparr>net_version = v, net_address = mask_addr v p a, net_prefixlen = p\<rparr>))"

definition ip_network :: "bool \<Rightarrow> string \<Rightarrow> ipnet option" where
  "ip_network strict s =
     (if CHR ''%'' \<in> set s then None
      else case net_of_version 4 strict s of
        Inr n \<Rightarrow> Some n
      | Inl HostBitsSet \<Rightarrow> None
      | Inl AddressValueError \<Rightarrow>
          (case net_of_version 6 strict s of Inr n \<Rightarrow> Some n | Inl _ \<Rightarrow> None))"

definition addr_str :: "nat \<Rightarrow> nat \<Rightarrow> string" where
  "addr_str v a = (if v = 4 then ip4_str a else ip6_str a)"

definition net_str :: "ipnet \<Rightarrow> string" where
  "net_str n = addr_str (net_version n) (net_address n) @ ''/'' @ str_nat (net_prefixlen n)"

subsection \<open>Positional notation\<close>

fun digs :: "nat \<Rightarrow> nat \<Rightarrow> nat \<Rightarrow> nat list" where
  "digs b 0 a = []"
| "digs b (Suc k) a = digs b k (a div b) @ [a mod b]"

lemma base_val_snoc [simp]: "base_val b (xs @ [d]) = base_val b xs * b + d"
  by (simp add: base_val_def)

lemma base_val_digs: "base_val b (digs b k a) = a mod b ^ k"
  by (induction k arbitrary: a) (simp_all add: base_val_def mod_mult2_eq mult.commute)

lemma ip4_octets_digs: "ip4_octets a = digs 256 (Suc (Suc (Suc (Suc 0)))) a"
  by (simp add: ip4_octets_def flip: div_mult2_eq)

lemma ip6_hextets_digs:
  "ip6_hextets a = digs 65536 (Suc (Suc (Suc (Suc (Suc (Suc (Suc (Suc 0)))))))) a"
  by (simp add: ip6_hextets_def flip: div_mult2_eq)

lemma base_val_ip4_octets: "a < 2 ^ 32 \<Longrightarrow> base_val 256 (ip4_octets a) = a"
  unfolding ip4_octets_digs base_val_digs by simp

lemma base_val_ip6_hextets: "a < 2 ^ 128 \<Longrightarrow> base_val 65536 (ip6_hextets a) = a"
  unfolding ip6_hextets_digs base_val_digs by simp

lemma opt_list_Some: "(\<And>x. x \<in> set xs \<Longrightarrow> f x = Some (g x)) \<Longrightarrow> opt_list f xs = Some (map g xs)"
  by (induction xs) auto

lemma length_str_nat: "n < 10 ^ k \<Longrightarrow> 0 < k \<Longrightarrow> length (str_nat n) \<le> k"
proof (induction n arbitrary: k rule: str_nat.induct)
  case (1 n)
  show ?case
  proof (cases "n < 10")
    case True
    with "1.prems" show ?thesis by (subst str_nat.simps) simp
  next
    case False
    then obtain j where k: "k = Suc j" "0 < j"
      using "1.prems" by (cases k; cases "k - 1") auto
    with "1.prems" have "n div 10 < 10 ^ j" by (simp add: less_mult_imp_div_less mult.commute)
    with "1.IH" False k show ?thesis by (subst str_nat.simps) simp
  qed
qed

lemma hd_str_nat: "0 < n \<Longrightarrow> hd (str_nat n) \<noteq> CHR ''0''"
proof (induction n rule: str_nat.induct)
  case (1 n)
  have zero: "digit_char 0 = CHR ''0''" by (simp add: digit_char_def)
  show ?case
  proof (cases "n < 10")
    case True
    with "1.prems" digit_char_inj [of n 0] zero show ?thesis by (subst str_nat.simps) auto
  next
    case False
    with "1.IH" show ?thesis by (subst str_nat.simps) simp
  qed
qed

lemma str_nat_0 [simp]: "str_nat 0 = ''0''"
  by (subst str_nat.simps) (simp add: digit_char_def)

lemma str_nat_digits: "str_isascii (str_nat n) \<and> str_isdigit (str_nat n)"
proof -
  have "isascii c" if "isdecimal c" for c
    using that by (auto simp: isascii_def isdecimal_def)
  then show ?thesis
    using str_nat_decimal [of _ n]
    by (auto simp: str_isascii_def str_isdigit_def list_all_iff isdecimal_isdigit)
qed

lemma parse_octet_str: "d < 256 \<Longrightarrow> parse_octet (str_nat d) = Some d"
  using str_nat_digits [of d] length_str_nat [of d 3] hd_str_nat [of d] dec_val_str_nat [of d]
  by (cases "d = 0") (auto simp: parse_octet_def simp del: dec_val_str_nat)

lemma str_nat_no: "\<not> isdecimal c \<Longrightarrow> c \<notin> set (str_nat n)"
  using str_nat_decimal by blast

lemma ip4_octets_less: "d \<in> set (ip4_octets a) \<Longrightarrow> d < 256"
  by (auto simp: ip4_octets_def)

lemma ip4_int_str: "a < 2 ^ 32 \<Longrightarrow> ip4_int (ip4_str a) = Some a"
proof -
  assume a: "a < 2 ^ 32"
  have sp: "split_on CHR ''.'' (ip4_str a) = map str_nat (ip4_octets a)"
    unfolding ip4_str_def
    by (rule split_on_join) (auto simp: ip4_octets_def isdecimal_def intro!: str_nat_no)
  have ne: "ip4_str a \<noteq> []"
    using sp by (auto simp: ip4_octets_def)
  have "opt_list parse_octet (map str_nat (ip4_octets a)) = Some (map dec_val (map str_nat (ip4_octets a)))"
    by (rule opt_list_Some) (auto simp: parse_octet_str ip4_octets_less)
  then show ?thesis
    using a sp ne by (simp add: ip4_int_def o_def base_val_ip4_octets) (simp add: ip4_octets_def)
qed

subsection \<open>IPv6 text reads back\<close>

lemma length_str_hex: "n < 16 ^ k \<Longrightarrow> 0 < k \<Longrightarrow> length (str_hex n) \<le> k"
proof (induction n arbitrary: k rule: str_hex.induct)
  case (1 n)
  show ?case
  proof (cases "n < 16")
    case True
    with "1.prems" show ?thesis by (subst str_hex.simps) simp
  next
    case False
    then obtain j where k: "k = Suc j" "0 < j"
      using "1.prems" by (cases k; cases "k - 1") auto
    with "1.prems" have "n div 16 < 16 ^ j" by (simp add: less_mult_imp_div_less mult.commute)
    with "1.IH" False k show ?thesis by (subst str_hex.simps) simp
  qed
qed

lemma str_hex_xdigit: "c \<in> set (str_hex n) \<Longrightarrow> isxdigit c"
proof (induction n rule: str_hex.induct)
  case (1 n)
  then show ?case
    by (subst (asm) (2) str_hex.simps) (auto simp: isxdigit_digit_char split: if_splits)
qed

lemma str_hex_nonempty [simp]: "str_hex n \<noteq> []"
  by (subst str_hex.simps) simp

lemma hex_val_str [simp]: "hex_val (str_hex n) = n"
proof (induction n rule: str_hex.induct)
  case (1 n)
  have snoc: "hex_val (s @ [c]) = 16 * hex_val s + digit_val c" for s c
    by (simp add: hex_val_def)
  show ?case
  proof (cases "n < 16")
    case True
    then show ?thesis by (subst str_hex.simps) (simp add: hex_val_def)
  next
    case False
    with 1 show ?thesis by (subst str_hex.simps) (simp add: snoc)
  qed
qed

lemma str_hex_zero_iff: "str_hex n = ''0'' \<longleftrightarrow> n = 0"
proof
  assume "str_hex n = ''0''"
  then have "n = hex_val ''0''" by (metis hex_val_str)
  then show "n = 0" by (simp add: hex_val_def digit_val_def)
qed (subst str_hex.simps, simp add: digit_char_def)

lemma parse_hextet_str: "h < 65536 \<Longrightarrow> parse_hextet (str_hex h) = Some h"
  using length_str_hex [of h 4] str_hex_xdigit [of _ h]
  by (auto simp: parse_hextet_def list_all_iff)

lemma best_run_zeros:
  assumes "\<forall>k. fst best \<le> k \<and> k < fst best + snd best \<longrightarrow> (pre @ hs) ! k = ''0''"
    and "fst best + snd best \<le> length pre"
    and "\<forall>k. fst cur \<le> k \<and> k < fst cur + snd cur \<longrightarrow> (pre @ hs) ! k = ''0''"
    and "snd cur = 0 \<or> fst cur + snd cur = length pre"
    and "best_run (length pre) hs best cur = (bs, bl)"
  shows "bs + bl \<le> length (pre @ hs) \<and> (\<forall>k. bs \<le> k \<and> k < bs + bl \<longrightarrow> (pre @ hs) ! k = ''0'')"
  using assms
proof (induction hs arbitrary: pre best cur)
  case (Cons h hs)
  show ?case
  proof (cases "h = ''0''")
    case True
    define st where "st = (if snd cur = 0 then length pre else fst cur)"
    define cur' where "cur' = (st, Suc (snd cur))"
    define best' where "best' = (if Suc (snd cur) > snd best then cur' else best)"
    have st: "st + snd cur = length pre"
      using Cons.prems(4) by (auto simp: st_def)
    have run: "best_run (length (pre @ [h])) hs best' cur' = (bs, bl)"
      using Cons.prems(5) True unfolding best'_def cur'_def st_def
      by (simp add: Let_def split del: if_split)
    have zeros: "\<forall>k. fst cur' \<le> k \<and> k < fst cur' + snd cur' \<longrightarrow> ((pre @ [h]) @ hs) ! k = ''0''"
    proof (intro allI impI)
      fix k assume k: "fst cur' \<le> k \<and> k < fst cur' + snd cur'"
      show "((pre @ [h]) @ hs) ! k = ''0''"
      proof (cases "k = length pre")
        case False
        with k st have "k < fst cur + snd cur" "fst cur \<le> k"
          by (auto simp: cur'_def st_def split: if_splits)
        with Cons.prems(3) show ?thesis by simp
      qed (simp add: True nth_append)
    qed
    have "bs + bl \<le> length ((pre @ [h]) @ hs) \<and>
        (\<forall>k. bs \<le> k \<and> k < bs + bl \<longrightarrow> ((pre @ [h]) @ hs) ! k = ''0'')"
      using Cons.prems(1,2) zeros st run
      by (intro Cons.IH [of best' "pre @ [h]" cur']) (auto simp: best'_def cur'_def)
    then show ?thesis by simp
  next
    case False
    have "best_run (length (pre @ [h])) hs best (0, 0) = (bs, bl)"
      using Cons.prems(5) False by simp
    with Cons.prems(1,2) have "bs + bl \<le> length ((pre @ [h]) @ hs) \<and>
        (\<forall>k. bs \<le> k \<and> k < bs + bl \<longrightarrow> ((pre @ [h]) @ hs) ! k = ''0'')"
      by (intro Cons.IH [of best "pre @ [h]" "(0, 0)"]) auto
    then show ?thesis by simp
  qed
qed auto

lemma compress_shape:
  obtains (whole) "compress_hextets hs = hs"
  | (gap) bs e where "e \<le> length hs" "bs + 2 \<le> e" "\<forall>k. bs \<le> k \<and> k < e \<longrightarrow> hs ! k = ''0''"
      "compress_hextets hs =
         (if bs = 0 then [[]] else []) @ take bs hs @ [[]] @ drop e hs @ (if e = length hs then [[]] else [])"
proof -
  obtain bs bl where r: "best_run 0 hs (0, 0) (0, 0) = (bs, bl)" by fastforce
  from best_run_zeros [of "(0, 0)" "[]" hs "(0, 0)" bs bl] r
  have z: "bs + bl \<le> length hs" "\<forall>k. bs \<le> k \<and> k < bs + bl \<longrightarrow> hs ! k = ''0''" by auto
  show thesis
  proof (cases "bl > 1")
    case True
    then show thesis
      using z r by (intro gap [of "bs + bl" bs]) (auto simp: compress_hextets_def Let_def)
  next
    case False
    then show thesis using r by (intro whole) (simp add: compress_hextets_def)
  qed
qed

lemma filter_upt_single:
  "a \<le> k \<Longrightarrow> k < b \<Longrightarrow> (\<And>i. a \<le> i \<Longrightarrow> i < b \<Longrightarrow> P i \<longleftrightarrow> i = k) \<Longrightarrow> filter P [a..<b] = [k]"
proof -
  assume *: "a \<le> k" "k < b" "\<And>i. a \<le> i \<Longrightarrow> i < b \<Longrightarrow> P i \<longleftrightarrow> i = k"
  have "[a..<b] = [a..<k] @ k # [Suc k..<b]"
    using *(1,2) by (metis le_add_diff_inverse less_imp_le_nat upt_add_eq_append upt_conv_Cons)
  moreover have "filter P [a..<k] = []" "filter P [Suc k..<b] = []"
    using * by (auto simp: filter_empty_conv)
  ultimately show ?thesis using * by simp
qed

definition gap_parts :: "string list \<Rightarrow> string list \<Rightarrow> string list" where
  "gap_parts hi lo = (if hi = [] then [[]] else []) @ hi @ [[]] @ lo @ (if lo = [] then [[]] else [])"

lemma gap_parts_skip:
  assumes "\<forall>w \<in> set hi. w \<noteq> []" and "\<forall>w \<in> set lo. w \<noteq> []"
  shows "filter (\<lambda>i. gap_parts hi lo ! i = []) [1..<length (gap_parts hi lo) - 1]
       = [if hi = [] then 1 else length hi]"
proof (rule filter_upt_single)
  fix i assume i: "1 \<le> i" "i < length (gap_parts hi lo) - 1"
  have hi: "j < length hi \<Longrightarrow> hi ! j \<noteq> []" and lo: "j < length lo \<Longrightarrow> lo ! j \<noteq> []" for j
    using assms by auto
  show "gap_parts hi lo ! i = [] \<longleftrightarrow> i = (if hi = [] then 1 else length hi)"
    using i hi [of i] lo [of "i - length hi - 1"] lo [of "i - Suc (Suc 0)"]
      lo [of "i - (length hi + length hi)"]
    by (auto simp: gap_parts_def nth_append nth_Cons' split: if_splits)
qed (auto simp: gap_parts_def Suc_le_eq)

lemma ip6_layout_gap:
  assumes "\<forall>w \<in> set hi. w \<noteq> []" and "\<forall>w \<in> set lo. w \<noteq> []" and "length hi + length lo < 8"
  shows "ip6_layout (gap_parts hi lo) = Some (length hi, 8 - (length hi + length lo), length lo)"
proof -
  have hd: "hd (gap_parts hi lo) = [] \<longleftrightarrow> hi = []"
    using assms(1) by (cases hi) (auto simp: gap_parts_def)
  have last: "last (gap_parts hi lo) = [] \<longleftrightarrow> lo = []"
    using assms(2) by (cases lo rule: rev_cases) (auto simp: gap_parts_def)
  have len: "length (gap_parts hi lo) = length hi + length lo + 1 + (if hi = [] then 1 else 0) + (if lo = [] then 1 else 0)"
    by (simp add: gap_parts_def)
  show ?thesis
    unfolding ip6_layout_def Let_def gap_parts_skip [OF assms(1,2)] list.case hd last
    unfolding len using assms(3) by (cases "hi = []"; cases "lo = []") auto
qed


lemma hextet_parts_clean:
  assumes "w \<in> set (gap_parts (map str_hex hi) (map str_hex lo)) \<or> w \<in> set (map str_hex hi)"
  shows "CHR '':'' \<notin> set w \<and> CHR ''.'' \<notin> set w"
proof -
  have "isxdigit c" if "c \<in> set w" for c
    using assms that str_hex_xdigit by (auto simp: gap_parts_def split: if_splits)
  then show ?thesis by (auto simp: isxdigit_def)
qed

lemma ip6_int_parts:
  assumes sp: "split_on CHR '':'' s = parts" and "3 \<le> length parts" "length parts \<le> 9"
    and "CHR ''.'' \<notin> set (last parts)" and "ip6_layout parts = Some (hi, z, lo)"
    and "opt_list parse_hextet (take hi parts) = Some his"
    and "opt_list parse_hextet (drop (length parts - lo) parts) = Some los"
  shows "ip6_int s = Some (base_val 65536 (his @ replicate z 0 @ los))"
proof -
  have "s \<noteq> []" using assms(1,2) by auto
  then show ?thesis using assms by (simp add: ip6_int_def ip6_suffix_def)
qed

lemma opt_list_hextets:
  "\<forall>h \<in> set hs. h < 65536 \<Longrightarrow> opt_list parse_hextet (map str_hex hs) = Some hs"
  by (induction hs) (auto simp: parse_hextet_str)

lemma ip6_hextets_less: "\<forall>h \<in> set (ip6_hextets a). h < 65536"
  by (simp add: ip6_hextets_def)

lemma length_ip6_hextets [simp]: "length (ip6_hextets a) = 8"
  by (simp add: ip6_hextets_def)

lemma zero_run_split:
  assumes "e \<le> length H" "bs \<le> e" "\<forall>k. bs \<le> k \<and> k < e \<longrightarrow> H ! k = (0::nat)"
  shows "take bs H @ replicate (e - bs) 0 @ drop e H = H"
  using assms by (intro nth_equalityI) (auto simp: nth_append min_def)

lemma ip6_int_gap:
  assumes sp: "split_on CHR '':'' s = gap_parts (map str_hex hi) (map str_hex lo)"
    and hi: "\<forall>h \<in> set hi. h < 65536" and lo: "\<forall>h \<in> set lo. h < 65536"
    and len: "length hi + length lo \<le> 6"
  shows "ip6_int s = Some (base_val 65536 (hi @ replicate (8 - (length hi + length lo)) 0 @ lo))"
proof (rule ip6_int_parts [OF sp])
  let ?p = "gap_parts (map str_hex hi) (map str_hex lo)"
  have n: "length ?p = length hi + length lo + 1 + (if hi = [] then 1 else 0) + (if lo = [] then 1 else 0)"
    by (simp add: gap_parts_def)
  show "3 \<le> length ?p" and "length ?p \<le> 9"
    using n len by (cases hi; cases lo; simp)+
  show "CHR ''.'' \<notin> set (last ?p)"
    by (intro hextet_parts_clean [of _ hi lo, THEN conjunct2] disjI1 last_in_set) (simp add: gap_parts_def)
  show "ip6_layout ?p = Some (length hi, 8 - (length hi + length lo), length lo)"
    using ip6_layout_gap [of "map str_hex hi" "map str_hex lo"] len by simp
  have "take (length hi) ?p = map str_hex hi" by (cases "hi = []") (auto simp: gap_parts_def)
  then show "opt_list parse_hextet (take (length hi) ?p) = Some hi"
    using opt_list_hextets [OF hi] by simp
  have "drop (length ?p - length lo) ?p = map str_hex lo" by (auto simp: gap_parts_def)
  then show "opt_list parse_hextet (drop (length ?p - length lo) ?p) = Some lo"
    using opt_list_hextets [OF lo] by simp
qed

lemma ip6_int_whole:
  assumes sp: "split_on CHR '':'' s = map str_hex H" and H: "\<forall>h \<in> set H. h < 65536" and len: "length H = 8"
  shows "ip6_int s = Some (base_val 65536 H)"
proof -
  have ne: "H \<noteq> []" using len by auto
  have "filter (\<lambda>i. map str_hex H ! i = []) [1..<length H - 1] = []"
    by (auto simp: filter_empty_conv)
  with ne len have lay: "ip6_layout (map str_hex H) = Some (8, 0, 0)"
    by (simp add: ip6_layout_def last_map hd_map)
  have "CHR ''.'' \<notin> set (last (map str_hex H))"
    using ne by (intro hextet_parts_clean [of _ H "[]", THEN conjunct2]) (simp add: last_map)
  with ip6_int_parts [OF sp _ _ _ lay, of H "[]"] opt_list_hextets [OF H] len
  show ?thesis by simp
qed

lemma ip6_int_str: "a < 2 ^ 128 \<Longrightarrow> ip6_int (ip6_str a) = Some a"
proof -
  assume a: "a < 2 ^ 128"
  let ?H = "ip6_hextets a"
  show ?thesis
  proof (cases rule: compress_shape [of "map str_hex ?H"])
    case whole
    have "split_on CHR '':'' (ip6_str a) = map str_hex ?H"
      unfolding ip6_str_def whole
      by (rule split_on_join) (use hextet_parts_clean [of _ ?H "[]"] in \<open>auto simp: ip6_hextets_def\<close>)
    from ip6_int_whole [OF this ip6_hextets_less] show ?thesis
      using base_val_ip6_hextets [OF a] by simp
  next
    case (gap bs e)
    let ?hi = "take bs ?H" and ?lo = "drop e ?H"
    have nonempty: "?H \<noteq> []" by (simp add: ip6_hextets_def)
    have "compress_hextets (map str_hex ?H) = gap_parts (map str_hex ?hi) (map str_hex ?lo)"
      using gap nonempty by (auto simp: gap_parts_def take_map drop_map)
    then have "split_on CHR '':'' (ip6_str a) = gap_parts (map str_hex ?hi) (map str_hex ?lo)"
      unfolding ip6_str_def
      by (simp only:) (rule split_on_join, use hextet_parts_clean [of _ ?hi ?lo] in \<open>auto simp: gap_parts_def\<close>)
    moreover have "8 - (length ?hi + length ?lo) = e - bs"
      using gap by simp
    moreover have "?hi @ replicate (e - bs) 0 @ ?lo = ?H"
    proof (rule zero_run_split)
      show "\<forall>k. bs \<le> k \<and> k < e \<longrightarrow> ?H ! k = 0"
        using gap(1,3) by (auto simp: str_hex_zero_iff)
    qed (use gap in auto)
    moreover have "\<forall>h \<in> set ?hi. h < 65536" and "\<forall>h \<in> set ?lo. h < 65536"
      using ip6_hextets_less [of a] by (auto dest: in_set_takeD in_set_dropD)
    moreover have "length ?hi + length ?lo \<le> 6"
      using gap by simp
    ultimately show ?thesis
      using ip6_int_gap [of "ip6_str a" ?hi ?lo] base_val_ip6_hextets [OF a] by simp
  qed
qed

subsection \<open>Networks: overlap and text\<close>

lemma in_net_interval:
  assumes "wf_net n"
  shows "in_net n v a \<longleftrightarrow> v = net_version n \<and> net_address n \<le> a \<and> a < net_address n + num_addresses n"
proof -
  let ?b = "2 ^ (ip_width (net_version n) - net_prefixlen n) :: nat"
  obtain q where q: "net_address n = q * ?b"
    using assms by (metis wf_net_def mask_addr_def)
  have "a div ?b = q \<longleftrightarrow> q * ?b \<le> a \<and> a < q * ?b + ?b"
  proof
    assume "a div ?b = q"
    then have "a = q * ?b + a mod ?b" by (metis div_mult_mod_eq)
    moreover have "a mod ?b < ?b" by simp
    ultimately show "q * ?b \<le> a \<and> a < q * ?b + ?b" by linarith
  next
    assume "q * ?b \<le> a \<and> a < q * ?b + ?b"
    then show "a div ?b = q" by (intro div_nat_eqI) (simp_all add: mult.commute)
  qed
  then have "a div ?b * ?b = q * ?b \<longleftrightarrow> q * ?b \<le> a \<and> a < q * ?b + ?b" by simp
  then show ?thesis by (simp add: in_net_def mask_addr_def num_addresses_def q)
qed

lemma num_addresses_pos [simp]: "0 < num_addresses n"
  by (simp add: num_addresses_def)

text \<open>Two networks overlap exactly when some address lies in both.\<close>

lemma overlaps_iff_common:
  assumes "wf_net n" "wf_net m"
  shows "overlaps n m \<longleftrightarrow> net_version n = net_version m \<and>
    (\<exists>a. in_net n (net_version n) a \<and> in_net m (net_version m) a)"
proof -
  let ?x = "net_address n" and ?y = "net_address m"
  let ?X = "num_addresses n" and ?Y = "num_addresses m"
  have common: "(\<exists>a. ?x \<le> a \<and> a < ?x + ?X \<and> ?y \<le> a \<and> a < ?y + ?Y) \<longleftrightarrow> ?x < ?y + ?Y \<and> ?y < ?x + ?X"
  proof
    assume "?x < ?y + ?Y \<and> ?y < ?x + ?X"
    then show "\<exists>a. ?x \<le> a \<and> a < ?x + ?X \<and> ?y \<le> a \<and> a < ?y + ?Y"
      using num_addresses_pos [of n] num_addresses_pos [of m] by (intro exI [of _ "max ?x ?y"]) simp
  qed auto
  obtain p q where pq: "?X = Suc p" "?Y = Suc q"
    using num_addresses_pos by (metis gr0_implies_Suc)
  have "overlaps n m \<longleftrightarrow> net_version n = net_version m \<and> ?x < ?y + ?Y \<and> ?y < ?x + ?X"
    unfolding overlaps_def in_net_interval [OF assms(1)] in_net_interval [OF assms(2)] broadcast_address_def pq
    by (cases "?x \<le> ?y"; cases "net_version n = net_version m") auto
  then show ?thesis
    by (simp add: in_net_interval assms common del: ex_simps)
qed

lemma overlaps_sym: "overlaps n m = overlaps m n"
  by (auto simp: overlaps_def)

lemma overlaps_refl: "wf_net n \<Longrightarrow> overlaps n n"
  by (auto simp: overlaps_def in_net_interval)

lemma mask_addr_le: "mask_addr v p a \<le> a"
  by (simp add: mask_addr_def)

lemma mask_addr_idem [simp]: "mask_addr v p (mask_addr v p a) = mask_addr v p a"
  by (simp add: mask_addr_def)

lemma addr_int_str: "a < 2 ^ ip_width v \<Longrightarrow> addr_int v (addr_str v a) = Some a"
  by (auto simp: addr_int_def addr_str_def ip_width_def ip4_int_str ip6_int_str split: if_splits)

lemma prefix_from_str: "p \<le> w \<Longrightarrow> prefix_from_string w (str_nat p) = Some p"
  using str_nat_digits [of p] by (auto simp: prefix_from_string_def)

lemma ip4_str_chars: "c \<in> set (ip4_str a) \<Longrightarrow> isdecimal c \<or> c = CHR ''.''"
  using set_join [of "''.''" "map str_nat (ip4_octets a)"]
  by (auto simp: ip4_str_def dest: str_nat_decimal)

lemma set_compress: "\<Union> (set ` set (compress_hextets hs)) \<subseteq> \<Union> (set ` set hs)"
  by (rule compress_shape [of hs]) (auto dest: in_set_takeD in_set_dropD)

lemma ip6_str_chars: "c \<in> set (ip6_str a) \<Longrightarrow> isxdigit c \<or> c = CHR '':''"
  using set_join [of "'':''" "compress_hextets (map str_hex (ip6_hextets a))"]
    set_compress [of "map str_hex (ip6_hextets a)"]
  by (fastforce simp: ip6_str_def dest: str_hex_xdigit)

lemma addr_str_chars: "c \<in> set (addr_str v a) \<Longrightarrow> isxdigit c \<or> c = CHR ''.'' \<or> c = CHR '':''"
  by (auto simp: addr_str_def isdecimal_def isxdigit_def split: if_splits
      dest!: ip4_str_chars ip6_str_chars)

lemma net_str_chars:
  "c \<in> set (net_str n) \<Longrightarrow> isxdigit c \<or> c = CHR ''.'' \<or> c = CHR '':'' \<or> c = CHR ''/''"
  by (auto simp: net_str_def isxdigit_def dest!: addr_str_chars str_nat_decimal)
    (auto simp: isdecimal_def)

lemma net_of_version_str:
  assumes "wf_net n"
  shows "net_of_version (net_version n) True (net_str n) = Inr n"
proof -
  have "CHR ''/'' \<notin> set (addr_str (net_version n) (net_address n))"
    by (auto dest!: addr_str_chars simp: isxdigit_def)
  moreover have "CHR ''/'' \<notin> set (str_nat (net_prefixlen n))"
    by (rule str_nat_no) (simp add: isdecimal_def)
  ultimately have sp: "split_on CHR ''/'' (net_str n) =
      [addr_str (net_version n) (net_address n), str_nat (net_prefixlen n)]"
    by (simp add: net_str_def split_on_append split_on_notin)
  show ?thesis
    using assms unfolding net_of_version_def sp
    by (simp add: wf_net_def addr_int_str make_prefix_def prefix_from_str)
qed


lemma ip4_int_no_colon: "CHR '':'' \<in> set s \<Longrightarrow> ip4_int s = None"
proof -
  assume "CHR '':'' \<in> set s"
  moreover have "set s \<subseteq> {CHR ''.''} \<union> (\<Union>w \<in> set (split_on CHR ''.'' s). set w)"
    using set_join [of "''.''" "split_on CHR ''.'' s"] by (simp add: join_split_on)
  ultimately obtain w where w: "w \<in> set (split_on CHR ''.'' s)" "CHR '':'' \<in> set w" by auto
  have "\<not> isdigit CHR '':''" by (simp add: char_class_defs)
  with w(2) have "\<not> str_isdigit w" by (auto simp: str_isdigit_def list_all_iff)
  then have "parse_octet w = None" by (simp add: parse_octet_def)
  moreover have "opt_list f xs = None" if "x \<in> set xs" "f x = None" for f :: "string \<Rightarrow> nat option" and x xs
    using that by (induction xs) (auto split: option.splits)
  ultimately show ?thesis using w(1) by (auto simp: ip4_int_def Let_def)
qed

lemma ip6_str_colon: "CHR '':'' \<in> set (ip6_str a)"
proof -
  have "2 \<le> length (compress_hextets (map str_hex (ip6_hextets a)))"
    by (rule compress_shape [of "map str_hex (ip6_hextets a)"]) auto
  moreover have "CHR '':'' \<in> set (join '':'' ws)" if "2 \<le> length ws" for ws
    using that by (cases "([CHR '':''], ws)" rule: join.cases) auto
  ultimately show ?thesis by (simp add: ip6_str_def)
qed

text \<open>The text of a network is read back as the network.\<close>

lemma ip_network_str:
  assumes "wf_net n"
  shows "ip_network True (net_str n) = Some n"
proof -
  have pct: "CHR ''%'' \<notin> set (net_str n)"
    by (auto dest!: net_str_chars simp: isxdigit_def)
  note v = net_of_version_str [OF assms]
  show ?thesis
  proof (cases "net_version n = 4")
    case True
    with v pct show ?thesis by (simp add: ip_network_def)
  next
    case False
    with assms have six: "net_version n = 6" by (simp add: wf_net_def)
    have "CHR ''/'' \<notin> set (ip6_str (net_address n))"
      using addr_str_chars [of _ 6 "net_address n"] by (auto simp: addr_str_def isxdigit_def)
    then have "hd (split_on CHR ''/'' (net_str n)) = ip6_str (net_address n)"
      using six by (simp add: net_str_def addr_str_def split_on_append)
    then have "addr_int 4 (hd (split_on CHR ''/'' (net_str n))) = None"
      by (simp add: addr_int_def ip4_int_no_colon ip6_str_colon)
    then have "net_of_version 4 True (net_str n) = Inl AddressValueError"
      by (simp add: net_of_version_def Let_def)
    with v six pct show ?thesis by (simp add: ip_network_def)
  qed
qed

lemma trailing_zeros_le: "trailing_zeros b n \<le> b"
  by (induction b n rule: trailing_zeros.induct) auto

lemma make_prefix_le: "make_prefix v s = Some p \<Longrightarrow> p \<le> ip_width v"
  by (auto simp: make_prefix_def prefix_from_string_def prefix_from_ip4_string_def prefix_from_int_def
      ip_width_def Let_def split: option.splits if_splits)

lemma foldl_base_less: "\<forall>d \<in> set ds. d < b \<Longrightarrow> base_val b ds < b ^ length ds"
proof (induction ds rule: rev_induct)
  case (snoc d ds)
  then have "base_val b ds + 1 \<le> b ^ length ds" "d < b" by auto
  then have "(base_val b ds + 1) * b \<le> b ^ length ds * b" by (intro mult_le_mono1)
  with \<open>d < b\<close> show ?case by (simp add: algebra_simps)
qed (simp add: base_val_def)

lemma opt_list_set: "opt_list f xs = Some ys \<Longrightarrow> \<forall>y \<in> set ys. \<exists>x. f x = Some y"
  by (induction xs arbitrary: ys) (auto split: option.splits)

lemma opt_list_length: "opt_list f xs = Some ys \<Longrightarrow> length ys = length xs"
  by (induction xs arbitrary: ys) (auto split: option.splits)

lemma ip4_int_less: "ip4_int s = Some a \<Longrightarrow> a < 2 ^ 32"
proof -
  assume "ip4_int s = Some a"
  then obtain ds where ds: "opt_list parse_octet (split_on CHR ''.'' s) = Some ds"
      "length (split_on CHR ''.'' s) = 4" "a = base_val 256 ds"
    by (auto simp: ip4_int_def Let_def split: if_splits)
  have "\<forall>d \<in> set ds. d < 256"
    using opt_list_set [OF ds(1)] by (auto simp: parse_octet_def split: if_splits)
  from foldl_base_less [OF this] opt_list_length [OF ds(1)] ds show ?thesis by simp
qed

lemma digit_val_less: "isxdigit c \<Longrightarrow> digit_val c < 16"
  unfolding isxdigit_def by (simp, elim disjE) (simp_all add: digit_val_def)

lemma hex_val_less: "\<forall>c \<in> set s. isxdigit c \<Longrightarrow> hex_val s < 16 ^ length s"
proof -
  assume "\<forall>c \<in> set s. isxdigit c"
  then have "\<forall>d \<in> set (map digit_val s). d < 16"
    by (simp add: digit_val_less)
  from foldl_base_less [OF this] show ?thesis
    by (simp add: hex_val_def base_val_def foldl_map mult.commute)
qed

lemma parse_hextet_less: "parse_hextet s = Some h \<Longrightarrow> h < 65536"
proof -
  assume "parse_hextet s = Some h"
  then have "h = hex_val s" "\<forall>c \<in> set s. isxdigit c" "length s \<le> 4"
    by (auto simp: parse_hextet_def list_all_iff split: if_splits)
  with hex_val_less [of s] have "h < 16 ^ length s" by simp
  also have "\<dots> \<le> (16::nat) ^ 4" using \<open>length s \<le> 4\<close> by (intro power_increasing) simp_all
  finally show ?thesis by simp
qed

lemma filter_singletonD: "filter P xs = [x] \<Longrightarrow> x \<in> set xs"
  by (metis filter_is_subset list.set_intros(1) subsetD)

lemma ip6_layout_total:
  assumes "ip6_layout parts = Some (hi, z, lo)"
  shows "hi + z + lo = 8" and "hi \<le> length parts" and "lo \<le> length parts"
  using assms by (auto simp: ip6_layout_def Let_def split: list.splits if_splits dest!: filter_singletonD)

lemma ip6_int_less: "ip6_int s = Some a \<Longrightarrow> a < 2 ^ 128"
proof -
  assume "ip6_int s = Some a"
  then obtain parts hi z lo his los where
      lay: "ip6_layout parts = Some (hi, z, lo)"
      and his: "opt_list parse_hextet (take hi parts) = Some his"
      and los: "opt_list parse_hextet (drop (length parts - lo) parts) = Some los"
      and a: "a = base_val 65536 (his @ replicate z 0 @ los)"
    by (auto simp: ip6_int_def Let_def split: if_splits option.splits prod.splits)
  have "\<forall>d \<in> set (his @ replicate z 0 @ los). d < 65536"
    using opt_list_set [OF his] opt_list_set [OF los] by (auto dest: parse_hextet_less)
  moreover have "length (his @ replicate z 0 @ los) = 8"
    using ip6_layout_total [OF lay] opt_list_length [OF his] opt_list_length [OF los] by simp
  ultimately show ?thesis
    using foldl_base_less [of "his @ replicate z 0 @ los" 65536] a by simp
qed

text \<open>Every network \<^verbatim>\<open>ip_network\<close> accepts is well formed.\<close>

lemma ip_network_wf: "ip_network strict s = Some n \<Longrightarrow> wf_net n"
proof -
  have ver: "wf_net n" if "net_of_version v strict s = Inr n" "v = 4 \<or> v = 6" for v
  proof -
    from that(1) obtain a p where a: "addr_int v (hd (split_on CHR ''/'' s)) = Some a"
        and p: "p \<le> ip_width v"
        and n: "n = \<lparr>net_version = v, net_address = mask_addr v p a, net_prefixlen = p\<rparr>"
      by (auto simp: net_of_version_def Let_def split: if_splits option.splits dest: make_prefix_le)
    have "a < 2 ^ ip_width v"
      using a that(2) ip4_int_less ip6_int_less by (auto simp: addr_int_def ip_width_def simp del: power_numeral)
    then have "mask_addr v p a < 2 ^ ip_width v" using mask_addr_le le_less_trans by blast
    then show ?thesis using p n that(2) by (simp add: wf_net_def)
  qed
  assume "ip_network strict s = Some n"
  then show ?thesis
    using ver [of 4] ver [of 6]
    by (auto simp: ip_network_def split: if_splits sum.splits ip_exc.splits)
qed

end
