(* ===== verification/Codec.thy ===== *)
theory Codec
  imports PyStr
begin

text \<open>
  The interfaces the components that keep text on disk share.  A \<open>codec\<close> is a printer
  and a parser that agree on the values \<open>ok\<close> admits; a \<open>piped_codec\<close> prints them
  without the separator, so a list of values can be kept in one field.  The theories
  that provide a printer and a parser interpret these on their own definitions.
\<close>

subsection \<open>A printer and its parser\<close>

locale codec =
  fixes enc :: "'a \<Rightarrow> string"
    and dec :: "string \<Rightarrow> ('e, 'a) result"
    and ok :: "'a \<Rightarrow> bool"
  assumes dec_enc: "ok x \<Longrightarrow> dec (enc x) = Inr x"
begin

lemma enc_inj: "ok x \<Longrightarrow> ok y \<Longrightarrow> enc x = enc y \<Longrightarrow> x = y"
  by (metis dec_enc sum.inject(2))

lemma dec_enc_list: "(\<And>x. x \<in> set xs \<Longrightarrow> ok x) \<Longrightarrow> res_list dec (map enc xs) = Inr xs"
  using dec_enc by (induction xs) auto

lemma enc_list_inj: "list_all ok xs \<Longrightarrow> list_all ok ys \<Longrightarrow> map enc xs = map enc ys \<Longrightarrow> xs = ys"
  by (metis dec_enc_list list_all_iff sum.inject(2))

end

text \<open>Values whose text is not empty and does not hold the separator: a list of them is
  read back from its joined text with the empty parts dropped, the way the loaders do.\<close>

locale piped_codec = codec enc dec ok
  for enc :: "'a \<Rightarrow> string" and dec :: "string \<Rightarrow> ('e, 'a) result" and ok :: "'a \<Rightarrow> bool" +
  fixes sep :: char
  assumes enc_no_sep: "ok x \<Longrightarrow> sep \<notin> set (enc x)"
    and enc_nonempty: "ok x \<Longrightarrow> enc x \<noteq> []"
begin

lemma parts_join:
  assumes "list_all ok xs"
  shows "filter (\<lambda>s. s \<noteq> []) (split_on sep (join [sep] (map enc xs))) = map enc xs"
proof (cases "xs = []")
  case False
  have "\<forall>w \<in> set (map enc xs). sep \<notin> set w \<and> w \<noteq> []"
    using assms enc_no_sep enc_nonempty by (auto simp: list_all_iff)
  then have "split_on sep (join [sep] (map enc xs)) = map enc xs"
    and "filter (\<lambda>s. s \<noteq> []) (map enc xs) = map enc xs"
    using False by (auto simp: split_on_join filter_id_conv)
  then show ?thesis by simp
qed simp

lemma dec_parts:
  "list_all ok xs \<Longrightarrow>
     res_list dec (filter (\<lambda>s. s \<noteq> []) (split_on sep (join [sep] (map enc xs)))) = Inr xs"
  by (simp add: parts_join dec_enc_list list_all_iff)

lemma joined_inj:
  "list_all ok xs \<Longrightarrow> list_all ok ys \<Longrightarrow>
     join [sep] (map enc xs) = join [sep] (map enc ys) \<Longrightarrow> xs = ys"
  by (metis dec_parts sum.inject(2))

end

text \<open>Strings without the separator, kept as they are.\<close>

definition plain_ok :: "char \<Rightarrow> string \<Rightarrow> bool" where
  "plain_ok sep s \<longleftrightarrow> s \<noteq> [] \<and> sep \<notin> set s"

interpretation plain: piped_codec id "Inr :: string \<Rightarrow> (unit, string) result" "plain_ok sep" sep for sep
  by unfold_locales (auto simp: plain_ok_def)

subsection \<open>Files of \<open>KEY=value\<close> lines\<close>

definition field_line :: "string \<times> string \<Rightarrow> string" where
  "field_line f = fst f @ ''='' @ snd f"

definition fields_text :: "(string \<times> string) list \<Rightarrow> string" where
  "fields_text fs = concat (map (\<lambda>w. w @ [CHR 0x0A]) (map field_line fs))"

fun load_lines :: "string list \<Rightarrow> (string, string) dict \<Rightarrow> (string, string) dict" where
  "load_lines [] vals = vals"
| "load_lines (line # ls) vals =
     (case partition1 CHR ''='' line of
        (k, True, v) \<Rightarrow> load_lines ls (dict_set vals k v)
      | (_, False, _) \<Rightarrow> load_lines ls vals)"

text \<open>One key: every line that starts with \<open>key=\<close> is replaced; with no such line the
  field is added at the end.\<close>

definition update_line :: "string \<Rightarrow> string \<Rightarrow> string \<Rightarrow> string" where
  "update_line key value text =
     (let replacement = key @ ''='' @ value;
          hit = (\<lambda>l. startswith l (key @ ''=''));
          ls = split_on CHR 0x0A text
      in if list_ex hit ls then join [CHR 0x0A] (map (\<lambda>l. if hit l then replacement else l) ls)
         else rstrip_char CHR 0x0A text @ [CHR 0x0A] @ replacement @ [CHR 0x0A])"

text \<open>The texts such a file can hold and be read back: keys without \<open>=\<close>, no line
  boundary anywhere, no key twice.\<close>

definition unbroken :: "string \<Rightarrow> bool" where
  "unbroken s \<longleftrightarrow> list_all (\<lambda>c. \<not> islinebreak c) s"

definition wf_key :: "string \<Rightarrow> bool" where
  "wf_key k \<longleftrightarrow> CHR ''='' \<notin> set k \<and> unbroken k"

definition wf_fields :: "(string \<times> string) list \<Rightarrow> bool" where
  "wf_fields fs \<longleftrightarrow> distinct (map fst fs) \<and> list_all (\<lambda>(k, v). wf_key k \<and> unbroken v) fs"

lemma unbroken_append [simp]: "unbroken (a @ b) \<longleftrightarrow> unbroken a \<and> unbroken b"
  by (simp add: unbroken_def)

lemma unbroken_Nil [simp]: "unbroken []"
  by (simp add: unbroken_def)

lemma unbroken_Cons: "unbroken (c # s) \<longleftrightarrow> \<not> islinebreak c \<and> unbroken s"
  by (simp add: unbroken_def)

lemma unbroken_eq_Cons [simp]: "unbroken (CHR ''='' # s) \<longleftrightarrow> unbroken s"
  by (simp add: unbroken_Cons islinebreak_def)

lemma unbroken_str_int [simp]: "unbroken (str_int i)"
  by (auto simp: unbroken_def list_all_iff dest: str_int_clean)

lemma unbroken_join: "unbroken sep \<Longrightarrow> list_all unbroken ws \<Longrightarrow> unbroken (join sep ws)"
  by (induction sep ws rule: join.induct) auto

lemma unbroken_no_newline: "unbroken s \<Longrightarrow> CHR 0x0A \<notin> set s \<and> CHR 0x0D \<notin> set s"
  by (auto simp: unbroken_def list_all_iff islinebreak_def)

lemma field_line_unbroken: "wf_fields fs \<Longrightarrow> f \<in> set fs \<Longrightarrow> unbroken (field_line f)"
  by (auto simp: wf_fields_def wf_key_def list_all_iff field_line_def)

lemma load_lines_fields:
  "distinct (map fst (vals @ fs)) \<Longrightarrow> list_all (\<lambda>(k, v). CHR ''='' \<notin> set k) fs \<Longrightarrow>
     load_lines (map field_line fs) vals = vals @ fs"
proof (induction fs arbitrary: vals)
  case (Cons f fs)
  obtain k v where f: "f = (k, v)" by (cases f)
  with Cons.prems have "partition1 CHR ''='' (field_line f) = (k, True, v)" and "dict_set vals k v = vals @ [(k, v)]"
    by (auto simp: field_line_def partition1_append dict_set_new)
  with Cons f show ?case by simp
qed simp

lemma fields_text_no_cr: "wf_fields fs \<Longrightarrow> CHR 0x0D \<notin> set (fields_text fs)"
  using field_line_unbroken unbroken_no_newline by (auto simp: fields_text_def)

lemma fields_text_read [simp]: "wf_fields fs \<Longrightarrow> universal_newlines (fields_text fs) = fields_text fs"
  by (simp add: universal_newlines_id fields_text_no_cr)

text \<open>A well-formed list of fields is what its file reads back as.\<close>

lemma fields_text_load: "wf_fields fs \<Longrightarrow> load_lines (splitlines (fields_text fs)) [] = fs"
proof -
  assume wf: "wf_fields fs"
  have "splitlines (fields_text fs) = map field_line fs"
    unfolding fields_text_def using field_line_unbroken [OF wf]
    by (intro splitlines_concat) (auto simp: unbroken_def list_all_iff)
  with wf show ?thesis
    by (simp add: load_lines_fields wf_fields_def wf_key_def list_all_iff split_beta)
qed

lemma startswith_key:
  assumes "CHR ''='' \<notin> set k" "CHR ''='' \<notin> set key"
  shows "startswith (field_line (k, v)) (key @ ''='') \<longleftrightarrow> k = key"
proof
  assume "startswith (field_line (k, v)) (key @ ''='')"
  then obtain r where "k @ CHR ''='' # v = key @ CHR ''='' # r"
    by (metis append.assoc append_Cons append_Nil append_take_drop_id field_line_def fst_conv snd_conv startswith_def)
  with assms show "k = key" by (metis partition1_append prod.inject)
qed (simp add: startswith_def field_line_def)

lemma split_fields_text:
  "wf_fields fs \<Longrightarrow> split_on CHR 0x0A (fields_text fs) = map field_line fs @ [[]]"
proof (induction fs)
  case (Cons f fs)
  have "CHR 0x0A \<notin> set (field_line f)"
    using field_line_unbroken [OF Cons.prems, of f] unbroken_no_newline by auto
  moreover have "wf_fields fs" using Cons.prems by (auto simp: wf_fields_def)
  ultimately show ?case using Cons.IH by (simp add: fields_text_def split_on_append)
qed (simp add: fields_text_def)

lemma join_lines: "join [CHR 0x0A] (ws @ [[]]) = concat (map (\<lambda>w. w @ [CHR 0x0A]) ws)"
proof (induction ws)
  case (Cons w ws)
  then show ?case by (cases ws) auto
qed simp

lemma dict_set_map:
  "distinct (map fst d) \<Longrightarrow> k \<in> set (map fst d) \<Longrightarrow>
     dict_set d k v = map (\<lambda>(k', v'). if k' = k then (k', v) else (k', v')) d"
proof (induction d k v rule: dict_set.induct)
  case (2 k' v' d k v)
  show ?case
  proof (cases "k' = k")
    case True
    with "2.prems" have "map (\<lambda>(k', v'). if k' = k then (k', v) else (k', v')) d = d"
      by (intro map_idI) force
    with True show ?thesis by simp
  qed (use 2 in auto)
qed simp

lemma wf_fields_set: "wf_fields fs \<Longrightarrow> wf_key k \<Longrightarrow> unbroken v \<Longrightarrow> wf_fields (dict_set fs k v)"
proof -
  assume *: "wf_fields fs" "wf_key k" "unbroken v"
  have "set (dict_set fs k v) \<subseteq> insert (k, v) (set fs)"
    by (induction fs k v rule: dict_set.induct) auto
  with * show ?thesis by (auto simp: wf_fields_def distinct_dict_set list_all_iff)
qed

lemma rstrip_fields_text:
  assumes "wf_fields fs" "fs \<noteq> []"
  shows "rstrip_char CHR 0x0A (fields_text fs) @ [CHR 0x0A] = fields_text fs"
proof -
  obtain gs f where fs: "fs = gs @ [f]" using assms(2) by (cases fs rule: rev_cases) auto
  have "CHR 0x0A \<notin> set (field_line f)" "field_line f \<noteq> []"
    using unbroken_no_newline [OF field_line_unbroken [OF assms(1), of f]] fs
    by (simp_all add: field_line_def)
  then have "dropWhile (\<lambda>x. x = CHR 0x0A) (rev (field_line f) @ rest) = rev (field_line f) @ rest" for rest
    by (intro dropWhile_none) (metis hd_append2 hd_in_set rev_is_Nil_conv set_rev)
  moreover have "rev (fields_text fs) = CHR 0x0A # rev (field_line f) @ rev (fields_text gs)"
    by (simp add: fs fields_text_def)
  ultimately have "rstrip_char CHR 0x0A (fields_text fs) = fields_text gs @ field_line f"
    by (simp add: rstrip_char_def)
  then show ?thesis by (simp add: fs fields_text_def)
qed

text \<open>The regular-expression rewrite of one line is the dictionary update: in place when
  the key is there, at the end otherwise, every other line untouched.\<close>

lemma update_line_fields:
  assumes wf: "wf_fields fs" "fs \<noteq> []" and key: "CHR ''='' \<notin> set key"
  shows "update_line key v (fields_text fs) = fields_text (dict_set fs key v)"
proof -
  let ?hit = "\<lambda>l. startswith l (key @ ''='')"
  have eqs: "CHR ''='' \<notin> set (fst f)" if "f \<in> set fs" for f
    using wf(1) that by (auto simp: wf_fields_def wf_key_def list_all_iff)
  have hit: "?hit (field_line f) \<longleftrightarrow> fst f = key" if "f \<in> set fs" for f
    using startswith_key [OF eqs [OF that] key, of "snd f"] by simp
  have nohit: "\<not> ?hit []" by (simp add: startswith_def)
  show ?thesis
  proof (cases "key \<in> set (map fst fs)")
    case True
    then have ex: "list_ex ?hit (map field_line fs @ [[]])" using hit by (auto simp: list_ex_iff)
    have upd: "dict_set fs key v = map (\<lambda>(k', v'). if k' = key then (k', v) else (k', v')) fs"
      using wf(1) True by (intro dict_set_map) (simp_all add: wf_fields_def)
    have "map (\<lambda>l. if ?hit l then key @ ''='' @ v else l) (map field_line fs) =
        map field_line (dict_set fs key v)"
      unfolding upd using hit by (auto simp: field_line_def split_beta)
    moreover have "update_line key v (fields_text fs) =
        join [CHR 0x0A] (map (\<lambda>l. if ?hit l then key @ ''='' @ v else l) (map field_line fs) @ [[]])"
      unfolding update_line_def Let_def split_fields_text [OF wf(1)] using ex nohit by simp
    ultimately show ?thesis by (simp only: join_lines fields_text_def)
  next
    case False
    then have "\<not> list_ex ?hit (map field_line fs @ [[]])" using hit nohit by (auto simp: list_ex_iff)
    moreover have "dict_set fs key v = fs @ [(key, v)]" using False by (rule dict_set_new)
    moreover have "update_line key v (fields_text fs) = fields_text fs @ field_line (key, v) @ [CHR 0x0A]"
      using rstrip_fields_text [OF wf] calculation(1)
      unfolding update_line_def Let_def split_fields_text [OF wf(1)]
      by (simp only: if_False field_line_def fst_conv snd_conv) (metis append.assoc)
    ultimately show ?thesis by (simp add: fields_text_def)
  qed
qed

end
