(* ===== verification/NicSpec.thy ===== *)
theory NicSpec
  imports IpNet Codec
begin

text \<open>
  \<^verbatim>\<open>ltvm_pkg/nic_spec.py\<close>: the \<^verbatim>\<open>--nic TYPE[:key=value,...]\<close> specification of an extra
  NIC.  \<open>nic_parse\<close> is \<^verbatim>\<open>NicSpec.parse\<close>, \<open>nic_str\<close> is \<^verbatim>\<open>NicSpec.__str__\<close>, and
  the key table \<^verbatim>\<open>_KEYS\<close> is \<open>nic_keys\<close>.  Every \<^verbatim>\<open>raise\<close> is a constructor of
  \<open>nic_error\<close> with the values its message interpolates; \<open>NicInt\<close> is the plain
  \<^verbatim>\<open>ValueError\<close> that \<^verbatim>\<open>int\<close> raises on a digit it cannot read, which is no
  \<^verbatim>\<open>NicSpecError\<close>.
\<close>

subsection \<open>Data\<close>

record nicspec =
  nic_type :: string
  nic_bdf :: string
  nic_node :: "int option"
  nic_net :: string
  nic_subnet :: string
  nic_subnet6 :: string

datatype nic_error =
    NicEmpty
  | NicTooLong
  | NicUnknownType string
  | NicNothingAfterColon string
  | NicNotKeyValue string string string
  | NicUnknownKey string string string string
  | NicKeyTwice string string
  | NicNeedsBdf
  | NicNetMismatch string string string
  | NicBadBdf string
  | NicBadNode string
  | NicBadNet string
  | NicScopeId string
  | NicBadSubnet string
  | NicSubnetVersion string nat
  | NicPrefixTooLong string nat nat
  | NicNotUnicast string
  | NicInt string

text \<open>Which of them \<^verbatim>\<open>except NicSpecError\<close> catches.\<close>

fun is_nic_spec_error :: "nic_error \<Rightarrow> bool" where
  "is_nic_spec_error (NicInt _) = False"
| "is_nic_spec_error _ = True"

definition NIC_TYPES :: "string list" where
  "NIC_TYPES = [''tcp'', ''softroce'', ''passthrough'']"

datatype nic_val = VStr string | VInt int

record nic_key =
  key_field :: string
  key_types :: "string list"
  key_convert :: "string \<Rightarrow> (nic_error, nic_val) result"

subsection \<open>Converters\<close>

text \<open>\<^verbatim>\<open>_BDF_RE\<close>, matched with \<^verbatim>\<open>re.match\<close>: the dollar sign also matches before a final
  newline.\<close>

definition bdf_shape :: "string \<Rightarrow> bool" where
  "bdf_shape s \<longleftrightarrow> length s = 12 \<and>
     list_all isxdigit (take 4 s) \<and> s ! 4 = CHR '':'' \<and>
     list_all isxdigit (take 2 (drop 5 s)) \<and> s ! 7 = CHR '':'' \<and>
     list_all isxdigit (take 2 (drop 8 s)) \<and> s ! 10 = CHR ''.'' \<and> isxdigit (s ! 11)"

definition bdf_re :: "string \<Rightarrow> bool" where
  "bdf_re s \<longleftrightarrow> bdf_shape s \<or> (s \<noteq> [] \<and> last s = CHR 0x0A \<and> bdf_shape (butlast s))"

definition conv_bdf :: "string \<Rightarrow> (nic_error, string) result" where
  "conv_bdf value = (if \<not> bdf_re value then Inl (NicBadBdf value) else Inr value)"

definition conv_node :: "string \<Rightarrow> (nic_error, int) result" where
  "conv_node value =
     (if \<not> str_isdigit value then Inl (NicBadNode value)
      else case py_int value of None \<Rightarrow> Inl (NicInt value) | Some n \<Rightarrow> Inr n)"

text \<open>\<^verbatim>\<open>(tcp|o2ib)(0|[1-9][0-9]{0,4})\<close>: the identifier after a prefix, or none.\<close>

definition net_id :: "string \<Rightarrow> string option" where
  "net_id value =
     (if startswith value ''tcp'' then Some (drop 3 value)
      else if startswith value ''o2ib'' then Some (drop 4 value) else None)"

definition net_id_shape :: "string \<Rightarrow> bool" where
  "net_id_shape i \<longleftrightarrow> i = ''0'' \<or>
     (i \<noteq> [] \<and> length i \<le> 5 \<and> list_all isdecimal i \<and> hd i \<noteq> CHR ''0'')"

definition conv_net :: "string \<Rightarrow> (nic_error, string) result" where
  "conv_net value =
     (case net_id value of None \<Rightarrow> Inl (NicBadNet value)
      | Some i \<Rightarrow>
          if \<not> net_id_shape i \<or> dec_val i > 65535 then Inl (NicBadNet value) else Inr value)"

definition forbidden_blocks :: "nat \<Rightarrow> string list" where
  "forbidden_blocks version =
     (if version = 4 then
        [''0.0.0.0/8'', ''127.0.0.0/8'', ''169.254.0.0/16'', ''224.0.0.0/4'', ''240.0.0.0/4'']
      else [''::/128'', ''::1/128'', ''fe80::/10'', ''ff00::/8''])"

definition overlaps_block :: "ipnet \<Rightarrow> string \<Rightarrow> bool" where
  "overlaps_block n block =
     (case ip_network True block of None \<Rightarrow> False | Some m \<Rightarrow> overlaps n m)"

definition conv_subnet :: "nat \<Rightarrow> string \<Rightarrow> (nic_error, string) result" where
  "conv_subnet version value =
     (if CHR ''%'' \<in> set value then Inl (NicScopeId value)
      else case ip_network True value of
        None \<Rightarrow> Inl (NicBadSubnet value)
      | Some network \<Rightarrow>
          if net_version network \<noteq> version then Inl (NicSubnetVersion value version)
          else let maximum = (if version = 4 then 30 else 126)
          in if net_prefixlen network > maximum then Inl (NicPrefixTooLong value version maximum)
          else if list_ex (overlaps_block network) (forbidden_blocks version)
          then Inl (NicNotUnicast value)
          else Inr (net_str network))"

definition conv_subnet4 :: "string \<Rightarrow> (nic_error, string) result" where
  "conv_subnet4 value = conv_subnet 4 value"

definition conv_subnet6 :: "string \<Rightarrow> (nic_error, string) result" where
  "conv_subnet6 value = conv_subnet 6 value"

subsection \<open>The key table\<close>

definition nic_keys :: "(string, nic_key) dict" where
  "nic_keys =
     [(''bdf'', \<lparr>key_field = ''bdf'', key_types = [''passthrough''],
                 key_convert = res_map VStr \<circ> conv_bdf\<rparr>),
      (''node'', \<lparr>key_field = ''node'', key_types = [''tcp'', ''softroce''],
                  key_convert = res_map VInt \<circ> conv_node\<rparr>),
      (''net'', \<lparr>key_field = ''net'', key_types = [''tcp'', ''softroce''],
                 key_convert = res_map VStr \<circ> conv_net\<rparr>),
      (''subnet'', \<lparr>key_field = ''subnet'', key_types = [''tcp'', ''softroce''],
                    key_convert = res_map VStr \<circ> conv_subnet4\<rparr>),
      (''subnet6'', \<lparr>key_field = ''subnet6'', key_types = [''tcp'', ''softroce''],
                     key_convert = res_map VStr \<circ> conv_subnet6\<rparr>)]"

definition nic_positional :: "(string, string) dict" where
  "nic_positional = [(''passthrough'', ''bdf'')]"

definition keys_hint :: "string \<Rightarrow> string" where
  "keys_hint ty =
     (let keys = map fst (filter (\<lambda>(_, k). ty \<in> set (key_types k)) nic_keys)
      in if keys = [] then '' (type '' @ [CHR 0x27] @ ty @ [CHR 0x27] @ '' takes no keys)''
         else '' (keys for '' @ [CHR 0x27] @ ty @ [CHR 0x27] @ '': '' @ join '', '' keys @ '')'')"

subsection \<open>Parsing and printing\<close>

definition str_or :: "nic_val option \<Rightarrow> string" where
  "str_or v = (case v of Some (VStr s) \<Rightarrow> s | _ \<Rightarrow> [])"

definition int_or :: "nic_val option \<Rightarrow> int option" where
  "int_or v = (case v of Some (VInt i) \<Rightarrow> Some i | _ \<Rightarrow> None)"

text \<open>\<^verbatim>\<open>cls(type=nic_type, **values)\<close>: a field no item gave keeps its default.\<close>

definition make_nicspec :: "string \<Rightarrow> (string, nic_val) dict \<Rightarrow> nicspec" where
  "make_nicspec ty values =
     \<lparr>nic_type = ty, nic_bdf = str_or (dict_get values ''bdf''),
      nic_node = int_or (dict_get values ''node''), nic_net = str_or (dict_get values ''net''),
      nic_subnet = str_or (dict_get values ''subnet''),
      nic_subnet6 = str_or (dict_get values ''subnet6'')\<rparr>"

definition nic_item :: "string \<Rightarrow> string \<Rightarrow> nat \<Rightarrow> string \<Rightarrow> (nic_error, string \<times> string) result" where
  "nic_item raw ty pos item =
     (case partition1 CHR ''='' item of
        (key, True, val) \<Rightarrow> Inr (key, val)
      | (_, False, _) \<Rightarrow>
          (case dict_get nic_positional ty of
             None \<Rightarrow> Inl (NicNotKeyValue raw item (keys_hint ty))
           | Some positional \<Rightarrow>
               if pos \<noteq> 0 then Inl (NicNotKeyValue raw item (keys_hint ty))
               else Inr (positional, item)))"

fun nic_items :: "string \<Rightarrow> string \<Rightarrow> nat \<Rightarrow> string list \<Rightarrow> (string, nic_val) dict \<Rightarrow>
    (nic_error, (string, nic_val) dict) result" where
  "nic_items raw ty pos [] values = Inr values"
| "nic_items raw ty pos (item # items) values =
     (case nic_item raw ty pos item of Inl e \<Rightarrow> Inl e
      | Inr (key0, val) \<Rightarrow>
          let key = lower (strip key0) in
          case dict_get nic_keys key of
            None \<Rightarrow> Inl (NicUnknownKey raw key ty (keys_hint ty))
          | Some k \<Rightarrow>
              if ty \<notin> set (key_types k) then Inl (NicUnknownKey raw key ty (keys_hint ty))
              else if dict_get values (key_field k) \<noteq> None then Inl (NicKeyTwice raw key)
              else (case key_convert k (strip val) of Inl e \<Rightarrow> Inl e
                    | Inr v \<Rightarrow> nic_items raw ty (pos + 1) items (dict_set values (key_field k) v)))"

definition nic_finish :: "string \<Rightarrow> string \<Rightarrow> (string, nic_val) dict \<Rightarrow> (nic_error, nicspec) result" where
  "nic_finish raw ty values =
     (if ty = ''passthrough'' \<and> dict_get values ''bdf'' = None then Inl NicNeedsBdf
      else let spec = make_nicspec ty values;
               expected = (if ty = ''tcp'' then ''tcp'' else ''o2ib'')
           in if nic_net spec \<noteq> [] \<and> \<not> startswith (nic_net spec) expected
              then Inl (NicNetMismatch raw expected ty) else Inr spec)"

definition nic_parse :: "string \<Rightarrow> (nic_error, nicspec) result" where
  "nic_parse raw =
     (if strip raw = [] then Inl NicEmpty
      else if length raw > 512 then Inl NicTooLong
      else case partition1 CHR '':'' raw of (type_part, sep, rest) \<Rightarrow>
        let ty = lower (strip type_part) in
        if ty \<notin> set NIC_TYPES then Inl (NicUnknownType ty)
        else if sep then
          (if strip rest = [] then Inl (NicNothingAfterColon raw)
           else case nic_items raw ty 0 (split_on CHR '','' rest) [] of
             Inl e \<Rightarrow> Inl e | Inr values \<Rightarrow> nic_finish raw ty values)
        else nic_finish raw ty [])"

text \<open>The value of a key's field as text, or \<open>None\<close> where it has its default.\<close>

definition nic_field_text :: "nicspec \<Rightarrow> string \<Rightarrow> string option" where
  "nic_field_text spec field =
     (let txt = (\<lambda>s. if s = [] then None else Some s) in
      if field = ''bdf'' then txt (nic_bdf spec)
      else if field = ''node'' then map_option str_int (nic_node spec)
      else if field = ''net'' then txt (nic_net spec)
      else if field = ''subnet'' then txt (nic_subnet spec)
      else txt (nic_subnet6 spec))"

definition nic_str_items :: "nicspec \<Rightarrow> string list" where
  "nic_str_items spec =
     List.map_filter (\<lambda>(key, k). map_option
         (\<lambda>value. if dict_get nic_positional (nic_type spec) = Some key then value
                   else key @ ''='' @ value)
         (nic_field_text spec (key_field k))) nic_keys"

definition nic_str :: "nicspec \<Rightarrow> string" where
  "nic_str spec =
     (let items = nic_str_items spec
      in if items \<noteq> [] then nic_type spec @ '':'' @ join '','' items else nic_type spec)"

definition cmdline_entry :: "nicspec \<Rightarrow> string" where
  "cmdline_entry spec =
     (if nic_bdf spec \<noteq> [] then nic_type spec @ '';'' @ replace_char CHR '':'' CHR '';'' (nic_bdf spec)
      else nic_type spec)"

subsection \<open>Stored specifications and NUMA placement\<close>

definition load_stored :: "string \<Rightarrow> (nic_error, nicspec) result" where
  "load_stored raw =
     (case nic_parse raw of
        Inr spec \<Rightarrow> Inr spec
      | Inl e \<Rightarrow>
          if \<not> is_nic_spec_error e then Inl e
          else let ty = lower (strip (fst (partition1 CHR '':'' raw)))
               in if ty \<in> set NIC_TYPES \<and> ty \<noteq> ''passthrough'' \<and> CHR ''='' \<notin> set raw
                  then Inr (make_nicspec ty []) else Inl e)"

datatype numa_issue = NumaNeedsNodes nicspec nat int | NumaNoSuchNode nicspec nat int int

fun numa_problem_from :: "nat \<Rightarrow> nicspec list \<Rightarrow> int \<Rightarrow> numa_issue option" where
  "numa_problem_from idx [] numa_nodes = None"
| "numa_problem_from idx (nic # nics) numa_nodes =
     (case nic_node nic of
        None \<Rightarrow> numa_problem_from (idx + 1) nics numa_nodes
      | Some n \<Rightarrow>
          if numa_nodes < 2 then Some (NumaNeedsNodes nic idx numa_nodes)
          else if n \<ge> numa_nodes then Some (NumaNoSuchNode nic idx n numa_nodes)
          else numa_problem_from (idx + 1) nics numa_nodes)"

definition numa_problem :: "nicspec list \<Rightarrow> int \<Rightarrow> numa_issue option" where
  "numa_problem nics numa_nodes = numa_problem_from 1 nics numa_nodes"

subsection \<open>What a parsed specification satisfies\<close>

definition wf_nicspec :: "nicspec \<Rightarrow> bool" where
  "wf_nicspec spec \<longleftrightarrow> nic_type spec \<in> set NIC_TYPES \<and>
     (if nic_type spec = ''passthrough'' then
        bdf_shape (nic_bdf spec) \<and> nic_node spec = None \<and> nic_net spec = [] \<and>
        nic_subnet spec = [] \<and> nic_subnet6 spec = []
      else nic_bdf spec = [] \<and> (\<forall>n. nic_node spec = Some n \<longrightarrow> 0 \<le> n) \<and>
        (nic_net spec \<noteq> [] \<longrightarrow> conv_net (nic_net spec) = Inr (nic_net spec) \<and>
           startswith (nic_net spec) (if nic_type spec = ''tcp'' then ''tcp'' else ''o2ib'')) \<and>
        (nic_subnet spec \<noteq> [] \<longrightarrow> conv_subnet4 (nic_subnet spec) = Inr (nic_subnet spec)) \<and>
        (nic_subnet6 spec \<noteq> [] \<longrightarrow> conv_subnet6 (nic_subnet6 spec) = Inr (nic_subnet6 spec)))"

lemma conv_subnet_result:
  assumes "conv_subnet v s = Inr t"
  obtains n where "wf_net n" "t = net_str n" "net_version n = v" "conv_subnet v t = Inr t"
proof -
  from assms obtain n where n: "ip_network True s = Some n" "t = net_str n" "net_version n = v"
      "net_prefixlen n \<le> (if v = 4 then 30 else 126)"
      "\<not> list_ex (overlaps_block n) (forbidden_blocks v)"
    by (auto simp: conv_subnet_def Let_def split: if_splits option.splits)
  then have wf: "wf_net n" by (simp add: ip_network_wf)
  then have "ip_network True t = Some n" using n by (simp add: ip_network_str)
  moreover have "CHR ''%'' \<notin> set t"
    using n(2) by (auto dest!: net_str_chars simp: isxdigit_def)
  ultimately have "conv_subnet v t = Inr t" using n by (simp add: conv_subnet_def Let_def)
  with wf n that show thesis by blast
qed

lemmas conv_subnet_defs = conv_subnet4_def conv_subnet6_def

lemma bdf_re_strip: "bdf_re (strip s) \<Longrightarrow> bdf_shape (strip s)"
  using strip_edges(2) [of s] by (auto simp: bdf_re_def isspace_def ascii_space_def)

text \<open>The keys a type takes, by name.\<close>

lemma nic_keys_get:
  "dict_get nic_keys k = Some e \<Longrightarrow> key_field e = k \<and>
     (k = ''bdf'' \<and> key_types e = [''passthrough''] \<and> key_convert e = res_map VStr \<circ> conv_bdf \<or>
      key_types e = [''tcp'', ''softroce''] \<and>
        (k = ''node'' \<and> key_convert e = res_map VInt \<circ> conv_node \<or>
         k = ''net'' \<and> key_convert e = res_map VStr \<circ> conv_net \<or>
         k = ''subnet'' \<and> key_convert e = res_map VStr \<circ> conv_subnet4 \<or>
         k = ''subnet6'' \<and> key_convert e = res_map VStr \<circ> conv_subnet6))"
  by (auto simp: nic_keys_def split: if_splits)

definition value_ok :: "string \<Rightarrow> string \<Rightarrow> nic_val \<Rightarrow> bool" where
  "value_ok ty f v \<longleftrightarrow> (\<exists>e s. dict_get nic_keys f = Some e \<and> ty \<in> set (key_types e) \<and>
     key_convert e (strip s) = Inr v)"

lemma nic_items_values_ok:
  assumes "nic_items raw ty pos items values = Inr values'"
    and "\<And>f v. dict_get values f = Some v \<Longrightarrow> value_ok ty f v"
    and "dict_get values' f = Some v"
  shows "value_ok ty f v"
  using assms
proof (induction raw ty pos items "values" rule: nic_items.induct)
  case (2 raw ty pos item items vals)
  then obtain key0 val e v0 where
      e: "dict_get nic_keys (lower (strip key0)) = Some e" "ty \<in> set (key_types e)"
      and conv: "key_convert e (strip val) = Inr v0"
      and item: "nic_item raw ty pos item = Inr (key0, val)"
      and new: "dict_get vals (key_field e) = None"
      and rest: "nic_items raw ty (pos + 1) items (dict_set vals (key_field e) v0) = Inr values'"
    by (auto simp: Let_def split: sum.splits option.splits if_splits)
  have "key_field e = lower (strip key0)" using nic_keys_get [OF e(1)] by simp
  then have "value_ok ty (key_field e) v0" using e conv by (auto simp: value_ok_def)
  then have "\<And>f v. dict_get (dict_set vals (key_field e) v0) f = Some v \<Longrightarrow> value_ok ty f v"
    using "2.prems"(2) by (simp split: if_splits)
  then show ?case
    using "2.IH" [OF item refl refl e(1) _ _ conv rest] "2.prems"(3) e(2) new by simp
qed auto

lemma value_ok_cases:
  assumes "value_ok ty f v"
  shows "f = ''bdf'' \<and> ty = ''passthrough'' \<and> (\<exists>b. v = VStr b \<and> bdf_shape b) \<or>
    ty \<noteq> ''passthrough'' \<and>
     (f = ''node'' \<and> (\<exists>n \<ge> 0. v = VInt n) \<or>
      f = ''net'' \<and> (\<exists>t. v = VStr t \<and> conv_net t = Inr t) \<or>
      f = ''subnet'' \<and> (\<exists>t. v = VStr t \<and> conv_subnet4 t = Inr t) \<or>
      f = ''subnet6'' \<and> (\<exists>t. v = VStr t \<and> conv_subnet6 t = Inr t))"
proof -
  from assms obtain e s where e: "dict_get nic_keys f = Some e" "ty \<in> set (key_types e)"
      "key_convert e (strip s) = Inr v"
    by (auto simp: value_ok_def)
  have node: "0 \<le> n" if "conv_node t = Inr n" for t n
  proof -
    from that have "str_isdigit t" "py_int t = Some n"
      by (auto simp: conv_node_def split: if_splits option.splits)
    moreover have "\<not> isdigit CHR ''-''" by (simp add: char_class_defs)
    ultimately show ?thesis by (auto simp: str_isdigit_def list_all_iff intro: py_int_nonneg)
  qed
  have net: "conv_net t' = Inr t'" if "conv_net t = Inr t'" for t t'
    using that by (auto simp: conv_net_def split: option.splits if_splits)
  have sub: "conv_subnet ver t' = Inr t'" if "conv_subnet ver t = Inr t'" for ver t t'
    using that by (rule conv_subnet_result)
  from nic_keys_get [OF e(1)] consider
      (bdf) "f = ''bdf''" "key_types e = [''passthrough'']" "key_convert e = res_map VStr \<circ> conv_bdf"
    | (other) "key_types e = [''tcp'', ''softroce'']" "f = ''node'' \<and> key_convert e = res_map VInt \<circ> conv_node \<or>
         f = ''net'' \<and> key_convert e = res_map VStr \<circ> conv_net \<or>
         f = ''subnet'' \<and> key_convert e = res_map VStr \<circ> conv_subnet4 \<or>
         f = ''subnet6'' \<and> key_convert e = res_map VStr \<circ> conv_subnet6"
    by blast
  then show ?thesis
  proof cases
    case bdf
    with e(2,3) bdf_re_strip [of s] show ?thesis
      by (auto simp: res_map_eq_Inr conv_bdf_def split: if_splits)
  next
    case other
    then have "ty \<noteq> ''passthrough''" using e(2) by auto
    with other(2) e(3) node net sub show ?thesis
      by (elim disjE conjE) (auto simp: res_map_eq_Inr conv_subnet_defs)
  qed
qed

lemma nic_parse_values:
  assumes "nic_parse raw = Inr spec"
  obtains ty vals where "ty \<in> set NIC_TYPES" "nic_finish raw ty vals = Inr spec"
    "\<And>f v. dict_get vals f = Some v \<Longrightarrow> value_ok ty f v"
proof -
  obtain a sep rest where p: "partition1 CHR '':'' raw = (a, sep, rest)" by (metis prod_cases3)
  define ty where "ty = lower (strip a)"
  from assms have ty: "ty \<in> set NIC_TYPES"
    and r: "if sep then (\<exists>vals. nic_items raw ty 0 (split_on CHR '','' rest) [] = Inr vals \<and> nic_finish raw ty vals = Inr spec)
            else nic_finish raw ty [] = Inr spec"
    by (simp_all add: nic_parse_def Let_def p ty_def split: if_splits sum.splits)
  show thesis
  proof (cases sep)
    case True
    with r obtain vals where v: "nic_items raw ty 0 (split_on CHR '','' rest) [] = Inr vals"
        "nic_finish raw ty vals = Inr spec" by auto
    show thesis
      by (rule that [OF ty v(2)]) (rule nic_items_values_ok [OF v(1)], auto)
  next
    case False
    with r that [OF ty, of "[]"] show thesis by auto
  qed
qed

lemma nic_parse_wf: "nic_parse raw = Inr spec \<Longrightarrow> wf_nicspec spec"
proof (erule nic_parse_values)
  fix ty vals
  assume ty: "ty \<in> set NIC_TYPES" and fin: "nic_finish raw ty vals = Inr spec"
    and ok: "\<And>f v. dict_get vals f = Some v \<Longrightarrow> value_ok ty f v"
  have spec: "spec = make_nicspec ty vals"
      and bdf: "ty = ''passthrough'' \<Longrightarrow> dict_get vals ''bdf'' \<noteq> None"
      and net: "nic_net spec \<noteq> [] \<Longrightarrow> startswith (nic_net spec) (if ty = ''tcp'' then ''tcp'' else ''o2ib'')"
    using fin by (auto simp: nic_finish_def Let_def split: if_splits)
  note okc = ok [THEN value_ok_cases]
  show "wf_nicspec spec"
  proof (cases "ty = ''passthrough''")
    case True
    then obtain b where b: "dict_get vals ''bdf'' = Some (VStr b)" "bdf_shape b"
      using bdf okc by blast
    have "dict_get vals f = None" if "f \<noteq> ''bdf''" for f
      using okc [of f] True that by (cases "dict_get vals f") auto
    with b True ty show ?thesis
      by (simp add: wf_nicspec_def spec make_nicspec_def str_or_def int_or_def)
  next
    case False
    have "dict_get vals ''bdf'' = None"
      using okc [of "''bdf''"] False by (cases "dict_get vals ''bdf''") auto
    moreover have "\<exists>n \<ge> 0. v = VInt n" if "dict_get vals ''node'' = Some v" for v
      using okc [OF that] by auto
    moreover have "\<exists>t. v = VStr t \<and> conv_net t = Inr t" if "dict_get vals ''net'' = Some v" for v
      using okc [OF that] by auto
    moreover have "\<exists>t. v = VStr t \<and> conv_subnet4 t = Inr t" if "dict_get vals ''subnet'' = Some v" for v
      using okc [OF that] by auto
    moreover have "\<exists>t. v = VStr t \<and> conv_subnet6 t = Inr t" if "dict_get vals ''subnet6'' = Some v" for v
      using okc [OF that] by auto
    ultimately show ?thesis
      using False ty net
      by (fastforce simp: wf_nicspec_def spec make_nicspec_def str_or_def int_or_def split: option.splits)
  qed
qed


subsection \<open>The canonical text reads back\<close>

definition val_char :: "char \<Rightarrow> bool" where
  "val_char c \<longleftrightarrow> isxdigit c \<or> c \<in> set ''tcpoib.:/''"

lemma val_char_no:
  assumes "val_char c"
  shows "\<not> isspace c \<and> \<not> islinebreak c \<and> c \<noteq> CHR '','' \<and> c \<noteq> CHR ''='' \<and> c \<noteq> CHR ''|''"
proof -
  have "list_all (\<lambda>c. \<not> isspace c \<and> \<not> islinebreak c \<and> c \<noteq> CHR '','' \<and> c \<noteq> CHR ''='' \<and> c \<noteq> CHR ''|'')
      (''0123456789abcdefABCDEF'' @ ''tcpoib.:/'')"
    by code_simp
  moreover have "c \<in> set (''0123456789abcdefABCDEF'' @ ''tcpoib.:/'')"
    using assms by (simp only: val_char_def isxdigit_def set_append Un_iff)
  ultimately show ?thesis unfolding list_all_iff by (rule bspec)
qed

lemma isdecimal_val_char: "isdecimal c \<Longrightarrow> val_char c"
  by (auto simp: val_char_def isdecimal_def isxdigit_def)

lemma startswith_drop: "startswith s p \<Longrightarrow> s = p @ drop (length p) s"
  by (metis startswith_def append_take_drop_id)

lemma conv_net_chars: "conv_net t = Inr t' \<Longrightarrow> c \<in> set t \<Longrightarrow> val_char c"
proof -
  assume *: "conv_net t = Inr t'" "c \<in> set t"
  then obtain i where i: "net_id t = Some i" "net_id_shape i"
    by (auto simp: conv_net_def split: option.splits if_splits)
  have dec: "\<forall>c \<in> set i. isdecimal c"
  proof (cases "i = ''0''")
    case True
    then show ?thesis by (simp add: isdecimal_def)
  next
    case False
    with i(2) show ?thesis by (auto simp: net_id_shape_def list_all_iff)
  qed
  obtain p where p: "t = p @ i" "p = ''tcp'' \<or> p = ''o2ib''"
  proof -
    from i(1) consider "startswith t ''tcp''" "i = drop 3 t" | "startswith t ''o2ib''" "i = drop 4 t"
      by (auto simp: net_id_def split: if_splits)
    then show thesis
    proof cases
      case 1
      with startswith_drop [of t "''tcp''"] show thesis by (intro that [of "''tcp''"]) (simp_all add: numeral_eq_Suc)
    next
      case 2
      with startswith_drop [of t "''o2ib''"] show thesis by (intro that [of "''o2ib''"]) (simp_all add: numeral_eq_Suc)
    qed
  qed
  have "\<forall>c \<in> set p. val_char c"
    using p(2) by (elim disjE) (simp_all add: val_char_def isxdigit_def)
  with *(2) dec p(1) show ?thesis by (auto intro: isdecimal_val_char)
qed

lemma conv_subnet_chars: "conv_subnet v t = Inr t \<Longrightarrow> c \<in> set t \<Longrightarrow> val_char c"
  by (erule conv_subnet_result) (auto dest!: net_str_chars simp: val_char_def)

text \<open>The items \<^verbatim>\<open>str()\<close> writes for a NIC that is not passed through: key, text, value.\<close>

definition nic_canon :: "nicspec \<Rightarrow> (string \<times> string \<times> nic_val) list" where
  "nic_canon spec =
     (case nic_node spec of None \<Rightarrow> [] | Some n \<Rightarrow> [(''node'', str_int n, VInt n)]) @
     (if nic_net spec = [] then [] else [(''net'', nic_net spec, VStr (nic_net spec))]) @
     (if nic_subnet spec = [] then [] else [(''subnet'', nic_subnet spec, VStr (nic_subnet spec))]) @
     (if nic_subnet6 spec = [] then [] else [(''subnet6'', nic_subnet6 spec, VStr (nic_subnet6 spec))])"

definition canon_item :: "string \<times> string \<times> nic_val \<Rightarrow> string" where
  "canon_item i = fst i @ ''='' @ fst (snd i)"

definition canon_ok :: "string \<times> string \<times> nic_val \<Rightarrow> bool" where
  "canon_ok i \<longleftrightarrow> (case i of (k, t, v) \<Rightarrow> (\<exists>e. dict_get nic_keys k = Some e \<and>
     key_types e = [''tcp'', ''softroce''] \<and> key_convert e t = Inr v) \<and> (\<forall>c \<in> set t. val_char c))"

lemma str_int_nonneg_digits: "0 \<le> n \<Longrightarrow> str_isdigit (str_int n)"
  using str_nat_digits [of "nat n"] by (simp add: str_int_def)

lemma conv_node_str: "0 \<le> n \<Longrightarrow> conv_node (str_int n) = Inr n"
  by (simp add: conv_node_def str_int_nonneg_digits)

lemma str_int_val_char: "0 \<le> n \<Longrightarrow> c \<in> set (str_int n) \<Longrightarrow> val_char c"
  by (auto simp: str_int_def dest!: str_nat_decimal intro: isdecimal_val_char)

lemma nic_canon_ok:
  assumes "wf_nicspec spec" "nic_type spec \<noteq> ''passthrough''" "i \<in> set (nic_canon spec)"
  shows "canon_ok i"
proof -
  note wf = assms(1) [unfolded wf_nicspec_def]
  from assms(3) consider
      (node) n where "nic_node spec = Some n" "i = (''node'', str_int n, VInt n)"
    | (net) "nic_net spec \<noteq> []" "i = (''net'', nic_net spec, VStr (nic_net spec))"
    | (subnet) "nic_subnet spec \<noteq> []" "i = (''subnet'', nic_subnet spec, VStr (nic_subnet spec))"
    | (subnet6) "nic_subnet6 spec \<noteq> []" "i = (''subnet6'', nic_subnet6 spec, VStr (nic_subnet6 spec))"
    by (auto simp: nic_canon_def split: option.splits if_splits)
  then show ?thesis
  proof cases
    case node
    with wf assms(2) show ?thesis
      by (auto simp: canon_ok_def nic_keys_def conv_node_str intro: str_int_val_char)
  next
    case net
    with wf assms(2) show ?thesis
      by (auto simp: canon_ok_def nic_keys_def intro: conv_net_chars)
  next
    case subnet
    with wf assms(2) show ?thesis
      by (auto simp: canon_ok_def nic_keys_def conv_subnet_defs intro: conv_subnet_chars)
  next
    case subnet6
    with wf assms(2) show ?thesis
      by (auto simp: canon_ok_def nic_keys_def conv_subnet_defs intro: conv_subnet_chars)
  qed
qed

lemma distinct_nic_canon: "distinct (map fst (nic_canon spec))"
  by (auto simp: nic_canon_def split: option.splits)

lemma nic_keys_names:
  "dict_get nic_keys k = Some e \<Longrightarrow> strip k = k \<and> lower k = k \<and> CHR ''='' \<notin> set k \<and> CHR '','' \<notin> set k"
  by (drule nic_keys_get, elim conjE disjE)
    (simp_all add: strip_def lstrip_def rstrip_def lower_def lower_char_def char_class_defs)

lemma nic_items_canon:
  assumes "\<forall>i \<in> set L. canon_ok i" and "distinct (map fst L)" and "ty = ''tcp'' \<or> ty = ''softroce''"
    and "\<forall>i \<in> set L. dict_get vals (fst i) = None"
  shows "nic_items raw ty pos (map canon_item L) vals = Inr (vals @ map (\<lambda>(k, t, v). (k, v)) L)"
  using assms
proof (induction L arbitrary: pos vals)
  case (Cons i L)
  obtain k t v where i: "i = (k, t, v)" by (metis prod_cases3)
  with Cons.prems(1) obtain e where e: "dict_get nic_keys k = Some e" "key_types e = [''tcp'', ''softroce'']"
      "key_convert e t = Inr v" and t: "\<forall>c \<in> set t. val_char c"
    by (auto simp: canon_ok_def)
  note k = nic_keys_names [OF e(1)]
  have field: "key_field e = k" using nic_keys_get [OF e(1)] by simp
  have item: "nic_item raw ty pos (canon_item i) = Inr (k, t)"
    using k by (simp add: nic_item_def canon_item_def i partition1_append)
  have "strip t = t" using t val_char_no by (intro strip_no_space) blast
  have new: "dict_get vals k = None" using Cons.prems(4) i by simp
  then have "k \<notin> set (map fst vals)" by (auto simp: map_of_eq_None_iff)
  then have set: "dict_set vals k v = vals @ [(k, v)]" by (rule dict_set_new)
  have "\<forall>j \<in> set L. dict_get (vals @ [(k, v)]) (fst j) = None"
    using Cons.prems(2,4) i by (auto simp: map_of_append map_add_def split: option.splits)
  with Cons have IH: "nic_items raw ty (pos + 1) (map canon_item L) (vals @ [(k, v)]) =
      Inr ((vals @ [(k, v)]) @ map (\<lambda>(k, t, v). (k, v)) L)"
    by (intro Cons.IH) auto
  show ?case
    using item k e Cons.prems(3) field new \<open>strip t = t\<close> set IH i by simp
qed simp

lemma nic_str_items_canon:
  assumes "nic_type spec \<noteq> ''passthrough''" "nic_bdf spec = []"
  shows "nic_str_items spec = map canon_item (nic_canon spec)"
  using assms
  by (auto simp: nic_str_items_def nic_canon_def nic_keys_def nic_positional_def nic_field_text_def
      canon_item_def List.map_filter_simps split: option.splits)

lemma make_nicspec_canon:
  assumes "nic_bdf spec = []"
  shows "make_nicspec (nic_type spec) (map (\<lambda>(k, t, v). (k, v)) (nic_canon spec)) = spec"
  using assms
  by (cases spec) (auto simp: make_nicspec_def nic_canon_def str_or_def int_or_def split: option.splits)

lemma canon_item_chars:
  assumes "canon_ok i" "c \<in> set (canon_item i)"
  shows "\<not> isspace c \<and> c \<noteq> CHR '','' \<and> \<not> islinebreak c \<and> c \<noteq> CHR ''|''"
proof -
  obtain k t v where i: "i = (k, t, v)" by (metis prod_cases3)
  with assms(1) obtain e where e: "dict_get nic_keys k = Some e" and t: "\<forall>c \<in> set t. val_char c"
    by (auto simp: canon_ok_def)
  have key: "\<not> isspace c \<and> c \<noteq> CHR '','' \<and> \<not> islinebreak c \<and> c \<noteq> CHR ''|''" if "c \<in> set k \<union> {CHR ''=''}"
    using nic_keys_get [OF e] that by (elim conjE disjE) (auto simp: char_class_defs)
  have "c \<in> set t \<or> c \<in> set k \<union> {CHR ''=''}" using assms(2) i by (auto simp: canon_item_def)
  then show ?thesis using key t val_char_no by blast
qed

lemma nic_str_passthrough:
  assumes "wf_nicspec spec" "nic_type spec = ''passthrough''"
  shows "nic_str spec = ''passthrough:'' @ nic_bdf spec" and "nic_bdf spec \<noteq> []"
  using assms
  by (auto simp: wf_nicspec_def bdf_shape_def nic_str_def nic_str_items_def nic_keys_def nic_positional_def
      nic_field_text_def List.map_filter_simps)

lemma bdf_shape_chars: "bdf_shape s \<Longrightarrow> c \<in> set s \<Longrightarrow> val_char c"
proof -
  assume s: "bdf_shape s" and c: "c \<in> set s"
  from s have "length s = 12" by (simp add: bdf_shape_def)
  then obtain a0 a1 a2 a3 a4 a5 a6 a7 a8 a9 a10 a11 where
    "s = [a0, a1, a2, a3, a4, a5, a6, a7, a8, a9, a10, a11]"
    by (auto simp: numeral_eq_Suc length_Suc_conv)
  with s c show ?thesis
    by (auto simp: bdf_shape_def val_char_def numeral_eq_Suc)
qed

lemma type_lower: "t \<in> set NIC_TYPES \<Longrightarrow> strip t = t \<and> lower t = t \<and> CHR '':'' \<notin> set t"
  unfolding NIC_TYPES_def
  by (simp, elim disjE) (simp_all add: strip_def lstrip_def rstrip_def lower_def lower_char_def char_class_defs)


lemma strip_nonempty: "x \<in> set s \<Longrightarrow> \<not> isspace x \<Longrightarrow> strip s \<noteq> []"
proof -
  assume x: "x \<in> set s" "\<not> isspace x"
  then have "x \<in> set (dropWhile isspace s)"
    by (metis Un_iff set_append set_takeWhileD takeWhile_dropWhile_id)
  then have "\<exists>y \<in> set (rev (dropWhile isspace s)). \<not> isspace y" using x by auto
  then show ?thesis by (simp add: strip_def rstrip_def lstrip_def)
qed

text \<open>A raw text whose type part is canonical, reduced to its items.\<close>

lemma nic_parse_canonical_type:
  assumes "t \<in> set NIC_TYPES" "length (t @ '':'' @ rest) \<le> 512" "strip rest \<noteq> []"
  shows "nic_parse (t @ '':'' @ rest) =
    (case nic_items (t @ '':'' @ rest) t 0 (split_on CHR '','' rest) [] of
       Inl e \<Rightarrow> Inl e | Inr vals \<Rightarrow> nic_finish (t @ '':'' @ rest) t vals)"
proof -
  have "strip (t @ '':'' @ rest) \<noteq> []"
    by (rule strip_nonempty [of "CHR '':''"]) (auto simp: char_class_defs)
  with assms type_lower [OF assms(1)] show ?thesis
    by (simp add: nic_parse_def partition1_append Let_def split: sum.split)
qed

lemma nic_parse_bare_type:
  assumes "t \<in> set NIC_TYPES"
  shows "nic_parse t = nic_finish t t []"
proof -
  have "t \<noteq> []" "length t \<le> 512" using assms by (auto simp: NIC_TYPES_def)
  then show ?thesis
    using assms type_lower [OF assms] by (simp add: nic_parse_def partition1_notin Let_def)
qed

lemma nic_finish_wf:
  assumes "wf_nicspec spec" "nic_type spec \<noteq> ''passthrough''"
    "make_nicspec (nic_type spec) vals = spec"
  shows "nic_finish raw (nic_type spec) vals = Inr spec"
  using assms by (auto simp: nic_finish_def wf_nicspec_def Let_def)

lemma join_nonempty: "ws \<noteq> [] \<Longrightarrow> w \<in> set ws \<Longrightarrow> c \<in> set w \<Longrightarrow> c \<in> set (join sep ws)"
  by (induction sep ws rule: join.induct) auto

lemma nic_parse_str_wf:
  assumes wf: "wf_nicspec spec" and len: "length (nic_str spec) \<le> 512"
  shows "nic_parse (nic_str spec) = Inr spec"
proof (cases "nic_type spec = ''passthrough''")
  case True
  note str = nic_str_passthrough [OF wf True]
  have shape: "bdf_shape (nic_bdf spec)"
    and rest: "nic_node spec = None" "nic_net spec = []" "nic_subnet spec = []" "nic_subnet6 spec = []"
    using wf True by (auto simp: wf_nicspec_def)
  have chars: "\<forall>c \<in> set (nic_bdf spec). \<not> isspace c \<and> c \<noteq> CHR '','' \<and> c \<noteq> CHR ''=''"
    using bdf_shape_chars [OF shape] val_char_no by blast
  then have strip: "strip (nic_bdf spec) = nic_bdf spec" by (intro strip_no_space) blast
  have "CHR '','' \<notin> set (nic_bdf spec)" and eq: "CHR ''='' \<notin> set (nic_bdf spec)" using chars by auto
  then have split: "split_on CHR '','' (nic_bdf spec) = [nic_bdf spec]" by (intro split_on_notin)
  have item: "nic_items raw ''passthrough'' 0 [nic_bdf spec] [] = Inr [(''bdf'', VStr (nic_bdf spec))]" for raw
    using eq shape strip
    by (simp add: nic_item_def partition1_notin nic_positional_def nic_keys_def conv_bdf_def bdf_re_def
        lower_def lower_char_def strip_def lstrip_def rstrip_def char_class_defs)
  have "spec = make_nicspec ''passthrough'' [(''bdf'', VStr (nic_bdf spec))]"
    using True rest by (cases spec) (simp add: make_nicspec_def str_or_def int_or_def)
  moreover have "''passthrough'' \<in> set NIC_TYPES" by (simp add: NIC_TYPES_def)
  ultimately show ?thesis
    using nic_parse_canonical_type [of "''passthrough''" "nic_bdf spec"] len str split item strip rest
    by (auto simp: nic_finish_def Let_def)
next
  case False
  then have ty: "nic_type spec = ''tcp'' \<or> nic_type spec = ''softroce''" "nic_type spec \<in> set NIC_TYPES"
      and bdf: "nic_bdf spec = []"
    using wf by (auto simp: wf_nicspec_def NIC_TYPES_def)
  let ?L = "nic_canon spec" and ?items = "map canon_item (nic_canon spec)"
  have ok: "\<forall>i \<in> set ?L. canon_ok i" using nic_canon_ok [OF wf False] by blast
  have str: "nic_str spec = (if ?L = [] then nic_type spec else nic_type spec @ '':'' @ join '','' ?items)"
    by (simp add: nic_str_def nic_str_items_canon False bdf)
  show ?thesis
  proof (cases "?L = []")
    case True
    then show ?thesis
      using nic_finish_wf [OF wf False] make_nicspec_canon [OF bdf] nic_parse_bare_type [OF ty(2)] str by simp
  next
    case nonempty: False
    then obtain i where i: "i \<in> set ?L" by (cases ?L) auto
    have "CHR ''='' \<in> set (join '','' ?items)"
      using i by (intro join_nonempty [of _ "canon_item i"]) (auto simp: canon_item_def)
    then have ne: "strip (join '','' ?items) \<noteq> []"
      by (rule strip_nonempty) (simp add: char_class_defs)
    have split: "split_on CHR '','' (join '','' ?items) = ?items"
      using nonempty ok canon_item_chars by (intro split_on_join) fastforce+
    have "nic_items raw (nic_type spec) 0 ?items [] = Inr (map (\<lambda>(k, t, v). (k, v)) ?L)" for raw
      using nic_items_canon [OF ok distinct_nic_canon ty(1), of "[]"] by simp
    then show ?thesis
      using nic_parse_canonical_type [OF ty(2) _ ne] len str nonempty split
        nic_finish_wf [OF wf False make_nicspec_canon [OF bdf]] by simp
  qed
qed

lemma nic_str_clean:
  assumes "wf_nicspec spec" "c \<in> set (nic_str spec)"
  shows "\<not> islinebreak c \<and> c \<noteq> CHR ''|''"
proof (cases "nic_type spec = ''passthrough''")
  case True
  have "bdf_shape (nic_bdf spec)" using assms(1) True by (simp add: wf_nicspec_def)
  then have "c \<in> set (nic_bdf spec) \<Longrightarrow> ?thesis" using bdf_shape_chars val_char_no by blast
  moreover have "c \<in> set ''passthrough:'' \<Longrightarrow> ?thesis" by (auto simp: char_class_defs)
  ultimately show ?thesis using assms(2) nic_str_passthrough(1) [OF assms(1) True] by (metis Un_iff set_append)
next
  case False
  then have bdf: "nic_bdf spec = []" and ty: "nic_type spec = ''tcp'' \<or> nic_type spec = ''softroce''"
    using assms(1) by (auto simp: wf_nicspec_def NIC_TYPES_def)
  have "c \<in> set (nic_type spec) \<or> c = CHR '':'' \<or> c = CHR '','' \<or> (\<exists>i \<in> set (nic_canon spec). c \<in> set (canon_item i))"
    using assms(2) set_join [of "'',''" "map canon_item (nic_canon spec)"]
    by (auto simp: nic_str_def nic_str_items_canon False bdf Let_def split: if_splits)
  moreover have "?thesis" if "c \<in> set (nic_type spec) \<or> c = CHR '':'' \<or> c = CHR '',''"
    using ty that by (auto simp: char_class_defs)
  ultimately show ?thesis
    using canon_item_chars nic_canon_ok [OF assms(1) False] by blast
qed

subsection \<open>Properties\<close>

text \<open>A NIC as a field of an \<^verbatim>\<open>.info\<close> file: its canonical text and the stored-spec
  loader, several of them separated by \<open>|\<close>.\<close>

definition nic_storable :: "nicspec \<Rightarrow> bool" where
  "nic_storable spec \<longleftrightarrow> wf_nicspec spec \<and> length (nic_str spec) \<le> 512"

lemma load_stored_str: "nic_storable spec \<Longrightarrow> load_stored (nic_str spec) = Inr spec"
  by (simp add: nic_storable_def load_stored_def nic_parse_str_wf)

lemma nic_str_nonempty: "nic_storable spec \<Longrightarrow> nic_str spec \<noteq> []"
proof
  assume "nic_storable spec" and "nic_str spec = []"
  then have "nic_parse [] = Inr spec" using nic_parse_str_wf [of spec] by (simp add: nic_storable_def)
  then show False by (simp add: nic_parse_def strip_def lstrip_def rstrip_def lower_def NIC_TYPES_def)
qed

interpretation nic_codec: piped_codec nic_str load_stored nic_storable "CHR ''|''"
  by unfold_locales (auto simp: load_stored_str nic_str_nonempty nic_storable_def dest: nic_str_clean)


definition nic_example :: nicspec where
  "nic_example = \<lparr>nic_type = ''tcp'', nic_bdf = [], nic_node = Some 1, nic_net = ''tcp7'',
     nic_subnet = ''10.1.0.0/16'', nic_subnet6 = ''fd00::/64''\<rparr>"

lemma nic_example_parse:
  "nic_parse ''TCP: NODE=01, net=tcp7,subnet=10.1.0.0/255.255.0.0,subnet6=FD00::/64'' =
     Inr nic_example"
  by code_simp

lemma nic_example_str: "nic_str nic_example = ''tcp:node=1,net=tcp7,subnet=10.1.0.0/16,subnet6=fd00::/64''"
  by code_simp


text \<open>
  C32.  What the parser accepts: the type is one of the three, a passthrough NIC has a
  well-shaped BDF and nothing else, any other NIC has no BDF, a nonnegative node, an
  LNet network of the LND its type drives and subnets in canonical form.
\<close>

theorem nic_parse_accepts:
  assumes "nic_parse raw = Inr spec"
  shows "nic_type spec \<in> set NIC_TYPES \<and>
     (nic_type spec = ''passthrough'' \<longrightarrow> bdf_shape (nic_bdf spec) \<and> nic_node spec = None \<and>
        nic_net spec = [] \<and> nic_subnet spec = [] \<and> nic_subnet6 spec = []) \<and>
     (nic_type spec \<noteq> ''passthrough'' \<longrightarrow> nic_bdf spec = [] \<and>
        (\<forall>n. nic_node spec = Some n \<longrightarrow> 0 \<le> n) \<and>
        (nic_net spec \<noteq> [] \<longrightarrow> conv_net (nic_net spec) = Inr (nic_net spec) \<and>
           startswith (nic_net spec) (if nic_type spec = ''tcp'' then ''tcp'' else ''o2ib'')) \<and>
        (nic_subnet spec \<noteq> [] \<longrightarrow> conv_subnet4 (nic_subnet spec) = Inr (nic_subnet spec)) \<and>
        (nic_subnet6 spec \<noteq> [] \<longrightarrow> conv_subnet6 (nic_subnet6 spec) = Inr (nic_subnet6 spec)))"
  using nic_parse_wf [OF assms] by (simp add: wf_nicspec_def split: if_splits)

theorem nic_parse_accepts_witness:
  "nic_bdf nic_example = [] \<and> conv_subnet6 ''fd00::/64'' = Inr ''fd00::/64''"
  using nic_parse_accepts [OF nic_example_parse] by (simp add: nic_example_def)

text \<open>
  \<^verbatim>\<open>numa_problem\<close> reports nothing exactly when every NIC that names a node fits the
  VM: at least two NUMA nodes, and the node among them.
\<close>

theorem numa_problem_none:
  "numa_problem nics n = None \<longleftrightarrow>
     (\<forall>nic k. nic \<in> set nics \<and> nic_node nic = Some k \<longrightarrow> 2 \<le> n \<and> k < n)"
proof -
  have "numa_problem_from i nics n = None \<longleftrightarrow>
     (\<forall>nic k. nic \<in> set nics \<and> nic_node nic = Some k \<longrightarrow> 2 \<le> n \<and> k < n)" for i
    by (induction nics arbitrary: i) (auto split: option.splits)
  then show ?thesis by (simp add: numa_problem_def)
qed

theorem numa_problem_none_witness: "numa_problem [nic_example] 2 = None \<and> numa_problem [nic_example] 1 \<noteq> None"
  using numa_problem_none [of "[nic_example]" 2] numa_problem_none [of "[nic_example]" 1]
  by (simp add: nic_example_def)

text \<open>
  A node written with a digit that \<^verbatim>\<open>str.isdigit\<close> accepts and \<^verbatim>\<open>int\<close> does not
  (a superscript two, code point 0xB2) leaves \<^verbatim>\<open>NicSpec.parse\<close> and \<^verbatim>\<open>load_stored\<close> with a
  plain \<^verbatim>\<open>ValueError\<close>, not with the \<^verbatim>\<open>NicSpecError\<close> both promise.
\<close>

theorem node_digit_escapes:
  "nic_parse (''tcp:node='' @ [CHR 0xB2]) = Inl (NicInt [CHR 0xB2]) \<and>
   load_stored (''tcp:node='' @ [CHR 0xB2]) = Inl (NicInt [CHR 0xB2]) \<and>
   \<not> is_nic_spec_error (NicInt [CHR 0xB2])"
  by code_simp

end
