(* ===== verification/VmState.thy ===== *)
theory VmState
  imports NicSpec
begin

text \<open>
  \<^verbatim>\<open>ltvm_pkg/vm_owner.py\<close> and the VM half of \<^verbatim>\<open>ltvm_pkg/vm_state.py\<close>: owner identifiers,
  the \<^verbatim>\<open>VMInfo\<close> record, its \<^verbatim>\<open>.info\<close> file (\<open>vm_save\<close>, \<open>vm_load\<close>), the
  read-modify-write of single fields under the per-VM lock (\<open>vm_update_fields\<close>), and the
  host's subnet settings with the addresses derived from them.  The directory
  \<^verbatim>\<open>SOCKETS\<close> is a map from a VM's name to the text of its \<^verbatim>\<open>.info\<close> file.  A write replaces
  the whole file (\<^verbatim>\<open>priv.atomic_write\<close>: temporary file and rename), and a read sees
  universal newlines.
\<close>

subsection \<open>Owner identifiers\<close>

datatype owner_error = OwnerEmpty | OwnerTooLong nat | OwnerControl

definition MAX_OWNER_ID_LENGTH :: nat where
  "MAX_OWNER_ID_LENGTH = 255"

definition validate_owner_id :: "string \<Rightarrow> (owner_error, string) result" where
  "validate_owner_id owner_id =
     (if owner_id = [] then Inl OwnerEmpty
      else if length owner_id > MAX_OWNER_ID_LENGTH then Inl (OwnerTooLong (length owner_id))
      else if CHR 0x0A \<in> set owner_id \<or> CHR 0x0D \<in> set owner_id \<or> CHR 0x00 \<in> set owner_id
      then Inl OwnerControl
      else Inr owner_id)"

definition resolve_owner_id :: "string option \<Rightarrow> (string \<rightharpoonup> string) \<Rightarrow> int \<Rightarrow> (owner_error, string) result" where
  "resolve_owner_id explicit env pid =
     (case explicit of
        Some e \<Rightarrow> validate_owner_id e
      | None \<Rightarrow>
          (case env ''LTVM_OWNER_ID'' of
             Some e \<Rightarrow> if e \<noteq> [] then validate_owner_id e else Inr (''pid:'' @ str_int pid)
           | None \<Rightarrow> Inr (''pid:'' @ str_int pid)))"

subsection \<open>The record\<close>

definition DISK_SIZE_BYTES :: int where
  "DISK_SIZE_BYTES = 500 * 1024 * 1024"

definition ROOT_SIZE_BYTES :: int where
  "ROOT_SIZE_BYTES = 8 * 1024 * 1024 * 1024"

record vminfo =
  vm_name :: string
  vm_ip :: string
  vm_pid :: int
  vm_tap :: string
  vm_mac :: string
  vm_vcpus :: int
  vm_mem :: int
  vm_mdt_disks :: int
  vm_ost_disks :: int
  vm_disk_size :: int
  vm_root_size :: int
  vm_image :: string
  vm_kernel :: string
  vm_created :: int
  vm_last_boot :: int
  vm_last_deploy :: int
  vm_build_path :: string
  vm_kver :: string
  vm_base_image :: string
  vm_image_id :: string
  vm_os_id :: string
  vm_arch :: string
  vm_creator :: string
  vm_owner_id :: "string option"
  vm_variant :: string
  vm_nics :: "nicspec list"
  vm_nic_ips :: "string list"
  vm_nic_ip6s :: "string list"
  vm_passthrough_drivers :: "(string, string) dict"
  vm_kernel_args :: string
  vm_numa_nodes :: int
  vm_share_disks :: bool
  vm_disks_from :: string
  vm_disk_dir :: string
  vm_disk_cache :: string
  vm_disk_prealloc :: string

text \<open>The directory the data disks are in, and the paths of the disks themselves; \<open>ov\<close>
  is \<^verbatim>\<open>OVERLAYS\<close>.\<close>

definition disk_dir_path :: "string \<Rightarrow> vminfo \<Rightarrow> string" where
  "disk_dir_path ov vm = (if vm_disk_dir vm \<noteq> [] then vm_disk_dir vm else ov)"

definition disk_path :: "string \<Rightarrow> vminfo \<Rightarrow> nat \<Rightarrow> string" where
  "disk_path ov vm n = disk_dir_path ov vm @ ''/'' @ vm_name vm @ ''-disk'' @ str_nat n @ ''.img''"

definition disk_paths :: "string \<Rightarrow> vminfo \<Rightarrow> string list" where
  "disk_paths ov vm =
     map (disk_path ov vm) [1..<nat (vm_mdt_disks vm + vm_ost_disks vm + 1)]"

subsection \<open>Saving\<close>

definition owner_text :: "string option \<Rightarrow> string" where
  "owner_text owner = (case owner of None \<Rightarrow> [] | Some s \<Rightarrow> s)"

definition driver_entry :: "string \<times> string \<Rightarrow> string" where
  "driver_entry e = fst e @ ''='' @ snd e"

definition info_fields :: "vminfo \<Rightarrow> (string \<times> string) list" where
  "info_fields vm =
     [(''NAME'', vm_name vm), (''IP'', vm_ip vm), (''PID'', str_int (vm_pid vm)),
      (''TAP'', vm_tap vm), (''MAC'', vm_mac vm), (''VCPUS'', str_int (vm_vcpus vm)),
      (''MEM'', str_int (vm_mem vm)), (''MDT_DISKS'', str_int (vm_mdt_disks vm)),
      (''OST_DISKS'', str_int (vm_ost_disks vm)), (''DISK_SIZE'', str_int (vm_disk_size vm)),
      (''ROOT_SIZE'', str_int (vm_root_size vm)), (''IMAGE'', vm_image vm),
      (''KERNEL'', vm_kernel vm), (''CREATED'', str_int (vm_created vm)),
      (''LAST_BOOT'', str_int (vm_last_boot vm)), (''LAST_DEPLOY'', str_int (vm_last_deploy vm)),
      (''BUILD_PATH'', vm_build_path vm), (''KVER'', vm_kver vm),
      (''BASE_IMAGE'', vm_base_image vm), (''IMAGE_ID'', vm_image_id vm),
      (''OS_ID'', vm_os_id vm), (''ARCH'', vm_arch vm), (''CREATOR'', vm_creator vm),
      (''OWNER_ID'', owner_text (vm_owner_id vm)), (''VARIANT'', vm_variant vm),
      (''NICS'', join ''|'' (map nic_str (vm_nics vm))),
      (''NIC_IPS'', join ''|'' (vm_nic_ips vm)),
      (''NIC_IP6S'', join ''|'' (vm_nic_ip6s vm)),
      (''PASSTHROUGH_DRIVERS'', join ''|'' (map driver_entry (vm_passthrough_drivers vm))),
      (''KERNEL_ARGS'', vm_kernel_args vm), (''NUMA_NODES'', str_int (vm_numa_nodes vm)),
      (''SHARE_DISKS'', str_int (if vm_share_disks vm then 1 else 0)),
      (''DISKS_FROM'', vm_disks_from vm), (''DISK_DIR'', vm_disk_dir vm),
      (''DISK_CACHE'', vm_disk_cache vm), (''DISK_PREALLOC'', vm_disk_prealloc vm)]"

type_synonym sockets = "string \<rightharpoonup> string"

definition vm_save :: "vminfo \<Rightarrow> sockets \<Rightarrow> (owner_error, sockets) result" where
  "vm_save vm dir =
     (case vm_owner_id vm of
        None \<Rightarrow> Inr (dir(vm_name vm \<mapsto> fields_text (info_fields vm)))
      | Some o' \<Rightarrow>
          (case validate_owner_id o' of Inl e \<Rightarrow> Inl e
           | Inr _ \<Rightarrow> Inr (dir(vm_name vm \<mapsto> fields_text (info_fields vm)))))"

subsection \<open>Loading\<close>

datatype load_error = VMNotFound string | LoadInt string string | LoadNic nic_error

definition get_int :: "(string, string) dict \<Rightarrow> string \<Rightarrow> int \<Rightarrow> (load_error, int) result" where
  "get_int vals key dflt =
     (case dict_get vals key of None \<Rightarrow> Inr dflt
      | Some s \<Rightarrow> (case py_int s of None \<Rightarrow> Inl (LoadInt key s) | Some i \<Rightarrow> Inr i))"

definition get_str :: "(string, string) dict \<Rightarrow> string \<Rightarrow> string \<Rightarrow> string" where
  "get_str vals key dflt = get_or dflt (dict_get vals key)"

definition get_list :: "(string, string) dict \<Rightarrow> string \<Rightarrow> string list" where
  "get_list vals key = filter (\<lambda>s. s \<noteq> []) (split_on CHR ''|'' (get_str vals key []))"

fun load_drivers :: "string list \<Rightarrow> (string, string) dict \<Rightarrow> (string, string) dict" where
  "load_drivers [] d = d"
| "load_drivers (e # es) d =
     (case partition1 CHR ''='' e of
        (bdf, True, drv) \<Rightarrow> load_drivers es (dict_set d bdf drv)
      | (_, False, _) \<Rightarrow> load_drivers es d)"

definition load_numa :: "(string, string) dict \<Rightarrow> (load_error, int) result" where
  "load_numa vals =
     (if get_str vals ''NUMA_NODES'' [] = [] then Inr 0 else get_int vals ''NUMA_NODES'' 0)"

text \<open>The integer fields in the order the constructor call evaluates them.\<close>

definition int_fields :: "(string \<times> int) list" where
  "int_fields =
     [(''PID'', 0), (''VCPUS'', 2), (''MEM'', 2048), (''MDT_DISKS'', 0), (''OST_DISKS'', 0),
      (''DISK_SIZE'', DISK_SIZE_BYTES), (''ROOT_SIZE'', ROOT_SIZE_BYTES), (''CREATED'', 0),
      (''LAST_BOOT'', 0), (''LAST_DEPLOY'', 0)]"

definition build_vminfo :: "string \<Rightarrow> (string, string) dict \<Rightarrow> nicspec list \<Rightarrow> (string \<Rightarrow> int) \<Rightarrow> int \<Rightarrow> vminfo" where
  "build_vminfo name vals nics i numa =
     \<lparr>vm_name = get_str vals ''NAME'' name, vm_ip = get_str vals ''IP'' [], vm_pid = i ''PID'',
      vm_tap = get_str vals ''TAP'' [], vm_mac = get_str vals ''MAC'' [], vm_vcpus = i ''VCPUS'',
      vm_mem = i ''MEM'', vm_mdt_disks = i ''MDT_DISKS'', vm_ost_disks = i ''OST_DISKS'',
      vm_disk_size = i ''DISK_SIZE'', vm_root_size = i ''ROOT_SIZE'',
      vm_image = get_str vals ''IMAGE'' [], vm_kernel = get_str vals ''KERNEL'' [],
      vm_created = i ''CREATED'', vm_last_boot = i ''LAST_BOOT'', vm_last_deploy = i ''LAST_DEPLOY'',
      vm_build_path = get_str vals ''BUILD_PATH'' [], vm_kver = get_str vals ''KVER'' [],
      vm_base_image = get_str vals ''BASE_IMAGE'' [], vm_image_id = get_str vals ''IMAGE_ID'' [],
      vm_os_id = get_str vals ''OS_ID'' [], vm_arch = get_str vals ''ARCH'' ''x86_64'',
      vm_creator = get_str vals ''CREATOR'' [],
      vm_owner_id = (if get_str vals ''OWNER_ID'' [] = [] then None else Some (get_str vals ''OWNER_ID'' [])),
      vm_variant = get_str vals ''VARIANT'' ''base'', vm_nics = nics,
      vm_nic_ips = get_list vals ''NIC_IPS'', vm_nic_ip6s = get_list vals ''NIC_IP6S'',
      vm_passthrough_drivers =
        load_drivers (split_on CHR ''|'' (get_str vals ''PASSTHROUGH_DRIVERS'' [])) [],
      vm_kernel_args = get_str vals ''KERNEL_ARGS'' [], vm_numa_nodes = numa,
      vm_share_disks = (get_str vals ''SHARE_DISKS'' ''0'' = ''1''),
      vm_disks_from = get_str vals ''DISKS_FROM'' [], vm_disk_dir = get_str vals ''DISK_DIR'' [],
      vm_disk_cache = get_str vals ''DISK_CACHE'' [],
      vm_disk_prealloc = get_str vals ''DISK_PREALLOC'' []\<rparr>"

definition vm_of_values :: "string \<Rightarrow> (string, string) dict \<Rightarrow> (load_error, vminfo) result" where
  "vm_of_values name vals =
     (case res_list load_stored (get_list vals ''NICS'') of
        Inl e \<Rightarrow> Inl (LoadNic e)
      | Inr nics \<Rightarrow>
          (case res_list (\<lambda>(k, d). get_int vals k d) int_fields of
             Inl e \<Rightarrow> Inl e
           | Inr ints \<Rightarrow>
               (case load_numa vals of
                  Inl e \<Rightarrow> Inl e
                | Inr numa \<Rightarrow>
                    Inr (build_vminfo name vals nics
                      (\<lambda>k. get_or 0 (map_of (zip (map fst int_fields) ints) k)) numa))))"

definition vm_load :: "sockets \<Rightarrow> string \<Rightarrow> (load_error, vminfo) result" where
  "vm_load dir name =
     (case dir name of
        None \<Rightarrow> Inl (VMNotFound name)
      | Some text \<Rightarrow> vm_of_values name (load_lines (splitlines (universal_newlines text)) []))"

subsection \<open>Updating fields in place\<close>

fun update_lines :: "(string \<times> string) list \<Rightarrow> string \<Rightarrow> string" where
  "update_lines [] text = text"
| "update_lines ((k, v) # fs) text = update_lines fs (update_line k v text)"

definition vm_update_fields :: "string \<Rightarrow> (string \<times> string) list \<Rightarrow> sockets \<Rightarrow> (load_error, sockets) result" where
  "vm_update_fields name fs dir =
     (case dir name of
        None \<Rightarrow> Inl (VMNotFound name)
      | Some text \<Rightarrow> Inr (dir(name \<mapsto> update_lines fs (universal_newlines text))))"

text \<open>The setters change the object and its file.\<close>

definition update_pid :: "vminfo \<Rightarrow> int \<Rightarrow> sockets \<Rightarrow> (load_error, vminfo \<times> sockets) result" where
  "update_pid vm pid dir =
     res_map (Pair (vm\<lparr>vm_pid := pid\<rparr>)) (vm_update_fields (vm_name vm) [(''PID'', str_int pid)] dir)"

definition update_last_boot :: "vminfo \<Rightarrow> int \<Rightarrow> sockets \<Rightarrow> (load_error, vminfo \<times> sockets) result" where
  "update_last_boot vm epoch dir =
     res_map (Pair (vm\<lparr>vm_last_boot := epoch\<rparr>))
       (vm_update_fields (vm_name vm) [(''LAST_BOOT'', str_int epoch)] dir)"

definition update_deploy :: "vminfo \<Rightarrow> int \<Rightarrow> string \<Rightarrow> string \<Rightarrow> sockets \<Rightarrow> (load_error, vminfo \<times> sockets) result" where
  "update_deploy vm epoch build_path kver dir =
     res_map (Pair (vm\<lparr>vm_last_deploy := epoch, vm_build_path := build_path, vm_kver := kver\<rparr>))
       (vm_update_fields (vm_name vm)
          [(''LAST_DEPLOY'', str_int epoch), (''BUILD_PATH'', build_path), (''KVER'', kver)] dir)"

text \<open>The identity of its base image, adopted by \<^verbatim>\<open>check_backing\<close> for a VM that has none.\<close>

definition adopt_image_id :: "vminfo \<Rightarrow> string \<Rightarrow> sockets \<Rightarrow> (load_error, vminfo \<times> sockets) result" where
  "adopt_image_id vm now dir =
     res_map (Pair (vm\<lparr>vm_image_id := now\<rparr>)) (vm_update_fields (vm_name vm) [(''IMAGE_ID'', now)] dir)"

subsection \<open>The host's networks\<close>

record host_nets =
  SUBNET :: string
  EXTRA_SUBNET :: string
  EXTRA_SUBNET6 :: string

text \<open>\<^verbatim>\<open>int(h, 16)\<close> of a string: white space, a sign, the prefix \<^verbatim>\<open>0x\<close> and single
  underscores between digits are accepted.\<close>

fun hex_digits :: "string \<Rightarrow> bool" where
  "hex_digits [] = False"
| "hex_digits [c] = isxdigit c"
| "hex_digits (c # d # cs) =
     (isxdigit c \<and> (if d = CHR ''_'' then hex_digits cs else hex_digits (d # cs)))"

definition drop_sign :: "string \<Rightarrow> string" where
  "drop_sign s = (case s of [] \<Rightarrow> [] | c # cs \<Rightarrow> if c = CHR ''-'' \<or> c = CHR ''+'' then cs else s)"

definition drop_0x :: "string \<Rightarrow> string" where
  "drop_0x s = (if startswith (lower s) ''0x'' then
       (case drop 2 s of c # cs \<Rightarrow> if c = CHR ''_'' then cs else c # cs | [] \<Rightarrow> []) else s)"

definition int16_ok :: "string \<Rightarrow> bool" where
  "int16_ok h = hex_digits (drop_0x (drop_sign (int_strip h)))"

datatype subnet6_error = Subnet6Count string | Subnet6Width string string | Subnet6Hex string string

fun check_hextets :: "string \<Rightarrow> string list \<Rightarrow> subnet6_error option" where
  "check_hextets prefix [] = None"
| "check_hextets prefix (h # hs) =
     (if \<not> (1 \<le> length h \<and> length h \<le> 4) then Some (Subnet6Width h prefix)
      else if \<not> int16_ok h then Some (Subnet6Hex h prefix)
      else check_hextets prefix hs)"

definition validate_subnet6 :: "string \<Rightarrow> (subnet6_error, string) result" where
  "validate_subnet6 prefix =
     (let hextets = split_on CHR '':'' prefix
      in if length hextets \<noteq> 4 then Inl (Subnet6Count prefix)
         else case check_hextets prefix hextets of Some e \<Rightarrow> Inl e | None \<Rightarrow> Inr prefix)"

text \<open>An environment override, the persisted file, the default, in that order.\<close>

definition read_setting :: "string option \<Rightarrow> string option \<Rightarrow> string \<Rightarrow> string" where
  "read_setting env file dflt =
     (case env of
        Some e \<Rightarrow> if e \<noteq> [] then e else
          (case file of Some t \<Rightarrow> if strip t \<noteq> [] then strip t else dflt | None \<Rightarrow> dflt)
      | None \<Rightarrow>
          (case file of Some t \<Rightarrow> if strip t \<noteq> [] then strip t else dflt | None \<Rightarrow> dflt))"

definition rsplit_dot :: "string \<Rightarrow> string" where
  "rsplit_dot s = (if CHR ''.'' \<in> set s then rev (tl (dropWhile (\<lambda>c. c \<noteq> CHR ''.'') (rev s))) else s)"

definition read_subnet :: "string option \<Rightarrow> string option \<Rightarrow> bool \<Rightarrow> string option \<Rightarrow> string" where
  "read_subnet env file darwin gateway =
     read_setting env file
       (if darwin then rsplit_dot (get_or ''192.168.105.1'' gateway) else ''192.168.100'')"

definition read_extra_subnet :: "string option \<Rightarrow> string option \<Rightarrow> string" where
  "read_extra_subnet env file = read_setting env file ''172.16.100''"

definition read_extra_subnet6 :: "string option \<Rightarrow> string option \<Rightarrow> (subnet6_error, string) result" where
  "read_extra_subnet6 env file =
     (case env of
        Some e \<Rightarrow> if e \<noteq> [] then validate_subnet6 e else
          (case file of Some t \<Rightarrow> if strip t \<noteq> [] then validate_subnet6 (strip t) else Inr ''fd17:2016:1000:f100''
           | None \<Rightarrow> Inr ''fd17:2016:1000:f100'')
      | None \<Rightarrow>
          (case file of Some t \<Rightarrow> if strip t \<noteq> [] then validate_subnet6 (strip t) else Inr ''fd17:2016:1000:f100''
           | None \<Rightarrow> Inr ''fd17:2016:1000:f100''))"

definition pad3 :: "int \<Rightarrow> string" where
  "pad3 i = (if i < 0 then CHR ''-'' # replicate (2 - length (str_nat (nat (- i)))) CHR ''0'' @ str_nat (nat (- i))
     else replicate (3 - length (str_int i)) CHR ''0'' @ str_int i)"

datatype ip6_error = NotIPv4 string | BadOctet string

definition nic_ip6 :: "string \<Rightarrow> string \<Rightarrow> (ip6_error, string) result" where
  "nic_ip6 extra_subnet6 ipv4 =
     (let octets = split_on CHR ''.'' ipv4
      in if length octets \<noteq> 4 then Inl (NotIPv4 ipv4)
         else case res_list (\<lambda>o'. case py_int o' of None \<Rightarrow> Inl (BadOctet o') | Some i \<Rightarrow> Inr i) octets of
             Inl e \<Rightarrow> Inl e
           | Inr is \<Rightarrow> Inr (join '':'' (extra_subnet6 # map (\<lambda>i. CHR ''f'' # pad3 i) is)))"

definition subnet_for_nic :: "host_nets \<Rightarrow> nat \<Rightarrow> (string, string) result" where
  "subnet_for_nic h idx =
     (if idx = 0 then Inr (SUBNET h)
      else if EXTRA_SUBNET h = SUBNET h then Inl (EXTRA_SUBNET h)
      else Inr (EXTRA_SUBNET h))"

definition lustre_libdir :: "string \<Rightarrow> string" where
  "lustre_libdir os_family = (if os_family = ''debian'' then ''/usr/lib/lustre'' else ''/usr/lib64/lustre'')"

subsection \<open>What an \<open>.info\<close> file keeps\<close>

text \<open>A record whose file reads back: no line boundary in any string, storable NICs,
  addresses and drivers that keep the separators out, an owner the save accepts.\<close>

definition vm_strings :: "vminfo \<Rightarrow> string list" where
  "vm_strings vm =
     [vm_name vm, vm_ip vm, vm_tap vm, vm_mac vm, vm_image vm, vm_kernel vm, vm_build_path vm,
      vm_kver vm, vm_base_image vm, vm_image_id vm, vm_os_id vm, vm_arch vm, vm_creator vm,
      vm_variant vm, vm_kernel_args vm, vm_disks_from vm, vm_disk_dir vm, vm_disk_cache vm,
      vm_disk_prealloc vm]"

definition wf_driver :: "string \<times> string \<Rightarrow> bool" where
  "wf_driver e \<longleftrightarrow> CHR ''='' \<notin> set (fst e) \<and> CHR ''|'' \<notin> set (driver_entry e) \<and> unbroken (driver_entry e)"

definition wf_owner :: "string option \<Rightarrow> bool" where
  "wf_owner owner = (case owner of None \<Rightarrow> True | Some s \<Rightarrow> validate_owner_id s = Inr s \<and> unbroken s)"

definition wf_vminfo :: "vminfo \<Rightarrow> bool" where
  "wf_vminfo vm \<longleftrightarrow>
     list_all unbroken (vm_strings vm) \<and> wf_owner (vm_owner_id vm) \<and>
     list_all nic_storable (vm_nics vm) \<and>
     list_all (\<lambda>s. plain_ok CHR ''|'' s \<and> unbroken s) (vm_nic_ips vm) \<and>
     list_all (\<lambda>s. plain_ok CHR ''|'' s \<and> unbroken s) (vm_nic_ip6s vm) \<and>
     distinct (map fst (vm_passthrough_drivers vm)) \<and>
     list_all wf_driver (vm_passthrough_drivers vm)"

lemma unbroken_bar: "unbroken ''|''"
  by (simp add: unbroken_def islinebreak_def)

lemma nic_str_unbroken: "nic_storable spec \<Longrightarrow> unbroken (nic_str spec)"
  by (auto simp: unbroken_def list_all_iff nic_storable_def dest: nic_str_clean)

lemma joined_unbroken:
  assumes "wf_vminfo vm"
  shows "unbroken (join ''|'' (map nic_str (vm_nics vm)))" "unbroken (join ''|'' (vm_nic_ips vm))"
    "unbroken (join ''|'' (vm_nic_ip6s vm))"
    "unbroken (join ''|'' (map driver_entry (vm_passthrough_drivers vm)))"
  using assms
  by (auto intro!: unbroken_join unbroken_bar nic_str_unbroken
      simp: wf_vminfo_def list_all_iff wf_driver_def)

lemma owner_unbroken: "wf_owner owner \<Longrightarrow> unbroken (owner_text owner)"
  by (auto simp: wf_owner_def owner_text_def split: option.splits)

lemma info_keys_wf: "distinct (map fst (info_fields vm)) \<and> list_all wf_key (map fst (info_fields vm))"
proof -
  have "map fst (info_fields vm) = map fst (info_fields undefined)" by (simp add: info_fields_def)
  moreover have "distinct (map fst (info_fields undefined))" by (simp add: info_fields_def)
  moreover have "list_all wf_key (map fst (info_fields undefined))"
    by (simp add: info_fields_def wf_key_def unbroken_def islinebreak_def)
  ultimately show ?thesis by simp
qed

lemma info_vals_unbroken: "wf_vminfo vm \<Longrightarrow> list_all unbroken (map snd (info_fields vm))"
proof -
  assume wf: "wf_vminfo vm"
  then have "list_all unbroken (vm_strings vm)" "unbroken (owner_text (vm_owner_id vm))"
    by (simp_all add: wf_vminfo_def owner_unbroken)
  with joined_unbroken [OF wf] show ?thesis
    by (simp add: info_fields_def vm_strings_def)
qed

lemma wf_info_fields: "wf_vminfo vm \<Longrightarrow> wf_fields (info_fields vm)"
  using info_keys_wf [of vm] info_vals_unbroken [of vm]
  by (auto simp: wf_fields_def list_all_iff)

lemma load_drivers_entries:
  "distinct (map fst (d @ es)) \<Longrightarrow> list_all wf_driver es \<Longrightarrow>
     load_drivers (map driver_entry es) d = d @ es"
proof (induction es arbitrary: d)
  case (Cons e es)
  then have "partition1 CHR ''='' (driver_entry e) = (fst e, True, snd e)"
    and "dict_set d (fst e) (snd e) = d @ [e]"
    by (auto simp: wf_driver_def driver_entry_def partition1_append dict_set_new)
  with Cons show ?case by simp
qed simp

lemma load_drivers_text:
  assumes "distinct (map fst es)" "list_all wf_driver es"
  shows "load_drivers (split_on CHR ''|'' (join ''|'' (map driver_entry es))) [] = es"
proof (cases "es = []")
  case False
  have "\<forall>w \<in> set (map driver_entry es). CHR ''|'' \<notin> set w"
    using assms(2) by (auto simp: wf_driver_def list_all_iff)
  with False show ?thesis
    using load_drivers_entries [of "[]" es] assms by (simp add: split_on_join)
qed simp

lemmas info_get_defs = get_str_def get_int_def get_list_def load_numa_def

lemma info_get:
  "map_of (info_fields vm) ''NAME'' = Some (vm_name vm)"
  "map_of (info_fields vm) ''IP'' = Some (vm_ip vm)"
  "map_of (info_fields vm) ''PID'' = Some (str_int (vm_pid vm))"
  "map_of (info_fields vm) ''TAP'' = Some (vm_tap vm)"
  "map_of (info_fields vm) ''MAC'' = Some (vm_mac vm)"
  "map_of (info_fields vm) ''VCPUS'' = Some (str_int (vm_vcpus vm))"
  "map_of (info_fields vm) ''MEM'' = Some (str_int (vm_mem vm))"
  "map_of (info_fields vm) ''MDT_DISKS'' = Some (str_int (vm_mdt_disks vm))"
  "map_of (info_fields vm) ''OST_DISKS'' = Some (str_int (vm_ost_disks vm))"
  "map_of (info_fields vm) ''DISK_SIZE'' = Some (str_int (vm_disk_size vm))"
  "map_of (info_fields vm) ''ROOT_SIZE'' = Some (str_int (vm_root_size vm))"
  "map_of (info_fields vm) ''IMAGE'' = Some (vm_image vm)"
  "map_of (info_fields vm) ''KERNEL'' = Some (vm_kernel vm)"
  "map_of (info_fields vm) ''CREATED'' = Some (str_int (vm_created vm))"
  "map_of (info_fields vm) ''LAST_BOOT'' = Some (str_int (vm_last_boot vm))"
  "map_of (info_fields vm) ''LAST_DEPLOY'' = Some (str_int (vm_last_deploy vm))"
  "map_of (info_fields vm) ''BUILD_PATH'' = Some (vm_build_path vm)"
  "map_of (info_fields vm) ''KVER'' = Some (vm_kver vm)"
  "map_of (info_fields vm) ''BASE_IMAGE'' = Some (vm_base_image vm)"
  "map_of (info_fields vm) ''IMAGE_ID'' = Some (vm_image_id vm)"
  "map_of (info_fields vm) ''OS_ID'' = Some (vm_os_id vm)"
  "map_of (info_fields vm) ''ARCH'' = Some (vm_arch vm)"
  "map_of (info_fields vm) ''CREATOR'' = Some (vm_creator vm)"
  "map_of (info_fields vm) ''OWNER_ID'' = Some (owner_text (vm_owner_id vm))"
  "map_of (info_fields vm) ''VARIANT'' = Some (vm_variant vm)"
  "map_of (info_fields vm) ''NICS'' = Some (join ''|'' (map nic_str (vm_nics vm)))"
  "map_of (info_fields vm) ''NIC_IPS'' = Some (join ''|'' (vm_nic_ips vm))"
  "map_of (info_fields vm) ''NIC_IP6S'' = Some (join ''|'' (vm_nic_ip6s vm))"
  "map_of (info_fields vm) ''PASSTHROUGH_DRIVERS'' = Some (join ''|'' (map driver_entry (vm_passthrough_drivers vm)))"
  "map_of (info_fields vm) ''KERNEL_ARGS'' = Some (vm_kernel_args vm)"
  "map_of (info_fields vm) ''NUMA_NODES'' = Some (str_int (vm_numa_nodes vm))"
  "map_of (info_fields vm) ''SHARE_DISKS'' = Some (str_int (if vm_share_disks vm then 1 else 0))"
  "map_of (info_fields vm) ''DISKS_FROM'' = Some (vm_disks_from vm)"
  "map_of (info_fields vm) ''DISK_DIR'' = Some (vm_disk_dir vm)"
  "map_of (info_fields vm) ''DISK_CACHE'' = Some (vm_disk_cache vm)"
  "map_of (info_fields vm) ''DISK_PREALLOC'' = Some (vm_disk_prealloc vm)"
  by (simp_all add: info_fields_def)

lemma str_int_nonempty [simp]: "str_int i \<noteq> []"
  by (simp add: str_int_def)

lemma str_int_bool: "str_int (if b then 1 else 0) = ''1'' \<longleftrightarrow> b"
  by (cases b) (simp_all add: str_int_def, subst str_nat.simps, simp add: digit_char_def)

lemma plain_list: "list_all (\<lambda>s. plain_ok CHR ''|'' s \<and> unbroken s) ws \<Longrightarrow>
    filter (\<lambda>s. s \<noteq> []) (split_on CHR ''|'' (join ''|'' ws)) = ws"
  using plain.parts_join [of "CHR ''|''" ws] by (simp add: list_all_iff)

lemma owner_not_empty: "\<not> wf_owner (Some [])"
  by (simp add: wf_owner_def validate_owner_id_def)

lemma vm_of_values_fields:
  assumes "wf_vminfo vm"
  shows "vm_of_values name (info_fields vm) = Inr vm"
proof -
  note wf = assms [unfolded wf_vminfo_def]
  have nics: "res_list load_stored (get_list (info_fields vm) ''NICS'') = Inr (vm_nics vm)"
    using nic_codec.dec_parts [of "vm_nics vm"] wf by (simp add: info_get info_get_defs)
  have ints: "res_list (\<lambda>(k, d). get_int (info_fields vm) k d) int_fields =
      Inr [vm_pid vm, vm_vcpus vm, vm_mem vm, vm_mdt_disks vm, vm_ost_disks vm, vm_disk_size vm,
        vm_root_size vm, vm_created vm, vm_last_boot vm, vm_last_deploy vm]" (is "_ = Inr ?is")
    by (simp add: int_fields_def get_int_def info_get)
  have numa: "load_numa (info_fields vm) = Inr (vm_numa_nodes vm)"
    by (simp add: info_get info_get_defs)
  have "build_vminfo name (info_fields vm) (vm_nics vm)
      (\<lambda>k. get_or 0 (map_of (zip (map fst int_fields) ?is) k)) (vm_numa_nodes vm) = vm"
    using wf owner_not_empty by (intro vminfo.equality; cases "vm_owner_id vm")
      (auto simp: build_vminfo_def get_str_def get_list_def info_get int_fields_def plain_list
        load_drivers_text str_int_bool owner_text_def split: if_splits)
  with nics ints numa show ?thesis by (simp add: vm_of_values_def)
qed

definition info_text :: "vminfo \<Rightarrow> string" where
  "info_text vm = fields_text (info_fields vm)"

definition info_read :: "string \<Rightarrow> string \<Rightarrow> (load_error, vminfo) result" where
  "info_read name text = vm_of_values name (load_lines (splitlines (universal_newlines text)) [])"

lemma info_read_text: "wf_vminfo vm \<Longrightarrow> info_read name (info_text vm) = Inr vm"
  by (simp add: info_read_def info_text_def wf_info_fields fields_text_load vm_of_values_fields)

interpretation info_codec: codec info_text "info_read name" wf_vminfo for name
  by unfold_locales (rule info_read_text)

subsection \<open>Updates in place are updates of the record\<close>

text \<open>The field writers of the code, as the other processes that hold the same VM see
  them: each is one locked read-modify-write of the file.\<close>

datatype vm_op = SetPid int | SetLastBoot int | SetDeploy int string string | SetImageId string

fun op_record :: "vm_op \<Rightarrow> vminfo \<Rightarrow> vminfo" where
  "op_record (SetPid p) vm = vm\<lparr>vm_pid := p\<rparr>"
| "op_record (SetLastBoot e) vm = vm\<lparr>vm_last_boot := e\<rparr>"
| "op_record (SetDeploy e b k) vm = vm\<lparr>vm_last_deploy := e, vm_build_path := b, vm_kver := k\<rparr>"
| "op_record (SetImageId s) vm = vm\<lparr>vm_image_id := s\<rparr>"

fun op_run :: "vm_op \<Rightarrow> vminfo \<Rightarrow> sockets \<Rightarrow> (load_error, vminfo \<times> sockets) result" where
  "op_run (SetPid p) vm dir = update_pid vm p dir"
| "op_run (SetLastBoot e) vm dir = update_last_boot vm e dir"
| "op_run (SetDeploy e b k) vm dir = update_deploy vm e b k dir"
| "op_run (SetImageId s) vm dir = adopt_image_id vm s dir"

fun op_ok :: "vm_op \<Rightarrow> bool" where
  "op_ok (SetDeploy e b k) \<longleftrightarrow> unbroken b \<and> unbroken k"
| "op_ok (SetImageId s) \<longleftrightarrow> unbroken s"
| "op_ok _ \<longleftrightarrow> True"

text \<open>Any number of processes, each with its own (possibly stale) copy of the record:
  a schedule is the sequence of their writes, a writer's copy being looked up by its
  number.\<close>

fun run_schedule :: "(nat \<Rightarrow> vminfo) \<Rightarrow> (nat \<times> vm_op) list \<Rightarrow> sockets
    \<Rightarrow> (load_error, (nat \<Rightarrow> vminfo) \<times> sockets) result" where
  "run_schedule mem [] dir = Inr (mem, dir)"
| "run_schedule mem ((w, op) # ws) dir =
     (case op_run op (mem w) dir of Inl e \<Rightarrow> Inl e
      | Inr (vm, dir') \<Rightarrow> run_schedule (mem(w := vm)) ws dir')"

lemma info_fields_nonempty: "info_fields vm \<noteq> []"
  by (simp add: info_fields_def)

lemma wf_key_literals: "CHR ''='' \<notin> set ''PID''" "CHR ''='' \<notin> set ''LAST_BOOT''"
  "CHR ''='' \<notin> set ''LAST_DEPLOY''" "CHR ''='' \<notin> set ''BUILD_PATH''" "CHR ''='' \<notin> set ''KVER''"
  "CHR ''='' \<notin> set ''IMAGE_ID''"
  by simp_all

lemma info_fields_set:
  "dict_set (info_fields vm) ''PID'' (str_int p) = info_fields (vm\<lparr>vm_pid := p\<rparr>)"
  "dict_set (info_fields vm) ''LAST_BOOT'' (str_int p) = info_fields (vm\<lparr>vm_last_boot := p\<rparr>)"
  "dict_set (info_fields vm) ''LAST_DEPLOY'' (str_int p) = info_fields (vm\<lparr>vm_last_deploy := p\<rparr>)"
  "dict_set (info_fields vm) ''BUILD_PATH'' s = info_fields (vm\<lparr>vm_build_path := s\<rparr>)"
  "dict_set (info_fields vm) ''KVER'' s = info_fields (vm\<lparr>vm_kver := s\<rparr>)"
  "dict_set (info_fields vm) ''IMAGE_ID'' s = info_fields (vm\<lparr>vm_image_id := s\<rparr>)"
  by (simp_all add: info_fields_def)

lemma wf_vminfo_sets [ltvm_wf]:
  "wf_vminfo (vm\<lparr>vm_pid := p\<rparr>) = wf_vminfo vm"
  "wf_vminfo (vm\<lparr>vm_last_boot := p\<rparr>) = wf_vminfo vm"
  "wf_vminfo (vm\<lparr>vm_last_deploy := p\<rparr>) = wf_vminfo vm"
  "wf_vminfo vm \<Longrightarrow> unbroken s \<Longrightarrow> wf_vminfo (vm\<lparr>vm_build_path := s\<rparr>)"
  "wf_vminfo vm \<Longrightarrow> unbroken s \<Longrightarrow> wf_vminfo (vm\<lparr>vm_kver := s\<rparr>)"
  "wf_vminfo vm \<Longrightarrow> unbroken s \<Longrightarrow> wf_vminfo (vm\<lparr>vm_image_id := s\<rparr>)"
  by (simp_all add: wf_vminfo_def vm_strings_def)

lemma update_line_info:
  "wf_vminfo vm \<Longrightarrow> CHR ''='' \<notin> set k \<Longrightarrow>
     update_line k v (info_text vm) = fields_text (dict_set (info_fields vm) k v)"
  unfolding info_text_def by (rule update_line_fields [OF wf_info_fields info_fields_nonempty])

lemma info_text_read: "wf_vminfo vm \<Longrightarrow> universal_newlines (info_text vm) = info_text vm"
  by (simp add: info_text_def wf_info_fields)

lemma op_wf: "wf_vminfo vm \<Longrightarrow> op_ok op \<Longrightarrow> wf_vminfo (op_record op vm)"
  by (cases op) (simp_all add: ltvm_wf)

lemma update_info_sets:
  assumes "wf_vminfo vm"
  shows "update_line ''PID'' (str_int p) (info_text vm) = info_text (vm\<lparr>vm_pid := p\<rparr>)"
    "update_line ''LAST_BOOT'' (str_int p) (info_text vm) = info_text (vm\<lparr>vm_last_boot := p\<rparr>)"
    "update_line ''LAST_DEPLOY'' (str_int p) (info_text vm) = info_text (vm\<lparr>vm_last_deploy := p\<rparr>)"
    "update_line ''BUILD_PATH'' s (info_text vm) = info_text (vm\<lparr>vm_build_path := s\<rparr>)"
    "update_line ''KVER'' s (info_text vm) = info_text (vm\<lparr>vm_kver := s\<rparr>)"
    "update_line ''IMAGE_ID'' s (info_text vm) = info_text (vm\<lparr>vm_image_id := s\<rparr>)"
  using update_line_info [OF assms wf_key_literals(1)] update_line_info [OF assms wf_key_literals(2)]
    update_line_info [OF assms wf_key_literals(3)] update_line_info [OF assms wf_key_literals(4)]
    update_line_info [OF assms wf_key_literals(5)] update_line_info [OF assms wf_key_literals(6)]
  by (simp_all add: info_fields_set info_text_def)

text \<open>One write: the file becomes the text of the updated record on disk, whatever the
  writer's own copy holds.\<close>

lemma op_run_disk:
  assumes "wf_vminfo disk" "op_ok op" "dir (vm_name vm) = Some (info_text disk)"
  shows "op_run op vm dir =
    Inr (op_record op vm, dir(vm_name vm \<mapsto> info_text (op_record op disk)))"
proof (cases op)
  case (SetDeploy e b k)
  have 1: "wf_vminfo (disk\<lparr>vm_last_deploy := e\<rparr>)" using assms(1) by (simp add: ltvm_wf)
  then have 2: "wf_vminfo (disk\<lparr>vm_last_deploy := e, vm_build_path := b\<rparr>)"
    using assms(2) SetDeploy by (simp add: ltvm_wf)
  show ?thesis
    using assms SetDeploy
    by (simp add: update_deploy_def vm_update_fields_def info_text_read update_info_sets(3) [OF assms(1)]
        update_info_sets(4) [OF 1] update_info_sets(5) [OF 2])
qed (use assms in \<open>simp_all add: update_pid_def update_last_boot_def adopt_image_id_def vm_update_fields_def
      info_text_read update_info_sets\<close>)

lemma op_record_name [simp]: "vm_name (op_record op vm) = vm_name vm"
  by (cases op) auto

lemma run_schedule_disk:
  assumes "wf_vminfo disk" "\<And>w. vm_name (mem w) = name" "list_all (op_ok \<circ> snd) ws"
    "dir name = Some (info_text disk)"
  shows "\<exists>mem'. run_schedule mem ws dir =
    Inr (mem', dir(name \<mapsto> info_text (fold (op_record \<circ> snd) ws disk)))"
  using assms
proof (induction ws arbitrary: mem dir disk)
  case (Cons x ws)
  obtain w op where x: "x = (w, op)" by (cases x)
  let ?mem = "mem(w := op_record op (mem w))" and ?dir = "dir(name \<mapsto> info_text (op_record op disk))"
  have step: "op_run op (mem w) dir = Inr (op_record op (mem w), ?dir)"
    using op_run_disk [of disk op dir "mem w"] Cons.prems x by simp
  have "\<exists>mem'. run_schedule ?mem ws ?dir =
      Inr (mem', ?dir(name \<mapsto> info_text (fold (op_record \<circ> snd) ws (op_record op disk))))"
    using Cons.prems x by (intro Cons.IH) (auto simp: op_wf)
  moreover have "fold (op_record \<circ> snd) (x # ws) disk = fold (op_record \<circ> snd) ws (op_record op disk)"
    by (simp add: x)
  moreover have "run_schedule mem (x # ws) dir = run_schedule ?mem ws ?dir" by (simp add: x step)
  ultimately show ?case by (simp only: fun_upd_upd)
qed (simp add: fun_upd_idem)


definition vm_example :: vminfo where
  "vm_example =
     \<lparr>vm_name = ''a'', vm_ip = ''192.168.100.10'', vm_pid = 17, vm_tap = ''tap-a'', vm_mac = '''',
      vm_vcpus = 2, vm_mem = 2048, vm_mdt_disks = 1, vm_ost_disks = 3, vm_disk_size = 5, vm_root_size = 8,
      vm_image = ''i=1'', vm_kernel = '''', vm_created = 3, vm_last_boot = -1, vm_last_deploy = 0,
      vm_build_path = '''', vm_kver = '''', vm_base_image = '''', vm_image_id = '''', vm_os_id = ''rocky9'',
      vm_arch = ''x86_64'', vm_creator = '''', vm_owner_id = Some ''pid:7'', vm_variant = ''base'',
      vm_nics = [nic_example, nic_example], vm_nic_ips = [''172.16.100.10''], vm_nic_ip6s = [], vm_passthrough_drivers = [(''b'', ''d=x'')],
      vm_kernel_args = '''', vm_numa_nodes = 0, vm_share_disks = True, vm_disks_from = '''',
      vm_disk_dir = '''', vm_disk_cache = ''none'', vm_disk_prealloc = ''''\<rparr>"

lemma nic_example_storable: "nic_storable nic_example"
  by (simp add: nic_storable_def nic_parse_wf [OF nic_example_parse] nic_example_str)

lemma wf_vm_example: "wf_vminfo vm_example"
proof -
  have "list_all unbroken (vm_strings vm_example)" "wf_owner (vm_owner_id vm_example)"
    "list_all (\<lambda>s. plain_ok CHR ''|'' s \<and> unbroken s) (vm_nic_ips vm_example)"
    "list_all wf_driver (vm_passthrough_drivers vm_example)"
    by code_simp+
  then show ?thesis by (simp add: wf_vminfo_def vm_example_def nic_example_storable)
qed


text \<open>
  C8.  No update is lost: whatever processes write PID, last boot, deploy and image identity of one VM,
  in whatever order the lock lets them in and however stale their copies are, every
  write succeeds and the file then loads to the saved record with exactly those updates
  applied in that order.
\<close>

theorem vm_updates_not_lost:
  assumes "wf_vminfo vm" "vm_save vm dir = Inr dir'" "\<And>w. vm_name (mem w) = vm_name vm"
    "list_all (op_ok \<circ> snd) ws"
  shows "\<exists>mem' dir''. run_schedule mem ws dir' = Inr (mem', dir'') \<and>
    vm_load dir'' (vm_name vm) = Inr (fold (op_record \<circ> snd) ws vm)"
proof -
  have "dir' (vm_name vm) = Some (info_text vm)"
    using assms(2) by (auto simp: vm_save_def info_text_def split: option.splits sum.splits)
  from run_schedule_disk [of vm mem "vm_name vm" ws dir', OF assms(1) assms(3) assms(4) this]
  obtain mem' where run: "run_schedule mem ws dir' =
      Inr (mem', dir'(vm_name vm \<mapsto> info_text (fold (op_record \<circ> snd) ws vm)))"
    by blast
  have "wf_vminfo (fold (op_record \<circ> snd) ws vm)"
    using assms(1,4) by (induction ws arbitrary: vm) (auto simp: op_wf)
  with run show ?thesis using info_read_text by (simp add: vm_load_def info_read_def)
qed

theorem vm_updates_not_lost_witness:
  "\<exists>mem' dir''. run_schedule (\<lambda>_. vm_example) [(0, SetPid 5), (1, SetDeploy 9 ''/b'' ''5.14'')]
      [''a'' \<mapsto> info_text vm_example] = Inr (mem', dir'') \<and>
    vm_load dir'' ''a'' =
      Inr (vm_example\<lparr>vm_pid := 5, vm_last_deploy := 9, vm_build_path := ''/b'', vm_kver := ''5.14''\<rparr>)"
proof -
  have name: "vm_name vm_example = ''a''" by (simp add: vm_example_def)
  have save: "vm_save vm_example Map.empty = Inr [''a'' \<mapsto> info_text vm_example]"
    by (simp add: vm_save_def vm_example_def info_text_def validate_owner_id_def MAX_OWNER_ID_LENGTH_def)
  have ok: "list_all (op_ok \<circ> snd) [(0, SetPid 5), (1, SetDeploy 9 ''/b'' ''5.14'')]" by code_simp
  show ?thesis
    using vm_updates_not_lost [OF wf_vm_example save, of "\<lambda>_. vm_example", OF _ ok] name by simp
qed

definition owner_injecting :: string where
  "owner_injecting = ''a'' @ [CHR 0x0B] @ ''PID=1''"

definition vm_injected :: vminfo where
  "vm_injected = vm_example\<lparr>vm_nics := [], vm_owner_id := Some owner_injecting\<rparr>"

lemma injected_read: "res_map vm_pid (info_read ''a'' (info_text vm_injected)) = Inr 1"
  by code_simp

text \<open>
  The owner check lets a line boundary through: it refuses newline, carriage return
  and NUL, while the loader splits lines at a vertical tab too, so an accepted owner
  identifier sets another field of the record; here a VM saved with PID 17 loads with
  PID 1.
\<close>

theorem owner_id_injects_field:
  "validate_owner_id owner_injecting = Inr owner_injecting \<and> vm_pid vm_injected = 17 \<and>
   (\<exists>dir vm. vm_save vm_injected Map.empty = Inr dir \<and> vm_load dir ''a'' = Inr vm \<and> vm_pid vm = 1)"
proof -
  have ok: "validate_owner_id owner_injecting = Inr owner_injecting" by code_simp
  have "vm_name vm_injected = ''a''" "vm_owner_id vm_injected = Some owner_injecting" "vm_pid vm_injected = 17"
    by (simp_all add: vm_injected_def vm_example_def)
  with ok injected_read show ?thesis
    by (simp add: vm_save_def vm_load_def info_read_def info_text_def res_map_eq_Inr)
qed

lemma pad3_octet: "d < 256 \<Longrightarrow> pad3 (int d) = replicate (3 - length (str_nat d)) CHR ''0'' @ str_nat d"
  by (simp add: pad3_def str_int_def)

lemma length_pad3: "d < 256 \<Longrightarrow> length (pad3 (int d)) = 3"
  using length_str_nat [of d 3] by (simp add: pad3_octet)

lemma dec_val_zeros: "dec_val (replicate n CHR ''0'' @ s) = dec_val s"
  by (induction n) (simp_all add: dec_val_def digit_val_def)

lemma pad3_inj: "d < 256 \<Longrightarrow> e < 256 \<Longrightarrow> pad3 (int d) = pad3 (int e) \<Longrightarrow> d = e"
  by (metis pad3_octet dec_val_zeros dec_val_str_nat)

lemma split_ip4_str: "split_on CHR ''.'' (ip4_str a) = map str_nat (ip4_octets a)"
proof -
  have "\<not> isdecimal CHR ''.''" by (simp add: isdecimal_def)
  then have "CHR ''.'' \<notin> set (str_nat d)" for d by (rule str_nat_no)
  then show ?thesis unfolding ip4_str_def by (intro split_on_join) (auto simp: ip4_octets_def)
qed

lemma nic_ip6_str:
  "nic_ip6 p (ip4_str a) = Inr (join '':'' (p # map (\<lambda>d. CHR ''f'' # pad3 (int d)) (ip4_octets a)))"
proof -
  have "res_list (\<lambda>o'. case py_int o' of None \<Rightarrow> Inl (BadOctet o') | Some i \<Rightarrow> Inr i)
      (map str_nat (ip4_octets a)) = Inr (map int (ip4_octets a))"
    by (subst res_list_all_Inr [where g = "\<lambda>s. int (dec_val s)"]) (auto simp: comp_def)
  then show ?thesis
    by (simp add: nic_ip6_def split_ip4_str Let_def ip4_octets_def)
qed

text \<open>
  The IPv6 address paired with a NIC's IPv4 address: it always exists, is twenty
  characters longer than the prefix (thirty-nine for the default one), and two IPv4
  addresses pair with the same IPv6 address only when they are equal, so the IPv4
  allocator's uniqueness carries over.
\<close>

theorem nic_ip6_injective:
  assumes "a < 2 ^ 32" "b < 2 ^ 32"
  shows "(\<exists>s. nic_ip6 p (ip4_str a) = Inr s \<and> length s = length p + 20) \<and>
    (nic_ip6 p (ip4_str a) = nic_ip6 p (ip4_str b) \<longleftrightarrow> a = b)"
proof -
  have len: "length (CHR ''f'' # pad3 (int d)) = 4" if "d \<in> set (ip4_octets x)" for d x
    using that ip4_octets_less length_pad3 by simp
  have "a = b" if eq: "nic_ip6 p (ip4_str a) = nic_ip6 p (ip4_str b)"
  proof -
    have less: "x div 16777216 mod 256 < 256" "x div 65536 mod 256 < 256" "x div 256 mod 256 < 256" "x mod 256 < 256"
      for x :: nat by simp_all
    have "ip4_octets a = ip4_octets b"
      using eq less [of a] less [of b] by (simp add: nic_ip6_str ip4_octets_def length_pad3 pad3_inj)
    then show ?thesis using assms by (metis base_val_ip4_octets)
  qed
  moreover have "length (join '':'' (p # map (\<lambda>d. CHR ''f'' # pad3 (int d)) (ip4_octets a))) = length p + 20"
    by (simp add: ip4_octets_def length_pad3)
  ultimately show ?thesis by (auto simp: nic_ip6_str)
qed

theorem nic_ip6_injective_witness:
  "\<exists>s. nic_ip6 ''fd17:2016:1000:f100'' (ip4_str 2886755531) = Inr s \<and> length s = 39"
  using nic_ip6_injective [of 2886755531 2886755531 "''fd17:2016:1000:f100''"] by auto

end
