(* ===== verification/VmClaim.thy ===== *)
theory VmClaim
  imports VmState Complex_Main
begin

text \<open>
  \<^verbatim>\<open>ltvm_pkg/vm_claim.py\<close>: which session is using a VM.  A claim file is modelled by
  what opening it does and by the document \<^verbatim>\<open>json.loads\<close> makes of its text
  (\<open>NotJson\<close> for a text it refuses); every read and write is under the file's lock, so an
  operation is one step of the store.  Clock readings are exact numbers and one operation
  reads the clock once; \<^verbatim>\<open>os.kill(pid, 0)\<close>, \<^verbatim>\<open>ps\<close> and the environment are the fields
  of \<open>claim_env\<close>.
\<close>

subsection \<open>JSON documents\<close>

datatype json =
    JNull
  | JBool bool
  | JInt int
  | JFloat rat
  | JStr string
  | JList "json list"
  | JObj "(string \<times> json) list"

text \<open>\<^verbatim>\<open>str(x)\<close>, \<^verbatim>\<open>int(x)\<close> and \<^verbatim>\<open>float(x)\<close> of a decoded value; the text of a float,
  list or object and the number a string reads as are parameters (\<open>rep\<close>, \<open>flt\<close>).  \<open>None\<close> is
  a \<^verbatim>\<open>TypeError\<close> or \<^verbatim>\<open>ValueError\<close>.\<close>

fun json_str :: "(json \<Rightarrow> string) \<Rightarrow> json \<Rightarrow> string" where
  "json_str rep (JStr s) = s"
| "json_str rep JNull = ''None''"
| "json_str rep (JBool b) = (if b then ''True'' else ''False'')"
| "json_str rep (JInt i) = str_int i"
| "json_str rep j = rep j"

definition rat_trunc :: "rat \<Rightarrow> int" where
  "rat_trunc q = (if q < 0 then \<lceil>q\<rceil> else \<lfloor>q\<rfloor>)"

fun json_int :: "json \<Rightarrow> int option" where
  "json_int (JInt i) = Some i"
| "json_int (JFloat q) = Some (rat_trunc q)"
| "json_int (JBool b) = Some (if b then 1 else 0)"
| "json_int (JStr s) = py_int s"
| "json_int _ = None"

fun json_float :: "(string \<Rightarrow> rat option) \<Rightarrow> json \<Rightarrow> rat option" where
  "json_float flt (JInt i) = Some (of_int i)"
| "json_float flt (JFloat q) = Some q"
| "json_float flt (JBool b) = Some (if b then 1 else 0)"
| "json_float flt (JStr s) = flt s"
| "json_float flt _ = None"

fun json_truthy :: "json \<Rightarrow> bool" where
  "json_truthy JNull = False"
| "json_truthy (JBool b) = b"
| "json_truthy (JInt i) = (i \<noteq> 0)"
| "json_truthy (JFloat q) = (q \<noteq> 0)"
| "json_truthy (JStr s) = (s \<noteq> [])"
| "json_truthy (JList xs) = (xs \<noteq> [])"
| "json_truthy (JObj xs) = (xs \<noteq> [])"

subsection \<open>Claims and their environment\<close>

record vm_claim =
  cl_vm :: string
  cl_owner :: string
  cl_user :: string
  cl_pid :: "int option"
  cl_pid_start :: json
  cl_since :: rat
  cl_expires :: "rat option"
  cl_tree :: json

datatype kill_result = KillOk | NoSuchProcess | KillDenied | KillError

record claim_env =
  ce_now :: rat
  ce_user :: string
  ce_environ :: "string \<rightharpoonup> string"
  ce_kill :: "int \<Rightarrow> kill_result"
  ce_start :: "int \<Rightarrow> string option"
  ce_sudo_ready :: bool
  ce_sudo_ok :: bool
  ce_repr :: "json \<Rightarrow> string"
  ce_float :: "string \<Rightarrow> rat option"

datatype claim_error =
    ClaimHeld vm_claim
  | ClaimBadName string
  | ClaimDirSymlink
  | ClaimDirNeedsRoot
  | ClaimDirMissing
  | ClaimDenied string
  | ClaimSymlink string
  | ClaimNotRegular string
  | ClaimOwner owner_error
  | ClaimSudo
  | ClaimOsError string
  | ClaimPidOverflow int
  | ClaimPidText string

text \<open>The errors that are a \<^verbatim>\<open>ClaimError\<close>; the others are \<^verbatim>\<open>ValueError\<close>,
  \<^verbatim>\<open>RuntimeError\<close>, \<^verbatim>\<open>OSError\<close> and \<^verbatim>\<open>OverflowError\<close>.\<close>

fun is_claim_error :: "claim_error \<Rightarrow> bool" where
  "is_claim_error (ClaimHeld _) = True"
| "is_claim_error (ClaimBadName _) = True"
| "is_claim_error ClaimDirSymlink = True"
| "is_claim_error ClaimDirNeedsRoot = True"
| "is_claim_error ClaimDirMissing = True"
| "is_claim_error (ClaimDenied _) = True"
| "is_claim_error (ClaimSymlink _) = True"
| "is_claim_error (ClaimNotRegular _) = True"
| "is_claim_error _ = False"

text \<open>\<^verbatim>\<open>os.kill\<close> converts the pid to a C int first and raises \<^verbatim>\<open>OverflowError\<close> when it
  does not fit, which no caller handles.\<close>

definition pid_alive :: "claim_env \<Rightarrow> int \<Rightarrow> json \<Rightarrow> (claim_error, bool) result" where
  "pid_alive env pid start =
     (if pid < - (2 ^ 31) \<or> 2 ^ 31 \<le> pid then Inl (ClaimPidOverflow pid)
      else case ce_kill env pid of
          NoSuchProcess \<Rightarrow> Inr False
        | KillError \<Rightarrow> Inr False
        | _ \<Rightarrow>
            if start = JNull then Inr True
            else case ce_start env pid of
                None \<Rightarrow> Inr True
              | Some s \<Rightarrow> Inr (JStr s = start))"

definition live :: "claim_env \<Rightarrow> vm_claim \<Rightarrow> (claim_error, bool) result" where
  "live env c =
     (if (case cl_expires c of None \<Rightarrow> False | Some e \<Rightarrow> ce_now env \<ge> e) then Inr False
      else case cl_pid c of
          None \<Rightarrow> Inr True
        | Some pid \<Rightarrow> pid_alive env pid (cl_pid_start c))"

subsection \<open>Who is asking\<close>

definition env_str :: "claim_env \<Rightarrow> string \<Rightarrow> string" where
  "env_str env key = get_or [] (ce_environ env key)"

definition current_owner :: "claim_env \<Rightarrow> string option \<Rightarrow> (claim_error, string) result" where
  "current_owner env explicit =
     (if get_or [] explicit \<noteq> [] then
        (case validate_owner_id (get_or [] explicit) of Inl e \<Rightarrow> Inl (ClaimOwner e) | Inr s \<Rightarrow> Inr s)
      else if env_str env ''LTVM_OWNER_ID'' \<noteq> [] then
        (case validate_owner_id (env_str env ''LTVM_OWNER_ID'') of
           Inl e \<Rightarrow> Inl (ClaimOwner e) | Inr s \<Rightarrow> Inr s)
      else if env_str env ''CLAUDE_CODE_SESSION_ID'' \<noteq> [] then
        (case validate_owner_id (''claude:'' @ env_str env ''CLAUDE_CODE_SESSION_ID'') of
           Inl e \<Rightarrow> Inl (ClaimOwner e) | Inr s \<Rightarrow> Inr s)
      else Inr (''user:'' @ ce_user env))"

definition is_session_owner :: "string \<Rightarrow> bool" where
  "is_session_owner owner \<longleftrightarrow> \<not> startswith owner ''user:''"

text \<open>A value that passes \<^verbatim>\<open>isdigit\<close> and is no integer raises \<^verbatim>\<open>ValueError\<close>.\<close>

fun pid_from :: "claim_env \<Rightarrow> string list \<Rightarrow> (claim_error, int option) result" where
  "pid_from env [] = Inr None"
| "pid_from env (key # keys) =
     (if key = ''CLAUDE_PID'' \<and> env_str env ''CLAUDE_CODE_SESSION_ID'' = [] then pid_from env keys
      else
        let val = env_str env key
        in if str_isdigit val then
             (case py_int val of
                None \<Rightarrow> Inl (ClaimPidText val)
              | Some i \<Rightarrow> if i > 0 then Inr (Some i) else pid_from env keys)
           else pid_from env keys)"

definition current_pid :: "claim_env \<Rightarrow> int option \<Rightarrow> (claim_error, int option) result" where
  "current_pid env explicit =
     (case explicit of
        Some p \<Rightarrow> Inr (Some p)
      | None \<Rightarrow> pid_from env [''LTVM_OWNER_PID'', ''CLAUDE_PID''])"

subsection \<open>Lifetimes\<close>

definition ttl_unit :: "string \<Rightarrow> nat option" where
  "ttl_unit u =
     (if u = [] \<or> u = ''s'' then Some 1
      else if u = ''m'' then Some 60
      else if u = ''h'' then Some 3600
      else if u = ''d'' then Some 86400
      else None)"

definition parse_ttl :: "string \<Rightarrow> (string, nat) result" where
  "parse_ttl text =
     (let t = strip text;
          digits = takeWhile isdecimal t;
          rest = lstrip (dropWhile isdecimal t)
      in case ttl_unit rest of
           None \<Rightarrow> Inl text
         | Some u \<Rightarrow> if digits = [] \<or> dec_val digits = 0 then Inl text else Inr (dec_val digits * u))"

subsection \<open>The store\<close>

datatype claim_body = Blank | NotJson | Doc json

text \<open>What opening a claim file meets.\<close>

datatype claim_node =
    NoFile
  | SymlinkFile
  | DeniedFile
  | SpecialFile
  | BrokenFile
  | ClaimFile claim_body

text \<open>The claims directory: set up, a symbolic link, ours to create or chmod, or only root's.\<close>

datatype claim_dir = DirOk | DirSymlink | DirOurs | DirRoot

record claim_store =
  cs_dir :: claim_dir
  cs_files :: "string \<Rightarrow> claim_node"

definition name_char :: "char \<Rightarrow> bool" where
  "name_char c \<longleftrightarrow> isalpha_ascii c \<or> isdecimal c"

definition claim_name_ok :: "string \<Rightarrow> bool" where
  "claim_name_ok vm \<longleftrightarrow>
     (case vm of [] \<Rightarrow> False
      | c # cs \<Rightarrow> name_char c \<and>
          list_all (\<lambda>d. name_char d \<or> d = CHR ''.'' \<or> d = CHR ''_'' \<or> d = CHR ''-'') cs)"

definition ensure_claims_dir :: "claim_env \<Rightarrow> bool \<Rightarrow> claim_store \<Rightarrow> (claim_error, claim_store) result" where
  "ensure_claims_dir env noninteractive st =
     (case cs_dir st of
        DirOk \<Rightarrow> Inr st
      | DirSymlink \<Rightarrow> Inl ClaimDirSymlink
      | DirOurs \<Rightarrow> Inr (st\<lparr>cs_dir := DirOk\<rparr>)
      | DirRoot \<Rightarrow>
          if noninteractive \<and> \<not> ce_sudo_ready env then Inl ClaimDirNeedsRoot
          else if ce_sudo_ok env then Inr (st\<lparr>cs_dir := DirOk\<rparr>)
          else Inl ClaimSudo)"

text \<open>Opening under the lock: the body of the file, \<open>None\<close> when there is none to open; with
  \<open>create\<close> a missing file is made empty.\<close>

definition locked :: "claim_store \<Rightarrow> string \<Rightarrow> bool \<Rightarrow> (claim_error, claim_body option) result" where
  "locked st vm create =
     (if \<not> claim_name_ok vm then Inl (ClaimBadName vm)
      else case cs_files st vm of
          NoFile \<Rightarrow>
            if create then (if cs_dir st = DirOk then Inr (Some Blank) else Inl ClaimDirMissing)
            else Inr None
        | DeniedFile \<Rightarrow> Inl (ClaimDenied vm)
        | SymlinkFile \<Rightarrow> Inl (ClaimSymlink vm)
        | BrokenFile \<Rightarrow> Inl (ClaimOsError vm)
        | SpecialFile \<Rightarrow> Inl (ClaimNotRegular vm)
        | ClaimFile b \<Rightarrow> Inr (Some b))"

definition doc_int :: "json option \<Rightarrow> int option option" where
  "doc_int v = (case v of
       None \<Rightarrow> Some None
     | Some j \<Rightarrow> if j = JNull then Some None else map_option Some (json_int j))"

definition doc_float :: "(string \<Rightarrow> rat option) \<Rightarrow> json option \<Rightarrow> rat option option" where
  "doc_float flt v = (case v of
       None \<Rightarrow> Some None
     | Some j \<Rightarrow> if j = JNull then Some None else map_option Some (json_float flt j))"

definition claim_of_doc :: "claim_env \<Rightarrow> string \<Rightarrow> (string \<times> json) list \<Rightarrow> vm_claim option" where
  "claim_of_doc env vm d =
     (case dict_get d ''owner'' of
        None \<Rightarrow> None
      | Some owner \<Rightarrow>
          (case (doc_int (dict_get d ''pid''),
                 json_float (ce_float env) (get_or (JInt 0) (dict_get d ''since'')),
                 doc_float (ce_float env) (dict_get d ''expires'')) of
             (Some pid, Some since, Some expires) \<Rightarrow>
               Some \<lparr>cl_vm = vm, cl_owner = json_str (ce_repr env) owner,
                 cl_user = json_str (ce_repr env) (get_or (JStr ''?'') (dict_get d ''user'')),
                 cl_pid = pid, cl_pid_start = get_or JNull (dict_get d ''pid_start''),
                 cl_since = since, cl_expires = expires,
                 cl_tree = get_or JNull (dict_get d ''tree'')\<rparr>
           | _ \<Rightarrow> None))"

fun read_claim :: "claim_env \<Rightarrow> string \<Rightarrow> claim_body \<Rightarrow> vm_claim option" where
  "read_claim env vm (Doc (JObj d)) = claim_of_doc env vm d"
| "read_claim env vm _ = None"

definition opt_json :: "('a \<Rightarrow> json) \<Rightarrow> 'a option \<Rightarrow> json" where
  "opt_json f x = (case x of None \<Rightarrow> JNull | Some v \<Rightarrow> f v)"

definition claim_doc :: "vm_claim \<Rightarrow> (string \<times> json) list" where
  "claim_doc c =
     [(''expires'', opt_json JFloat (cl_expires c)), (''owner'', JStr (cl_owner c)),
      (''pid'', opt_json JInt (cl_pid c)), (''pid_start'', cl_pid_start c),
      (''since'', JFloat (cl_since c)), (''tree'', cl_tree c), (''user'', JStr (cl_user c))]"

definition write_claim :: "string \<Rightarrow> vm_claim option \<Rightarrow> claim_store \<Rightarrow> claim_store" where
  "write_claim vm c st =
     st\<lparr>cs_files := (cs_files st)(vm :=
       ClaimFile (case c of None \<Rightarrow> Blank | Some c \<Rightarrow> Doc (JObj (claim_doc c))))\<rparr>"

definition load_claim :: "claim_env \<Rightarrow> claim_store \<Rightarrow> string \<Rightarrow> (claim_error, vm_claim option) result" where
  "load_claim env st vm =
     (case locked st vm False of
        Inl e \<Rightarrow> if is_claim_error e then Inr None else Inl e
      | Inr None \<Rightarrow> Inr None
      | Inr (Some b) \<Rightarrow> Inr (read_claim env vm b))"

subsection \<open>Operations\<close>

definition new_claim :: "claim_env \<Rightarrow> string \<Rightarrow> string \<Rightarrow> int option \<Rightarrow> nat option \<Rightarrow> string option
    \<Rightarrow> vm_claim option \<Rightarrow> (claim_error, vm_claim) result" where
  "new_claim env vm owner pid ttl tree prev =
     res_map (\<lambda>keep.
         \<lparr>cl_vm = vm, cl_owner = owner, cl_user = ce_user env, cl_pid = pid,
          cl_pid_start = (case pid of None \<Rightarrow> JNull | Some p \<Rightarrow> opt_json JStr (ce_start env p)),
          cl_since = (case keep of Some p \<Rightarrow> cl_since p | None \<Rightarrow> ce_now env),
          cl_expires =
            (if get_or 0 ttl \<noteq> 0 then Some (ce_now env + of_nat (get_or 0 ttl))
             else case keep of Some p \<Rightarrow> cl_expires p | None \<Rightarrow> None),
          cl_tree =
            (if get_or [] tree \<noteq> [] then JStr (get_or [] tree)
             else case keep of Some p \<Rightarrow> cl_tree p | None \<Rightarrow> JNull)\<rparr>)
       (case prev of
          None \<Rightarrow> Inr None
        | Some p \<Rightarrow>
            if cl_owner p = owner then res_map (\<lambda>l. if l then Some p else None) (live env p)
            else Inr None)"

definition held_by_other :: "claim_env \<Rightarrow> string \<Rightarrow> vm_claim option \<Rightarrow> (claim_error, vm_claim option) result" where
  "held_by_other env owner prev =
     (case prev of
        None \<Rightarrow> Inr None
      | Some p \<Rightarrow>
          if cl_owner p = owner then Inr None
          else res_map (\<lambda>l. if l then Some p else None) (live env p))"

definition claim :: "claim_env \<Rightarrow> claim_store \<Rightarrow> string \<Rightarrow> string option \<Rightarrow> int option \<Rightarrow> nat option
    \<Rightarrow> string option \<Rightarrow> bool \<Rightarrow> bool \<Rightarrow> (claim_error, (vm_claim \<times> vm_claim option) \<times> claim_store) result" where
  "claim env st vm owner pid ttl tree force noninteractive =
     res_bind (current_owner env owner) (\<lambda>owner.
     res_bind (current_pid env pid) (\<lambda>pid.
     res_bind (ensure_claims_dir env noninteractive st) (\<lambda>st.
     res_bind (locked st vm True) (\<lambda>b.
       let prev = (case b of None \<Rightarrow> None | Some b \<Rightarrow> read_claim env vm b)
       in res_bind (held_by_other env owner prev) (\<lambda>held.
            case (if force then None else held) of
              Some p \<Rightarrow> Inl (ClaimHeld p)
            | None \<Rightarrow>
                res_map (\<lambda>new.
                    ((new, case prev of Some p \<Rightarrow> if cl_owner p \<noteq> owner then Some p else None | None \<Rightarrow> None),
                     write_claim vm (Some new) st))
                  (new_claim env vm owner pid ttl tree prev))))))"

definition release :: "claim_env \<Rightarrow> claim_store \<Rightarrow> string \<Rightarrow> string option \<Rightarrow> bool
    \<Rightarrow> (claim_error, vm_claim option \<times> claim_store) result" where
  "release env st vm owner force =
     res_bind (current_owner env owner) (\<lambda>owner.
     res_bind (locked st vm False) (\<lambda>b.
       case (case b of None \<Rightarrow> None | Some b \<Rightarrow> read_claim env vm b) of
         None \<Rightarrow> Inr (None, st)
       | Some prev \<Rightarrow>
           res_bind (held_by_other env owner (Some prev)) (\<lambda>held.
             if held \<noteq> None \<and> \<not> force then Inl (ClaimHeld prev)
             else Inr (Some prev, write_claim vm None st))))"

text \<open>\<^verbatim>\<open>forget\<close> swallows the errors of opening the file.\<close>

definition forget :: "claim_store \<Rightarrow> string \<Rightarrow> claim_store" where
  "forget st vm =
     (case locked st vm False of
        Inr (Some _) \<Rightarrow> write_claim vm None st
      | _ \<Rightarrow> st)"

definition holder :: "claim_env \<Rightarrow> claim_store \<Rightarrow> string \<Rightarrow> string option \<Rightarrow> (claim_error, vm_claim option) result" where
  "holder env st vm owner =
     res_bind (load_claim env st vm) (\<lambda>c.
       case c of
         None \<Rightarrow> Inr None
       | Some c \<Rightarrow> res_bind (current_owner env owner) (\<lambda>o'. held_by_other env o' (Some c)))"

definition check :: "claim_env \<Rightarrow> claim_store \<Rightarrow> string \<Rightarrow> (claim_error, unit) result" where
  "check env st vm =
     res_bind (holder env st vm None) (\<lambda>c. case c of Some c \<Rightarrow> Inl (ClaimHeld c) | None \<Rightarrow> Inr ())"

fun require_all :: "claim_env \<Rightarrow> claim_store \<Rightarrow> string list \<Rightarrow> (claim_error, unit) result" where
  "require_all env st [] = Inr ()"
| "require_all env st (vm # vms) = res_bind (check env st vm) (\<lambda>_. require_all env st vms)"

definition auto_claim :: "claim_env \<Rightarrow> claim_store \<Rightarrow> string \<Rightarrow> string option
    \<Rightarrow> (claim_error, vm_claim option \<times> claim_store) result" where
  "auto_claim env st vm tree =
     res_bind (current_owner env None) (\<lambda>owner.
       if \<not> is_session_owner owner then Inr (None, st)
       else case claim env st vm (Some owner) None None tree False True of
           Inl (ClaimHeld c) \<Rightarrow> Inl (ClaimHeld c)
         | Inl e \<Rightarrow>
             if is_claim_error e then
               Inr (None, case ensure_claims_dir env True st of Inr st' \<Rightarrow> st' | Inl _ \<Rightarrow> st)
             else Inl e
         | Inr ((new, _), st') \<Rightarrow> Inr (Some new, st'))"

subsection \<open>The document of a claim\<close>

lemma claim_doc_read: "cl_vm c = vm \<Longrightarrow> claim_of_doc env vm (claim_doc c) = Some c"
  by (cases c) (auto simp: claim_doc_def claim_of_doc_def doc_int_def doc_float_def opt_json_def
      split: option.splits)

lemma write_claim_files [simp]:
  "cs_files (write_claim vm c st) vm =
     ClaimFile (case c of None \<Rightarrow> Blank | Some c \<Rightarrow> Doc (JObj (claim_doc c)))"
  "vm' \<noteq> vm \<Longrightarrow> cs_files (write_claim vm c st) vm' = cs_files st vm'"
  "cs_dir (write_claim vm c st) = cs_dir st"
  by (simp_all add: write_claim_def)

definition holds :: "claim_store \<Rightarrow> string \<Rightarrow> vm_claim \<Rightarrow> bool" where
  "holds st vm c \<longleftrightarrow> claim_name_ok vm \<and> cl_vm c = vm \<and> cs_files st vm = ClaimFile (Doc (JObj (claim_doc c)))"

lemma holds_locked: "holds st vm c \<Longrightarrow> locked st vm create = Inr (Some (Doc (JObj (claim_doc c))))"
  by (simp add: holds_def locked_def)

lemma holds_read: "holds st vm c \<Longrightarrow> claim_of_doc env vm (claim_doc c) = Some c"
  by (simp add: holds_def claim_doc_read)

lemma holds_load: "holds st vm c \<Longrightarrow> load_claim env st vm = Inr (Some c)"
  by (simp add: load_claim_def holds_locked holds_read)

lemma ensure_files: "ensure_claims_dir env ni st = Inr st' \<Longrightarrow> cs_files st' = cs_files st \<and> cs_dir st' = DirOk"
  by (auto simp: ensure_claims_dir_def split: claim_dir.splits if_splits)

lemma holds_ensure: "ensure_claims_dir env ni st = Inr st' \<Longrightarrow> holds st' vm c = holds st vm c"
  by (simp add: holds_def ensure_files)

lemma new_claim_vm: "new_claim env vm owner pid ttl tree prev = Inr c \<Longrightarrow> cl_vm c = vm \<and> cl_owner c = owner"
  by (auto simp: new_claim_def res_map_eq_Inr)

subsection \<open>What a claim does to the store\<close>

lemma claim_effect:
  assumes "claim env st vm owner pid ttl tree force ni = Inr ((new, replaced), st')"
  shows "holds st' vm new" "current_owner env owner = Inr (cl_owner new)"
    "vm' \<noteq> vm \<Longrightarrow> cs_files st' vm' = cs_files st vm'"
proof -
  from assms obtain o' p' st1 b prev where
    o': "current_owner env owner = Inr o'" and st1: "ensure_claims_dir env ni st = Inr st1"
    and b: "locked st1 vm True = Inr b"
    and new: "new_claim env vm o' p' ttl tree prev = Inr new" and st': "st' = write_claim vm (Some new) st1"
    by (fastforce simp: claim_def res_bind_eq_Inr res_map_eq_Inr Let_def split: option.splits if_splits)
  have "claim_name_ok vm" using b by (auto simp: locked_def split: if_splits)
  with new_claim_vm [OF new] st' show "holds st' vm new" by (simp add: holds_def)
  from o' new_claim_vm [OF new] show "current_owner env owner = Inr (cl_owner new)" by simp
  from st' ensure_files [OF st1] show "vm' \<noteq> vm \<Longrightarrow> cs_files st' vm' = cs_files st vm'" by simp
qed

text \<open>A live claim of another owner stops a claim and a release without force.\<close>

lemma claim_refused:
  assumes "holds st vm c" "live env c = Inr True" "current_owner env owner = Inr o'" "o' \<noteq> cl_owner c"
    "current_pid env pid = Inr p" "ensure_claims_dir env ni st = Inr st1"
  shows "claim env st vm owner pid ttl tree False ni = Inl (ClaimHeld c)"
proof -
  have h: "holds st1 vm c" using assms(1) holds_ensure [OF assms(6)] by simp
  have "held_by_other env o' (Some c) = Inr (Some c)" using assms by (simp add: held_by_other_def)
  with assms h show ?thesis
    by (simp add: claim_def holds_locked [OF h] holds_read [OF h] Let_def)
qed

lemma claim_not_over:
  assumes "holds st vm c" "live env c = Inr True" "\<And>w. current_owner env owner = Inr w \<Longrightarrow> w \<noteq> cl_owner c"
  shows "\<exists>e. claim env st vm owner pid ttl tree False ni = Inl e"
proof (cases "claim env st vm owner pid ttl tree False ni")
  case (Inr r)
  then obtain o' p st1 where "current_owner env owner = Inr o'" "current_pid env pid = Inr p"
      "ensure_claims_dir env ni st = Inr st1"
    by (auto simp: claim_def res_bind_eq_Inr)
  with claim_refused [OF assms(1,2)] assms(3) Inr show ?thesis by blast
qed simp

lemma release_not_over:
  assumes "holds st vm c" "live env c = Inr True" "\<And>w. current_owner env owner = Inr w \<Longrightarrow> w \<noteq> cl_owner c"
  shows "\<exists>e. release env st vm owner False = Inl e"
proof (cases "current_owner env owner")
  case (Inr w)
  with assms have "held_by_other env w (Some c) = Inr (Some c)" by (auto simp: held_by_other_def)
  with Inr show ?thesis
    by (simp add: release_def holds_locked [OF assms(1)] holds_read [OF assms(1)])
qed (simp add: release_def)

lemma release_files:
  "release env st vm owner force = Inr (r, st') \<Longrightarrow> vm' \<noteq> vm \<Longrightarrow> cs_files st' vm' = cs_files st vm'"
  by (auto simp: release_def res_bind_eq_Inr split: option.split_asm if_split_asm)

lemma forget_files: "vm' \<noteq> vm \<Longrightarrow> cs_files (forget st vm) vm' = cs_files st vm'"
  by (auto simp: forget_def split: sum.splits option.splits)

subsection \<open>Sessions interleaved\<close>

datatype claim_op =
    OpClaim "string option" "int option" "nat option" "string option" bool bool
  | OpRelease "string option" bool
  | OpForget

text \<open>A step of some session on one VM; an operation that fails changes no claim file
  (it may have set up the directory).\<close>

inductive claim_step :: "claim_store \<Rightarrow> claim_env \<times> string \<times> claim_op \<Rightarrow> claim_store \<Rightarrow> bool" where
  Claim: "claim env st vm owner pid ttl tree force ni = Inr (r, st') \<Longrightarrow>
     claim_step st (env, vm, OpClaim owner pid ttl tree force ni) st'"
| ClaimFails: "claim env st vm owner pid ttl tree force ni = Inl e \<Longrightarrow> cs_files st' = cs_files st \<Longrightarrow>
     claim_step st (env, vm, OpClaim owner pid ttl tree force ni) st'"
| Release: "release env st vm owner force = Inr (r, st') \<Longrightarrow>
     claim_step st (env, vm, OpRelease owner force) st'"
| ReleaseFails: "release env st vm owner force = Inl e \<Longrightarrow>
     claim_step st (env, vm, OpRelease owner force) st"
| Forget: "claim_step st (env, vm, OpForget) (forget st vm)"

inductive_cases claim_stepE: "claim_step st (env, vm, op) st'"

inductive claim_run :: "claim_store \<Rightarrow> (claim_env \<times> string \<times> claim_op) list \<Rightarrow> claim_store \<Rightarrow> bool" where
  Done: "claim_run st [] st"
| Step: "claim_step st ev st' \<Longrightarrow> claim_run st' evs st'' \<Longrightarrow> claim_run st (ev # evs) st''"

inductive_cases claim_run_ConsE: "claim_run st (ev # evs) st''"
inductive_cases claim_run_NilE: "claim_run st [] st''"

fun forced :: "claim_op \<Rightarrow> bool" where
  "forced (OpClaim _ _ _ _ force _) = force"
| "forced (OpRelease _ force) = force"
| "forced OpForget = True"

fun asked_by :: "claim_op \<Rightarrow> string option" where
  "asked_by (OpClaim owner _ _ _ _ _) = owner"
| "asked_by (OpRelease owner _) = owner"
| "asked_by OpForget = None"

text \<open>An event that is not the holder's doing: it concerns another VM, or it is not forced
  and is asked by someone else while the claim is live.\<close>

definition outsider :: "string \<Rightarrow> vm_claim \<Rightarrow> claim_env \<times> string \<times> claim_op \<Rightarrow> bool" where
  "outsider vm c ev = (case ev of (env, vm', op) \<Rightarrow>
     vm' \<noteq> vm \<or> (\<not> forced op \<and> live env c = Inr True \<and> current_owner env (asked_by op) \<noteq> Inr (cl_owner c)))"

lemma claim_step_holds:
  assumes "claim_step st (env, vm', op) st'" "holds st vm c" "outsider vm c (env, vm', op)"
  shows "holds st' vm c"
proof (cases "vm' = vm")
  case False
  from assms(1) have "cs_files st' vm = cs_files st vm"
    using False claim_effect(3) release_files forget_files
    by (elim claim_stepE) (metis prod.collapse, simp, metis, simp, metis)
  with assms(2) show ?thesis by (simp add: holds_def)
next
  case True
  with assms(3) have out: "\<not> forced op" "live env c = Inr True" "current_owner env (asked_by op) \<noteq> Inr (cl_owner c)"
    by (auto simp: outsider_def)
  show ?thesis
  proof (cases op)
    case (OpClaim owner pid ttl tree force ni)
    with out claim_not_over [OF assms(2) out(2), of owner pid ttl tree ni]
    obtain e where "claim env st vm owner pid ttl tree force ni = Inl e" by auto
    with assms(1,2) True OpClaim show ?thesis by (auto simp: holds_def elim!: claim_stepE)
  next
    case (OpRelease owner force)
    with out release_not_over [OF assms(2) out(2), of owner]
    obtain e where "release env st vm owner force = Inl e" by auto
    with assms(1,2) True OpRelease show ?thesis by (auto simp: holds_def elim!: claim_stepE)
  qed (use out in simp)
qed

lemma claim_run_holds: "claim_run st evs st' \<Longrightarrow> holds st vm c \<Longrightarrow> list_all (outsider vm c) evs \<Longrightarrow> holds st' vm c"
  by (induction rule: claim_run.induct) (auto dest: claim_step_holds)

subsection \<open>Properties\<close>

text \<open>
  C2.  No session loses a VM it has claimed: once a claim succeeded, whatever other sessions
  do in whatever order, on this VM or others, without force and while the claim is live,
  the claim on record is still that one.
\<close>

theorem claim_not_stolen:
  assumes "claim env st vm owner pid ttl tree force ni = Inr ((c, replaced), st1)"
    and "claim_run st1 evs st2" and "list_all (outsider vm c) evs"
  shows "load_claim env' st2 vm = Inr (Some c) \<and> current_owner env owner = Inr (cl_owner c)"
  using claim_run_holds [OF assms(2) claim_effect(1) [OF assms(1)] assms(3)] claim_effect(2) [OF assms(1)]
  by (simp add: holds_load)

definition claim_env_example :: "string \<Rightarrow> claim_env" where
  "claim_env_example user =
     \<lparr>ce_now = 100, ce_user = user, ce_environ = Map.empty, ce_kill = (\<lambda>_. KillOk),
      ce_start = (\<lambda>_. None), ce_sudo_ready = False, ce_sudo_ok = False, ce_repr = (\<lambda>_. []),
      ce_float = (\<lambda>_. None)\<rparr>"

definition claim_store_example :: claim_store where
  "claim_store_example = \<lparr>cs_dir = DirOurs, cs_files = (\<lambda>_. NoFile)\<rparr>"

definition claim_example :: vm_claim where
  "claim_example = \<lparr>cl_vm = ''v'', cl_owner = ''user:a'', cl_user = ''a'', cl_pid = Some 7, cl_pid_start = JNull,
     cl_since = 100, cl_expires = Some 160, cl_tree = JStr ''/t''\<rparr>"

definition claim_store_held :: claim_store where
  "claim_store_held = write_claim ''v'' (Some claim_example) (claim_store_example\<lparr>cs_dir := DirOk\<rparr>)"

lemmas claim_example_defs = claim_env_example_def claim_store_example_def claim_example_def claim_store_held_def

lemma claim_example_ok:
  "claim (claim_env_example ''a'') claim_store_example ''v'' None (Some 7) (Some 60) (Some ''/t'') False False =
     Inr ((claim_example, None), claim_store_held)"
  by (simp add: claim_def claim_example_defs current_owner_def env_str_def current_pid_def ensure_claims_dir_def
      locked_def claim_name_ok_def name_char_def isalpha_ascii_def held_by_other_def new_claim_def opt_json_def)

lemma claim_example_holds: "holds claim_store_held ''v'' claim_example"
  using claim_effect(1) [OF claim_example_ok] .

lemma claim_example_owner: "current_owner (claim_env_example u) None = Inr (''user:'' @ u)"
  by (simp add: claim_env_example_def current_owner_def env_str_def)

lemma claim_example_live: "live (claim_env_example u) claim_example = Inr True"
  by (simp add: live_def claim_example_def claim_env_example_def pid_alive_def)

theorem claim_not_stolen_witness:
  "\<exists>st2. claim_run claim_store_held [(claim_env_example ''b'', ''v'', OpRelease None False)] st2 \<and>
     load_claim (claim_env_example ''b'') st2 ''v'' = Inr (Some claim_example)"
proof -
  have "\<And>w. current_owner (claim_env_example ''b'') None = Inr w \<Longrightarrow> w \<noteq> cl_owner claim_example"
    by (simp add: claim_example_owner claim_example_def)
  from release_not_over [OF claim_example_holds claim_example_live [of "''b''"] this]
  obtain e where "release (claim_env_example ''b'') claim_store_held ''v'' None False = Inl e" by blast
  then have run: "claim_run claim_store_held [(claim_env_example ''b'', ''v'', OpRelease None False)] claim_store_held"
    by (rule claim_run.Step [OF claim_step.ReleaseFails claim_run.Done])
  have "list_all (outsider ''v'' claim_example) [(claim_env_example ''b'', ''v'', OpRelease None False)]"
    by (simp add: outsider_def claim_example_live claim_example_owner) (simp add: claim_example_def)
  from claim_not_stolen [OF claim_example_ok run this] run show ?thesis by blast
qed

text \<open>
  Claiming a VM that has a claim on record, by cases: another owner's live claim is
  refused unless forced; a stale one, or a forced one, is replaced and reported; one's own
  live claim is refreshed, keeping its start, and its expiry and tree unless new ones are given.
\<close>

theorem claim_outcome:
  assumes "holds st vm c" "current_owner env owner = Inr w" "current_pid env pid = Inr p"
    "ensure_claims_dir env ni st = Inr st1" "live env c = Inr l"
  shows "if w \<noteq> cl_owner c \<and> l \<and> \<not> force
    then claim env st vm owner pid ttl tree force ni = Inl (ClaimHeld c)
    else \<exists>new st'. claim env st vm owner pid ttl tree force ni =
        Inr ((new, if w \<noteq> cl_owner c then Some c else None), st') \<and> holds st' vm new \<and>
        cl_owner new = w \<and> cl_pid new = p \<and>
        cl_since new = (if w = cl_owner c \<and> l then cl_since c else ce_now env) \<and>
        cl_expires new = (if get_or 0 ttl \<noteq> 0 then Some (ce_now env + of_nat (get_or 0 ttl))
                          else if w = cl_owner c \<and> l then cl_expires c else None)"
proof -
  have h: "holds st1 vm c" using assms(1) holds_ensure [OF assms(4)] by simp
  note run = claim_def assms(2-4) holds_locked [OF h] holds_read [OF h] Let_def held_by_other_def
    new_claim_def assms(5)
  show ?thesis
  proof (cases "w \<noteq> cl_owner c \<and> l \<and> \<not> force")
    case True
    then show ?thesis by (auto simp: run)
  next
    case False
    obtain new st' where claim: "claim env st vm owner pid ttl tree force ni =
        Inr ((new, if w \<noteq> cl_owner c then Some c else None), st')" and new:
        "cl_owner new = w" "cl_pid new = p"
        "cl_since new = (if w = cl_owner c \<and> l then cl_since c else ce_now env)"
        "cl_expires new = (if get_or 0 ttl \<noteq> 0 then Some (ce_now env + of_nat (get_or 0 ttl))
                          else if w = cl_owner c \<and> l then cl_expires c else None)"
      using False by (cases "w = cl_owner c"; cases l; cases force) (simp_all add: run)
    with claim_effect(1) [OF claim] False show ?thesis by auto
  qed
qed

theorem claim_outcome_witness:
  "claim (claim_env_example ''b'') claim_store_held ''v'' None None None None False False =
     Inl (ClaimHeld claim_example)"
proof -
  have pid: "current_pid (claim_env_example ''b'') None = Inr None"
    by (simp add: current_pid_def claim_env_example_def env_str_def str_isdigit_def)
  have dir: "ensure_claims_dir (claim_env_example ''b'') False claim_store_held = Inr claim_store_held"
    by (simp add: ensure_claims_dir_def claim_store_held_def)
  show ?thesis
    using claim_outcome [OF claim_example_holds claim_example_owner [of "''b''"] pid dir claim_example_live,
        of False None None]
    by (simp add: claim_example_def)
qed

text \<open>
  The gate every VM-changing command takes: when it lets a session through for a list
  of VMs, each live claim among them is that session's own.
\<close>

theorem require_all_only_holder:
  assumes "require_all env st vms = Inr ()" "vm \<in> set vms" "holds st vm c" "live env c = Inr True"
  shows "current_owner env None = Inr (cl_owner c)"
proof -
  have "check env st vm = Inr ()"
    using assms(1,2) by (induction vms) (auto simp: res_bind_eq_Inr)
  then show ?thesis
    using assms(3,4)
    by (auto simp: check_def holder_def holds_load held_by_other_def res_bind_eq_Inr res_map_eq_Inr
        split: option.split_asm if_split_asm)
qed

theorem require_all_only_holder_witness:
  "current_owner (claim_env_example ''a'') None = Inr (cl_owner claim_example)"
proof (rule require_all_only_holder [OF _ _ claim_example_holds claim_example_live])
  show "require_all (claim_env_example ''a'') claim_store_held [''v''] = Inr ()"
    by (simp add: check_def holder_def holds_load [OF claim_example_holds] claim_example_owner
        held_by_other_def claim_example_def)
qed simp

text \<open>
  A claim whose pid does not fit a C int is recorded, and from then on asking who holds
  the VM fails for everyone else with an uncaught OverflowError.
\<close>

theorem claim_pid_overflow:
  assumes "holds st vm c" "cl_pid c = Some p" "2 ^ 31 \<le> p" "cl_expires c = None"
    "current_owner env None = Inr w" "w \<noteq> cl_owner c"
  shows "check env st vm = Inl (ClaimPidOverflow p) \<and> \<not> is_claim_error (ClaimPidOverflow p)"
  using assms
  by (simp add: check_def holder_def holds_load held_by_other_def live_def pid_alive_def)

theorem claim_pid_overflow_witness:
  "\<exists>c st. claim (claim_env_example ''a'') claim_store_example ''v'' None (Some 2147483648) None None False False =
       Inr ((c, None), st) \<and> check (claim_env_example ''b'') st ''v'' = Inl (ClaimPidOverflow 2147483648)"
proof -
  let ?c = "claim_example\<lparr>cl_pid := Some 2147483648, cl_expires := None, cl_tree := JNull\<rparr>"
  let ?st = "write_claim ''v'' (Some ?c) (claim_store_example\<lparr>cs_dir := DirOk\<rparr>)"
  have claim: "claim (claim_env_example ''a'') claim_store_example ''v'' None (Some 2147483648) None None False False =
       Inr ((?c, None), ?st)"
    by (simp add: claim_def claim_example_defs current_owner_def env_str_def current_pid_def ensure_claims_dir_def
        locked_def claim_name_ok_def name_char_def isalpha_ascii_def held_by_other_def new_claim_def opt_json_def)
  have "check (claim_env_example ''b'') ?st ''v'' = Inl (ClaimPidOverflow 2147483648) \<and>
      \<not> is_claim_error (ClaimPidOverflow 2147483648)"
    by (rule claim_pid_overflow [OF claim_effect(1) [OF claim] _ _ _ claim_example_owner])
      (simp_all add: claim_example_def)
  with claim show ?thesis by blast
qed

lemma ttl_unit_cases: "ttl_unit u = Some k \<Longrightarrow> u = [] \<or> u = ''s'' \<or> u = ''m'' \<or> u = ''h'' \<or> u = ''d''"
  by (auto simp: ttl_unit_def split: if_splits)

lemma ttl_unit_pos: "ttl_unit u = Some k \<Longrightarrow> 0 < k"
  by (auto simp: ttl_unit_def split: if_splits)

lemma ttl_unit_chars:
  assumes "ttl_unit u = Some k" "c \<in> set u"
  shows "\<not> isspace c" "\<not> isdecimal c"
  using assms(2) ttl_unit_cases [OF assms(1)] by (auto simp: char_class_defs)

text \<open>
  A lifetime: a positive count followed by a unit is that many seconds, and no text is
  accepted as a lifetime of zero seconds.
\<close>

theorem parse_ttl_correct:
  assumes "0 < n" "ttl_unit u = Some k"
  shows "parse_ttl (str_nat n @ u) = Inr (n * k) \<and> (\<forall>text. parse_ttl text \<noteq> Inr 0)"
proof -
  have dec: "isdecimal c" if "c \<in> set (str_nat n)" for c using that by (rule str_nat_decimal)
  have "strip (str_nat n @ u) = str_nat n @ u"
    using dec isdecimal_not_space ttl_unit_chars(1) [OF assms(2)] by (intro strip_no_space) auto
  moreover have "takeWhile isdecimal (str_nat n @ u) = str_nat n" "dropWhile isdecimal (str_nat n @ u) = u"
    using dec ttl_unit_chars(2) [OF assms(2)]
    by (cases u; auto simp: takeWhile_append dropWhile_append)+
  moreover have "lstrip u = u"
    unfolding lstrip_def using ttl_unit_chars(1) [OF assms(2)] by (intro dropWhile_none) auto
  moreover have "parse_ttl t \<noteq> Inr 0" for t
    using ttl_unit_pos by (auto simp: parse_ttl_def Let_def split: option.splits)
  ultimately show ?thesis using assms by (simp add: parse_ttl_def)
qed

theorem parse_ttl_correct_witness: "parse_ttl ''30m'' = Inr 1800"
proof -
  have "str_nat 30 = ''30''" by code_simp
  then show ?thesis using parse_ttl_correct [of 30 "''m''" 60] by (simp add: ttl_unit_def)
qed

end
