(* ===== verification/NicNetwork.thy ===== *)
theory NicNetwork
  imports VmState
begin

text \<open>
  \<^verbatim>\<open>ltvm_pkg/nic_network.py\<close>, \<^verbatim>\<open>nic_allocation.py\<close> and \<^verbatim>\<open>nic_cmdline.py\<close>: the data
  networks of a VM's extra NICs, the layout check, and the allocation of an address per
  NIC in both families.  The hash that seeds a scan (\<^verbatim>\<open>hashlib.md5(...).hexdigest()\<close>) is
  the parameter \<open>md5\<close>: everything proved here holds for any function from names to hex
  texts.
\<close>

subsection \<open>Address pools\<close>

text \<open>The scans of \<^verbatim>\<open>select_address\<close>, \<^verbatim>\<open>_default_address\<close> and \<^verbatim>\<open>alloc_ip\<close>: a pool of
  \<open>count\<close> addresses, tried in order from a starting point, round to it again.\<close>

fun scan_from :: "(nat \<Rightarrow> string) \<Rightarrow> nat \<Rightarrow> nat \<Rightarrow> string set \<Rightarrow> nat \<Rightarrow> nat \<Rightarrow> string option" where
  "scan_from pool count start used offset 0 = None"
| "scan_from pool count start used offset (Suc left) =
     (let address = pool ((start + offset) mod count)
      in if address \<notin> used then Some address
         else scan_from pool count start used (offset + 1) left)"

definition circular_scan :: "(nat \<Rightarrow> string) \<Rightarrow> nat \<Rightarrow> nat \<Rightarrow> string set \<Rightarrow> string option" where
  "circular_scan pool count start used = scan_from pool count start used 0 count"

lemma scan_from_find:
  "scan_from pool count start used offset left =
     find (\<lambda>a. a \<notin> used) (map (\<lambda>k. pool ((start + k) mod count)) [offset..<offset + left])"
  by (induction pool count start used offset left rule: scan_from.induct)
    (simp_all add: Let_def upt_conv_Cons del: upt_Suc)

lemma circular_scan_find:
  "circular_scan pool count start used =
     find (\<lambda>a. a \<notin> used) (map (\<lambda>offset. pool ((start + offset) mod count)) [0..<count])"
  by (simp add: circular_scan_def scan_from_find)

lemma circular_range:
  assumes "0 < (count :: nat)"
  shows "(\<lambda>offset. (start + offset) mod count) ` {..<count} = {..<count}"
proof -
  have "k \<in> (\<lambda>offset. (start + offset) mod count) ` {..<count}" if "k < count" for k
  proof -
    let ?o = "(k + count - start mod count) mod count"
    have "start mod count \<le> k + count" using assms by (simp add: less_imp_le trans_le_add2)
    then have "(start + ?o) mod count = k"
      using that by (metis (no_types, opaque_lifting) add.commute le_add_diff_inverse2 mod_add_left_eq
          mod_add_right_eq mod_add_self2 mod_less)
    moreover have "?o < count" using assms by simp
    ultimately show ?thesis by (metis image_eqI lessThan_iff)
  qed
  then show ?thesis using assms by auto
qed

text \<open>What a client of a pool relies on: for every network \<open>ok\<close> admits, its addresses are
  different from each other.\<close>

locale address_pool =
  fixes pool :: "'n \<Rightarrow> nat \<Rightarrow> string"
    and count :: "'n \<Rightarrow> nat"
    and ok :: "'n \<Rightarrow> bool"
  assumes pool_inj: "ok n \<Longrightarrow> inj_on (pool n) {..<count n}"
begin

definition hosts :: "'n \<Rightarrow> string set" where
  "hosts n = pool n ` {..<count n}"

lemma card_hosts: "ok n \<Longrightarrow> card (hosts n) = count n"
  unfolding hosts_def by (simp add: card_image pool_inj)

lemma scanned:
  "0 < count n \<Longrightarrow> set (map (\<lambda>offset. pool n ((start + offset) mod count n)) [0..<count n]) = hosts n"
proof -
  assume "0 < count n"
  have "set (map (\<lambda>offset. pool n ((start + offset) mod count n)) [0..<count n]) =
      pool n ` ((\<lambda>offset. (start + offset) mod count n) ` {..<count n})"
    by (simp add: image_image atLeast0LessThan)
  with circular_range [OF \<open>0 < count n\<close>, of start] show ?thesis by (simp only: hosts_def)
qed

lemma scan_fresh:
  assumes "circular_scan (pool n) (count n) start used = Some a"
  shows "a \<in> hosts n" "a \<notin> used"
proof -
  have "0 < count n" using assms by (cases "count n") (auto simp: circular_scan_find)
  with assms show "a \<in> hosts n" "a \<notin> used"
    using scanned [of n start] by (auto simp: circular_scan_find dest!: find_Some_iff_first)
qed

lemma scan_none: "0 < count n \<Longrightarrow> circular_scan (pool n) (count n) start used = None \<longleftrightarrow> hosts n \<subseteq> used"
  using scanned [of n start] by (auto simp: circular_scan_find find_None_iff)

lemma scan_finds:
  assumes "ok n" "finite used" "card (used \<inter> hosts n) < count n"
  shows "\<exists>a. circular_scan (pool n) (count n) start used = Some a"
proof (rule ccontr)
  assume "\<not> ?thesis"
  then have "hosts n \<subseteq> used" using scan_none [of n start used] assms(3) by auto
  then have "used \<inter> hosts n = hosts n" by auto
  with assms(1,3) card_hosts show False by simp
qed

lemma scan_first:
  "0 < count n \<Longrightarrow> pool n (start mod count n) \<notin> used \<Longrightarrow>
     circular_scan (pool n) (count n) start used = Some (pool n (start mod count n))"
  by (cases "count n") (simp_all add: circular_scan_find upt_conv_Cons del: upt_Suc)

end

subsection \<open>Pools of a configured network\<close>

definition MAX_POOL_ADDRESSES :: nat where
  "MAX_POOL_ADDRESSES = 65534"

definition pool_count :: "ipnet \<Rightarrow> nat" where
  "pool_count n = min (num_addresses n - (if net_version n = 4 then 2 else 1)) MAX_POOL_ADDRESSES"

definition pool_host :: "ipnet \<Rightarrow> nat \<Rightarrow> string" where
  "pool_host n k = addr_str (net_version n) (net_address n + 1 + k)"

datatype pool_error = NoHosts ipnet | PoolFull ipnet | DefaultFull string

definition select_address :: "(string \<Rightarrow> string) \<Rightarrow> string \<Rightarrow> ipnet \<Rightarrow> string set \<Rightarrow> (pool_error, string) result" where
  "select_address md5 name network used =
     (let count = pool_count network
      in if count < 1 then Inl (NoHosts network)
         else case circular_scan (pool_host network) count (hex_val (take 8 (md5 name)) mod count) used of
             Some address \<Rightarrow> Inr address
           | None \<Rightarrow> Inl (PoolFull network))"

lemma wf_net_room:
  assumes "wf_net n"
  shows "net_address n + num_addresses n \<le> 2 ^ ip_width (net_version n)"
proof -
  let ?w = "ip_width (net_version n)" and ?p = "net_prefixlen n"
  have p: "?p \<le> ?w" and less: "net_address n < 2 ^ ?w"
    and q: "net_address n = net_address n div 2 ^ (?w - ?p) * 2 ^ (?w - ?p)"
    using assms by (auto simp: wf_net_def mask_addr_def)
  have split: "(2::nat) ^ ?w = 2 ^ ?p * 2 ^ (?w - ?p)" using p by (simp flip: power_add)
  then have "net_address n div 2 ^ (?w - ?p) < 2 ^ ?p" using less by (simp add: less_mult_imp_div_less)
  then have "(net_address n div 2 ^ (?w - ?p) + 1) * 2 ^ (?w - ?p) \<le> 2 ^ ?w"
    unfolding split by (intro mult_le_mono1) simp
  then show ?thesis using q by (simp add: num_addresses_def algebra_simps)
qed

lemma pool_host_less:
  assumes "wf_net n" "k < pool_count n"
  shows "net_address n + 1 + k < 2 ^ ip_width (net_version n)"
  using wf_net_room [OF assms(1)] assms(2) by (auto simp: pool_count_def split: if_splits)

lemma pool_host_int:
  "wf_net n \<Longrightarrow> k < pool_count n \<Longrightarrow>
     addr_int (net_version n) (pool_host n k) = Some (net_address n + 1 + k)"
  unfolding pool_host_def by (rule addr_int_str [OF pool_host_less])

lemma pool_host_inj: "wf_net n \<Longrightarrow> inj_on (pool_host n) {..<pool_count n}"
  by (rule inj_onI) (metis add_left_cancel lessThan_iff option.inject pool_host_int)

interpretation network_pool: address_pool pool_host pool_count wf_net
  by unfold_locales (rule pool_host_inj)

text \<open>Every address of the pool lies in the network and is neither the network address
  nor, for IPv4, the broadcast address.\<close>

lemma network_pool_hosts:
  assumes "wf_net n" "a \<in> network_pool.hosts n"
  obtains x where "addr_int (net_version n) a = Some x" "a = addr_str (net_version n) x"
    "in_net n (net_version n) x" "x \<noteq> net_address n"
    "net_version n = 4 \<Longrightarrow> x \<noteq> broadcast_address n"
proof -
  obtain k where k: "k < pool_count n" "a = pool_host n k"
    using assms(2) by (auto simp: network_pool.hosts_def)
  show thesis
  proof (rule that)
    show "addr_int (net_version n) a = Some (net_address n + 1 + k)"
      using k assms(1) by (simp add: pool_host_int)
    show "in_net n (net_version n) (net_address n + 1 + k)"
      using k assms(1) by (auto simp: in_net_interval pool_count_def split: if_splits)
    show "net_version n = 4 \<Longrightarrow> net_address n + 1 + k \<noteq> broadcast_address n"
      using k by (auto simp: broadcast_address_def pool_count_def)
  qed (use k in \<open>auto simp: pool_host_def\<close>)
qed

subsection \<open>The default pool, .10 to .253\<close>

definition default_host :: "string \<Rightarrow> nat \<Rightarrow> string" where
  "default_host prefix k = prefix @ ''.'' @ str_nat (k + 10)"

definition default_address :: "(string \<Rightarrow> string) \<Rightarrow> string \<Rightarrow> string \<Rightarrow> string set \<Rightarrow> (pool_error, string) result" where
  "default_address md5 name prefix used =
     (case circular_scan (default_host prefix) 244 (hex_val (take 4 (md5 name)) mod 244) used of
        Some address \<Rightarrow> Inr address
      | None \<Rightarrow> Inl (DefaultFull prefix))"

lemma default_host_inj: "inj (default_host prefix)"
  by (rule injI) (auto simp: default_host_def dest: str_nat_inj)

interpretation default_pool: address_pool default_host "\<lambda>_. 244" "\<lambda>_. True"
  by unfold_locales (use default_host_inj inj_on_subset in blast)

subsection \<open>Data networks and the layout check\<close>

datatype net_problem = TooManyNics | MgmtOverlap ipnet ipnet | DataOverlap ipnet ipnet

definition parse_net :: "string \<Rightarrow> (string, ipnet) result" where
  "parse_net s = (case ip_network True s of Some n \<Rightarrow> Inr n | None \<Rightarrow> Inl s)"

definition or_str :: "string \<Rightarrow> string \<Rightarrow> string" where
  "or_str a b = (if a \<noteq> [] then a else b)"

definition data_networks :: "nicspec list \<Rightarrow> string \<Rightarrow> string \<Rightarrow> (string, ipnet list \<times> ipnet list) result" where
  "data_networks nics default4 default6 =
     res_bind (res_list (\<lambda>n. parse_net (or_str (nic_subnet n) default4)) nics) (\<lambda>nets4.
     res_bind (res_list (\<lambda>n. parse_net (or_str (nic_subnet6 n) default6)) nics) (\<lambda>nets6.
       Inr (nets4, nets6)))"

definition conflicts :: "ipnet \<Rightarrow> ipnet \<Rightarrow> bool" where
  "conflicts network other \<longleftrightarrow>
     net_version network = net_version other \<and> network \<noteq> other \<and> overlaps network other"

fun overlap_scan :: "ipnet list \<Rightarrow> ipnet list \<Rightarrow> net_problem option" where
  "overlap_scan before [] = None"
| "overlap_scan before (network # rest) =
     (case find (conflicts network) before of
        Some other \<Rightarrow> Some (DataOverlap network other)
      | None \<Rightarrow> overlap_scan (before @ [network]) rest)"

definition overlap_problem :: "ipnet list \<Rightarrow> net_problem option" where
  "overlap_problem networks = overlap_scan [] (uniq networks)"

definition network_problem ::
  "nicspec list \<Rightarrow> string \<Rightarrow> string \<Rightarrow> string \<Rightarrow> (string, net_problem option) result" where
  "network_problem nics management default4 default6 =
     (let explicit = list_ex (\<lambda>n. nic_net n \<noteq> [] \<or> nic_subnet n \<noteq> [] \<or> nic_subnet6 n \<noteq> []) nics
      in if explicit \<and> length nics > 8 then Inr (Some TooManyNics)
         else
           res_bind (data_networks nics default4 default6) (\<lambda>(nets4, nets6).
           res_bind (parse_net management) (\<lambda>mgmt.
             case find (\<lambda>network. overlaps network mgmt) nets4 of
               Some network \<Rightarrow> Inr (Some (MgmtOverlap network mgmt))
             | None \<Rightarrow>
                 res_bind (parse_net default4) (\<lambda>d4.
                   case overlap_problem (d4 # nets4) of
                     Some p \<Rightarrow> Inr (Some p)
                   | None \<Rightarrow> res_bind (parse_net default6) (\<lambda>d6. Inr (overlap_problem (d6 # nets6)))))))"

lemma parse_net_Inr: "parse_net s = Inr n \<longleftrightarrow> ip_network True s = Some n"
  by (auto simp: parse_net_def split: option.splits)

lemma parse_net_wf: "parse_net s = Inr n \<Longrightarrow> wf_net n"
  by (auto simp: parse_net_Inr dest: ip_network_wf)

lemma conflicts_sym: "conflicts n m = conflicts m n"
  by (auto simp: conflicts_def overlaps_sym)

lemma all_less_Suc_split: "(\<forall>i < n + Suc 0. P i) \<longleftrightarrow> P 0 \<and> (\<forall>i < n. P (Suc i))"
  by (auto simp: less_Suc_eq_0_disj)

lemma overlap_scan_none:
  "overlap_scan before rest = None \<longleftrightarrow>
     (\<forall>i < length rest. \<forall>m \<in> set before \<union> set (take i rest). \<not> conflicts (rest ! i) m)"
proof (induction before rest rule: overlap_scan.induct)
  case (2 before network rest)
  show ?case
  proof (cases "find (conflicts network) before")
    case None
    then have no: "\<forall>m \<in> set before. \<not> conflicts network m" by (auto simp: find_None_iff)
    have "overlap_scan before (network # rest) = None \<longleftrightarrow>
        (\<forall>i < length rest. \<forall>m \<in> insert network (set before \<union> set (take i rest)). \<not> conflicts (rest ! i) m)"
      using 2 None by simp
    also have "\<dots> \<longleftrightarrow> (\<forall>i < length (network # rest). \<forall>m \<in> set before \<union> set (take i (network # rest)).
        \<not> conflicts ((network # rest) ! i) m)"
      unfolding all_less_Suc_split list.size using no by auto
    finally show ?thesis .
  next
    case (Some other)
    then have "other \<in> set before" "conflicts network other" by (auto dest: find_Some_iff_first)
    with Some show ?thesis by force
  qed
qed simp

lemma overlap_problem_none_conflicts:
  "overlap_problem nets = None \<longleftrightarrow> (\<forall>n \<in> set nets. \<forall>m \<in> set nets. \<not> conflicts n m)"
proof -
  let ?u = "uniq nets"
  have "(\<forall>i < length ?u. \<forall>m \<in> set (take i ?u). \<not> conflicts (?u ! i) m) \<longleftrightarrow>
      (\<forall>n \<in> set ?u. \<forall>m \<in> set ?u. \<not> conflicts n m)" (is "?L \<longleftrightarrow> ?R")
  proof
    assume L: ?L
    show ?R
    proof (intro ballI)
      fix n m assume "n \<in> set ?u" "m \<in> set ?u"
      then obtain i j where ij: "i < length ?u" "n = ?u ! i" "j < length ?u" "m = ?u ! j"
        by (metis in_set_conv_nth)
      have irrefl: "\<not> conflicts x x" for x by (simp add: conflicts_def)
      have before: "\<not> conflicts (?u ! a) (?u ! b)" if "b < a" "a < length ?u" for a b
      proof -
        have "?u ! b = take a ?u ! b" "b < length (take a ?u)" using that by auto
        then have "?u ! b \<in> set (take a ?u)" by (metis nth_mem)
        with L that show ?thesis by blast
      qed
      from ij before [of j i] before [of i j] irrefl conflicts_sym show "\<not> conflicts n m"
        by (metis nat_neq_iff)
    qed
  next
    assume R: ?R
    show ?L using R by (meson in_set_takeD nth_mem)
  qed
  then show ?thesis by (simp add: overlap_problem_def overlap_scan_none)
qed

lemma parsed_nets_wf: "list_all2 (\<lambda>n net. parse_net (f n) = Inr net) nics nets \<Longrightarrow> n \<in> set nets \<Longrightarrow> wf_net n"
  by (induction rule: list_all2_induct) (auto intro: parse_net_wf)

lemma data_networks_wf:
  assumes "data_networks nics d4 d6 = Inr (nets4, nets6)"
  shows "length nets4 = length nics" "length nets6 = length nics"
    "\<forall>n \<in> set nets4. wf_net n" "\<forall>n \<in> set nets6. wf_net n"
    "list_all2 (\<lambda>n net. parse_net (or_str (nic_subnet n) d4) = Inr net) nics nets4"
    "list_all2 (\<lambda>n net. parse_net (or_str (nic_subnet6 n) d6) = Inr net) nics nets6"
proof -
  show 4: "list_all2 (\<lambda>n net. parse_net (or_str (nic_subnet n) d4) = Inr net) nics nets4"
    and 6: "list_all2 (\<lambda>n net. parse_net (or_str (nic_subnet6 n) d6) = Inr net) nics nets6"
    using assms by (auto simp: data_networks_def res_bind_eq_Inr res_list_Inr_iff)
  from 4 6 show "length nets4 = length nics" "length nets6 = length nics" by (auto dest: list_all2_lengthD)
  from 4 6 show "\<forall>n \<in> set nets4. wf_net n" "\<forall>n \<in> set nets6. wf_net n"
    by (auto dest: parsed_nets_wf)
qed

text \<open>
  C33.  The overlap check is exact: it reports nothing exactly when any two networks of the
  list are equal or have no address in common.
\<close>

theorem overlap_problem_exact:
  assumes "\<forall>n \<in> set nets. wf_net n"
  shows "overlap_problem nets = None \<longleftrightarrow>
    (\<forall>n \<in> set nets. \<forall>m \<in> set nets. n = m \<or>
       \<not> (\<exists>v a. in_net n v a \<and> in_net m v a))"
proof -
  have "conflicts n m \<longleftrightarrow> n \<noteq> m \<and> (\<exists>v a. in_net n v a \<and> in_net m v a)"
    if "n \<in> set nets" "m \<in> set nets" for n m
  proof -
    have wf: "wf_net n" "wf_net m" using that assms by auto
    have "(\<exists>v a. in_net n v a \<and> in_net m v a) \<longleftrightarrow> overlaps n m"
      unfolding overlaps_iff_common [OF wf] by (auto simp: in_net_def)
    moreover have "overlaps n m \<Longrightarrow> net_version n = net_version m"
      using overlaps_iff_common [OF wf] by simp
    ultimately show ?thesis by (auto simp: conflicts_def)
  qed
  then show ?thesis unfolding overlap_problem_none_conflicts by blast
qed

definition net_example :: ipnet where
  "net_example = \<lparr>net_version = 4, net_address = 167772160, net_prefixlen = 8\<rparr>"

definition net_example2 :: ipnet where
  "net_example2 = \<lparr>net_version = 4, net_address = 184549376, net_prefixlen = 8\<rparr>"

theorem overlap_problem_exact_witness:
  "\<not> (\<exists>v a. in_net net_example v a \<and> in_net net_example2 v a)"
proof -
  have wf: "\<forall>n \<in> set [net_example, net_example2]. wf_net n" by code_simp
  have "overlap_problem [net_example, net_example2] = None" by code_simp
  then show ?thesis
    using overlap_problem_exact [OF wf] by (auto simp: net_example_def net_example2_def)
qed

text \<open>
  Picking a host of a data network: the address comes from the network, is not
  its network address nor, for IPv4, its broadcast address, and is not taken; the scan
  fails exactly when the pool (at most 65534 hosts) has no free address left.
\<close>

theorem select_address_correct:
  assumes "wf_net n"
  shows "case select_address md5 name n used of
      Inr a \<Rightarrow> a \<notin> used \<and> (\<exists>x. addr_int (net_version n) a = Some x \<and> a = addr_str (net_version n) x \<and>
        in_net n (net_version n) x \<and> x \<noteq> net_address n \<and> (net_version n = 4 \<longrightarrow> x \<noteq> broadcast_address n))
    | Inl (NoHosts _) \<Rightarrow> pool_count n = 0
    | Inl (PoolFull _) \<Rightarrow> (\<forall>k < pool_count n. pool_host n k \<in> used)
    | Inl (DefaultFull _) \<Rightarrow> False"
proof (cases "pool_count n < 1")
  case False
  let ?start = "hex_val (take 8 (md5 name)) mod pool_count n"
  show ?thesis
  proof (cases "circular_scan (pool_host n) (pool_count n) ?start used")
    case None
    with False show ?thesis
      using network_pool.scan_none [of n ?start used]
      by (auto simp: select_address_def Let_def network_pool.hosts_def)
  next
    case (Some a)
    from network_pool.scan_fresh [OF this] have "a \<in> network_pool.hosts n" "a \<notin> used" .
    with False Some assms show ?thesis
      by (simp add: select_address_def Let_def) (metis network_pool_hosts)
  qed
qed (simp add: select_address_def)

theorem select_address_correct_witness:
  "case select_address (\<lambda>_. ''00000000'') ''a'' net_example {''10.0.0.1''} of
     Inr a \<Rightarrow> a \<notin> {''10.0.0.1''} | Inl _ \<Rightarrow> True"
proof -
  have "wf_net net_example" by code_simp
  from select_address_correct [OF this, of "{''10.0.0.1''}" "\<lambda>_. ''00000000''" "''a''"]
  show ?thesis by (auto split: sum.splits)
qed

text \<open>
  The default pool: the address is free and one of the 244 hosts .10 to .253 of the
  prefix, and there is one as long as fewer than 244 of them are taken.
\<close>

theorem default_address_correct:
  "(default_address md5 name prefix used = Inr a \<longrightarrow>
      a \<notin> used \<and> (\<exists>d. 10 \<le> d \<and> d \<le> 253 \<and> a = prefix @ ''.'' @ str_nat d)) \<and>
   (finite used \<and> card used < 244 \<longrightarrow> (\<exists>a. default_address md5 name prefix used = Inr a))"
proof -
  let ?start = "hex_val (take 4 (md5 name)) mod 244"
  have "a \<notin> used \<and> a \<in> default_pool.hosts prefix" if "default_address md5 name prefix used = Inr a"
    using that default_pool.scan_fresh [of prefix ?start used a]
    by (auto simp: default_address_def split: option.splits)
  moreover have "\<exists>d. 10 \<le> d \<and> d \<le> 253 \<and> a = prefix @ ''.'' @ str_nat d" if "a \<in> default_pool.hosts prefix"
  proof -
    from that obtain k where "k < 244" "a = prefix @ ''.'' @ str_nat (k + 10)"
      by (auto simp: default_pool.hosts_def default_host_def)
    then show ?thesis by (intro exI [of _ "k + 10"]) simp
  qed
  moreover have "\<exists>a. default_address md5 name prefix used = Inr a" if "finite used" "card used < 244"
  proof -
    have "card (used \<inter> default_pool.hosts prefix) < 244"
      using that card_mono [OF that(1), of "used \<inter> default_pool.hosts prefix"] by simp
    from default_pool.scan_finds [OF TrueI that(1) this, of ?start] show ?thesis
      by (auto simp: default_address_def)
  qed
  ultimately show ?thesis by blast
qed

theorem default_address_correct_witness:
  "\<exists>a. default_address (\<lambda>_. ''0000'') ''a'' ''192.168.100'' {''192.168.100.10''} = Inr a \<and> a \<noteq> ''192.168.100.10''"
proof -
  have "finite {''192.168.100.10''} \<and> card {''192.168.100.10''} < 244" by simp
  then obtain a where "default_address (\<lambda>_. ''0000'') ''a'' ''192.168.100'' {''192.168.100.10''} = Inr a"
    using default_address_correct by blast
  then show ?thesis using default_address_correct by blast
qed

end
