(* ===== verification/AddrAlloc.thy ===== *)
theory AddrAlloc
  imports NicNetwork
begin

text \<open>
  \<^verbatim>\<open>ltvm_pkg/nic_allocation.py\<close>, \<^verbatim>\<open>nic_cmdline.py\<close> and the allocator of
  \<^verbatim>\<open>vm_net.py\<close>: the addresses a new VM gets, under the allocation lock, in both
  families.  \<open>peers\<close> is the listing of the state directory the lock holder took, \<open>dir\<close> the
  directory it then reads (a VM can be destroyed in between, so a listed name may have no
  file).  Python sets of addresses are HOL sets.
\<close>

subsection \<open>Errors\<close>

datatype explicit_error = ExplNotIPv4 string | ExplOutside string | ExplGateway string | ExplReserved string

datatype alloc_error =
    AllocSubnetClash string
  | AllocBadNet string
  | AllocProblem net_problem
  | AllocPeer load_error
  | AllocPeerIp6 string
  | AllocExplicit explicit_error
  | AllocExplicitUsed string
  | AllocPool pool_error
  | AllocIp6 ip6_error
  | AllocBadIp6 string
  | AllocIp6Used string
  | AllocCount

definition map_err :: "('e \<Rightarrow> 'f) \<Rightarrow> ('e, 'a) result \<Rightarrow> ('f, 'a) result" where
  "map_err f r = (case r of Inl e \<Rightarrow> Inl (f e) | Inr x \<Rightarrow> Inr x)"

lemma map_err_simps [simp]: "map_err f (Inl e) = Inl (f e)" "map_err f (Inr x) = Inr x"
  by (simp_all add: map_err_def)

lemma map_err_eq_Inr [simp]: "map_err f r = Inr x \<longleftrightarrow> r = Inr x"
  by (cases r) auto

subsection \<open>The host's defaults and the layout check\<close>

definition data_defaults :: "host_nets \<Rightarrow> (alloc_error, string \<times> string \<times> string) result" where
  "data_defaults h =
     res_bind (map_err AllocSubnetClash (subnet_for_nic h 0)) (\<lambda>s0.
     res_bind (map_err AllocSubnetClash (subnet_for_nic h 1)) (\<lambda>s1.
       Inr (s0 @ ''.0/24'', s1 @ ''.0/24'', EXTRA_SUBNET6 h @ ''::/64'')))"

definition nic_network_problem :: "host_nets \<Rightarrow> nicspec list \<Rightarrow> (alloc_error, net_problem option) result" where
  "nic_network_problem h nics =
     (if nics = [] then Inr None
      else res_bind (data_defaults h) (\<lambda>(management, default4, default6).
             map_err AllocBadNet (network_problem nics management default4 default6)))"

subsection \<open>What the other VMs hold\<close>

record stored_state =
  st_used4 :: "string set"
  st_used6 :: "string set"
  st_subnets4 :: "string list"
  st_subnets6 :: "string list"

definition vm_ips :: "vminfo \<Rightarrow> string list" where
  "vm_ips vm = filter (\<lambda>ip. ip \<noteq> []) (vm_ip vm # vm_nic_ips vm)"

definition canon6 :: "string \<Rightarrow> (alloc_error, string) result" where
  "canon6 ip = (case ip6_canon ip of None \<Rightarrow> Inl (AllocPeerIp6 ip) | Some c \<Rightarrow> Inr c)"

definition add_peer :: "vminfo \<Rightarrow> stored_state \<Rightarrow> (alloc_error, stored_state) result" where
  "add_peer vm st =
     res_map (\<lambda>ip6s. \<lparr>st_used4 = st_used4 st \<union> set (vm_ips vm), st_used6 = st_used6 st \<union> set ip6s,
                 st_subnets4 = st_subnets4 st @ filter (\<lambda>s. s \<noteq> []) (map nic_subnet (vm_nics vm)),
                 st_subnets6 = st_subnets6 st @ filter (\<lambda>s. s \<noteq> []) (map nic_subnet6 (vm_nics vm))\<rparr>)
       (res_list canon6 (filter (\<lambda>ip. ip \<noteq> []) (vm_nic_ip6s vm)))"

fun stored_peers :: "sockets \<Rightarrow> string \<Rightarrow> string list \<Rightarrow> stored_state \<Rightarrow> (alloc_error, stored_state) result" where
  "stored_peers dir name [] st = Inr st"
| "stored_peers dir name (peer # peers) st =
     (if peer = name then stored_peers dir name peers st
      else case vm_load dir peer of
          Inl (VMNotFound _) \<Rightarrow> stored_peers dir name peers st
        | Inl e \<Rightarrow> Inl (AllocPeer e)
        | Inr vm \<Rightarrow> res_bind (add_peer vm st) (stored_peers dir name peers))"

definition stored_address_state :: "sockets \<Rightarrow> string list \<Rightarrow> string \<Rightarrow> (alloc_error, stored_state) result" where
  "stored_address_state dir peers name =
     stored_peers dir name peers \<lparr>st_used4 = {}, st_used6 = {}, st_subnets4 = [], st_subnets6 = []\<rparr>"

subsection \<open>An explicit management address\<close>

definition validate_explicit_ip :: "host_nets \<Rightarrow> string \<Rightarrow> (alloc_error, unit) result" where
  "validate_explicit_ip h ip =
     (case ip4_int ip of
        None \<Rightarrow> Inl (AllocExplicit (ExplNotIPv4 ip))
      | Some addr \<Rightarrow>
          res_bind (map_err AllocSubnetClash (subnet_for_nic h 0)) (\<lambda>mgmt.
            case net_of_version 4 True (mgmt @ ''.0/24'') of
              Inl _ \<Rightarrow> Inl (AllocBadNet (mgmt @ ''.0/24''))
            | Inr net \<Rightarrow>
                if \<not> in_net net 4 addr then Inl (AllocExplicit (ExplOutside ip))
                else if ip = mgmt @ ''.1'' then Inl (AllocExplicit (ExplGateway ip))
                else if addr = net_address net \<or> addr = broadcast_address net
                then Inl (AllocExplicit (ExplReserved ip))
                else Inr ()))"

subsection \<open>Allocation with configured subnets\<close>

fun alloc_nics :: "(string \<Rightarrow> string) \<Rightarrow> host_nets \<Rightarrow> string \<Rightarrow> nat \<Rightarrow> (nicspec \<times> ipnet \<times> ipnet) list
    \<Rightarrow> string set \<Rightarrow> string set \<Rightarrow> (alloc_error, string list \<times> string list) result" where
  "alloc_nics md5 h name idx [] used4 used6 = Inr ([], [])"
| "alloc_nics md5 h name idx ((nic, net4, net6) # rest) used4 used6 =
     res_bind
       (if nic_subnet nic \<noteq> [] then map_err AllocPool (select_address md5 name net4 used4)
        else res_bind (map_err AllocSubnetClash (subnet_for_nic h (idx + 1)))
               (\<lambda>s. map_err AllocPool (default_address md5 name s used4)))
       (\<lambda>address.
     res_bind
       (if nic_subnet6 nic \<noteq> [] then map_err AllocPool (select_address md5 name net6 used6)
        else map_err AllocIp6 (nic_ip6 (EXTRA_SUBNET6 h) address))
       (\<lambda>address6.
     case ip6_canon address6 of
       None \<Rightarrow> Inl (AllocBadIp6 address6)
     | Some canonical6 \<Rightarrow>
         if canonical6 \<in> used6 then Inl (AllocIp6Used address6)
         else res_map (\<lambda>(ips, ip6s). (address # ips, address6 # ip6s))
                (alloc_nics md5 h name (idx + 1) rest (insert address used4) (insert canonical6 used6))))"

definition first_problem :: "string list \<Rightarrow> ipnet list \<Rightarrow> (alloc_error, unit) result" where
  "first_problem stored nets =
     res_bind (map_err AllocBadNet (res_list parse_net stored)) (\<lambda>ns.
       case overlap_problem (ns @ nets) of None \<Rightarrow> Inr () | Some p \<Rightarrow> Inl (AllocProblem p))"

definition primary_address :: "(string \<Rightarrow> string) \<Rightarrow> host_nets \<Rightarrow> string \<Rightarrow> string set
    \<Rightarrow> string option \<Rightarrow> (alloc_error, string) result" where
  "primary_address md5 h name used4 explicit_ip =
     (let ip = get_or [] explicit_ip
      in if ip \<noteq> [] then
           res_bind (validate_explicit_ip h ip) (\<lambda>_.
             if ip \<in> used4 then Inl (AllocExplicitUsed ip) else Inr ip)
         else res_bind (map_err AllocSubnetClash (subnet_for_nic h 0))
                (\<lambda>s. map_err AllocPool (default_address md5 name s used4)))"

definition alloc_vm_addresses :: "(string \<Rightarrow> string) \<Rightarrow> host_nets \<Rightarrow> sockets \<Rightarrow> string list \<Rightarrow> string
    \<Rightarrow> nicspec list \<Rightarrow> string option \<Rightarrow> (alloc_error, string list \<times> string list) result" where
  "alloc_vm_addresses md5 h dir peers name nics explicit_ip =
     res_bind (nic_network_problem h nics) (\<lambda>problem.
     case problem of Some p \<Rightarrow> Inl (AllocProblem p) | None \<Rightarrow>
     res_bind (data_defaults h) (\<lambda>(_, default4, default6).
     res_bind (map_err AllocBadNet (data_networks nics default4 default6)) (\<lambda>(nets4, nets6).
     res_bind (stored_address_state dir peers name) (\<lambda>st.
     res_bind (first_problem (default4 # st_subnets4 st) nets4) (\<lambda>_.
     res_bind (first_problem (default6 # st_subnets6 st) nets6) (\<lambda>_.
     res_bind (primary_address md5 h name (st_used4 st) explicit_ip)
       (\<lambda>primary.
     res_map (\<lambda>(ips, ip6s). (primary # ips, ip6s))
       (alloc_nics md5 h name 0 (zip nics (zip nets4 nets6)) (insert primary (st_used4 st)) (st_used6 st)))))))))"

subsection \<open>Allocation from the default pools\<close>

definition net_of :: "string \<Rightarrow> string" where
  "net_of ip = rsplit_dot ip"

definition file_ip :: "(string \<Rightarrow> string set) \<Rightarrow> string \<Rightarrow> (string \<Rightarrow> string set)" where
  "file_ip used ip = used(net_of ip := insert ip (used (net_of ip)))"

fun used_ips_by_net :: "sockets \<Rightarrow> string \<Rightarrow> string list \<Rightarrow> (string \<Rightarrow> string set)" where
  "used_ips_by_net dir exclude_name [] = (\<lambda>_. {})"
| "used_ips_by_net dir exclude_name (n # ns) =
     (let used = used_ips_by_net dir exclude_name ns
      in if n = exclude_name then used
         else case vm_load dir n of
             Inl _ \<Rightarrow> used
           | Inr vm \<Rightarrow> fold (\<lambda>ip u. file_ip u ip) (vm_ips vm) used)"

fun alloc_octets :: "(string \<Rightarrow> string) \<Rightarrow> host_nets \<Rightarrow> string \<Rightarrow> nat list \<Rightarrow> (string \<Rightarrow> string set)
    \<Rightarrow> (alloc_error, string list) result" where
  "alloc_octets md5 h name [] used = Inr []"
| "alloc_octets md5 h name (idx # rest) used =
     res_bind (map_err AllocSubnetClash (subnet_for_nic h idx)) (\<lambda>subnet.
     res_bind (map_err AllocPool (default_address md5 name subnet (used subnet))) (\<lambda>ip.
       res_map (Cons ip) (alloc_octets md5 h name rest (used(subnet := insert ip (used subnet))))))"

definition alloc_ip :: "(string \<Rightarrow> string) \<Rightarrow> host_nets \<Rightarrow> sockets \<Rightarrow> string list \<Rightarrow> string \<Rightarrow> nat
    \<Rightarrow> string option \<Rightarrow> (alloc_error, string list) result" where
  "alloc_ip md5 h dir peers name count explicit_ip =
     (if count < 1 then Inl AllocCount
      else
        let used = used_ips_by_net dir name peers; ip = get_or [] explicit_ip
        in if ip \<noteq> [] then
             res_bind (validate_explicit_ip h ip) (\<lambda>_.
               if ip \<in> used (net_of ip) then Inl (AllocExplicitUsed ip)
               else res_map (Cons ip) (alloc_octets md5 h name [1..<count] (file_ip used ip)))
           else alloc_octets md5 h name [0..<count] used)"

text \<open>\<^verbatim>\<open>vm_commands._create_addresses\<close>: the allocator a create uses.\<close>

definition create_addresses :: "(string \<Rightarrow> string) \<Rightarrow> host_nets \<Rightarrow> sockets \<Rightarrow> string list \<Rightarrow> string
    \<Rightarrow> nicspec list \<Rightarrow> string option \<Rightarrow> (alloc_error, string list \<times> string list) result" where
  "create_addresses md5 h dir peers name nics explicit_ip =
     (if list_ex (\<lambda>n. nic_subnet n \<noteq> [] \<or> nic_subnet6 n \<noteq> []) nics
      then alloc_vm_addresses md5 h dir peers name nics explicit_ip
      else
        res_bind (alloc_ip md5 h dir peers name (1 + length nics) explicit_ip) (\<lambda>ips.
          res_map (Pair ips) (map_err AllocIp6 (res_list (nic_ip6 (EXTRA_SUBNET6 h)) (tl ips)))))"

subsection \<open>Kernel command-line values\<close>

definition PREFIX_LEN :: nat where "PREFIX_LEN = 24"

definition PREFIX_LEN6 :: nat where "PREFIX_LEN6 = 64"

definition nic_prefix :: "vminfo \<Rightarrow> bool \<Rightarrow> nat \<Rightarrow> (string, string) result" where
  "nic_prefix vm ipv6 index =
     (let subnet = (if index < length (vm_nics vm) then
            (if ipv6 then nic_subnet6 (vm_nics vm ! index) else nic_subnet (vm_nics vm ! index)) else [])
      in if subnet \<noteq> [] then res_map (\<lambda>n. str_nat (net_prefixlen n)) (parse_net subnet)
         else Inr (str_nat (if ipv6 then PREFIX_LEN6 else PREFIX_LEN)))"

definition prefixes :: "vminfo \<Rightarrow> bool \<Rightarrow> (string, string) result" where
  "prefixes vm ipv6 =
     res_map (join '','')
       (res_list (nic_prefix vm ipv6) [0..<length (if ipv6 then vm_nic_ip6s vm else vm_nic_ips vm)])"

definition network_names :: "vminfo \<Rightarrow> string" where
  "network_names vm =
     (if \<not> list_ex (\<lambda>n. nic_net n \<noteq> []) (vm_nics vm) then []
      else '' fc_nic_nets='' @ join '','' (map nic_net (vm_nics vm)))"

subsection \<open>Freshness\<close>

lemma default_address_host:
  assumes "default_address md5 name prefix used = Inr a"
  shows "a \<notin> used" and "\<exists>k. a = default_host prefix k"
  using assms default_pool.scan_fresh [of prefix "hex_val (take 4 (md5 name)) mod 244" used a]
  by (auto simp: default_address_def default_pool.hosts_def split: option.splits)

lemma select_address_fresh: "select_address md5 name n used = Inr a \<Longrightarrow> a \<notin> used"
  using network_pool.scan_fresh [of n "hex_val (take 8 (md5 name)) mod pool_count n" used a]
  by (auto simp: select_address_def Let_def split: option.splits if_splits)

lemma res_list_Inr_mem: "res_list f xs = Inr ys \<Longrightarrow> x \<in> set xs \<Longrightarrow> \<exists>y \<in> set ys. f x = Inr y"
  by (induction xs arbitrary: ys) (auto split: sum.splits)

lemmas res_eqs = res_bind_eq_Inr res_map_eq_Inr

lemma add_peer_used:
  assumes "add_peer vm st = Inr st'"
  shows "st_used4 st' = st_used4 st \<union> set (vm_ips vm)" "st_used6 st \<subseteq> st_used6 st'"
    "\<And>ip. ip \<in> set (vm_nic_ip6s vm) \<Longrightarrow> ip \<noteq> [] \<Longrightarrow> \<exists>c \<in> st_used6 st'. ip6_canon ip = Some c"
proof -
  obtain cs where cs: "res_list canon6 (filter (\<lambda>ip. ip \<noteq> []) (vm_nic_ip6s vm)) = Inr cs"
    and st': "st_used4 st' = st_used4 st \<union> set (vm_ips vm)" "st_used6 st' = st_used6 st \<union> set cs"
    using assms by (auto simp: add_peer_def res_eqs)
  from st' show "st_used4 st' = st_used4 st \<union> set (vm_ips vm)" "st_used6 st \<subseteq> st_used6 st'" by auto
  fix ip assume "ip \<in> set (vm_nic_ip6s vm)" "ip \<noteq> []"
  then have "ip \<in> set (filter (\<lambda>ip. ip \<noteq> []) (vm_nic_ip6s vm))" by simp
  from res_list_Inr_mem [OF cs this] obtain c where "c \<in> set cs" "canon6 ip = Inr c" by blast
  with st' show "\<exists>c \<in> st_used6 st'. ip6_canon ip = Some c"
    by (auto simp: canon6_def split: option.splits)
qed

text \<open>Everything a readable peer holds is in the state the allocator reads.\<close>

definition covers :: "vminfo \<Rightarrow> stored_state \<Rightarrow> bool" where
  "covers vm st \<longleftrightarrow> set (vm_ips vm) \<subseteq> st_used4 st \<and>
     (\<forall>ip \<in> set (vm_nic_ip6s vm). ip \<noteq> [] \<longrightarrow> (\<exists>c \<in> st_used6 st. ip6_canon ip = Some c))"

lemma covers_mono: "covers vm st \<Longrightarrow> st_used4 st \<subseteq> st_used4 st' \<Longrightarrow> st_used6 st \<subseteq> st_used6 st' \<Longrightarrow> covers vm st'"
  unfolding covers_def by blast

lemma add_peer_covers:
  "add_peer vm st = Inr st' \<Longrightarrow> covers vm st' \<and> st_used4 st \<subseteq> st_used4 st' \<and> st_used6 st \<subseteq> st_used6 st'"
  using add_peer_used [of vm st st'] by (simp add: covers_def)

lemma stored_peers_cover:
  "stored_peers dir name peers st = Inr st' \<Longrightarrow>
     st_used4 st \<subseteq> st_used4 st' \<and> st_used6 st \<subseteq> st_used6 st' \<and>
     (\<forall>p vm. p \<in> set peers \<and> p \<noteq> name \<and> vm_load dir p = Inr vm \<longrightarrow> covers vm st')"
proof (induction peers arbitrary: st)
  case (Cons peer peers)
  show ?case
  proof (cases "peer = name")
    case True
    with Cons show ?thesis by auto
  next
    case False
    show ?thesis
    proof (cases "vm_load dir peer")
      case (Inr vm)
      then obtain st1 where st1: "add_peer vm st = Inr st1" "stored_peers dir name peers st1 = Inr st'"
        using Cons.prems False by (auto simp: res_eqs)
      from add_peer_covers [OF st1(1)] Cons.IH [OF st1(2)]
      have "covers vm st'" "st_used4 st \<subseteq> st_used4 st'" "st_used6 st \<subseteq> st_used6 st'"
        by (auto intro: covers_mono)
      with Inr Cons.IH [OF st1(2)] show ?thesis by auto
    next
      case (Inl e)
      with Cons.prems False obtain n where "e = VMNotFound n" by (cases e) auto
      with Cons.prems False Inl have "stored_peers dir name peers st = Inr st'" by simp
      from Cons.IH [OF this] Inl show ?thesis by auto
    qed
  qed
qed simp

lemma alloc_nics_fresh:
  "alloc_nics md5 h name idx items used4 used6 = Inr (ips, ip6s) \<Longrightarrow>
    length ips = length items \<and> length ip6s = length items \<and>
    distinct ips \<and> set ips \<inter> used4 = {} \<and>
    (\<exists>cs. map ip6_canon ip6s = map Some cs \<and> distinct cs \<and> set cs \<inter> used6 = {})"
proof (induction items arbitrary: idx used4 used6 ips ip6s)
  case (Cons item rest)
  obtain nic net4 net6 where item: "item = (nic, net4, net6)" by (metis prod_cases3)
  from Cons.prems [unfolded item] obtain a a6 c js js6 where
    a: "a \<notin> used4" and c: "ip6_canon a6 = Some c" "c \<notin> used6"
    and rest: "alloc_nics md5 h name (idx + 1) rest (insert a used4) (insert c used6) = Inr (js, js6)"
    and eq: "ips = a # js" "ip6s = a6 # js6"
    by (auto simp: res_eqs split: option.splits if_splits dest: default_address_host select_address_fresh)
  from Cons.IH [OF rest] obtain cs where "map ip6_canon js6 = map Some cs" "distinct cs" "set cs \<inter> insert c used6 = {}"
    by blast
  with c eq have "map ip6_canon ip6s = map Some (c # cs) \<and> distinct (c # cs) \<and> set (c # cs) \<inter> used6 = {}" by auto
  moreover have "length ips = length (item # rest) \<and> length ip6s = length (item # rest) \<and>
      distinct ips \<and> set ips \<inter> used4 = {}"
    using Cons.IH [OF rest] a eq by auto
  ultimately show ?case by blast
qed simp

lemma rsplit_dot_append: "CHR ''.'' \<notin> set w \<Longrightarrow> rsplit_dot (p @ ''.'' @ w) = p"
proof -
  assume "CHR ''.'' \<notin> set w"
  then have "dropWhile (\<lambda>c. c \<noteq> CHR ''.'') (rev w @ CHR ''.'' # rev p) = CHR ''.'' # rev p"
    by (subst dropWhile_append2) auto
  then show ?thesis by (simp add: rsplit_dot_def)
qed

lemma net_of_default_host [simp]: "net_of (default_host p k) = p"
  unfolding net_of_def default_host_def
  by (rule rsplit_dot_append, rule str_nat_no) (simp add: isdecimal_def)

lemma file_ip_mono: "ip \<in> u n \<Longrightarrow> ip \<in> file_ip u a n"
  by (auto simp: file_ip_def)

lemma file_ip_files: "ip \<in> file_ip u ip (net_of ip)"
  by (simp add: file_ip_def)

lemma used_by_net_mono: "ip \<in> u n \<Longrightarrow> ip \<in> fold (\<lambda>ip u. file_ip u ip) ips u n"
  by (induction ips arbitrary: u) (auto intro: file_ip_mono)

lemma used_by_net_files: "ip \<in> set ips \<Longrightarrow> ip \<in> fold (\<lambda>ip u. file_ip u ip) ips u (net_of ip)"
  by (induction ips arbitrary: u) (auto intro: used_by_net_mono file_ip_files)

lemma used_ips_by_net_peer:
  "p \<in> set peers \<Longrightarrow> p \<noteq> name \<Longrightarrow> vm_load dir p = Inr vm \<Longrightarrow> ip \<in> set (vm_ips vm) \<Longrightarrow>
     ip \<in> used_ips_by_net dir name peers (net_of ip)"
  by (induction peers) (auto simp: Let_def used_by_net_files intro: used_by_net_mono split: sum.split)

lemma alloc_octets_fresh:
  "alloc_octets md5 h name idxs used = Inr ips \<Longrightarrow>
     length ips = length idxs \<and> distinct ips \<and> (\<forall>ip \<in> set ips. ip \<notin> used (net_of ip))"
proof (induction idxs arbitrary: used ips)
  case (Cons idx rest)
  from Cons.prems obtain subnet ip js where
    ip: "default_address md5 name subnet (used subnet) = Inr ip"
    and rest: "alloc_octets md5 h name rest (used(subnet := insert ip (used subnet))) = Inr js"
    and eq: "ips = ip # js"
    by (auto simp: res_eqs)
  from default_address_host [OF ip] have "ip \<notin> used subnet" "net_of ip = subnet" by auto
  moreover have "x \<noteq> ip \<and> x \<notin> used (net_of x)" if "x \<in> set js" for x
  proof -
    from Cons.IH [OF rest] that have "x \<notin> (used(subnet := insert ip (used subnet))) (net_of x)" by blast
    with \<open>net_of ip = subnet\<close> show ?thesis by (cases "net_of x = subnet") auto
  qed
  ultimately show ?case using Cons.IH [OF rest] eq by auto
qed simp

text \<open>The default allocator: as many addresses as asked for, all different, none held by a
  VM it could read, an explicit one first.\<close>

lemma alloc_ip_fresh:
  assumes "alloc_ip md5 h dir peers name count explicit_ip = Inr ips"
  shows "length ips = count \<and> distinct ips \<and>
    (\<forall>ip \<in> set ips. ip \<notin> used_ips_by_net dir name peers (net_of ip))"
proof -
  let ?used = "used_ips_by_net dir name peers"
  from assms consider (auto) "alloc_octets md5 h name [0..<count] ?used = Inr ips"
    | (expl) ip js where "ip \<notin> ?used (net_of ip)" "ips = ip # js" "1 \<le> count"
        "alloc_octets md5 h name [1..<count] (file_ip ?used ip) = Inr js"
    by (auto simp: alloc_ip_def Let_def res_eqs split: if_splits)
  then show ?thesis
  proof cases
    case auto
    from alloc_octets_fresh [OF this] show ?thesis by simp
  next
    case expl
    have "x \<noteq> ip \<and> x \<notin> ?used (net_of x)" if "x \<in> set js" for x
    proof -
      from alloc_octets_fresh [OF expl(4)] that have "x \<notin> file_ip ?used ip (net_of x)" by blast
      then show ?thesis using file_ip_mono file_ip_files by metis
    qed
    with alloc_octets_fresh [OF expl(4)] expl(1-3) show ?thesis by auto
  qed
qed

lemma primary_address_fresh: "primary_address md5 h name used4 explicit_ip = Inr ip \<Longrightarrow> ip \<notin> used4"
  by (auto simp: primary_address_def Let_def res_eqs split: if_splits dest: default_address_host)

lemma alloc_vm_addresses_fresh:
  assumes "alloc_vm_addresses md5 h dir peers name nics explicit_ip = Inr (ips, ip6s)"
  shows "length ips = 1 + length nics" "length ip6s = length nics" "distinct ips"
    "\<And>p vm. p \<in> set peers \<Longrightarrow> p \<noteq> name \<Longrightarrow> vm_load dir p = Inr vm \<Longrightarrow> set ips \<inter> set (vm_ips vm) = {}"
    "\<exists>cs. map ip6_canon ip6s = map Some cs \<and> distinct cs \<and>
       (\<forall>p vm ip. p \<in> set peers \<and> p \<noteq> name \<and> vm_load dir p = Inr vm \<and> ip \<in> set (vm_nic_ip6s vm) \<and> ip \<noteq> []
          \<longrightarrow> (\<exists>c. ip6_canon ip = Some c \<and> c \<notin> set cs))"
proof -
  from assms obtain d4 d6 nets4 nets6 st primary js where
    nets: "data_networks nics d4 d6 = Inr (nets4, nets6)"
    and st: "stored_address_state dir peers name = Inr st" and primary: "primary \<notin> st_used4 st"
    and alloc: "alloc_nics md5 h name 0 (zip nics (zip nets4 nets6)) (insert primary (st_used4 st)) (st_used6 st) = Inr (js, ip6s)"
    and ips: "ips = primary # js"
    by (auto simp: alloc_vm_addresses_def res_eqs split: option.splits dest: primary_address_fresh)
  have len: "length (zip nics (zip nets4 nets6)) = length nics"
    using data_networks_wf(1,2) [OF nets] by simp
  from alloc_nics_fresh [OF alloc, unfolded len] obtain cs where
    js: "length js = length nics" "length ip6s = length nics" "distinct js" "set js \<inter> insert primary (st_used4 st) = {}"
    and cs: "map ip6_canon ip6s = map Some cs" "distinct cs" "set cs \<inter> st_used6 st = {}" by blast
  from js ips primary show "length ips = 1 + length nics" "length ip6s = length nics" "distinct ips" by auto
  have cover: "covers vm st" if "p \<in> set peers" "p \<noteq> name" "vm_load dir p = Inr vm" for p vm
    using stored_peers_cover [OF st [unfolded stored_address_state_def]] that by blast
  show "set ips \<inter> set (vm_ips vm) = {}" if "p \<in> set peers" "p \<noteq> name" "vm_load dir p = Inr vm" for p vm
    using cover [OF that] ips primary js by (auto simp: covers_def)
  have "\<exists>c. ip6_canon ip = Some c \<and> c \<notin> set cs" if "p \<in> set peers" "p \<noteq> name" "vm_load dir p = Inr vm"
    "ip \<in> set (vm_nic_ip6s vm)" "ip \<noteq> []" for p vm ip
    using cover [OF that(1-3)] that(4,5) cs(3) unfolding covers_def by blast
  with cs show "\<exists>cs. map ip6_canon ip6s = map Some cs \<and> distinct cs \<and>
       (\<forall>p vm ip. p \<in> set peers \<and> p \<noteq> name \<and> vm_load dir p = Inr vm \<and> ip \<in> set (vm_nic_ip6s vm) \<and> ip \<noteq> []
          \<longrightarrow> (\<exists>c. ip6_canon ip = Some c \<and> c \<notin> set cs))"
    by blast
qed

text \<open>
  C3.  The addresses of a create with configured subnets: one for the management NIC and
  one per extra NIC in each family, all different, none of them held by another VM of the
  directory, the IPv6 ones compared in canonical form.
\<close>

theorem alloc_vm_addresses_unique:
  assumes "alloc_vm_addresses md5 h dir peers name nics explicit_ip = Inr (ips, ip6s)"
  shows "length ips = 1 + length nics \<and> length ip6s = length nics \<and> distinct ips \<and>
    (\<exists>cs. map ip6_canon ip6s = map Some cs \<and> distinct cs \<and>
      (\<forall>p vm. p \<in> set peers \<and> p \<noteq> name \<and> vm_load dir p = Inr vm \<longrightarrow>
         set ips \<inter> set (vm_ips vm) = {} \<and>
         (\<forall>ip \<in> set (vm_nic_ip6s vm). ip \<noteq> [] \<longrightarrow> (\<exists>c. ip6_canon ip = Some c \<and> c \<notin> set cs))))"
  using alloc_vm_addresses_fresh [OF assms] by blast

definition host_example :: host_nets where
  "host_example = \<lparr>SUBNET = ''192.168.100'', EXTRA_SUBNET = ''172.16.100'', EXTRA_SUBNET6 = ''fd17:2016:1000:f100''\<rparr>"

definition nic_subnet_example :: nicspec where
  "nic_subnet_example = \<lparr>nic_type = ''tcp'', nic_bdf = [], nic_node = None, nic_net = [],
     nic_subnet = ''10.1.0.0/16'', nic_subnet6 = []\<rparr>"

definition md5_example :: "string \<Rightarrow> string" where
  "md5_example name = ''0000000a''"

lemma alloc_example:
  "alloc_vm_addresses md5_example host_example Map.empty [] ''a'' [nic_subnet_example] None =
     Inr ([''192.168.100.10'', ''10.1.0.11''], [''fd17:2016:1000:f100:f010:f001:f000:f011''])"
  by code_simp

theorem alloc_vm_addresses_unique_witness:
  "distinct [''192.168.100.10'', ''10.1.0.11''] \<and> length [''10.1.0.11''] = length [nic_subnet_example]"
  using alloc_vm_addresses_unique [OF alloc_example] by simp

lemma create_addresses_fresh:
  assumes "create_addresses md5 h dir peers name nics explicit_ip = Inr (ips, ip6s)"
  shows "length ips = 1 + length nics \<and> length ip6s = length nics \<and> distinct ips \<and>
    (\<forall>p vm. p \<in> set peers \<and> p \<noteq> name \<and> vm_load dir p = Inr vm \<longrightarrow> set ips \<inter> set (vm_ips vm) = {})"
proof (cases "list_ex (\<lambda>n. nic_subnet n \<noteq> [] \<or> nic_subnet6 n \<noteq> []) nics")
  case True
  with assms have alloc: "alloc_vm_addresses md5 h dir peers name nics explicit_ip = Inr (ips, ip6s)"
    by (simp add: create_addresses_def)
  show ?thesis using alloc_vm_addresses_fresh(1-4) [OF alloc] by blast
next
  case False
  with assms have alloc: "alloc_ip md5 h dir peers name (1 + length nics) explicit_ip = Inr ips"
    and "res_list (nic_ip6 (EXTRA_SUBNET6 h)) (tl ips) = Inr ip6s"
    by (auto simp: create_addresses_def res_eqs)
  with alloc_ip_fresh [OF alloc] used_ips_by_net_peer show ?thesis
    by (auto dest: res_list_Inr_length)
qed

text \<open>
  C10.  The addresses of any create, with configured subnets or from the default pools:
  as many as NICs, all different, and none held by another VM whose state could be read.
\<close>

theorem create_addresses_unique:
  assumes "create_addresses md5 h dir peers name nics explicit_ip = Inr (ips, ip6s)"
  shows "length ips = 1 + length nics \<and> length ip6s = length nics \<and> distinct ips \<and>
    (\<forall>p vm. p \<in> set peers \<and> p \<noteq> name \<and> vm_load dir p = Inr vm \<longrightarrow> set ips \<inter> set (vm_ips vm) = {})"
  using create_addresses_fresh [OF assms] .

lemma create_example:
  "create_addresses md5_example host_example Map.empty [] ''a'' [nic_subnet_example\<lparr>nic_subnet := []\<rparr>] None =
     Inr ([''192.168.100.10'', ''172.16.100.10''], [''fd17:2016:1000:f100:f172:f016:f100:f010''])"
  by code_simp

theorem create_addresses_unique_witness:
  "distinct [''192.168.100.10'', ''172.16.100.10'']"
  using create_addresses_unique [OF create_example] by simp

definition dir_corrupt :: sockets where
  "dir_corrupt = [''b'' \<mapsto> ''IP=192.168.100.10'' @ [CHR 0x0A] @ ''PID=x'' @ [CHR 0x0A]]"

text \<open>
  A VM whose record cannot be read is skipped by the default allocator: its address
  goes back into the pool, and another VM's create hands it out.
\<close>

theorem alloc_ip_reuses_corrupt:
  "vm_load dir_corrupt ''b'' = Inl (LoadInt ''PID'' ''x'') \<and>
   alloc_ip md5_example host_example dir_corrupt [''b''] ''a'' 1 None = Inr [''192.168.100.10'']"
  by code_simp

end
