(* ===== verification/NameReg.thy ===== *)
theory NameReg
  imports VmState
begin

text \<open>
  The name registry of \<^verbatim>\<open>ltvm_pkg/vm_net.py\<close>: a VM's line in \<^verbatim>\<open>/etc/hosts\<close> and its block
  in \<^verbatim>\<open>~/.ssh/config\<close>, rewritten whole under the hosts lock, and the names of its TAP
  devices and its MAC addresses.  Files are texts; which of the shared \<^verbatim>\<open>hosts.d\<close> entry
  and \<^verbatim>\<open>/etc/hosts\<close> is written depends on privileges and is outside this theory.
\<close>

subsection \<open>Lines with their ends\<close>

text \<open>\<^verbatim>\<open>s.splitlines(keepends=True)\<close>.\<close>

fun keep_aux :: "string \<Rightarrow> string \<Rightarrow> string list" where
  "keep_aux acc [] = (if acc = [] then [] else [rev acc])"
| "keep_aux acc [c] = [rev (c # acc)]"
| "keep_aux acc (c # d # cs) =
     (if c = CHR 0x0D \<and> d = CHR 0x0A then rev (d # c # acc) # keep_aux [] cs
      else if islinebreak c then rev (c # acc) # keep_aux [] (d # cs)
      else keep_aux (c # acc) (d # cs))"

definition splitlines_keep :: "string \<Rightarrow> string list" where
  "splitlines_keep s = keep_aux [] s"

definition rstrip_crlf :: "string \<Rightarrow> string" where
  "rstrip_crlf s = rev (dropWhile (\<lambda>c. c = CHR 0x0A \<or> c = CHR 0x0D) (rev s))"

subsection \<open>The hosts file\<close>

definition MARKER :: string where
  "MARKER = ''# qemu-vm''"

definition marker_line :: "string \<Rightarrow> string" where
  "marker_line name = MARKER @ '':'' @ name"

definition hosts_entry :: "string \<Rightarrow> string \<Rightarrow> string" where
  "hosts_entry name ip = ip @ [CHR 0x09] @ name @ '' '' @ marker_line name"

definition end_last_line :: "string list \<Rightarrow> string list" where
  "end_last_line lines =
     (if lines \<noteq> [] \<and> \<not> endswith (last lines) [CHR 0x0A]
      then butlast lines @ [last lines @ [CHR 0x0A]] else lines)"

definition register_etc_hosts :: "string \<Rightarrow> string \<Rightarrow> string \<Rightarrow> string" where
  "register_etc_hosts name ip hosts_text =
     (let filtered = filter (\<lambda>ln. \<not> endswith (rstrip_char CHR 0x0A ln) (marker_line name))
            (splitlines_keep (universal_newlines hosts_text))
      in concat (end_last_line filtered) @ hosts_entry name ip @ [CHR 0x0A])"

definition unregister_etc_hosts :: "string \<Rightarrow> string \<Rightarrow> string" where
  "unregister_etc_hosts name hosts_text =
     concat (filter (\<lambda>ln. \<not> endswith (rstrip_crlf ln) (marker_line name))
       (splitlines_keep (universal_newlines hosts_text)))"

text \<open>The address recorded for a name, as unregistering looks it up: the first word of
  the first line with the marker.\<close>

definition hosts_ip :: "string \<Rightarrow> string \<Rightarrow> string option" where
  "hosts_ip name hosts_text =
     (case find (\<lambda>line. endswith (rstrip_crlf line) (marker_line name))
             (splitlines (universal_newlines hosts_text)) of
        None \<Rightarrow> None
      | Some line \<Rightarrow> (case split_ws (rstrip_crlf line) of [] \<Rightarrow> None | w # _ \<Rightarrow> Some w))"

subsection \<open>The ssh configuration\<close>

definition host_line :: "string \<Rightarrow> string" where
  "host_line name = ''Host '' @ name @ '' '' @ marker_line name"

definition tab_line :: "string \<Rightarrow> string" where
  "tab_line s = CHR 0x09 # s"

definition ssh_block_lines :: "string \<Rightarrow> string \<Rightarrow> string list" where
  "ssh_block_lines name ip =
     [[], host_line name, tab_line (''HostName '' @ ip), tab_line ''User root'',
      tab_line ''StrictHostKeyChecking no'', tab_line ''UserKnownHostsFile /dev/null'',
      tab_line ''LogLevel ERROR'', tab_line ''ServerAliveInterval 5'',
      tab_line ''ServerAliveCountMax 3'', tab_line ''ConnectTimeout 5'']"

definition unlines :: "string list \<Rightarrow> string" where
  "unlines ls = concat (map (\<lambda>l. l @ [CHR 0x0A]) ls)"

text \<open>The lines kept when a host's block is dropped: the accumulator is reversed, so its
  head is the last line kept so far.\<close>

definition drop_blank :: "string list \<Rightarrow> string list" where
  "drop_blank acc = (case acc of [] # acc' \<Rightarrow> acc' | _ \<Rightarrow> acc)"

fun strip_block :: "string \<Rightarrow> bool \<Rightarrow> string list \<Rightarrow> string list \<Rightarrow> string list" where
  "strip_block name skip acc [] = rev acc"
| "strip_block name skip acc (line # ls) =
     (if contains (host_line name) line then
        strip_block name True (drop_blank acc) ls
      else if skip \<and> (startswith line [CHR 0x09] \<or> line = []) then strip_block name True acc ls
      else strip_block name False (line # acc) ls)"

definition register_ssh_config :: "string \<Rightarrow> string \<Rightarrow> string \<Rightarrow> string" where
  "register_ssh_config name ip cfg_text =
     (let stripped = strip_block name False [] (splitlines (universal_newlines cfg_text))
      in join [CHR 0x0A] stripped @ (if stripped \<noteq> [] then [CHR 0x0A] else []) @
         unlines (ssh_block_lines name ip))"

definition unregister_ssh_config :: "string \<Rightarrow> string \<Rightarrow> string" where
  "unregister_ssh_config name cfg_text =
     join [CHR 0x0A] (strip_block name False [] (splitlines (universal_newlines cfg_text))) @ [CHR 0x0A]"

subsection \<open>TAP devices and MAC addresses\<close>

text \<open>\<^verbatim>\<open>s[:n]\<close>, a negative bound counting from the end.\<close>

definition slice_to :: "int \<Rightarrow> string \<Rightarrow> string" where
  "slice_to n s = (if n \<ge> 0 then take (nat n) s else take (length s - nat (- n)) s)"

definition tap_for_name :: "(string \<Rightarrow> string) \<Rightarrow> string \<Rightarrow> string" where
  "tap_for_name md5 name = ''tap-'' @ (if length name > 11 then take 11 (md5 name) else name)"

definition extra_tap_for_name :: "(string \<Rightarrow> string) \<Rightarrow> string \<Rightarrow> nat \<Rightarrow> (nat, string) result" where
  "extra_tap_for_name md5 name idx =
     (if idx < 1 then Inl idx
      else
        let base = tap_for_name md5 name; suffix = ''-'' @ str_nat idx
        in if length base + length suffix \<le> 15 then Inr (base @ suffix)
           else Inr (''tap-'' @ slice_to (11 - int (length suffix)) (md5 (name @ ''|'' @ str_nat idx)) @ suffix))"

definition taps_for_vm :: "(string \<Rightarrow> string) \<Rightarrow> string \<Rightarrow> nat \<Rightarrow> string list" where
  "taps_for_vm md5 name extra_nics =
     tap_for_name md5 name #
     concat (map (\<lambda>idx. case extra_tap_for_name md5 name idx of Inr t \<Rightarrow> [t] | Inl _ \<Rightarrow> [])
       [1..<extra_nics + 1])"

text \<open>The first VM of the listing whose TAP names clash, with the names they share.\<close>

fun check_tap_collision :: "(string \<Rightarrow> string) \<Rightarrow> sockets \<Rightarrow> string list \<Rightarrow> string \<Rightarrow> nat
    \<Rightarrow> (string \<times> string list, unit) result" where
  "check_tap_collision md5 dir [] name extra_nics = Inr ()"
| "check_tap_collision md5 dir (other # others) name extra_nics =
     (if other = name then check_tap_collision md5 dir others name extra_nics
      else case vm_load dir other of
          Inl _ \<Rightarrow> check_tap_collision md5 dir others name extra_nics
        | Inr vm \<Rightarrow>
            let theirs = taps_for_vm md5 other (length (vm_nics vm));
                clash = filter (\<lambda>t. t \<in> set theirs) (taps_for_vm md5 name extra_nics)
            in if clash \<noteq> [] then Inl (other, clash)
               else check_tap_collision md5 dir others name extra_nics)"

definition mac_of_digest :: "string \<Rightarrow> string" where
  "mac_of_digest h =
     ''AA:FC:00:'' @ take 2 h @ '':'' @ take 2 (drop 2 h) @ '':'' @ take 2 (drop 4 h)"

definition mac_for_name :: "(string \<Rightarrow> string) \<Rightarrow> string \<Rightarrow> string" where
  "mac_for_name md5 name = mac_of_digest (md5 name)"

definition extra_mac_for_name :: "(string \<Rightarrow> string) \<Rightarrow> string \<Rightarrow> nat \<Rightarrow> (nat, string) result" where
  "extra_mac_for_name md5 name idx =
     (if idx < 1 then Inl idx else Inr (mac_of_digest (md5 (name @ ''|nic'' @ str_nat idx))))"

subsection \<open>Texts whose only line boundary is the newline\<close>

definition newline_text :: "string \<Rightarrow> bool" where
  "newline_text s \<longleftrightarrow> list_all (\<lambda>c. islinebreak c \<longrightarrow> c = CHR 0x0A) s"

lemma newline_text_parts:
  assumes "newline_text s"
  obtains ls tail where "s = unlines ls @ tail" "list_all unbroken ls" "unbroken tail"
proof -
  let ?ps = "split_on CHR 0x0A s"
  have un: "unbroken w" if "w \<in> set ?ps" for w
    using split_on_parts [OF that] assms by (auto simp: newline_text_def unbroken_def list_all_iff)
  have join_tail: "join [CHR 0x0A] (ls @ [t]) = unlines ls @ t" for ls t
  proof (induction ls)
    case (Cons l ls)
    then show ?case by (cases ls) (auto simp: unlines_def)
  qed (simp add: unlines_def)
  have "?ps = butlast ?ps @ [last ?ps]" by simp
  then have "s = unlines (butlast ?ps) @ last ?ps"
    using join_split_on [of "CHR 0x0A" s] join_tail by metis
  moreover have "list_all unbroken (butlast ?ps)" "unbroken (last ?ps)"
    using un by (auto simp: list_all_iff dest: in_set_butlastD)
  ultimately show thesis by (rule that)
qed

definition tail_line :: "string \<Rightarrow> string list" where
  "tail_line t = (if t = [] then [] else [t])"

lemma islinebreak_newline: "islinebreak CHR 0x0A"
  by (simp add: islinebreak_def)

lemma keep_aux_line:
  "unbroken w \<Longrightarrow> keep_aux acc (w @ CHR 0x0A # s) = (rev acc @ w @ [CHR 0x0A]) # keep_aux [] s"
proof (induction w arbitrary: acc)
  case Nil
  then show ?case using islinebreak_newline by (cases s) auto
next
  case (Cons c w)
  then have "\<not> islinebreak c" "c \<noteq> CHR 0x0D" by (auto simp: unbroken_def islinebreak_def)
  with Cons show ?case by (cases "w @ CHR 0x0A # s") (auto simp: unbroken_Cons)
qed

lemma keep_aux_tail: "unbroken t \<Longrightarrow> keep_aux acc t = tail_line (rev acc @ t)"
proof (induction t arbitrary: acc)
  case (Cons c t)
  then have c: "\<not> islinebreak c" "c \<noteq> CHR 0x0D" by (auto simp: unbroken_def islinebreak_def)
  show ?case
  proof (cases t)
    case (Cons d cs)
    with c Cons.IH [of "c # acc"] Cons.prems show ?thesis by (auto simp: unbroken_Cons)
  qed (simp add: tail_line_def)
qed (simp add: tail_line_def)

lemma lines_aux_tail: "unbroken t \<Longrightarrow> lines_aux acc t = tail_line (rev acc @ t)"
proof (induction t arbitrary: acc)
  case (Cons c t)
  then have c: "\<not> islinebreak c" "c \<noteq> CHR 0x0D" by (auto simp: unbroken_def islinebreak_def)
  show ?case
  proof (cases t)
    case (Cons d cs)
    with c Cons.IH [of "c # acc"] Cons.prems show ?thesis by (auto simp: unbroken_Cons)
  qed (use c in \<open>simp add: tail_line_def\<close>)
qed (simp add: tail_line_def)

lemma splitlines_keep_text:
  "list_all unbroken ls \<Longrightarrow> unbroken t \<Longrightarrow>
     splitlines_keep (unlines ls @ t) = map (\<lambda>l. l @ [CHR 0x0A]) ls @ tail_line t"
  unfolding splitlines_keep_def
  by (induction ls) (simp_all add: unlines_def keep_aux_line keep_aux_tail)

lemma lines_aux_line: "unbroken w \<Longrightarrow> lines_aux acc (w @ CHR 0x0A # s) = (rev acc @ w) # lines_aux [] s"
  by (rule lines_aux_no_break) (auto simp: unbroken_def list_all_iff)

lemma splitlines_text:
  "list_all unbroken ls \<Longrightarrow> unbroken t \<Longrightarrow> splitlines (unlines ls @ t) = ls @ tail_line t"
  unfolding splitlines_def
  by (induction ls) (simp_all add: unlines_def lines_aux_line lines_aux_tail)

lemma newline_text_read: "newline_text s \<Longrightarrow> universal_newlines s = s"
  by (rule universal_newlines_id) (auto simp: newline_text_def list_all_iff islinebreak_def)

lemma newline_text_unlines: "list_all unbroken ls \<Longrightarrow> newline_text (unlines ls)"
  by (induction ls) (auto simp: unlines_def newline_text_def unbroken_def list_all_iff)

lemma newline_text_append [simp]: "newline_text (a @ b) \<longleftrightarrow> newline_text a \<and> newline_text b"
  by (simp add: newline_text_def)

lemma unbroken_newline_text: "unbroken t \<Longrightarrow> newline_text t"
  by (auto simp: unbroken_def newline_text_def list_all_iff)

lemma rstrip_newline: "unbroken l \<Longrightarrow> rstrip_char CHR 0x0A (l @ [CHR 0x0A]) = l \<and> rstrip_char CHR 0x0A l = l"
  "unbroken l \<Longrightarrow> rstrip_crlf (l @ [CHR 0x0A]) = l \<and> rstrip_crlf l = l"
proof -
  assume "unbroken l"
  then have "rev l = [] \<or> hd (rev l) \<noteq> CHR 0x0A \<and> hd (rev l) \<noteq> CHR 0x0D"
    using unbroken_no_newline [of l] by (metis hd_in_set set_rev)
  then have "dropWhile (\<lambda>x. x = CHR 0x0A) (rev l) = rev l"
    "dropWhile (\<lambda>c. c = CHR 0x0A \<or> c = CHR 0x0D) (rev l) = rev l"
    by (auto intro!: dropWhile_none)
  then show "rstrip_char CHR 0x0A (l @ [CHR 0x0A]) = l \<and> rstrip_char CHR 0x0A l = l"
    "rstrip_crlf (l @ [CHR 0x0A]) = l \<and> rstrip_crlf l = l"
    by (simp_all add: rstrip_char_def rstrip_crlf_def)
qed

subsection \<open>Both rewrites, line by line\<close>

abbreviation marked :: "string \<Rightarrow> string \<Rightarrow> bool" where
  "marked name line \<equiv> endswith line (marker_line name)"

lemma filter_keep:
  assumes "list_all unbroken ls" "unbroken t"
    and "\<And>l. unbroken l \<Longrightarrow> P (l @ [CHR 0x0A]) = Q l \<and> P l = Q l"
  shows "filter P (map (\<lambda>l. l @ [CHR 0x0A]) ls @ tail_line t) =
    map (\<lambda>l. l @ [CHR 0x0A]) (filter Q ls) @ filter Q (tail_line t)"
  using assms by (induction ls) (auto simp: tail_line_def)

lemma concat_end_last:
  assumes "list_all unbroken ls" "unbroken t" "us = [] \<or> us = tail_line t"
  shows "concat (end_last_line (map (\<lambda>l. l @ [CHR 0x0A]) ls @ us)) = unlines (ls @ us)"
proof (cases "us = []")
  case True
  have "endswith (l @ [CHR 0x0A]) [CHR 0x0A]" for l by (simp add: endswith_def)
  then have "end_last_line (map (\<lambda>l. l @ [CHR 0x0A]) ls) = map (\<lambda>l. l @ [CHR 0x0A]) ls"
    by (cases ls rule: rev_cases) (auto simp: end_last_line_def)
  with True show ?thesis by (simp add: unlines_def)
next
  case False
  then have t: "t \<noteq> []" "us = [t]" using assms(3) by (auto simp: tail_line_def split: if_splits)
  have "last t \<noteq> CHR 0x0A" using t unbroken_no_newline [OF assms(2)] by (metis last_in_set)
  then have "\<not> endswith t [CHR 0x0A]" using t(1)
    by (cases t rule: rev_cases) (auto simp: endswith_def)
  then show ?thesis by (simp add: t end_last_line_def unlines_def)
qed

lemma register_lines:
  assumes "newline_text s"
  shows "register_etc_hosts name ip s =
    unlines (filter (\<lambda>l. \<not> marked name l) (splitlines s) @ [hosts_entry name ip])"
proof -
  from newline_text_parts [OF assms] obtain ls t where s: "s = unlines ls @ t"
    and un: "list_all unbroken ls" "unbroken t" .
  let ?P = "\<lambda>ln. \<not> endswith (rstrip_char CHR 0x0A ln) (marker_line name)"
  have "filter ?P (splitlines_keep s) =
      map (\<lambda>l. l @ [CHR 0x0A]) (filter (\<lambda>l. \<not> marked name l) ls) @ filter (\<lambda>l. \<not> marked name l) (tail_line t)"
    unfolding s splitlines_keep_text [OF un] by (rule filter_keep [OF un]) (simp add: rstrip_newline)
  moreover have "list_all unbroken (filter (\<lambda>l. \<not> marked name l) ls)"
    using un(1) by (auto simp: list_all_iff)
  moreover have "filter (\<lambda>l. \<not> marked name l) (tail_line t) = [] \<or>
      filter (\<lambda>l. \<not> marked name l) (tail_line t) = tail_line t"
    by (auto simp: tail_line_def)
  ultimately have "concat (end_last_line (filter ?P (splitlines_keep s))) =
      unlines (filter (\<lambda>l. \<not> marked name l) (splitlines s))"
    using concat_end_last [OF _ un(2)] by (simp add: s splitlines_text [OF un])
  then show ?thesis
    unfolding register_etc_hosts_def Let_def newline_text_read [OF assms]
    by (simp add: unlines_def)
qed

lemma unregister_lines:
  assumes "newline_text s"
  shows "splitlines (unregister_etc_hosts name s) = filter (\<lambda>l. \<not> marked name l) (splitlines s)"
    and "newline_text (unregister_etc_hosts name s)"
proof -
  from newline_text_parts [OF assms] obtain ls t where s: "s = unlines ls @ t"
    and un: "list_all unbroken ls" "unbroken t" .
  let ?Q = "\<lambda>l. \<not> marked name l"
  have "filter (\<lambda>ln. \<not> endswith (rstrip_crlf ln) (marker_line name)) (splitlines_keep s) =
      map (\<lambda>l. l @ [CHR 0x0A]) (filter ?Q ls) @ filter ?Q (tail_line t)"
    unfolding s splitlines_keep_text [OF un] by (rule filter_keep [OF un]) (simp add: rstrip_newline)
  then have eq: "unregister_etc_hosts name s = unlines (filter ?Q ls) @ (if ?Q t then t else [])"
    unfolding unregister_etc_hosts_def newline_text_read [OF assms] by (auto simp: unlines_def tail_line_def)
  have un': "list_all unbroken (filter ?Q ls)" "unbroken (if ?Q t then t else [])"
    using un by (auto simp: list_all_iff)
  show "splitlines (unregister_etc_hosts name s) = filter ?Q (splitlines s)"
    using splitlines_text [OF un'] splitlines_text [OF un] by (auto simp: eq s [symmetric] tail_line_def)
  show "newline_text (unregister_etc_hosts name s)"
    unfolding eq using un' by (simp add: newline_text_unlines unbroken_newline_text)
qed

subsection \<open>A registry of names\<close>

datatype reg_op = Register string string | Unregister string

text \<open>What a registry promises its users: a name maps to the address it was last registered
  with, until it is unregistered, and other names are left alone.\<close>

locale name_registry =
  fixes register :: "string \<Rightarrow> string \<Rightarrow> 's \<Rightarrow> 's"
    and unregister :: "string \<Rightarrow> 's \<Rightarrow> 's"
    and lookup :: "string \<Rightarrow> 's \<Rightarrow> string option"
    and inv :: "'s \<Rightarrow> bool"
    and okname :: "string \<Rightarrow> bool"
    and okaddr :: "string \<Rightarrow> bool"
  assumes inv_register: "inv s \<Longrightarrow> okname n \<Longrightarrow> okaddr a \<Longrightarrow> inv (register n a s)"
    and inv_unregister: "inv s \<Longrightarrow> okname n \<Longrightarrow> inv (unregister n s)"
    and lookup_register: "inv s \<Longrightarrow> okname n \<Longrightarrow> okaddr a \<Longrightarrow> okname m \<Longrightarrow>
      lookup m (register n a s) = (if m = n then Some a else lookup m s)"
    and lookup_unregister: "inv s \<Longrightarrow> okname n \<Longrightarrow> okname m \<Longrightarrow>
      lookup m (unregister n s) = (if m = n then None else lookup m s)"
begin

fun run_op :: "reg_op \<Rightarrow> 's \<Rightarrow> 's" where
  "run_op (Register n a) s = register n a s"
| "run_op (Unregister n) s = unregister n s"

fun ok_op :: "reg_op \<Rightarrow> bool" where
  "ok_op (Register n a) \<longleftrightarrow> okname n \<and> okaddr a"
| "ok_op (Unregister n) \<longleftrightarrow> okname n"

fun map_op :: "reg_op \<Rightarrow> (string \<rightharpoonup> string) \<Rightarrow> (string \<rightharpoonup> string)" where
  "map_op (Register n a) m = m(n \<mapsto> a)"
| "map_op (Unregister n) m = m(n := None)"

lemma run_op_refines:
  "inv s \<Longrightarrow> ok_op op \<Longrightarrow> \<forall>n. okname n \<longrightarrow> lookup n s = f n \<Longrightarrow>
     inv (run_op op s) \<and> (\<forall>n. okname n \<longrightarrow> lookup n (run_op op s) = map_op op f n)"
  by (cases op) (auto simp: inv_register inv_unregister lookup_register lookup_unregister)

lemma run_ops_refine:
  "inv s \<Longrightarrow> list_all ok_op ops \<Longrightarrow> \<forall>n. okname n \<longrightarrow> lookup n s = f n \<Longrightarrow>
     inv (fold run_op ops s) \<and> (\<forall>n. okname n \<longrightarrow> lookup n (fold run_op ops s) = fold map_op ops f n)"
proof (induction ops arbitrary: s f)
  case (Cons op ops)
  then have "inv (run_op op s)" "\<forall>n. okname n \<longrightarrow> lookup n (run_op op s) = map_op op f n"
    using run_op_refines [of s op f] by simp_all
  with Cons.IH [of "run_op op s" "map_op op f"] Cons.prems show ?case by simp
qed simp

lemma register_last_wins:
  "inv s \<Longrightarrow> okname n \<Longrightarrow> okaddr a \<Longrightarrow> okaddr b \<Longrightarrow> okname m \<Longrightarrow>
     lookup m (register n b (register n a s)) = lookup m (register n b s)"
  by (simp add: inv_register lookup_register)

end

subsection \<open>The hosts file is one\<close>

definition reg_name :: "string \<Rightarrow> bool" where
  "reg_name n \<longleftrightarrow> unbroken n \<and> CHR ''#'' \<notin> set n"

definition reg_addr :: "string \<Rightarrow> bool" where
  "reg_addr a \<longleftrightarrow> a \<noteq> [] \<and> unbroken a \<and> list_all (\<lambda>c. \<not> isspace c) a"

lemma endswith_iff: "endswith s p \<longleftrightarrow> (\<exists>x. s = x @ p)"
proof
  assume "endswith s p"
  then show "\<exists>x. s = x @ p" unfolding endswith_def by (metis append_take_drop_id)
qed (auto simp: endswith_def)

lemma takeWhile_neq: "c \<notin> set xs \<Longrightarrow> takeWhile (\<lambda>x. x \<noteq> c) (xs @ c # ys) = xs"
  by (induction xs) auto

lemma marked_entry:
  assumes "CHR ''#'' \<notin> set n" "CHR ''#'' \<notin> set m"
  shows "endswith (x @ marker_line n) (marker_line m) \<longleftrightarrow> m = n"
proof
  assume "endswith (x @ marker_line n) (marker_line m)"
  then obtain y where y: "x @ marker_line n = y @ marker_line m" by (auto simp: endswith_iff)
  have tw: "takeWhile (\<lambda>c. c \<noteq> CHR ''#'') (rev (z @ marker_line k)) = rev ('' qemu-vm:'' @ k)"
    if "CHR ''#'' \<notin> set k" for z k
  proof -
    have "rev (z @ marker_line k) = rev ('' qemu-vm:'' @ k) @ CHR ''#'' # rev z"
      by (simp add: marker_line_def MARKER_def)
    moreover have "CHR ''#'' \<notin> set (rev ('' qemu-vm:'' @ k))" using that by simp
    ultimately show ?thesis using takeWhile_neq by metis
  qed
  from tw [OF assms(1), of x] tw [OF assms(2), of y] y have "rev ('' qemu-vm:'' @ n) = rev ('' qemu-vm:'' @ m)"
    by metis
  then show "m = n" by simp
qed (auto simp: endswith_iff)

lemma marked_unique:
  "CHR ''#'' \<notin> set n \<Longrightarrow> CHR ''#'' \<notin> set m \<Longrightarrow> marked n l \<Longrightarrow> marked m l \<Longrightarrow> m = n"
  using marked_entry [of n m] by (auto simp: endswith_iff [of l "marker_line n"])

lemma find_filter_same: "(\<And>x. P x \<Longrightarrow> Q x) \<Longrightarrow> find P (filter Q xs) = find P xs"
  by (induction xs) auto

lemma find_append: "find P (xs @ ys) = (case find P xs of None \<Rightarrow> find P ys | Some x \<Rightarrow> Some x)"
  by (induction xs) auto

lemma find_filter_none: "(\<And>x. P x \<Longrightarrow> \<not> Q x) \<Longrightarrow> find P (filter Q xs) = None"
  by (auto simp: find_None_iff)

text \<open>The lookup over lines: what \<open>hosts_ip\<close> reads of a text with newline boundaries only.\<close>

definition lines_ip :: "string \<Rightarrow> string list \<Rightarrow> string option" where
  "lines_ip name ls = (case find (marked name) ls of None \<Rightarrow> None
     | Some l \<Rightarrow> (case split_ws l of [] \<Rightarrow> None | w # _ \<Rightarrow> Some w))"

lemma find_cong_set: "(\<And>x. x \<in> set xs \<Longrightarrow> P x = Q x) \<Longrightarrow> find P xs = find Q xs"
  by (induction xs) auto

lemma newline_text_lines: "newline_text s \<Longrightarrow> list_all unbroken (splitlines s)"
  by (erule newline_text_parts) (auto simp: splitlines_text tail_line_def)

lemma hosts_ip_lines:
  assumes "newline_text s"
  shows "hosts_ip name s = lines_ip name (splitlines s)"
proof -
  have un: "unbroken l" if "l \<in> set (splitlines s)" for l
    using newline_text_lines [OF assms] that by (auto simp: list_all_iff)
  have "find (\<lambda>line. endswith (rstrip_crlf line) (marker_line name)) (splitlines s) = find (marked name) (splitlines s)"
    by (rule find_cong_set) (simp add: rstrip_newline(2) un)
  then show ?thesis
    unfolding hosts_ip_def lines_ip_def newline_text_read [OF assms]
    by (auto simp: rstrip_newline(2) un dest: find_Some_iff_first split: option.split)
qed

lemma words_aux_head:
  "list_all (\<lambda>c. \<not> isspace c) a \<Longrightarrow> isspace d \<Longrightarrow> acc @ a \<noteq> [] \<Longrightarrow>
     words_aux (rev acc) (a @ d # s) = (acc @ a) # words_aux [] s"
proof (induction a arbitrary: acc)
  case (Cons c a)
  from Cons.IH [of "acc @ [c]"] Cons.prems show ?case by simp
qed simp

lemma split_ws_entry:
  assumes "reg_addr a"
  shows "\<exists>ws. split_ws (hosts_entry n a) = a # ws"
proof -
  have "isspace CHR 0x09" by (simp add: isspace_def ascii_space_def)
  from words_aux_head [of a "CHR 0x09" "[]"] this assms show ?thesis
    by (simp add: split_ws_def hosts_entry_def reg_addr_def)
qed

lemma hosts_entry_unbroken: "reg_name n \<Longrightarrow> reg_addr a \<Longrightarrow> unbroken (hosts_entry n a)"
proof -
  have "unbroken [CHR 0x09]" "unbroken '' ''" "unbroken (MARKER @ '':'')" by code_simp+
  then show "reg_name n \<Longrightarrow> reg_addr a \<Longrightarrow> ?thesis"
    by (simp add: hosts_entry_def marker_line_def reg_name_def reg_addr_def unbroken_Cons)
qed

lemma register_splitlines:
  assumes "newline_text s" "reg_name n" "reg_addr a"
  shows "newline_text (register_etc_hosts n a s)"
    "splitlines (register_etc_hosts n a s) = filter (\<lambda>l. \<not> marked n l) (splitlines s) @ [hosts_entry n a]"
proof -
  let ?ls = "filter (\<lambda>l. \<not> marked n l) (splitlines s) @ [hosts_entry n a]"
  have un: "list_all unbroken ?ls"
    using newline_text_lines [OF assms(1)] hosts_entry_unbroken [OF assms(2,3)] by (auto simp: list_all_iff)
  show "newline_text (register_etc_hosts n a s)"
    unfolding register_lines [OF assms(1)] by (rule newline_text_unlines [OF un])
  show "splitlines (register_etc_hosts n a s) = ?ls"
    using splitlines_text [OF un, of "[]"] register_lines [OF assms(1)] by (simp add: tail_line_def)
qed

lemma marked_hosts_entry: "reg_name n \<Longrightarrow> reg_name m \<Longrightarrow> marked m (hosts_entry n a) \<longleftrightarrow> m = n"
  using marked_entry [of n m "a @ [CHR 0x09] @ n @ '' ''"] by (simp add: hosts_entry_def reg_name_def)

lemma lines_ip_register:
  assumes "reg_name n" "reg_name m" "reg_addr a"
  shows "lines_ip m (filter (\<lambda>l. \<not> marked n l) ls @ [hosts_entry n a]) =
    (if m = n then Some a else lines_ip m ls)"
proof (cases "m = n")
  case True
  with assms split_ws_entry [OF assms(3), of n] marked_hosts_entry [OF assms(1,1)] show ?thesis
    by (auto simp: lines_ip_def find_append find_filter_none split: list.split)
next
  case False
  then have "find (marked m) (filter (\<lambda>l. \<not> marked n l) ls) = find (marked m) ls"
    using marked_unique assms(1,2) by (intro find_filter_same) (auto simp: reg_name_def)
  with False marked_hosts_entry [OF assms(1,2)] show ?thesis
    by (auto simp: lines_ip_def find_append split: option.split)
qed

lemma lines_ip_unregister:
  assumes "reg_name n" "reg_name m"
  shows "lines_ip m (filter (\<lambda>l. \<not> marked n l) ls) = (if m = n then None else lines_ip m ls)"
proof (cases "m = n")
  case False
  then have "find (marked m) (filter (\<lambda>l. \<not> marked n l) ls) = find (marked m) ls"
    using marked_unique assms by (intro find_filter_same) (auto simp: reg_name_def)
  with False show ?thesis by (simp add: lines_ip_def)
qed (simp add: lines_ip_def find_filter_none)

interpretation etc_hosts: name_registry register_etc_hosts unregister_etc_hosts hosts_ip newline_text reg_name reg_addr
proof
  fix s n a m
  assume s: "newline_text s" and n: "reg_name n"
  show "newline_text (unregister_etc_hosts n s)" by (rule unregister_lines(2) [OF s])
  show "reg_name m \<Longrightarrow> hosts_ip m (unregister_etc_hosts n s) = (if m = n then None else hosts_ip m s)"
    using n by (simp add: hosts_ip_lines s unregister_lines [OF s] lines_ip_unregister)
  assume a: "reg_addr a"
  show "newline_text (register_etc_hosts n a s)" by (rule register_splitlines [OF s n a])
  show "reg_name m \<Longrightarrow> hosts_ip m (register_etc_hosts n a s) = (if m = n then Some a else hosts_ip m s)"
    using n a by (simp add: hosts_ip_lines s register_splitlines [OF s n a] lines_ip_register)
qed



subsection \<open>The ssh configuration\<close>

lemma set_drop_blank: "x \<in> set (drop_blank acc) \<Longrightarrow> x \<in> set acc"
  by (auto simp: drop_blank_def split: list.splits)

lemma drop_blank_Cons [simp]: "drop_blank ([] # acc) = acc"
  by (simp add: drop_blank_def)

lemma strip_block_mem:
  "x \<in> set (strip_block name skip acc ls) \<Longrightarrow>
     x \<in> set acc \<or> x \<in> set ls \<and> \<not> contains (host_line name) x"
proof (induction ls arbitrary: skip acc)
  case (Cons line ls)
  consider "contains (host_line name) line"
    | "\<not> contains (host_line name) line" "skip \<and> (startswith line [CHR 0x09] \<or> line = [])"
    | "\<not> contains (host_line name) line" "\<not> (skip \<and> (startswith line [CHR 0x09] \<or> line = []))"
    by blast
  then show ?case
  proof cases
    case 1
    with Cons.prems have "x \<in> set (strip_block name True (drop_blank acc) ls)" by simp
    from Cons.IH [OF this] show ?thesis by (auto dest: set_drop_blank)
  next
    case 2
    with Cons.prems have "x \<in> set (strip_block name True acc ls)" by simp
    from Cons.IH [OF this] show ?thesis by auto
  next
    case 3
    with Cons.prems have "x \<in> set (strip_block name False (line # acc) ls)" by (simp only: strip_block.simps if_False)
    from Cons.IH [OF this] 3 show ?thesis by auto
  qed
qed simp

lemma contains_self: "contains p (x @ p @ y)"
proof (induction x)
  case Nil
  show ?case by (cases "p @ y") (auto simp: startswith_def dest: sym)
qed simp

text \<open>A block as it stands after the kept lines: dropping it gives the kept lines back.\<close>

lemma strip_block_app:
  "list_all (\<lambda>l. \<not> contains (host_line name) l) ls \<Longrightarrow> strip_block name False acc (ls @ rest) =
     strip_block name False (rev ls @ acc) rest"
  by (induction ls arbitrary: acc) auto

lemma strip_tabs:
  "list_all (\<lambda>l. startswith l [CHR 0x09] \<and> \<not> contains (host_line name) l) ts \<Longrightarrow>
     strip_block name True acc ts = rev acc"
  by (induction ts arbitrary: acc) auto

definition tabs_clean :: "string \<Rightarrow> string \<Rightarrow> bool" where
  "tabs_clean name ip \<longleftrightarrow>
     list_all (\<lambda>l. startswith l [CHR 0x09] \<and> \<not> contains (host_line name) l) (drop 2 (ssh_block_lines name ip))"

lemma strip_block_block:
  assumes "tabs_clean name ip" "list_all (\<lambda>l. \<not> contains (host_line name) l) ls"
  shows "strip_block name False [] (ls @ ssh_block_lines name ip) = ls"
proof -
  have "\<not> contains (host_line name) []" by (simp add: host_line_def)
  moreover have "contains (host_line name) (host_line name)" using contains_self [of _ "[]" "[]"] by simp
  ultimately have "strip_block name False (rev ls) (ssh_block_lines name ip) =
      strip_block name True (rev ls) (drop 2 (ssh_block_lines name ip))"
    by (simp add: ssh_block_lines_def)
  with strip_tabs [of name "drop 2 (ssh_block_lines name ip)" "rev ls"] assms
  show ?thesis by (simp add: strip_block_app tabs_clean_def)
qed

lemma tail_line_Nil [simp]: "tail_line [] = []"
  by (simp add: tail_line_def)

lemma join_newline: "ls \<noteq> [] \<Longrightarrow> join [CHR 0x0A] ls @ [CHR 0x0A] = unlines ls"
proof (induction ls)
  case (Cons l ls)
  then show ?case by (cases ls) (auto simp: unlines_def)
qed simp

lemma register_ssh_lines:
  "register_ssh_config name ip cfg =
     unlines (strip_block name False [] (splitlines (universal_newlines cfg)) @ ssh_block_lines name ip)"
  using join_newline [of "strip_block name False [] (splitlines (universal_newlines cfg))"]
  by (auto simp: register_ssh_config_def Let_def unlines_def)

lemma lines_aux_unbroken: "unbroken (rev acc) \<Longrightarrow> list_all unbroken (lines_aux acc s)"
  by (induction acc s rule: lines_aux.induct) (auto simp: unbroken_def)

lemma splitlines_unbroken: "list_all unbroken (splitlines s)"
  by (simp add: splitlines_def lines_aux_unbroken)

lemma ssh_block_unbroken: "reg_name n \<Longrightarrow> reg_addr a \<Longrightarrow> list_all unbroken (ssh_block_lines n a)"
proof -
  have lits: "list_all unbroken [[CHR 0x09], '' '', ''Host '', MARKER @ '':'', ''HostName '', ''User root'',
      ''StrictHostKeyChecking no'', ''UserKnownHostsFile /dev/null'', ''LogLevel ERROR'',
      ''ServerAliveInterval 5'', ''ServerAliveCountMax 3'', ''ConnectTimeout 5'']"
    by code_simp
  then show "reg_name n \<Longrightarrow> reg_addr a \<Longrightarrow> ?thesis"
    by (simp add: ssh_block_lines_def host_line_def tab_line_def marker_line_def reg_name_def reg_addr_def unbroken_Cons)
qed

lemma tabs_clean_addr:
  assumes "reg_addr a" "CHR ''#'' \<notin> set a"
  shows "tabs_clean n a"
proof -
  have no: "\<not> contains (host_line n) l" if "CHR ''#'' \<notin> set l" for l
    using that
  proof (induction l)
    case (Cons c l)
    have "CHR ''#'' \<in> set (host_line n)" by (simp add: host_line_def marker_line_def MARKER_def)
    then have "\<not> startswith (c # l) (host_line n)"
      using Cons.prems by (metis in_set_takeD startswith_def)
    with Cons show ?case by simp
  qed (simp add: host_line_def)
  have "list_all (\<lambda>l. CHR ''#'' \<notin> set l) (drop 2 (ssh_block_lines n a))"
    using assms(2) by (simp add: ssh_block_lines_def tab_line_def)
  moreover have "list_all (\<lambda>l. startswith l [CHR 0x09]) (drop 2 (ssh_block_lines n a))"
    by (simp add: ssh_block_lines_def tab_line_def startswith_def)
  ultimately show ?thesis using no by (auto simp: tabs_clean_def list_all_iff)
qed

text \<open>
  Registering a VM in the ssh configuration is idempotent and follows address changes:
  whatever the file held, registering it again with another address gives the file that
  registering it with that address alone gives, and unregistering gives the same lines as
  never having registered it.
\<close>

theorem register_ssh_config_last_wins:
  assumes "reg_name n" "reg_addr a" "CHR ''#'' \<notin> set a"
  shows "register_ssh_config n b (register_ssh_config n a cfg) = register_ssh_config n b cfg \<and>
    unregister_ssh_config n (register_ssh_config n a cfg) = unregister_ssh_config n cfg"
proof -
  let ?ls = "strip_block n False [] (splitlines (universal_newlines cfg))"
  let ?cfg = "register_ssh_config n a cfg"
  have un: "list_all unbroken (?ls @ ssh_block_lines n a)"
    using strip_block_mem [of _ n False "[]"] splitlines_unbroken [of "universal_newlines cfg"]
      ssh_block_unbroken [OF assms(1,2)]
    by (auto simp: list_all_iff)
  have "universal_newlines ?cfg = ?cfg"
    unfolding register_ssh_lines by (rule newline_text_read [OF newline_text_unlines [OF un]])
  moreover have "splitlines ?cfg = ?ls @ ssh_block_lines n a"
    using splitlines_text [OF un, of "[]"] by (simp add: register_ssh_lines)
  moreover have "strip_block n False [] (?ls @ ssh_block_lines n a) = ?ls"
    by (rule strip_block_block [OF tabs_clean_addr [OF assms(2,3)]])
      (auto simp: list_all_iff dest: strip_block_mem)
  ultimately have "strip_block n False [] (splitlines (universal_newlines ?cfg)) = ?ls" by simp
  then show ?thesis by (simp add: register_ssh_lines unregister_ssh_config_def)
qed

theorem register_ssh_config_last_wins_witness:
  "register_ssh_config ''v'' ''10.0.0.2'' (register_ssh_config ''v'' ''10.0.0.1'' ''Host x'') =
     register_ssh_config ''v'' ''10.0.0.2'' ''Host x''"
proof -
  have "reg_name ''v''" "reg_addr ''10.0.0.1''" by code_simp+
  from register_ssh_config_last_wins [OF this] show ?thesis by simp
qed

subsection \<open>TAP names\<close>

lemma length_slice_to: "length s = 32 \<Longrightarrow> 0 \<le> n \<Longrightarrow> n \<le> 32 \<Longrightarrow> length (slice_to n s) = nat n"
  by (simp add: slice_to_def)

lemma length_tap: "length (md5 name) = 32 \<Longrightarrow> length (tap_for_name md5 name) \<le> 15"
  by (simp add: tap_for_name_def)

lemma extra_tap_suffix:
  "extra_tap_for_name md5 name idx = Inr t \<Longrightarrow> \<exists>x. t = x @ ''-'' @ str_nat idx"
  by (auto simp: extra_tap_for_name_def Let_def split: if_splits)

lemma dash_suffix_inj:
  assumes "x @ ''-'' @ str_nat i = y @ ''-'' @ str_nat j"
  shows "i = j"
proof -
  have "\<not> isdecimal CHR ''-''" by (simp add: isdecimal_def)
  then have no: "CHR ''-'' \<notin> set (rev (str_nat k))" for k using str_nat_no by simp
  have "takeWhile (\<lambda>c. c \<noteq> CHR ''-'') (rev (z @ ''-'' @ str_nat k)) = rev (str_nat k)" for z k
    using takeWhile_neq [OF no [of k], of "rev z"] by simp
  with assms have "rev (str_nat i) = rev (str_nat j)" by metis
  then show ?thesis using str_nat_inj by simp
qed

lemma taps_for_vm_mem:
  "t \<in> set (taps_for_vm md5 name k) \<longleftrightarrow>
     t = tap_for_name md5 name \<or> (\<exists>idx. 1 \<le> idx \<and> idx \<le> k \<and> extra_tap_for_name md5 name idx = Inr t)"
  by (force simp: taps_for_vm_def split: sum.splits)

text \<open>
  TAP names fit the interface-name limit, for any name and any digest of 32 characters,
  and two extra NICs of one VM never share a device.
\<close>

theorem tap_names_fit:
  assumes "\<And>n. length (md5 n) = 32" "k < 10 ^ 9"
  shows "(\<forall>t \<in> set (taps_for_vm md5 name k). length t \<le> 15) \<and>
    (\<forall>i j t. extra_tap_for_name md5 name i = Inr t \<and> extra_tap_for_name md5 name j = Inr t \<longrightarrow> i = j)"
proof -
  have "length t \<le> 15" if "extra_tap_for_name md5 name idx = Inr t" "idx \<le> k" for t idx
  proof -
    have "length (str_nat idx) \<le> 9" using that(2) assms(2) length_str_nat [of idx 9] by simp
    with that(1) assms(1) show ?thesis
      by (auto simp: extra_tap_for_name_def Let_def length_slice_to split: if_splits)
  qed
  then have "\<forall>t \<in> set (taps_for_vm md5 name k). length t \<le> 15"
    using length_tap [of md5 name, OF assms(1)] by (auto simp: taps_for_vm_mem)
  moreover have "i = j" if "extra_tap_for_name md5 name i = Inr t" "extra_tap_for_name md5 name j = Inr t" for i j t
    using extra_tap_suffix [OF that(1)] extra_tap_suffix [OF that(2)] dash_suffix_inj by metis
  ultimately show ?thesis by blast
qed

theorem tap_names_fit_witness:
  "list_all (\<lambda>t. length t \<le> 15) (taps_for_vm (\<lambda>_. replicate 32 CHR ''0'') ''a-long-vm-name'' 3)"
proof -
  have "\<And>n. length ((\<lambda>_. replicate 32 CHR ''0'') (n :: string)) = 32" by simp
  from tap_names_fit [OF this, of 3] show ?thesis by (simp add: list_all_iff)
qed

text \<open>
  The collision check: a VM passes exactly when it shares no TAP name with any other VM
  that can be read; and the clash it looks for is real, the device of extra NIC i of a VM
  being the management device of the VM named after it with the suffix.
\<close>

theorem check_tap_collision_exact:
  assumes "length name + 1 + length (str_nat i) \<le> 11" "1 \<le> i"
  shows "(check_tap_collision md5 dir peers name k = Inr () \<longleftrightarrow>
      (\<forall>p vm. p \<in> set peers \<and> p \<noteq> name \<and> vm_load dir p = Inr vm \<longrightarrow>
         set (taps_for_vm md5 name k) \<inter> set (taps_for_vm md5 p (length (vm_nics vm))) = {})) \<and>
    extra_tap_for_name md5 name i = Inr (tap_for_name md5 (name @ ''-'' @ str_nat i))"
proof
  show "check_tap_collision md5 dir peers name k = Inr () \<longleftrightarrow>
      (\<forall>p vm. p \<in> set peers \<and> p \<noteq> name \<and> vm_load dir p = Inr vm \<longrightarrow>
         set (taps_for_vm md5 name k) \<inter> set (taps_for_vm md5 p (length (vm_nics vm))) = {})"
  proof (induction peers)
    case (Cons p peers)
    show ?case
    proof (cases "p = name \<or> (\<exists>e. vm_load dir p = Inl e)")
      case True
      with Cons show ?thesis by auto
    next
      case False
      then obtain vm where vm: "p \<noteq> name" "vm_load dir p = Inr vm" by (cases "vm_load dir p") auto
      have "filter (\<lambda>t. t \<in> B) xs = [] \<longleftrightarrow> set xs \<inter> B = {}" for B and xs :: "string list"
        by (auto simp: filter_empty_conv)
      then have "check_tap_collision md5 dir (p # peers) name k = Inr () \<longleftrightarrow>
          set (taps_for_vm md5 name k) \<inter> set (taps_for_vm md5 p (length (vm_nics vm))) = {} \<and>
          check_tap_collision md5 dir peers name k = Inr ()"
        using vm by (simp add: Let_def)
      then show ?thesis unfolding Cons.IH using vm by (simp only: list.set insert_iff) (metis sum.inject(2))
    qed
  qed simp
  show "extra_tap_for_name md5 name i = Inr (tap_for_name md5 (name @ ''-'' @ str_nat i))"
    using assms by (simp add: extra_tap_for_name_def tap_for_name_def)
qed

theorem check_tap_collision_exact_witness:
  "extra_tap_for_name id ''co2-mds'' 2 = Inr (tap_for_name id ''co2-mds-2'')"
proof -
  have "str_nat 2 = ''2''" by code_simp
  then show ?thesis using check_tap_collision_exact [of "''co2-mds''" 2 id] by simp
qed

end
