(* ===== verification/CreateChecks.thy ===== *)
theory CreateChecks
  imports AddrAlloc NameReg
begin

text \<open>
  What \<^verbatim>\<open>ltvm create\<close> checks before it writes anything (\<^verbatim>\<open>vm_commands.py\<close>): names,
  sizes, kernel arguments, resource bounds, failover disks, disk options and passthrough
  devices; and the device names \<^verbatim>\<open>deploy.py\<close> gives the disks it then has.  A \<^verbatim>\<open>die\<close> is
  an \<open>Inl\<close>.  The file system and the PCI bus are arguments.
\<close>

subsection \<open>Names\<close>

datatype name_error = NameEmpty | NameTooLong nat | NameInvalid string | NameUnsafe string

definition name_rest :: "char \<Rightarrow> bool" where
  "name_rest c \<longleftrightarrow> isalpha_ascii c \<or> isdecimal c \<or> c = CHR ''.'' \<or> c = CHR ''_'' \<or> c = CHR ''-''"

definition vm_name_shape :: "string \<Rightarrow> bool" where
  "vm_name_shape s = (case s of [] \<Rightarrow> False
     | c # cs \<Rightarrow> (isalpha_ascii c \<or> isdecimal c) \<and> list_all name_rest cs)"

text \<open>\<^verbatim>\<open>re.match\<close> of a pattern that ends in \<open>$\<close>: the end of the text, or just before a
  newline that ends it.\<close>

definition vm_name_re :: "string \<Rightarrow> bool" where
  "vm_name_re s \<longleftrightarrow> vm_name_shape s \<or>
     (s \<noteq> [] \<and> last s = CHR 0x0A \<and> vm_name_shape (butlast s))"

definition validate_vm_name :: "string \<Rightarrow> (name_error, unit) result" where
  "validate_vm_name name =
     (if name = [] then Inl NameEmpty
      else if length name > 63 then Inl (NameTooLong (length name))
      else if \<not> vm_name_re name then Inl (NameInvalid name)
      else Inr ())"

definition VM_NAME_UNSAFE :: string where
  "VM_NAME_UNSAFE = ''*?[]!/'' @ [CHR 0x5C]"

definition validate_vm_name_for_lookup :: "string \<Rightarrow> (name_error, unit) result" where
  "validate_vm_name_for_lookup name =
     (if name = [] then Inl NameEmpty
      else if list_ex (\<lambda>c. c \<in> set VM_NAME_UNSAFE) name then Inl (NameUnsafe name)
      else if name = ''..'' \<or> startswith name ''../'' \<or> name = ''.'' then Inl (NameInvalid name)
      else Inr ())"

subsection \<open>Sizes\<close>

datatype size_value = SNone | SInt int | SStr string

datatype size_error = SizeLow | SizeHigh | SizeSuffix string | SizeNumber string | SizeNotPositive string

definition MAX_DISK_BYTES :: int where
  "MAX_DISK_BYTES = 100 * 2 ^ 30"

definition MIN_DISK_BYTES :: int where
  "MIN_DISK_BYTES = 64 * 2 ^ 20"

definition MIN_ROOT_BYTES :: int where
  "MIN_ROOT_BYTES = 2 ^ 30"

text \<open>\<^verbatim>\<open>str.upper\<close>; the sharp s gives two letters, and the two characters whose capital is
  outside the model are left alone (neither spelling is a digit or a suffix).\<close>

definition upper_char :: "char \<Rightarrow> string" where
  "upper_char c = (let n = (of_char c :: nat)
     in if n = 223 then ''SS''
        else if (97 \<le> n \<and> n \<le> 122) \<or> (224 \<le> n \<and> n \<le> 254 \<and> n \<noteq> 247) then [char_of (n - 32)] else [c])"

definition upper :: "string \<Rightarrow> string" where
  "upper s = concat (map upper_char s)"

definition size_suffix :: "char \<Rightarrow> int option" where
  "size_suffix c = (if c = CHR ''M'' then Some (2 ^ 20) else if c = CHR ''G'' then Some (2 ^ 30) else None)"

definition size_label :: "int \<Rightarrow> string" where
  "size_label nbytes =
     (if nbytes mod 2 ^ 30 = 0 then str_int (nbytes div 2 ^ 30) @ ''G''
      else str_int (nbytes div 2 ^ 20) @ ''M'')"

definition parse_size :: "int \<Rightarrow> int \<Rightarrow> size_value \<Rightarrow> (size_error, int) result" where
  "parse_size dflt minimum v =
     (case v of
        SNone \<Rightarrow> Inr dflt
      | SInt i \<Rightarrow>
          if i < minimum then Inl SizeLow else if i > MAX_DISK_BYTES then Inl SizeHigh else Inr i
      | SStr value \<Rightarrow>
          (let s = upper (strip value)
           in if s = [] then Inr dflt
              else case size_suffix (last s) of
                  None \<Rightarrow> Inl (SizeSuffix value)
                | Some unit \<Rightarrow>
                    (case py_int (butlast s) of
                       None \<Rightarrow> Inl (SizeNumber value)
                     | Some n \<Rightarrow>
                         if n \<le> 0 then Inl (SizeNotPositive value)
                         else if n * unit < minimum then Inl SizeLow
                         else if n * unit > MAX_DISK_BYTES then Inl SizeHigh
                         else Inr (n * unit))))"

definition parse_disk_size :: "size_value \<Rightarrow> (size_error, int) result" where
  "parse_disk_size = parse_size DISK_SIZE_BYTES MIN_DISK_BYTES"

definition parse_root_size :: "size_value \<Rightarrow> (size_error, int) result" where
  "parse_root_size = parse_size ROOT_SIZE_BYTES MIN_ROOT_BYTES"

text \<open>\<open>base\<close> is the size of the image file, \<open>None\<close> when it cannot be read.\<close>

definition check_root_size_fits :: "int \<Rightarrow> int option \<Rightarrow> bool" where
  "check_root_size_fits root_size base = (case base of None \<Rightarrow> True | Some b \<Rightarrow> \<not> root_size < b)"

subsection \<open>Kernel arguments\<close>

datatype kargs_error = KargsControl | KargsTooLong nat | KargsReserved string

definition KERNEL_ARGS_MAX :: nat where
  "KERNEL_ARGS_MAX = 1024"

definition reserved_key :: "string \<Rightarrow> bool" where
  "reserved_key key \<longleftrightarrow> key = ''root'' \<or> key = ''console'' \<or> startswith key ''fc_''"

definition validate_kernel_args :: "string option \<Rightarrow> (kargs_error, string) result" where
  "validate_kernel_args raw =
     (let r = get_or [] raw
      in if r = [] then Inr []
         else if list_ex (\<lambda>c. (of_char c :: nat) < 32 \<or> (of_char c :: nat) = 127) r then Inl KargsControl
         else
           let args = strip r
           in if length args > KERNEL_ARGS_MAX then Inl (KargsTooLong (length args))
              else case find reserved_key (map (\<lambda>w. fst (partition1 CHR ''='' w)) (split_ws args)) of
                  Some key \<Rightarrow> Inl (KargsReserved key)
                | None \<Rightarrow> Inr args)"

subsection \<open>Arguments of a create\<close>

record create_args =
  ca_name :: string
  ca_vcpus :: "int option"
  ca_mem :: "int option"
  ca_mdt_disks :: "int option"
  ca_ost_disks :: "int option"
  ca_nic :: "string list"
  ca_numa_nodes :: "int option"
  ca_share_disks :: bool
  ca_disks_from :: string
  ca_typed_disks :: bool
  ca_disk_dir :: string
  ca_disk_cache :: string
  ca_disk_prealloc :: string

record host_fs =
  fs_iommu :: bool
  fs_pci :: "string \<Rightarrow> bool"
  fs_isdir :: "string \<Rightarrow> bool"

datatype create_error =
    BadVcpus int
  | BadMem int
  | TooManyDisks int
  | BadNic nic_error
  | NicEscaped nic_error
  | NetIssue net_problem
  | NetError alloc_error
  | NumaIssue numa_issue
  | NoIommu
  | NoPciDevice string
  | PciTwice string
  | PciTaken string "string list"
  | ShareAndFrom
  | FromName name_error
  | FromSelf string
  | FromOwnDisks
  | FromMissing string
  | FromLoad load_error
  | FromChain string string
  | FromNotShared string
  | FromNoDisks string
  | FromTaken string string
  | BadCache string
  | BadPrealloc string
  | DirRelative string
  | DirCharacters string
  | DirMissing string
  | FromOptions
  | SharedCache string

text \<open>\<^verbatim>\<open>parse_nics\<close>: a \<^verbatim>\<open>NicSpecError\<close> is a refusal, any other error of the parser
  escapes.\<close>

definition parse_nics :: "string list \<Rightarrow> (create_error, nicspec list) result" where
  "parse_nics raws =
     (case res_list nic_parse raws of
        Inr nics \<Rightarrow> Inr nics
      | Inl e \<Rightarrow> Inl (if is_nic_spec_error e then BadNic e else NicEscaped e))"

fun check_passthrough_conflicts :: "sockets \<Rightarrow> string list \<Rightarrow> string list \<Rightarrow> (create_error, unit) result" where
  "check_passthrough_conflicts dir [] bdfs = Inr ()"
| "check_passthrough_conflicts dir (other # others) bdfs =
     (case vm_load dir other of
        Inl _ \<Rightarrow> check_passthrough_conflicts dir others bdfs
      | Inr vm \<Rightarrow>
          let clash = filter (\<lambda>b. b \<in> set (map fst (vm_passthrough_drivers vm))) (uniq bdfs)
          in if clash \<noteq> [] then Inl (PciTaken other clash)
             else check_passthrough_conflicts dir others bdfs)"

fun check_devices :: "host_fs \<Rightarrow> string list \<Rightarrow> string list \<Rightarrow> (create_error, unit) result" where
  "check_devices fs seen [] = Inr ()"
| "check_devices fs seen (bdf # bdfs) =
     (if \<not> fs_pci fs bdf then Inl (NoPciDevice bdf)
      else if bdf \<in> set seen then Inl (PciTwice bdf)
      else check_devices fs (bdf # seen) bdfs)"

definition positive_or :: "(int \<Rightarrow> create_error) \<Rightarrow> int option \<Rightarrow> (create_error, unit) result" where
  "positive_or err v = (case v of Some i \<Rightarrow> if i \<le> 0 then Inl (err i) else Inr () | None \<Rightarrow> Inr ())"

definition validate_create_bounds :: "host_nets \<Rightarrow> host_fs \<Rightarrow> sockets \<Rightarrow> string list \<Rightarrow> create_args
    \<Rightarrow> (create_error, nicspec list \<times> string list) result" where
  "validate_create_bounds h fs dir peers a =
     res_bind (positive_or BadVcpus (ca_vcpus a)) (\<lambda>_.
     res_bind (positive_or BadMem (ca_mem a)) (\<lambda>_.
       let total = get_or 0 (ca_mdt_disks a) + get_or 0 (ca_ost_disks a)
       in if total > 25 then Inl (TooManyDisks total)
          else
            res_bind (parse_nics (ca_nic a)) (\<lambda>nics.
            res_bind (map_err NetError (nic_network_problem h nics)) (\<lambda>issue.
              case issue of Some p \<Rightarrow> Inl (NetIssue p) | None \<Rightarrow>
              case numa_problem nics (get_or 0 (ca_numa_nodes a)) of
                Some p \<Rightarrow> Inl (NumaIssue p)
              | None \<Rightarrow>
                  let bdfs = filter (\<lambda>b. b \<noteq> []) (map nic_bdf nics)
                  in if bdfs = [] then Inr (nics, [])
                     else if \<not> fs_iommu fs then Inl NoIommu
                     else
                       res_bind (check_devices fs [] bdfs) (\<lambda>_.
                       res_bind (check_passthrough_conflicts dir peers bdfs) (\<lambda>_. Inr (nics, bdfs)))))))"

subsection \<open>Failover disks\<close>

fun disks_taken :: "sockets \<Rightarrow> string \<Rightarrow> string \<Rightarrow> string list \<Rightarrow> (create_error, unit) result" where
  "disks_taken dir name owner [] = Inr ()"
| "disks_taken dir name owner (other # others) =
     (if other = name \<or> other = owner then disks_taken dir name owner others
      else case vm_load dir other of
          Inl _ \<Rightarrow> disks_taken dir name owner others
        | Inr vm \<Rightarrow>
            if vm_disks_from vm = owner then Inl (FromTaken owner other)
            else disks_taken dir name owner others)"

text \<open>The arguments come back with the disk counts set to zero for a partner.\<close>

definition validate_failover_disks :: "sockets \<Rightarrow> string list \<Rightarrow> create_args
    \<Rightarrow> (create_error, vminfo option \<times> create_args) result" where
  "validate_failover_disks dir peers a =
     (let owner_name = ca_disks_from a
      in if owner_name = [] then Inr (None, a)
         else if ca_share_disks a then Inl ShareAndFrom
         else
           res_bind (map_err FromName (validate_vm_name_for_lookup owner_name)) (\<lambda>_.
             if owner_name = ca_name a then Inl (FromSelf owner_name)
             else if ca_typed_disks a then Inl FromOwnDisks
             else
               case vm_load dir owner_name of
                 Inl (VMNotFound _) \<Rightarrow> Inl (FromMissing owner_name)
               | Inl e \<Rightarrow> Inl (FromLoad e)
               | Inr owner \<Rightarrow>
                   if vm_disks_from owner \<noteq> [] then Inl (FromChain owner_name (vm_disks_from owner))
                   else if \<not> vm_share_disks owner then Inl (FromNotShared owner_name)
                   else if vm_mdt_disks owner + vm_ost_disks owner = 0 then Inl (FromNoDisks owner_name)
                   else
                     res_map (\<lambda>_. (Some owner, a\<lparr>ca_mdt_disks := Some 0, ca_ost_disks := Some 0\<rparr>))
                       (disks_taken dir (ca_name a) owner_name peers)))"

subsection \<open>Disk options\<close>

definition DISK_CACHE_MODES :: "string list" where
  "DISK_CACHE_MODES = [''none'', ''writeback'', ''writethrough'', ''directsync'', ''unsafe'']"

definition DISK_PREALLOC_MODES :: "string list" where
  "DISK_PREALLOC_MODES = [''falloc'', ''full'']"

text \<open>\<^verbatim>\<open>os.path.normpath\<close> of an absolute path: empty and \<open>.\<close> components are dropped, \<open>..\<close>
  drops the one before it, exactly two leading slashes are kept.\<close>

fun norm_comps :: "string list \<Rightarrow> string list \<Rightarrow> string list" where
  "norm_comps acc [] = rev acc"
| "norm_comps acc (c # cs) =
     (if c = [] \<or> c = ''.'' then norm_comps acc cs
      else if c = ''..'' then norm_comps (tl acc) cs
      else norm_comps (c # acc) cs)"

definition normpath_abs :: "string \<Rightarrow> string" where
  "normpath_abs p =
     (let slashes = (if startswith p ''//'' \<and> \<not> startswith p ''///'' then ''//'' else ''/'')
      in slashes @ join ''/'' (norm_comps [] (split_on CHR ''/'' p)))"

definition validate_disk_options :: "host_fs \<Rightarrow> create_args \<Rightarrow> (create_error, create_args) result" where
  "validate_disk_options fs a =
     (let d = ca_disk_dir a; cache = ca_disk_cache a; prealloc = ca_disk_prealloc a
      in if cache \<noteq> [] \<and> cache \<notin> set DISK_CACHE_MODES then Inl (BadCache cache)
         else if prealloc \<noteq> [] \<and> prealloc \<notin> set DISK_PREALLOC_MODES then Inl (BadPrealloc prealloc)
         else
           res_bind
             (if d = [] then Inr []
              else if \<not> startswith d ''/'' then Inl (DirRelative d)
              else if CHR '','' \<in> set d \<or> list_ex (\<lambda>c. (of_char c :: nat) < 32) d then Inl (DirCharacters d)
              else if \<not> fs_isdir fs (normpath_abs d) then Inl (DirMissing (normpath_abs d))
              else Inr (normpath_abs d))
             (\<lambda>d'.
               if ca_disks_from a \<noteq> [] \<and> (d' \<noteq> [] \<or> prealloc \<noteq> []) then Inl FromOptions
               else if cache \<noteq> [] \<and> cache \<noteq> ''none'' \<and> (ca_disks_from a \<noteq> [] \<or> ca_share_disks a)
               then Inl (SharedCache cache)
               else Inr (a\<lparr>ca_disk_dir := d'\<rparr>)))"

subsection \<open>Device names for the disks\<close>

definition disk_letter :: "int \<Rightarrow> char" where
  "disk_letter n = char_of (nat (97 + n))"

definition env_count :: "string \<Rightarrow> int \<Rightarrow> string" where
  "env_count var n = var @ ''=${_ltvm_env_'' @ var @ '':-'' @ str_int n @ ''}''"

definition py_range :: "int \<Rightarrow> int \<Rightarrow> int list" where
  "py_range lo hi = [lo..hi - 1]"

text \<open>The lines \<^verbatim>\<open>configure_test_disks\<close> puts into \<^verbatim>\<open>cfg/local.sh\<close>.\<close>

definition mds_dev_line :: "int \<Rightarrow> string" where
  "mds_dev_line n = ''MDSDEV'' @ str_int n @ ''=/dev/vd'' @ [disk_letter n]"

definition ost_dev_line :: "int \<Rightarrow> int \<Rightarrow> string" where
  "ost_dev_line mdt_disks n = ''OSTDEV'' @ str_int n @ ''=/dev/vd'' @ [disk_letter (mdt_disks + n)]"

definition test_disk_lines :: "int \<Rightarrow> int \<Rightarrow> int \<Rightarrow> string list" where
  "test_disk_lines mdt_disks ost_disks disk_size_bytes =
     (if disk_size_bytes \<noteq> 0 then
        (if mdt_disks \<noteq> 0 then [''MDSSIZE='' @ str_int (disk_size_bytes div 1024)] else []) @
        (if ost_disks \<noteq> 0 then [''OSTSIZE='' @ str_int (disk_size_bytes div 1024)] else [])
      else []) @
     (if mdt_disks \<noteq> 0 then
        env_count ''MDSCOUNT'' mdt_disks # map mds_dev_line (py_range 1 (mdt_disks + 1)) else []) @
     (if ost_disks \<noteq> 0 then
        env_count ''OSTCOUNT'' ost_disks # map (ost_dev_line mdt_disks) (py_range 1 (ost_disks + 1)) else []) @
     [''CLIENTS=${CLIENTS:-$HOSTNAME}'', ''CLIENTCOUNT=${CLIENTCOUNT:-1}'']"

subsection \<open>Names\<close>

lemma name_rest_safe: "name_rest c \<Longrightarrow> \<not> islinebreak c \<and> \<not> isspace c \<and> c \<noteq> CHR ''#'' \<and> c \<noteq> CHR ''='' \<and> c \<noteq> CHR ''|'' \<and> c \<notin> set VM_NAME_UNSAFE"
proof -
  have "list_all (\<lambda>c. \<not> islinebreak c \<and> \<not> isspace c \<and> c \<noteq> CHR ''#'' \<and> c \<noteq> CHR ''='' \<and> c \<noteq> CHR ''|'' \<and> c \<notin> set VM_NAME_UNSAFE)
      (''abcdefghijklmnopqrstuvwxyzABCDEFGHIJKLMNOPQRSTUVWXYZ'' @ ''0123456789'' @ ''._-'')"
    by code_simp
  moreover have "name_rest c \<Longrightarrow> c \<in> set (''abcdefghijklmnopqrstuvwxyzABCDEFGHIJKLMNOPQRSTUVWXYZ'' @ ''0123456789'' @ ''._-'')"
    unfolding name_rest_def isalpha_ascii_def isdecimal_def set_append by auto
  ultimately show "name_rest c \<Longrightarrow> ?thesis" unfolding list_all_iff by blast
qed

lemma vm_name_shape_rest: "vm_name_shape s \<Longrightarrow> c \<in> set s \<Longrightarrow> name_rest c"
  by (auto simp: vm_name_shape_def name_rest_def list_all_iff split: list.splits)

lemma vm_name_shape_hd: "vm_name_shape s \<Longrightarrow> s \<noteq> [] \<and> (isalpha_ascii (hd s) \<or> isdecimal (hd s))"
  by (auto simp: vm_name_shape_def split: list.splits)

lemma vm_name_re_shape: "vm_name_re s \<Longrightarrow> CHR 0x0A \<notin> set s \<Longrightarrow> vm_name_shape s"
  by (auto simp: vm_name_re_def) (metis last_in_set)

lemma not_alnum_dot: "\<not> (isalpha_ascii CHR ''.'' \<or> isdecimal CHR ''.'')"
  by (simp add: isalpha_ascii_def isdecimal_def)

text \<open>
  A name the create check accepts, and that does not end in a newline, is safe wherever
  it goes: in the hosts file and the ssh configuration, as a field of a state file, and in
  the lookups of later commands; it never reads as a pattern or a path.
\<close>

theorem valid_vm_name_safe:
  assumes "validate_vm_name n = Inr ()" "CHR 0x0A \<notin> set n"
  shows "reg_name n \<and> unbroken n \<and> CHR ''|'' \<notin> set n \<and> CHR ''='' \<notin> set n \<and> length n \<le> 63 \<and>
    validate_vm_name_for_lookup n = Inr ()"
proof -
  from assms have shape: "vm_name_shape n" and len: "length n \<le> 63" and ne: "n \<noteq> []"
    by (auto simp: validate_vm_name_def dest: vm_name_re_shape split: if_splits)
  note safe = name_rest_safe [OF vm_name_shape_rest [OF shape]]
  have "hd n \<noteq> CHR ''.''" using vm_name_shape_hd [OF shape] not_alnum_dot by metis
  then have "n \<noteq> ''..''" "n \<noteq> ''.''" "\<not> startswith n ''../''"
    using ne by (cases n; auto simp: startswith_def)+
  moreover have "\<not> list_ex (\<lambda>c. c \<in> set VM_NAME_UNSAFE) n" using safe by (auto simp: list_ex_iff)
  ultimately show ?thesis
    using safe len ne by (auto simp: reg_name_def unbroken_def list_all_iff validate_vm_name_for_lookup_def)
qed

theorem valid_vm_name_safe_witness: "reg_name ''co1-mds.2'' \<and> validate_vm_name_for_lookup ''co1-mds.2'' = Inr ()"
proof -
  have "validate_vm_name ''co1-mds.2'' = Inr ()" by code_simp
  from valid_vm_name_safe [OF this] show ?thesis by simp
qed

text \<open>
  The create check lets a trailing newline through, although the name then breaks the
  line of the hosts file and is refused as a name everywhere else.
\<close>

theorem vm_name_trailing_newline:
  "validate_vm_name (''co1'' @ [CHR 0x0A]) = Inr () \<and> \<not> reg_name (''co1'' @ [CHR 0x0A])"
  by code_simp

text \<open>
  The kernel arguments a create accepts can hold a line boundary of the state file: the
  check refuses control characters below 0x20 and 0x7F, not 0x85, at which the loader
  splits lines.
\<close>

theorem kernel_args_break_line:
  "validate_kernel_args (Some (''quiet'' @ [CHR 0x85] @ ''PID=1'')) = Inr (''quiet'' @ [CHR 0x85] @ ''PID=1'') \<and>
   load_lines (splitlines (fields_text [(''KERNEL_ARGS'', ''quiet'' @ [CHR 0x85] @ ''PID=1'')])) [] =
     [(''KERNEL_ARGS'', ''quiet''), (''PID'', ''1'')]"
  by code_simp

subsection \<open>Sizes\<close>

lemma upper_digits: "(\<And>c. c \<in> set s \<Longrightarrow> isdecimal c \<or> c = CHR ''-'') \<Longrightarrow> upper s = s"
proof -
  have "upper_char c = [c]" if "isdecimal c \<or> c = CHR ''-''" for c
    using that unfolding isdecimal_def by (auto simp: upper_char_def)
  then show "(\<And>c. c \<in> set s \<Longrightarrow> isdecimal c \<or> c = CHR ''-'') \<Longrightarrow> ?thesis"
    unfolding upper_def by (induction s) auto
qed

lemma upper_append [simp]: "upper (a @ b) = upper a @ upper b"
  by (simp add: upper_def)

lemma parse_size_label:
  assumes "c = CHR ''M'' \<and> u = 2 ^ 20 \<or> c = CHR ''G'' \<and> u = 2 ^ 30" "0 < n" "mn \<le> n * u" "n * u \<le> MAX_DISK_BYTES"
  shows "parse_size d mn (SStr (str_int n @ [c])) = Inr (n * u)"
proof -
  have c: "\<not> isspace c" "upper [c] = [c]" "size_suffix c = Some u"
    using assms(1) by (auto simp: char_class_defs upper_def upper_char_def size_suffix_def)
  have "strip (str_int n @ [c]) = str_int n @ [c]"
    using c(1) str_int_clean by (intro strip_no_space) auto
  moreover have "upper (str_int n) = str_int n" by (rule upper_digits) (rule str_int_chars)
  ultimately show ?thesis using assms(2-4) c by (simp add: parse_size_def)
qed

lemma multiple_ge: "0 < n \<Longrightarrow> n mod k = 0 \<Longrightarrow> 0 < k \<Longrightarrow> k \<le> (n :: int)"
  by (simp add: mod_0_imp_dvd zdvd_imp_le)

lemma parse_size_range:
  assumes "parse_size d mn v = Inr r"
  shows "r = d \<or> mn \<le> r \<and> r \<le> MAX_DISK_BYTES"
  using assms by (auto simp: parse_size_def Let_def split: size_value.splits if_splits option.splits)

text \<open>
  Sizes: what the parser returns is the default or within the limits, and the label a
  size is shown with, if it is a whole number of MiB within the limits, parses back to it.
\<close>

theorem size_label_roundtrip:
  assumes "0 < n" "n mod 2 ^ 20 = 0" "mn \<le> n" "n \<le> MAX_DISK_BYTES"
  shows "parse_size d mn (SStr (size_label n)) = Inr n \<and>
    (\<forall>v r. parse_size d mn v = Inr r \<longrightarrow> r = d \<or> mn \<le> r \<and> r \<le> MAX_DISK_BYTES)"
proof -
  have "parse_size d mn (SStr (size_label n)) = Inr n"
  proof (cases "n mod 2 ^ 30 = 0")
    case True
    then have "2 ^ 30 \<le> n" using assms(1) by (intro multiple_ge) simp_all
    moreover from True have "n = n div 2 ^ 30 * 2 ^ 30" by (metis add.right_neutral div_mult_mod_eq)
    ultimately show ?thesis using True assms parse_size_label [of "CHR ''G''" "2 ^ 30" "n div 2 ^ 30" mn d]
      by (simp add: size_label_def pos_imp_zdiv_pos_iff)
  next
    case False
    have "2 ^ 20 \<le> n" using assms by (intro multiple_ge) simp_all
    moreover have "n = n div 2 ^ 20 * 2 ^ 20" using assms(2) by (metis add.right_neutral div_mult_mod_eq)
    ultimately show ?thesis using False assms parse_size_label [of "CHR ''M''" "2 ^ 20" "n div 2 ^ 20" mn d]
      by (simp add: size_label_def pos_imp_zdiv_pos_iff)
  qed
  then show ?thesis using parse_size_range by blast
qed

theorem size_label_roundtrip_witness: "parse_disk_size (SStr (size_label 536870912)) = Inr 536870912"
  using size_label_roundtrip [of 536870912 MIN_DISK_BYTES DISK_SIZE_BYTES]
  by (simp add: MIN_DISK_BYTES_def MAX_DISK_BYTES_def parse_disk_size_def)

subsection \<open>Device names\<close>

definition line_device :: "string \<Rightarrow> string" where
  "line_device l = snd (snd (partition1 CHR ''='' l))"

definition data_devices :: "string list \<Rightarrow> string list" where
  "data_devices lines = map line_device (filter (\<lambda>l. startswith l ''MDSDEV'' \<or> startswith l ''OSTDEV'') lines)"

definition disk_device :: "int \<Rightarrow> string" where
  "disk_device n = ''/dev/vd'' @ [disk_letter n]"

lemma data_devices_append [simp]: "data_devices (a @ b) = data_devices a @ data_devices b"
  by (simp add: data_devices_def)

lemma data_devices_Nil [simp]: "data_devices [] = []"
  by (simp add: data_devices_def)

lemma no_equals: "CHR ''='' \<notin> set (str_int n)"
  using str_int_chars [of _ n] by (auto simp: char_class_defs)

lemma dev_lines:
  "startswith (mds_dev_line n) ''MDSDEV''" "startswith (ost_dev_line m n) ''OSTDEV''"
  "line_device (mds_dev_line n) = disk_device n" "line_device (ost_dev_line m n) = disk_device (m + n)"
  using no_equals partition1_append [of "CHR ''=''" "''MDSDEV'' @ str_int n" "''/dev/vd'' @ [disk_letter n]"]
    partition1_append [of "CHR ''=''" "''OSTDEV'' @ str_int n" "''/dev/vd'' @ [disk_letter (m + n)]"]
  by (simp_all add: mds_dev_line_def ost_dev_line_def line_device_def disk_device_def startswith_def)

lemma dev_line_devices:
  "data_devices (map mds_dev_line ns) = map disk_device ns"
  "data_devices (map (ost_dev_line m) ns) = map (\<lambda>n. disk_device (m + n)) ns"
  by (induction ns) (simp_all add: data_devices_def dev_lines)

lemma other_line_devices:
  "data_devices (env_count ''MDSCOUNT'' n # ls) = data_devices ls"
  "data_devices (env_count ''OSTCOUNT'' n # ls) = data_devices ls"
  "data_devices ((''MDSSIZE='' @ s) # ls) = data_devices ls"
  "data_devices ((''OSTSIZE='' @ s) # ls) = data_devices ls"
  "data_devices [''CLIENTS=${CLIENTS:-$HOSTNAME}'', ''CLIENTCOUNT=${CLIENTCOUNT:-1}''] = []"
  by (simp_all add: data_devices_def env_count_def startswith_def)

lemma py_range_shift: "0 \<le> n \<Longrightarrow> map (\<lambda>i. m + i) (py_range 1 (n + 1)) = py_range (m + 1) (m + n + 1)"
  unfolding py_range_def by (rule nth_equalityI) (auto simp: nth_upto)

lemma py_range_append: "0 \<le> m \<Longrightarrow> 0 \<le> n \<Longrightarrow>
    py_range 1 (m + 1) @ py_range (m + 1) (m + n + 1) = py_range 1 (m + n + 1)"
  unfolding py_range_def using upto_split2 [of 1 m "m + n"] by (cases "m = 0") (auto simp: ac_simps)

lemma test_disk_devices:
  assumes "0 \<le> m" "0 \<le> o'"
  shows "data_devices (test_disk_lines m o' sz) = map disk_device (py_range 1 (m + o' + 1))"
proof -
  have zero: "py_range 1 1 = []" by (simp add: py_range_def)
  have "data_devices (test_disk_lines m o' sz) =
      map disk_device (py_range 1 (m + 1)) @ map (\<lambda>n. disk_device (m + n)) (py_range 1 (o' + 1))"
    by (simp add: test_disk_lines_def other_line_devices other_line_devices [simplified] dev_line_devices zero)
  also have "\<dots> = map disk_device (py_range 1 (m + 1) @ map (\<lambda>n. m + n) (py_range 1 (o' + 1)))"
    by simp
  finally show ?thesis using assms by (simp only: py_range_shift py_range_append)
qed

lemma of_disk_letter: "1 \<le> n \<Longrightarrow> n \<le> 25 \<Longrightarrow> of_char (disk_letter n) = nat (97 + n)"
  by (simp add: disk_letter_def)

lemma disk_device_inj: "inj_on disk_device {1..25}"
proof (rule inj_onI)
  fix x y assume xy: "x \<in> {1..25}" "y \<in> {1..25}" and "disk_device x = disk_device y"
  then have "disk_letter x = disk_letter y" by (simp add: disk_device_def)
  then have "nat (97 + x) = nat (97 + y)" using xy of_disk_letter [of x] of_disk_letter [of y] by simp
  then show "x = y" using xy by auto
qed

definition data_letters :: string where
  "data_letters = ''bcdefghijklmnopqrstuvwxyz''"

lemma disk_device_letters: "1 \<le> n \<Longrightarrow> n \<le> 25 \<Longrightarrow> disk_device n \<in> (\<lambda>c. ''/dev/vd'' @ [c]) ` set data_letters"
proof -
  assume n: "1 \<le> n" "n \<le> 25"
  have "list_all (\<lambda>i. disk_letter i \<in> set data_letters) [1..25]" by code_simp
  then have "disk_letter n \<in> set data_letters" using n by (simp only: list_all_iff set_upto atLeastAtMost_iff)
  then show ?thesis unfolding disk_device_def by blast
qed

text \<open>
  The devices the test configuration names are, in order, one per data disk from
  \<^verbatim>\<open>/dev/vdb\<close> on; within the disk limit they are different and none is the root disk.
\<close>

theorem test_disks_distinct:
  assumes "0 \<le> m" "0 \<le> o'" "m + o' \<le> 25"
  shows "length (data_devices (test_disk_lines m o' sz)) = nat (m + o') \<and>
    distinct (data_devices (test_disk_lines m o' sz)) \<and>
    set (data_devices (test_disk_lines m o' sz)) \<subseteq> (\<lambda>c. ''/dev/vd'' @ [c]) ` set data_letters"
proof -
  let ?ns = "py_range 1 (m + o' + 1)"
  have range: "set ?ns \<subseteq> {1..25}" and "distinct ?ns" and len: "length ?ns = nat (m + o')"
    using assms by (auto simp: py_range_def)
  then have "distinct (map disk_device ?ns)"
    using inj_on_subset [OF disk_device_inj range] by (simp add: distinct_map)
  moreover have "set (map disk_device ?ns) \<subseteq> (\<lambda>c. ''/dev/vd'' @ [c]) ` set data_letters"
    using range disk_device_letters by fastforce
  ultimately show ?thesis
    unfolding test_disk_devices [OF assms(1,2)] using len by simp
qed

theorem test_disks_distinct_witness:
  "distinct (data_devices (test_disk_lines 2 3 0))"
  using test_disks_distinct [of 2 3 0] by simp

definition args_negative :: create_args where
  "args_negative = \<lparr>ca_name = ''a'', ca_vcpus = None, ca_mem = None, ca_mdt_disks = Some (-1),
     ca_ost_disks = Some 3, ca_nic = [], ca_numa_nodes = None, ca_share_disks = False,
     ca_disks_from = [], ca_typed_disks = True, ca_disk_dir = [], ca_disk_cache = [],
     ca_disk_prealloc = []\<rparr>"

text \<open>
  A negative disk count passes the checks of a create, and the test configuration then
  names the root disk as an object storage target, to be formatted.
\<close>

theorem negative_disks_name_root:
  "validate_create_bounds host_example \<lparr>fs_iommu = False, fs_pci = (\<lambda>_. False), fs_isdir = (\<lambda>_. False)\<rparr>
     Map.empty [] args_negative = Inr ([], []) \<and>
   ''OSTDEV1=/dev/vda'' \<in> set (test_disk_lines (-1) 3 (500 * 2 ^ 20))"
  by code_simp

end
