(* ===== verification/ClusterState.thy ===== *)
theory ClusterState
  imports VmClaim CreateChecks
begin

text \<open>
  Clusters: the record a cluster is stored as (\<^verbatim>\<open>ClusterNode\<close>, \<^verbatim>\<open>ClusterInfo\<close> and
  \<^verbatim>\<open>drop_orphan_clusters\<close> of \<^verbatim>\<open>vm_state.py\<close>) and the checks of \<^verbatim>\<open>cluster create\<close>
  (\<^verbatim>\<open>vm_cluster.py\<close>).  A \<^verbatim>\<open>.cluster\<close> file is modelled by the document
  \<^verbatim>\<open>json.loads\<close> makes of it.  The classes check no types, so a value whose type is not
  the annotated one travels on in the source; such documents are outside the model and
  marked by \<open>IllTyped\<close>.
\<close>

subsection \<open>Nodes\<close>

record cluster_node =
  cn_name :: string
  cn_roles :: "string list"
  cn_mdt_disks :: int
  cn_ost_disks :: int
  cn_ip :: string
  cn_failover_for :: string

definition is_mgs :: "cluster_node \<Rightarrow> bool" where
  "is_mgs n \<longleftrightarrow> ''mgs'' \<in> set (cn_roles n)"

definition is_mds :: "cluster_node \<Rightarrow> bool" where
  "is_mds n \<longleftrightarrow> ''mds'' \<in> set (cn_roles n)"

definition is_oss :: "cluster_node \<Rightarrow> bool" where
  "is_oss n \<longleftrightarrow> ''oss'' \<in> set (cn_roles n)"

definition is_client :: "cluster_node \<Rightarrow> bool" where
  "is_client n \<longleftrightarrow> ''client'' \<in> set (cn_roles n)"

definition is_server :: "cluster_node \<Rightarrow> bool" where
  "is_server n \<longleftrightarrow> is_mgs n \<or> is_mds n \<or> is_oss n \<or> cn_failover_for n \<noteq> []"

datatype cluster_error =
    ClusterNotFound string
  | ClusterCorrupt string
  | ClusterNoNodes string
  | ClusterCountValue
  | ClusterCountType
  | NodesNotIterable
  | NodeNotObject string
  | NodeMissing string string
  | NoMgsNode string
  | NoSuchNode string string
  | IllTyped string

text \<open>\<^verbatim>\<open>except (ClusterNotFound, RuntimeError, ValueError)\<close>; the others are a
  \<^verbatim>\<open>TypeError\<close>.\<close>

fun cluster_caught :: "cluster_error \<Rightarrow> bool" where
  "cluster_caught ClusterCountType = False"
| "cluster_caught NodesNotIterable = False"
| "cluster_caught (IllTyped _) = False"
| "cluster_caught _ = True"

subsection \<open>The record\<close>

record cluster_info =
  ci_name :: string
  ci_nodes :: json
  ci_owner_id :: "string option"
  ci_ip_family :: string
  ci_ost_count :: int
  ci_fstype :: string

datatype cluster_file = BadFile | GoodFile json

type_synonym clusters = "string \<rightharpoonup> cluster_file"

definition cluster_doc :: "cluster_info \<Rightarrow> (string, json) dict" where
  "cluster_doc c =
     [(''name'', JStr (ci_name c)), (''nodes'', ci_nodes c), (''owner_id'', opt_json JStr (ci_owner_id c))] @
     (if ci_ip_family c \<noteq> [] then [(''ip_family'', JStr (ci_ip_family c))] else []) @
     (if ci_ost_count c \<noteq> 0 then [(''ost_count'', JInt (ci_ost_count c))] else []) @
     (if ci_fstype c \<noteq> [] then [(''fstype'', JStr (ci_fstype c))] else [])"

definition cluster_save :: "cluster_info \<Rightarrow> clusters \<Rightarrow> (owner_error, clusters) result" where
  "cluster_save c store =
     res_bind (case ci_owner_id c of None \<Rightarrow> Inr [] | Some o' \<Rightarrow> validate_owner_id o') (\<lambda>_.
       Inr (store(ci_name c \<mapsto> GoodFile (JObj (cluster_doc c)))))"

fun want_str :: "string \<Rightarrow> json \<Rightarrow> (cluster_error, string) result" where
  "want_str key (JStr s) = Inr s"
| "want_str key _ = Inl (IllTyped key)"

fun want_opt_str :: "string \<Rightarrow> json \<Rightarrow> (cluster_error, string option) result" where
  "want_opt_str key JNull = Inr None"
| "want_opt_str key j = res_map Some (want_str key j)"

text \<open>\<^verbatim>\<open>int(v or 0)\<close>.\<close>

definition json_count :: "json \<Rightarrow> (cluster_error, int) result" where
  "json_count j =
     (if \<not> json_truthy j then Inr 0
      else case json_int j of
          Some i \<Rightarrow> Inr i
        | None \<Rightarrow> Inl (case j of JStr _ \<Rightarrow> ClusterCountValue | _ \<Rightarrow> ClusterCountType))"

definition cluster_of_doc :: "(json \<Rightarrow> string) \<Rightarrow> string \<Rightarrow> (string, json) dict \<Rightarrow> (cluster_error, cluster_info) result" where
  "cluster_of_doc rep name d =
     (case dict_get d ''nodes'' of
        None \<Rightarrow> Inl (ClusterNoNodes name)
      | Some nodes \<Rightarrow>
          res_bind (want_str ''name'' (get_or (JStr name) (dict_get d ''name''))) (\<lambda>cname.
          res_bind (want_opt_str ''owner_id'' (get_or JNull (dict_get d ''owner_id''))) (\<lambda>owner.
          res_bind (want_str ''ip_family'' (get_or (JStr []) (dict_get d ''ip_family''))) (\<lambda>family.
          res_bind (json_count (get_or (JInt 0) (dict_get d ''ost_count''))) (\<lambda>count.
            let f = get_or (JStr []) (dict_get d ''fstype'')
            in Inr \<lparr>ci_name = cname, ci_nodes = nodes, ci_owner_id = owner, ci_ip_family = family,
                 ci_ost_count = count, ci_fstype = (if json_truthy f then json_str rep f else [])\<rparr>)))))"

definition cluster_load :: "(json \<Rightarrow> string) \<Rightarrow> clusters \<Rightarrow> string \<Rightarrow> (cluster_error, cluster_info) result" where
  "cluster_load rep store name =
     (case store name of
        None \<Rightarrow> Inl (ClusterNotFound name)
      | Some BadFile \<Rightarrow> Inl (ClusterCorrupt name)
      | Some (GoodFile (JObj d)) \<Rightarrow> cluster_of_doc rep name d
      | Some (GoodFile _) \<Rightarrow> Inl (ClusterNoNodes name))"

subsection \<open>Reading the nodes\<close>

text \<open>What iterating over a decoded value yields.\<close>

fun json_iter :: "json \<Rightarrow> json list option" where
  "json_iter (JList xs) = Some xs"
| "json_iter (JStr s) = Some (map (\<lambda>c. JStr [c]) s)"
| "json_iter (JObj d) = Some (map (JStr \<circ> fst) d)"
| "json_iter _ = None"

fun want_int :: "string \<Rightarrow> json \<Rightarrow> (cluster_error, int) result" where
  "want_int key (JInt i) = Inr i"
| "want_int key _ = Inl (IllTyped key)"

fun want_strs :: "string \<Rightarrow> json \<Rightarrow> (cluster_error, string list) result" where
  "want_strs key (JList xs) = res_list (want_str key) xs"
| "want_strs key _ = Inl (IllTyped key)"

fun node_of_doc :: "string \<Rightarrow> json \<Rightarrow> (cluster_error, cluster_node) result" where
  "node_of_doc cname (JObj d) =
     (case (dict_get d ''name'', dict_get d ''roles'') of
        (None, _) \<Rightarrow> Inl (NodeMissing cname ''name'')
      | (_, None) \<Rightarrow> Inl (NodeMissing cname ''roles'')
      | (Some name, Some roles) \<Rightarrow>
          res_bind (want_str ''name'' name) (\<lambda>name.
          res_bind (want_strs ''roles'' roles) (\<lambda>roles.
          res_bind (want_int ''mdt_disks'' (get_or (JInt 0) (dict_get d ''mdt_disks''))) (\<lambda>mdt.
          res_bind (want_int ''ost_disks'' (get_or (JInt 0) (dict_get d ''ost_disks''))) (\<lambda>ost.
          res_bind (want_str ''ip'' (get_or (JStr []) (dict_get d ''ip''))) (\<lambda>ip.
          res_bind (want_str ''failover_for'' (get_or (JStr []) (dict_get d ''failover_for''))) (\<lambda>ff.
            Inr \<lparr>cn_name = name, cn_roles = roles, cn_mdt_disks = mdt, cn_ost_disks = ost,
              cn_ip = ip, cn_failover_for = ff\<rparr>)))))))"
| "node_of_doc cname _ = Inl (NodeNotObject cname)"

definition get_nodes :: "cluster_info \<Rightarrow> (cluster_error, cluster_node list) result" where
  "get_nodes c =
     (case json_iter (ci_nodes c) of
        None \<Rightarrow> Inl NodesNotIterable
      | Some docs \<Rightarrow> res_list (node_of_doc (ci_name c)) docs)"

text \<open>\<open>vm_exists n\<close>: the \<^verbatim>\<open>.info\<close> file of \<open>n\<close> exists.\<close>

definition orphaned :: "(string \<Rightarrow> bool) \<Rightarrow> cluster_info \<Rightarrow> (cluster_error, bool) result" where
  "orphaned vm_exists c =
     res_map (\<lambda>nodes. nodes \<noteq> [] \<and> \<not> list_ex (\<lambda>n. vm_exists (cn_name n)) nodes) (get_nodes c)"

definition mgs_node :: "cluster_info \<Rightarrow> (cluster_error, cluster_node) result" where
  "mgs_node c =
     res_bind (get_nodes c) (\<lambda>nodes.
       case find is_mgs nodes of Some n \<Rightarrow> Inr n | None \<Rightarrow> Inl (NoMgsNode (ci_name c)))"

definition mds_nodes :: "cluster_info \<Rightarrow> (cluster_error, cluster_node list) result" where
  "mds_nodes c = res_map (filter is_mds) (get_nodes c)"

definition oss_nodes :: "cluster_info \<Rightarrow> (cluster_error, cluster_node list) result" where
  "oss_nodes c = res_map (filter is_oss) (get_nodes c)"

definition client_nodes :: "cluster_info \<Rightarrow> (cluster_error, cluster_node list) result" where
  "client_nodes c = res_map (filter is_client) (get_nodes c)"

definition find_node :: "cluster_info \<Rightarrow> string \<Rightarrow> (cluster_error, cluster_node) result" where
  "find_node c name =
     res_bind (get_nodes c) (\<lambda>nodes.
       case find (\<lambda>n. cn_name n = name) nodes of
         Some n \<Rightarrow> Inr n | None \<Rightarrow> Inl (NoSuchNode (ci_name c) name))"

definition partner_dict :: "cluster_node list \<Rightarrow> (string, string) dict" where
  "partner_dict nodes =
     fold (\<lambda>n d. if cn_failover_for n \<noteq> [] then dict_set d (cn_failover_for n) (cn_name n) else d) nodes []"

definition info_partners :: "cluster_info \<Rightarrow> (cluster_error, (string, string) dict) result" where
  "info_partners c = res_map partner_dict (get_nodes c)"

definition local_node :: "cluster_info \<Rightarrow> (cluster_error, cluster_node) result" where
  "local_node c =
     res_bind (client_nodes c) (\<lambda>clients.
       case clients of [] \<Rightarrow> mgs_node c | n # _ \<Rightarrow> Inr n)"

subsection \<open>Dropping orphaned records\<close>

definition drop_wanted :: "(json \<Rightarrow> string) \<Rightarrow> (string \<Rightarrow> bool) \<Rightarrow> string set \<Rightarrow> clusters \<Rightarrow> string
    \<Rightarrow> (cluster_error, cluster_info option) result" where
  "drop_wanted rep vm_exists members store cname =
     res_bind (cluster_load rep store cname) (\<lambda>c.
     res_bind (get_nodes c) (\<lambda>nodes.
       if \<not> list_ex (\<lambda>n. cn_name n \<in> members) nodes then Inr None
       else res_map (\<lambda>o'. if o' then Some c else None) (orphaned vm_exists c)))"

fun drop_orphan_clusters :: "(json \<Rightarrow> string) \<Rightarrow> (string \<Rightarrow> bool) \<Rightarrow> string set \<Rightarrow> string list \<Rightarrow> clusters
    \<Rightarrow> (cluster_error, string list \<times> clusters) result" where
  "drop_orphan_clusters rep vm_exists members [] store = Inr ([], store)"
| "drop_orphan_clusters rep vm_exists members (cname # names) store =
     (case drop_wanted rep vm_exists members store cname of
        Inl e \<Rightarrow>
          if cluster_caught e then drop_orphan_clusters rep vm_exists members names store else Inl e
      | Inr None \<Rightarrow> drop_orphan_clusters rep vm_exists members names store
      | Inr (Some c) \<Rightarrow>
          res_map (\<lambda>(dropped, st). (cname # dropped, st))
            (drop_orphan_clusters rep vm_exists members names (store(ci_name c := None))))"

end
