(* ===== verification/ClusterCreate.thy ===== *)
theory ClusterCreate
  imports ClusterState
begin

text \<open>
  \<^verbatim>\<open>cluster create\<close> (\<^verbatim>\<open>vm_cluster.py\<close>): the node specifications, the failover partners
  added to them, the checks made before any node exists, the command line each node is
  created with, and what is recorded or cleaned up when the nodes are up or one failed.
  Target and kernel configuration, the host's memory budget and the outcome of each
  node's own \<^verbatim>\<open>ltvm create\<close> are arguments.  Messages are error constructors.
\<close>

subsection \<open>Node specifications\<close>

datatype spec_error =
    SpecShort string
  | SpecName name_error
  | SpecCount string
  | SpecRole string

datatype failover_error =
    FailName name_error
  | FailIsSpec string
  | FailNoPrimary string
  | FailClient string
  | FailTwo string string string

definition node_roles :: "string list" where
  "node_roles = [''mgs'', ''mds'', ''oss'', ''client'']"

definition parse_node_spec :: "string \<Rightarrow> (spec_error, cluster_node) result" where
  "parse_node_spec spec =
     (let parts = split_on CHR '':'' spec
      in if length parts < 2 then Inl (SpecShort spec)
         else
           res_bind (map_err SpecName (validate_vm_name (parts ! 1))) (\<lambda>_.
           res_bind
             (if length parts > 2 then
                (case py_int (parts ! 2) of None \<Rightarrow> Inl (SpecCount (parts ! 2)) | Some i \<Rightarrow> Inr i)
              else Inr 0) (\<lambda>disk_count.
             let roles = split_on CHR ''+'' (lower (parts ! 0))
             in case find (\<lambda>r. r \<notin> set node_roles) roles of
                  Some r \<Rightarrow> Inl (SpecRole r)
                | None \<Rightarrow>
                    Inr \<lparr>cn_name = parts ! 1, cn_roles = roles,
                      cn_mdt_disks = (if ''mds'' \<in> set roles then max disk_count 1 else 0),
                      cn_ost_disks = (if ''oss'' \<in> set roles then max disk_count 1 else 0),
                      cn_ip = [], cn_failover_for = []\<rparr>)))"

definition FAILOVER_ROLE :: string where
  "FAILOVER_ROLE = ''failover''"

definition partner_node :: "string \<Rightarrow> string \<Rightarrow> cluster_node" where
  "partner_node partner primary =
     \<lparr>cn_name = partner, cn_roles = [FAILOVER_ROLE], cn_mdt_disks = 0, cn_ost_disks = 0,
      cn_ip = [], cn_failover_for = primary\<rparr>"

text \<open>\<open>seen\<close> maps a primary to the partner found for it.  A dictionary built from the nodes
  keeps the last of several nodes with one name.\<close>

definition by_name :: "cluster_node list \<Rightarrow> string \<Rightarrow> cluster_node option" where
  "by_name nodes name = find (\<lambda>n. cn_name n = name) (rev nodes)"

fun failover_partners :: "cluster_node list \<Rightarrow> (string, string) dict \<Rightarrow> (string, string) dict
    \<Rightarrow> (failover_error, cluster_node list) result" where
  "failover_partners spec_nodes seen [] = Inr []"
| "failover_partners spec_nodes seen ((partner, primary) # failover) =
     res_bind (map_err FailName (validate_vm_name partner)) (\<lambda>_.
       if by_name spec_nodes partner \<noteq> None then Inl (FailIsSpec partner)
       else case by_name spec_nodes primary of
           None \<Rightarrow> Inl (FailNoPrimary primary)
         | Some node \<Rightarrow>
             if \<not> (is_mgs node \<or> is_mds node \<or> is_oss node) then Inl (FailClient primary)
             else case dict_get seen primary of
                 Some other \<Rightarrow> Inl (FailTwo primary other partner)
               | None \<Rightarrow>
                   res_map (\<lambda>ps. partner_node partner primary # ps)
                     (failover_partners spec_nodes (dict_set seen primary partner) failover))"

subsection \<open>The checks\<close>

record cluster_args =
  cc_name :: string
  cc_nodes :: "string list"
  cc_failover :: "(string, string) dict"
  cc_vcpus :: int
  cc_mem :: "int option"
  cc_os :: "string option"
  cc_arch :: "string option"
  cc_kernel :: "string option"
  cc_variant :: "string option"
  cc_node_targets :: "string option list option"
  cc_node_kernels :: "string option list option"
  cc_disk_size :: "string option"
  cc_root_size :: "string option"
  cc_disk_dir :: string
  cc_disk_cache :: string
  cc_disk_prealloc :: string
  cc_nic :: "string list"
  cc_kernel_args :: "string option"
  cc_numa_nodes :: "int option"
  cc_wait :: int
  cc_owner_id :: "string option"
  cc_dry_run :: bool

datatype kernel_found = KernelOk | KernelNoTarget | KernelMissing

text \<open>\<open>ct_budget\<close> is the memory budget of the host in MiB, the largest VM and the sum.\<close>

record cluster_env =
  ct_known :: "string \<Rightarrow> bool"
  ct_default :: string
  ct_mem :: "string \<Rightarrow> int option"
  ct_kernel :: "string \<Rightarrow> string \<Rightarrow> kernel_found"
  ct_budget :: "(int \<times> int) option"
  ct_running :: "int list"
  ct_nets :: host_nets
  ct_fs :: host_fs
  ct_environ :: "string \<rightharpoonup> string"
  ct_pid :: int
  ct_prefix :: "string list"
  ct_repr :: "json \<Rightarrow> string"

datatype cluster_create_error =
    CName name_error
  | CExists string
  | CRecord cluster_error
  | CSpec spec_error
  | CFailover failover_error
  | CDupes "string list"
  | CTaken "string list"
  | CNoMgs
  | CManyMgs
  | CNoMds
  | CLengths
  | CUnknownTarget string string
  | CKernel string string
  | CCache string
  | COption create_error
  | CNet net_problem
  | CNetError alloc_error
  | CKargs kargs_error
  | CNuma numa_issue
  | COwner owner_error
  | CMemory
  | CFailed "string list"
  | CLoad load_error

text \<open>An existing record is removed when all its VMs are gone, and refused otherwise; one
  that vanishes in between counts as absent.\<close>

definition check_record :: "cluster_env \<Rightarrow> (string \<Rightarrow> bool) \<Rightarrow> string \<Rightarrow> clusters
    \<Rightarrow> (cluster_create_error, clusters) result" where
  "check_record env vm_exists name store =
     (if store name = None then Inr store
      else case res_bind (cluster_load (ct_repr env) store name) (orphaned vm_exists) of
          Inl (ClusterNotFound _) \<Rightarrow> Inr store
        | Inl e \<Rightarrow> Inl (if cluster_caught e then CExists name else CRecord e)
        | Inr True \<Rightarrow> Inr (store(name := None))
        | Inr False \<Rightarrow> Inl (CExists name))"

fun dupes_aux :: "string list \<Rightarrow> string list \<Rightarrow> string list" where
  "dupes_aux seen [] = []"
| "dupes_aux seen (n # ns) = (if n \<in> set seen then n # dupes_aux seen ns else dupes_aux (n # seen) ns)"

definition check_roles :: "(string \<Rightarrow> bool) \<Rightarrow> cluster_node list \<Rightarrow> (cluster_create_error, unit) result" where
  "check_roles vm_exists node_specs =
     (let dupes = dupes_aux [] (map cn_name node_specs);
          taken = filter vm_exists (map cn_name node_specs);
          mgs_count = length (filter is_mgs node_specs)
      in if dupes \<noteq> [] then Inl (CDupes (uniq dupes))
         else if taken \<noteq> [] then Inl (CTaken taken)
         else if mgs_count = 0 then Inl CNoMgs
         else if mgs_count > 1 then Inl CManyMgs
         else if \<not> list_ex is_mds node_specs then Inl CNoMds
         else Inr ())"

fun node_targets_from :: "cluster_env \<Rightarrow> string option \<Rightarrow> (string \<times> string option) list
    \<Rightarrow> (string, string option) dict \<Rightarrow> (cluster_create_error, (string, string option) dict) result" where
  "node_targets_from env os [] acc = Inr acc"
| "node_targets_from env os ((name, t) # rest) acc =
     (if (case t of None \<Rightarrow> False | Some t' \<Rightarrow> \<not> ct_known env t')
      then Inl (CUnknownTarget name (get_or [] t))
      else node_targets_from env os rest (dict_set acc name (if t \<noteq> os then t else None)))"

definition node_targets :: "cluster_env \<Rightarrow> cluster_node list \<Rightarrow> string option list option \<Rightarrow> string option
    \<Rightarrow> (cluster_create_error, (string, string option) dict) result" where
  "node_targets env nodes targets os =
     (let ts = get_or (replicate (length nodes) None) targets
      in if length ts \<noteq> length nodes then Inl CLengths
         else node_targets_from env os (zip (map cn_name nodes) ts) [])"

text \<open>The target a node boots: its own, the cluster's, the default.\<close>

definition boot_target :: "cluster_env \<Rightarrow> (string, string option) dict \<Rightarrow> string option \<Rightarrow> string \<Rightarrow> string" where
  "boot_target env targets os name =
     (let own = get_or [] (get_or None (dict_get targets name))
      in if own \<noteq> [] then own else if get_or [] os \<noteq> [] then get_or [] os else ct_default env)"

fun node_kernels_from :: "cluster_env \<Rightarrow> (string, string option) dict \<Rightarrow> string option
    \<Rightarrow> (string \<times> string option) list \<Rightarrow> (string, string option) dict
    \<Rightarrow> (cluster_create_error, (string, string option) dict) result" where
  "node_kernels_from env targets os [] acc = Inr acc"
| "node_kernels_from env targets os ((name, k) # rest) acc =
     (if (case k of None \<Rightarrow> False
          | Some k' \<Rightarrow> ct_kernel env (boot_target env targets os name) k' \<noteq> KernelOk)
      then Inl (CKernel name (get_or [] k))
      else node_kernels_from env targets os rest (dict_set acc name k))"

definition node_kernels :: "cluster_env \<Rightarrow> cluster_node list \<Rightarrow> string option list option
    \<Rightarrow> (string, string option) dict \<Rightarrow> string option
    \<Rightarrow> (cluster_create_error, (string, string option) dict) result" where
  "node_kernels env nodes kernels targets os =
     (let ks = get_or (replicate (length nodes) None) kernels
      in if length ks \<noteq> length nodes then Inl CLengths
         else node_kernels_from env targets os (zip (map cn_name nodes) ks) [])"

text \<open>A partner boots what its primary boots.\<close>

definition for_partners :: "cluster_node list \<Rightarrow> (string, string option) dict \<Rightarrow> (string, string option) dict" where
  "for_partners partners d =
     fold (\<lambda>p d. dict_set d (cn_name p) (get_or None (dict_get d (cn_failover_for p)))) partners d"

definition require_cluster_memory :: "cluster_env \<Rightarrow> cluster_node list \<Rightarrow> int option
    \<Rightarrow> (string, string option) dict \<Rightarrow> string option \<Rightarrow> int \<Rightarrow> (cluster_create_error, unit) result" where
  "require_cluster_memory env nodes mem targets os wait =
     (case ct_budget env of
        None \<Rightarrow> Inr ()
      | Some (budget_mb, limit_mb) \<Rightarrow>
          (case those (map (\<lambda>n. case mem of Some m \<Rightarrow> Some m
                     | None \<Rightarrow> ct_mem env (boot_target env targets os (cn_name n))) nodes) of
             None \<Rightarrow> Inr ()
           | Some sizes \<Rightarrow>
               let need = sum_list sizes;
                   used = sum_list (if wait \<noteq> 0 then [] else ct_running env);
                   biggest = fold max sizes (if sizes = [] then 0 else hd sizes)
               in if biggest \<le> budget_mb \<and> used + need \<le> limit_mb then Inr () else Inl CMemory))"

record cluster_plan =
  cp_specs :: "cluster_node list"
  cp_partners :: "cluster_node list"
  cp_targets :: "(string, string option) dict"
  cp_kernels :: "(string, string option) dict"
  cp_disks :: create_args
  cp_nics :: "string list"
  cp_kargs :: string
  cp_owner :: string

definition no_create_args :: create_args where
  "no_create_args =
     \<lparr>ca_name = [], ca_vcpus = None, ca_mem = None, ca_mdt_disks = None, ca_ost_disks = None, ca_nic = [],
      ca_numa_nodes = None, ca_share_disks = False, ca_disks_from = [], ca_typed_disks = False,
      ca_disk_dir = [], ca_disk_cache = [], ca_disk_prealloc = []\<rparr>"

definition cluster_nodes :: "cluster_args \<Rightarrow> (cluster_create_error, cluster_node list \<times> cluster_node list) result" where
  "cluster_nodes a =
     res_bind (map_err CSpec (res_list parse_node_spec (cc_nodes a))) (\<lambda>spec_nodes.
     res_bind (map_err CFailover (failover_partners spec_nodes [] (cc_failover a))) (\<lambda>partners.
       Inr (spec_nodes, partners)))"

definition cluster_options :: "cluster_env \<Rightarrow> cluster_args \<Rightarrow> cluster_node list \<Rightarrow> cluster_node list
    \<Rightarrow> (cluster_create_error, cluster_plan) result" where
  "cluster_options env a spec_nodes partners =
     res_bind (node_targets env spec_nodes (cc_node_targets a) (cc_os a)) (\<lambda>targets.
     res_bind (node_kernels env spec_nodes (cc_node_kernels a) targets (cc_os a)) (\<lambda>kernels.
       if partners \<noteq> [] \<and> cc_disk_cache a \<noteq> [] \<and> cc_disk_cache a \<noteq> ''none'' then Inl (CCache (cc_disk_cache a))
       else
         res_bind (map_err COption (validate_disk_options (ct_fs env)
             (no_create_args\<lparr>ca_disk_dir := cc_disk_dir a, ca_disk_cache := cc_disk_cache a,
                ca_disk_prealloc := cc_disk_prealloc a\<rparr>))) (\<lambda>disks.
         res_bind (map_err COption (parse_nics (cc_nic a))) (\<lambda>nics.
         res_bind (map_err CNetError (nic_network_problem (ct_nets env) nics)) (\<lambda>issue.
           case issue of Some p \<Rightarrow> Inl (CNet p) | None \<Rightarrow>
           res_bind (map_err CKargs (validate_kernel_args (cc_kernel_args a))) (\<lambda>kargs.
             case numa_problem nics (get_or 0 (cc_numa_nodes a)) of Some p \<Rightarrow> Inl (CNuma p) | None \<Rightarrow>
             res_bind (map_err COwner (resolve_owner_id (cc_owner_id a) (ct_environ env) (ct_pid env))) (\<lambda>owner.
               Inr \<lparr>cp_specs = spec_nodes, cp_partners = partners,
                 cp_targets = for_partners partners targets, cp_kernels = for_partners partners kernels,
                 cp_disks = disks, cp_nics = map nic_str nics, cp_kargs = kargs, cp_owner = owner\<rparr>)))))))"

definition cluster_checks :: "cluster_env \<Rightarrow> (string \<Rightarrow> bool) \<Rightarrow> cluster_args
    \<Rightarrow> (cluster_create_error, cluster_plan) result" where
  "cluster_checks env vm_exists a =
     res_bind (cluster_nodes a) (\<lambda>(spec_nodes, partners).
     res_bind (check_roles vm_exists (spec_nodes @ partners)) (\<lambda>_.
       cluster_options env a spec_nodes partners))"

subsection \<open>Creating the nodes\<close>

definition opt_flag :: "string \<Rightarrow> string \<Rightarrow> string list" where
  "opt_flag flag v = (if v = [] then [] else [flag, v])"

definition mgs_disk :: "cluster_node \<Rightarrow> int" where
  "mgs_disk n = (if is_mgs n \<and> \<not> is_mds n then 1 else 0)"

text \<open>The command line of a node's \<^verbatim>\<open>ltvm create\<close>.\<close>

definition create_argv :: "cluster_env \<Rightarrow> cluster_args \<Rightarrow> cluster_plan \<Rightarrow> cluster_node \<Rightarrow> string list" where
  "create_argv env a p n =
     (let own = get_or [] (get_or None (dict_get (cp_targets p) (cn_name n)));
          own_kernel = get_or [] (get_or None (dict_get (cp_kernels p) (cn_name n)));
          target = (if own \<noteq> [] then own else get_or [] (cc_os a));
          kernel = (if own_kernel \<noteq> [] then own_kernel else if own \<noteq> [] then [] else get_or [] (cc_kernel a));
          cvariant = get_or [] (cc_variant a);
          variant = (if own \<noteq> [] \<or> cvariant = [] then ''base'' else cvariant)
      in ct_prefix env @ [''create'', cn_name n, ''--vcpus'', str_int (cc_vcpus a)] @
         (case cc_mem a of Some m \<Rightarrow> [''--mem'', str_int m] | None \<Rightarrow> []) @
         opt_flag ''--target'' target @
         opt_flag ''--arch'' (get_or [] (cc_arch a)) @
         opt_flag ''--kernel'' kernel @
         (if variant \<noteq> ''base'' then [''--variant'', variant] else []) @
         opt_flag ''--disk-size'' (get_or [] (cc_disk_size a)) @
         opt_flag ''--root-size'' (get_or [] (cc_root_size a)) @
         opt_flag ''--owner-id'' (cp_owner p) @
         [''--mdt-disks'', str_int (cn_mdt_disks n + mgs_disk n), ''--ost-disks'', str_int (cn_ost_disks n)] @
         concat (map (\<lambda>nic. [''--nic'', nic]) (cp_nics p)) @
         (if cn_name n \<in> set (map cn_failover_for (cp_partners p)) then [''--share-disks''] else []) @
         (if cn_failover_for n \<noteq> [] then [''--disks-from'', cn_failover_for n]
          else
            opt_flag ''--disk-dir'' (ca_disk_dir (cp_disks p)) @
            opt_flag ''--disk-cache'' (ca_disk_cache (cp_disks p)) @
            (if ca_disk_prealloc (cp_disks p) \<noteq> [] then [''--disk-prealloc='' @ ca_disk_prealloc (cp_disks p)] else [])) @
         (if cp_kargs p \<noteq> [] then [''--kernel-args='' @ cp_kargs p] else []) @
         (if get_or 0 (cc_numa_nodes a) \<noteq> 0 then [''--numa-nodes'', str_int (get_or 0 (cc_numa_nodes a))] else []) @
         (if cc_wait a \<noteq> 0 then [''--wait'', str_int (cc_wait a)] else []))"

text \<open>\<open>up\<close>: which node's create succeeds.  The failed ones are listed in the order of the
  specifications.\<close>

definition create_waves :: "(string \<Rightarrow> bool) \<Rightarrow> cluster_plan \<Rightarrow> string list" where
  "create_waves up p =
     (let failed = filter (\<lambda>n. \<not> up n) (map cn_name (cp_specs p))
      in if cp_partners p \<noteq> [] \<and> failed = [] then filter (\<lambda>n. \<not> up n) (map cn_name (cp_partners p))
         else failed)"

text \<open>The order the nodes are destroyed in after a failure: partners first.\<close>

definition cleanup_order :: "cluster_plan \<Rightarrow> string list" where
  "cleanup_order p =
     (let nodes = cp_specs p @ cp_partners p
      in map cn_name (filter (\<lambda>n. cn_failover_for n \<noteq> []) nodes @ filter (\<lambda>n. cn_failover_for n = []) nodes))"

definition node_doc :: "cluster_node \<Rightarrow> json" where
  "node_doc n =
     JObj ([(''name'', JStr (cn_name n)), (''roles'', JList (map JStr (cn_roles n))),
       (''mdt_disks'', JInt (cn_mdt_disks n)), (''ost_disks'', JInt (cn_ost_disks n)),
       (''ip'', JStr (cn_ip n))] @
      (if cn_failover_for n \<noteq> [] then [(''failover_for'', JStr (cn_failover_for n))] else []))"

definition load_ip :: "sockets \<Rightarrow> cluster_node \<Rightarrow> (cluster_create_error, cluster_node) result" where
  "load_ip dir n = res_map (\<lambda>vm. n\<lparr>cn_ip := vm_ip vm\<rparr>) (map_err CLoad (vm_load dir (cn_name n)))"

definition cluster_record :: "string \<Rightarrow> string \<Rightarrow> cluster_node list \<Rightarrow> cluster_info" where
  "cluster_record name owner nodes =
     \<lparr>ci_name = name, ci_nodes = JList (map node_doc nodes), ci_owner_id = Some owner,
      ci_ip_family = [], ci_ost_count = 0, ci_fstype = []\<rparr>"

text \<open>What happens once the checks passed: \<open>dir\<close> is the state directory after the nodes were
  created.\<close>

definition cluster_build :: "cluster_env \<Rightarrow> (string \<Rightarrow> bool) \<Rightarrow> sockets \<Rightarrow> clusters \<Rightarrow> cluster_args
    \<Rightarrow> cluster_plan \<Rightarrow> (cluster_create_error, clusters) result" where
  "cluster_build env up dir store a plan =
     res_bind (require_cluster_memory env (cp_specs plan @ cp_partners plan) (cc_mem a) (cp_targets plan)
         (cc_os a) (cc_wait a)) (\<lambda>_.
       let failed = create_waves up plan
       in if failed \<noteq> [] then Inl (CFailed failed)
          else
            res_bind (res_list (load_ip dir) (cp_specs plan @ cp_partners plan)) (\<lambda>nodes.
              map_err COwner (cluster_save (cluster_record (cc_name a) (cp_owner plan) nodes) store)))"

text \<open>The whole command, with the records it leaves: a stale one is removed before the other
  checks, whatever they then say.  \<open>vm_exists\<close> is read before the nodes are created.\<close>

definition cmd_cluster_create :: "cluster_env \<Rightarrow> (string \<Rightarrow> bool) \<Rightarrow> (string \<Rightarrow> bool) \<Rightarrow> sockets \<Rightarrow> clusters
    \<Rightarrow> cluster_args \<Rightarrow> (cluster_create_error, unit) result \<times> clusters" where
  "cmd_cluster_create env vm_exists up dir store a =
     (case res_bind (map_err CName (validate_vm_name (cc_name a)))
             (\<lambda>_. check_record env vm_exists (cc_name a) store) of
        Inl e \<Rightarrow> (Inl e, store)
      | Inr store' \<Rightarrow>
          (case cluster_checks env vm_exists a of
             Inl e \<Rightarrow> (Inl e, store')
           | Inr plan \<Rightarrow>
               if cc_dry_run a then (Inr (), store')
               else case cluster_build env up dir store' a plan of
                   Inl e \<Rightarrow> (Inl e, store')
                 | Inr store'' \<Rightarrow> (Inr (), store'')))"

subsection \<open>What a created cluster satisfies\<close>

lemma res_list_want_str [simp]: "res_list (want_str key) (map JStr xs) = Inr xs"
  by (induction xs) auto

lemma node_of_node_doc [simp]: "node_of_doc cname (node_doc n) = Inr n"
  by (simp add: node_doc_def)

lemma get_nodes_record [simp]: "get_nodes (cluster_record name owner nodes) = Inr nodes"
proof -
  have "res_list (node_of_doc name) (map node_doc nodes) = Inr nodes" by (induction nodes) auto
  then show ?thesis by (simp add: get_nodes_def cluster_record_def)
qed

lemma cluster_doc_load: "cluster_of_doc rep (ci_name c) (cluster_doc c) = Inr c"
  by (cases "ci_owner_id c") (simp_all add: cluster_of_doc_def cluster_doc_def opt_json_def json_count_def)

lemma cluster_save_load:
  assumes "cluster_save c store = Inr store'"
  shows "cluster_load rep store' (ci_name c) = Inr c" "n \<noteq> ci_name c \<Longrightarrow> store' n = store n"
  using assms by (auto simp: cluster_save_def cluster_load_def cluster_doc_load res_bind_eq_Inr)

lemma dupes_none: "dupes_aux seen ns = [] \<Longrightarrow> distinct ns \<and> set ns \<inter> set seen = {}"
  by (induction seen ns rule: dupes_aux.induct) (auto split: if_splits)

lemma check_roles_ok:
  assumes "check_roles vm_exists nodes = Inr ()"
  shows "distinct (map cn_name nodes)" "n \<in> set nodes \<Longrightarrow> \<not> vm_exists (cn_name n)"
    "length (filter is_mgs nodes) = 1" "\<exists>n \<in> set nodes. is_mds n"
proof -
  have ok: "dupes_aux [] (map cn_name nodes) = []" "filter vm_exists (map cn_name nodes) = []"
    "length (filter is_mgs nodes) \<noteq> 0 \<and> \<not> 1 < length (filter is_mgs nodes)" "list_ex is_mds nodes"
    using assms by (simp_all add: check_roles_def Let_def split: if_splits)
  then show "distinct (map cn_name nodes)" "length (filter is_mgs nodes) = 1" "\<exists>n \<in> set nodes. is_mds n"
    using dupes_none by (simp, linarith, simp add: list_ex_iff)
  show "\<not> vm_exists (cn_name n)" if "n \<in> set nodes" using that ok(2) by (auto simp: filter_empty_conv)
qed

lemma by_name_Some: "by_name nodes name = Some n \<Longrightarrow> n \<in> set nodes \<and> cn_name n = name"
  by (auto simp: by_name_def dest: find_Some_iff_first)

lemma parse_node_spec_ok:
  assumes "parse_node_spec s = Inr n"
  shows "cn_failover_for n = []" "cn_name n \<noteq> []" "0 \<le> cn_mdt_disks n" "0 \<le> cn_ost_disks n"
    "is_mds n \<longleftrightarrow> cn_mdt_disks n \<noteq> 0" "is_oss n \<longleftrightarrow> cn_ost_disks n \<noteq> 0"
  using assms
  by (auto simp: parse_node_spec_def Let_def res_bind_eq_Inr validate_vm_name_def is_mds_def is_oss_def
      split: if_splits option.split_asm)

lemma failover_partners_ok:
  assumes "failover_partners specs seen failover = Inr ps"
  shows "distinct (map cn_failover_for ps) \<and> set (map cn_failover_for ps) \<inter> dom (dict_get seen) = {} \<and>
    (\<forall>p \<in> set ps. \<exists>q \<in> set specs. p = partner_node (cn_name p) (cn_name q) \<and> (is_mgs q \<or> is_mds q \<or> is_oss q))"
  using assms
proof (induction failover arbitrary: seen ps)
  case (Cons x failover)
  obtain partner primary where x: "x = (partner, primary)" by (cases x)
  from Cons.prems obtain node ps' where node: "by_name specs primary = Some node" "is_mgs node \<or> is_mds node \<or> is_oss node"
    and new: "dict_get seen primary = None"
    and rest: "failover_partners specs (dict_set seen primary partner) failover = Inr ps'"
    and ps: "ps = partner_node partner primary # ps'"
    by (auto simp: x res_bind_eq_Inr res_map_eq_Inr split: if_splits option.split_asm)
  have "primary \<notin> set (map cn_failover_for ps')" "set (map cn_failover_for ps') \<inter> dom (dict_get seen) = {}"
    using Cons.IH [OF rest] by auto
  then show ?case
    using Cons.IH [OF rest] node(2) new by_name_Some [OF node(1)] by (auto simp: ps partner_node_def)
qed simp

definition counts_ok :: "cluster_node \<Rightarrow> bool" where
  "counts_ok n \<longleftrightarrow> 0 \<le> cn_mdt_disks n \<and> 0 \<le> cn_ost_disks n \<and>
     (is_mds n \<or> cn_mdt_disks n = 0) \<and> (is_oss n \<or> cn_ost_disks n = 0)"

definition cluster_shape :: "cluster_node list \<Rightarrow> bool" where
  "cluster_shape nodes \<longleftrightarrow>
     list_all counts_ok nodes \<and> distinct (map cn_name nodes) \<and> length (filter is_mgs nodes) = 1 \<and> list_ex is_mds nodes \<and>
     distinct (map cn_failover_for (filter (\<lambda>n. cn_failover_for n \<noteq> []) nodes)) \<and>
     list_all (\<lambda>p. cn_failover_for p = [] \<or>
       list_ex (\<lambda>q. cn_name q = cn_failover_for p \<and> cn_failover_for q = [] \<and> (is_mgs q \<or> is_mds q \<or> is_oss q)) nodes) nodes"

lemma partner_node_sel [simp]:
  "cn_name (partner_node p q) = p" "cn_failover_for (partner_node p q) = q"
  by (simp_all add: partner_node_def)

lemma res_list_Inr_from: "res_list f xs = Inr ys \<Longrightarrow> y \<in> set ys \<Longrightarrow> \<exists>x \<in> set xs. f x = Inr y"
  unfolding res_list_Inr_iff by (induction rule: list_all2_induct) auto

lemma cluster_nodes_ok:
  assumes "cluster_nodes a = Inr (specs, ps)"
  shows "\<forall>n \<in> set specs. cn_failover_for n = [] \<and> cn_name n \<noteq> [] \<and> counts_ok n"
    "\<forall>p \<in> set ps. counts_ok p" "\<forall>p \<in> set ps. \<exists>q \<in> set specs. cn_failover_for p = cn_name q \<and> (is_mgs q \<or> is_mds q \<or> is_oss q)"
    "distinct (map cn_failover_for ps)"
proof -
  from assms obtain fo where specs: "res_list parse_node_spec (cc_nodes a) = Inr specs"
    and ps: "failover_partners specs [] fo = Inr ps"
    by (auto simp: cluster_nodes_def res_bind_eq_Inr map_err_eq_Inr)
  show "\<forall>n \<in> set specs. cn_failover_for n = [] \<and> cn_name n \<noteq> [] \<and> counts_ok n"
    using res_list_Inr_from [OF specs] parse_node_spec_ok unfolding counts_ok_def by blast
  have "counts_ok (partner_node p q)" for p q by (simp add: counts_ok_def partner_node_def)
  then show "\<forall>p \<in> set ps. counts_ok p" using failover_partners_ok [OF ps] by metis
  show "\<forall>p \<in> set ps. \<exists>q \<in> set specs. cn_failover_for p = cn_name q \<and> (is_mgs q \<or> is_mds q \<or> is_oss q)"
    using failover_partners_ok [OF ps] partner_node_sel(2) by metis
  show "distinct (map cn_failover_for ps)" using failover_partners_ok [OF ps] by blast
qed

lemma filter_all_none: "(\<And>x. x \<in> set xs \<Longrightarrow> P x) \<Longrightarrow> filter P xs = xs" "(\<And>x. x \<in> set xs \<Longrightarrow> \<not> P x) \<Longrightarrow> filter P xs = []"
  by (induction xs) auto

lemma cluster_nodes_shape:
  assumes "cluster_nodes a = Inr (specs, ps)" "check_roles vm_exists (specs @ ps) = Inr ()"
  shows "cluster_shape (specs @ ps)"
proof -
  note ok = cluster_nodes_ok [OF assms(1)] and roles = check_roles_ok [OF assms(2)]
  have partner: "cn_failover_for p \<noteq> []" if "p \<in> set ps" for p using ok(1,3) that by metis
  have "filter (\<lambda>n. cn_failover_for n \<noteq> []) (specs @ ps) = ps"
    using ok(1) partner by (simp add: filter_all_none)
  moreover have "\<exists>q \<in> set (specs @ ps). cn_name q = cn_failover_for p \<and> cn_failover_for q = [] \<and> (is_mgs q \<or> is_mds q \<or> is_oss q)"
    if "p \<in> set (specs @ ps)" "cn_failover_for p \<noteq> []" for p
  proof -
    have "p \<in> set ps" using ok(1) that by auto
    then obtain q where "q \<in> set specs" "cn_failover_for p = cn_name q" "is_mgs q \<or> is_mds q \<or> is_oss q"
      using ok(3) by blast
    then show ?thesis using ok(1) by (intro bexI [of _ q]) simp_all
  qed
  moreover have "counts_ok n" if "n \<in> set (specs @ ps)" for n using ok(1,2) that by auto
  ultimately show ?thesis
    using ok(4) roles(1,3,4) unfolding cluster_shape_def list_all_iff list_ex_iff by (simp only:) blast
qed

definition with_ips :: "(string \<Rightarrow> string) \<Rightarrow> cluster_node list \<Rightarrow> cluster_node list" where
  "with_ips f nodes = map (\<lambda>n. n\<lparr>cn_ip := f (cn_name n)\<rparr>) nodes"

lemma load_ip_nodes:
  assumes "res_list (load_ip dir) nodes = Inr nodes'"
  shows "\<exists>f. nodes' = with_ips f nodes"
proof -
  let ?f = "\<lambda>name. case vm_load dir name of Inl _ \<Rightarrow> [] | Inr vm \<Rightarrow> vm_ip vm"
  have one: "n' = n\<lparr>cn_ip := ?f (cn_name n)\<rparr>" if "load_ip dir n = Inr n'" for n n'
    using that by (auto simp: load_ip_def res_map_eq_Inr map_err_eq_Inr)
  from assms have "nodes' = with_ips ?f nodes"
    unfolding res_list_Inr_iff by (induction rule: list_all2_induct) (auto simp: with_ips_def dest: one)
  then show ?thesis by blast
qed

lemma role_ip [simp]:
  "is_mgs (n\<lparr>cn_ip := ip\<rparr>) = is_mgs n" "is_mds (n\<lparr>cn_ip := ip\<rparr>) = is_mds n"
  "is_oss (n\<lparr>cn_ip := ip\<rparr>) = is_oss n" "is_client (n\<lparr>cn_ip := ip\<rparr>) = is_client n"
  "counts_ok (n\<lparr>cn_ip := ip\<rparr>) = counts_ok n"
  by (simp_all add: is_mgs_def is_mds_def is_oss_def is_client_def counts_ok_def)

lemma with_ips_shape: "cluster_shape (with_ips f nodes) = cluster_shape nodes"
  by (simp add: cluster_shape_def with_ips_def filter_map comp_def list_ex_iff list_all_iff)

lemma set_with_ips: "cn_name ` set (with_ips f nodes) = cn_name ` set nodes"
  by (simp add: with_ips_def image_image)

text \<open>
  C14.  A cluster that was created is recorded with the shape the rest of the code relies on:
  its record reads back under its name, its nodes have different names and none of them
  was a VM before, exactly one is the MGS, one at least is an MDS, and every failover
  partner belongs to a server node of the cluster that has no other partner.
\<close>

theorem cluster_create_shape:
  assumes "cmd_cluster_create env vm_exists up dir store a = (Inr (), store')" "\<not> cc_dry_run a"
  shows "\<exists>c nodes. cluster_load rep store' (cc_name a) = Inr c \<and> get_nodes c = Inr nodes \<and> cluster_shape nodes \<and>
    list_all (\<lambda>n. \<not> vm_exists (cn_name n)) nodes \<and> (\<exists>m. mgs_node c = Inr m \<and> is_mgs m)"
proof -
  from assms obtain st specs ps plan nodes where nodes: "cluster_nodes a = Inr (specs, ps)"
    and roles: "check_roles vm_exists (specs @ ps) = Inr ()"
    and plan: "cluster_options env a specs ps = Inr plan"
    and loaded: "res_list (load_ip dir) (cp_specs plan @ cp_partners plan) = Inr nodes"
    and saved: "cluster_save (cluster_record (cc_name a) (cp_owner plan) nodes) st = Inr store'"
    unfolding cmd_cluster_create_def cluster_build_def cluster_checks_def
    by (auto simp: res_bind_eq_Inr map_err_eq_Inr Let_def split: sum.split_asm if_splits)
  have "cp_specs plan = specs" "cp_partners plan = ps"
    using plan by (auto simp: cluster_options_def res_bind_eq_Inr split: if_splits option.split_asm)
  with load_ip_nodes [OF loaded] obtain f where f: "nodes = with_ips f (specs @ ps)" by auto
  have shape: "cluster_shape nodes"
    using cluster_nodes_shape [OF nodes roles] by (simp only: f with_ips_shape)
  have "\<not> vm_exists x" if "x \<in> cn_name ` set nodes" for x
    using that check_roles_ok(2) [OF roles] unfolding f set_with_ips by blast
  moreover have "find is_mgs nodes \<noteq> None"
    using shape length_0_conv [of "filter is_mgs nodes"]
    by (auto simp: cluster_shape_def find_None_iff filter_empty_conv simp del: length_0_conv)
  then obtain m where "find is_mgs nodes = Some m" by auto
  ultimately show ?thesis
    using cluster_save_load(1) [OF saved, of rep] shape find_Some_iff_first [of is_mgs nodes m]
    by (intro exI [of _ "cluster_record (cc_name a) (cp_owner plan) nodes"] exI [of _ nodes])
      (auto simp: mgs_node_def list_all_iff, simp add: cluster_record_def)
qed

definition cluster_env_example :: cluster_env where
  "cluster_env_example =
     \<lparr>ct_known = (\<lambda>_. True), ct_default = ''rocky9'', ct_mem = (\<lambda>_. Some 2048), ct_kernel = (\<lambda>_ _. KernelOk),
      ct_budget = Some (4096, 16384), ct_running = [2048], ct_nets = host_example,
      ct_fs = \<lparr>fs_iommu = False, fs_pci = (\<lambda>_. False), fs_isdir = (\<lambda>_. True)\<rparr>, ct_environ = Map.empty, ct_pid = 7,
      ct_prefix = [''ltvm''], ct_repr = (\<lambda>_. [])\<rparr>"

definition cluster_args_example :: cluster_args where
  "cluster_args_example =
     \<lparr>cc_name = ''c'', cc_nodes = [''mgs+mds:m'', ''oss:o:2''], cc_failover = [(''f'', ''o'')], cc_vcpus = 2,
      cc_mem = None, cc_os = None, cc_arch = None, cc_kernel = None, cc_variant = None,
      cc_node_targets = None, cc_node_kernels = None, cc_disk_size = None, cc_root_size = None,
      cc_disk_dir = [], cc_disk_cache = [], cc_disk_prealloc = [], cc_nic = [], cc_kernel_args = None,
      cc_numa_nodes = None, cc_wait = 0, cc_owner_id = None, cc_dry_run = False\<rparr>"

definition cluster_dir_example :: sockets where
  "cluster_dir_example =
     [''m'' \<mapsto> ''IP=192.168.100.10'', ''o'' \<mapsto> ''IP=192.168.100.11'', ''f'' \<mapsto> ''IP=192.168.100.12'']"

definition cluster_nodes_example :: "cluster_node list" where
  "cluster_nodes_example =
     [\<lparr>cn_name = ''m'', cn_roles = [''mgs'', ''mds''], cn_mdt_disks = 1, cn_ost_disks = 0,
       cn_ip = ''192.168.100.10'', cn_failover_for = []\<rparr>,
      \<lparr>cn_name = ''o'', cn_roles = [''oss''], cn_mdt_disks = 0, cn_ost_disks = 2,
       cn_ip = ''192.168.100.11'', cn_failover_for = []\<rparr>,
      \<lparr>cn_name = ''f'', cn_roles = [''failover''], cn_mdt_disks = 0, cn_ost_disks = 0,
       cn_ip = ''192.168.100.12'', cn_failover_for = ''o''\<rparr>]"

definition plan_example :: cluster_plan where
  "plan_example =
     \<lparr>cp_specs = map (\<lambda>n. n\<lparr>cn_ip := []\<rparr>) (take 2 cluster_nodes_example), cp_partners = [partner_node ''f'' ''o''],
      cp_targets = [(''m'', None), (''o'', None), (''f'', None)],
      cp_kernels = [(''m'', None), (''o'', None), (''f'', None)],
      cp_disks = no_create_args, cp_nics = [], cp_kargs = [], cp_owner = ''pid:7''\<rparr>"

lemma plan_example_checks:
  "cluster_checks cluster_env_example (\<lambda>_. False) cluster_args_example = Inr plan_example"
  by code_simp

lemma plan_example_ips:
  "res_list (load_ip cluster_dir_example) (cp_specs plan_example @ cp_partners plan_example) = Inr cluster_nodes_example"
  by code_simp

lemma cluster_example:
  "cmd_cluster_create cluster_env_example (\<lambda>_. False) (\<lambda>_. True) cluster_dir_example Map.empty cluster_args_example =
     (Inr (), [''c'' \<mapsto> GoodFile (JObj (cluster_doc (cluster_record ''c'' ''pid:7'' cluster_nodes_example)))])"
proof -
  have "validate_vm_name (cc_name cluster_args_example) = Inr ()" "create_waves (\<lambda>_. True) plan_example = []"
    "require_cluster_memory cluster_env_example (cp_specs plan_example @ cp_partners plan_example)
       (cc_mem cluster_args_example) (cp_targets plan_example) (cc_os cluster_args_example)
       (cc_wait cluster_args_example) = Inr ()" "validate_owner_id ''pid:7'' = Inr ''pid:7''"
    by code_simp+
  moreover have "cp_owner plan_example = ''pid:7''" "cc_name cluster_args_example = ''c''" "\<not> cc_dry_run cluster_args_example"
    by (simp_all add: plan_example_def cluster_args_example_def)
  ultimately show ?thesis
    using plan_example_checks plan_example_ips
    by (simp add: cmd_cluster_create_def cluster_build_def check_record_def cluster_save_def cluster_record_def)
qed

theorem cluster_create_shape_witness:
  "\<exists>c nodes. cluster_load (\<lambda>_. [])
      [''c'' \<mapsto> GoodFile (JObj (cluster_doc (cluster_record ''c'' ''pid:7'' cluster_nodes_example)))] ''c'' = Inr c \<and>
    get_nodes c = Inr nodes \<and> cluster_shape nodes"
  using cluster_create_shape [OF cluster_example, of "\<lambda>_. []"] by (auto simp: cluster_args_example_def)

text \<open>
  A dry run of \<^verbatim>\<open>cluster create\<close> is not free of writes: a stale record of the name is
  removed before the plan is printed.
\<close>

theorem cluster_dry_run_removes_record:
  "cmd_cluster_create cluster_env_example (\<lambda>_. False) (\<lambda>_. True) Map.empty
     [''c'' \<mapsto> GoodFile (JObj (cluster_doc (cluster_record ''c'' ''pid:7'' cluster_nodes_example)))]
     (cluster_args_example\<lparr>cc_dry_run := True\<rparr>) = (Inr (), Map.empty)"
proof -
  let ?a = "cluster_args_example\<lparr>cc_dry_run := True\<rparr>"
  let ?c = "cluster_record ''c'' ''pid:7'' cluster_nodes_example"
  have checks: "cluster_checks cluster_env_example (\<lambda>_. False) ?a = Inr plan_example"
    "validate_vm_name (cc_name ?a) = Inr ()"
    by code_simp+
  have c: "ci_name ?c = ''c''" "get_nodes ?c = Inr cluster_nodes_example" by (simp_all add: cluster_record_def [of "''c''"] get_nodes_record [unfolded cluster_record_def])
  then have "cluster_load rep [''c'' \<mapsto> GoodFile (JObj (cluster_doc ?c))] ''c'' = Inr ?c" for rep
    using cluster_doc_load [of rep ?c] by (simp add: cluster_load_def)
  moreover have "orphaned (\<lambda>_. False) ?c = Inr True"
    unfolding orphaned_def c(2) by (simp add: cluster_nodes_example_def)
  moreover have "cc_name ?a = ''c''" by (simp add: cluster_args_example_def)
  ultimately show ?thesis using checks by (simp add: cmd_cluster_create_def check_record_def)
qed

subsection \<open>Dropping orphaned records\<close>

definition orphan_record :: "(json \<Rightarrow> string) \<Rightarrow> (string \<Rightarrow> bool) \<Rightarrow> string set \<Rightarrow> clusters \<Rightarrow> string \<Rightarrow> bool" where
  "orphan_record rep vm_exists members store n \<longleftrightarrow>
     (\<exists>c nodes. cluster_load rep store n = Inr c \<and> get_nodes c = Inr nodes \<and>
        (\<exists>x \<in> set nodes. cn_name x \<in> members) \<and> (\<forall>x \<in> set nodes. \<not> vm_exists (cn_name x)))"

lemma drop_wanted_Some:
  assumes "drop_wanted rep vm_exists members store n = Inr (Some c)"
  shows "cluster_load rep store n = Inr c \<and> orphan_record rep vm_exists members store n"
  using assms
  by (auto simp: drop_wanted_def orphan_record_def orphaned_def res_bind_eq_Inr res_map_eq_Inr list_ex_iff
      split: if_splits)

lemma drop_wanted_orphan:
  assumes "orphan_record rep vm_exists members store n"
  shows "\<exists>c. drop_wanted rep vm_exists members store n = Inr (Some c)"
proof -
  from assms obtain c nodes where "cluster_load rep store n = Inr c" "get_nodes c = Inr nodes"
    "list_ex (\<lambda>x. cn_name x \<in> members) nodes" "\<not> list_ex (\<lambda>x. vm_exists (cn_name x)) nodes" "nodes \<noteq> []"
    unfolding orphan_record_def list_ex_iff by (metis empty_iff empty_set)
  then show ?thesis by (simp add: drop_wanted_def orphaned_def)
qed

lemma orphan_record_cong:
  "store n = store' n \<Longrightarrow> orphan_record rep vm_exists members store n = orphan_record rep vm_exists members store' n"
  by (simp add: orphan_record_def cluster_load_def)

lemma orphan_record_gone: "store n = None \<Longrightarrow> \<not> orphan_record rep vm_exists members store n"
  by (simp add: orphan_record_def cluster_load_def)

lemma drop_wanted_skip:
  assumes "\<not> orphan_record rep vm_exists members store n"
    "drop_orphan_clusters rep vm_exists members (n # ns) store = Inr r"
  shows "drop_orphan_clusters rep vm_exists members ns store = Inr r"
  using assms drop_wanted_Some [of rep vm_exists members store n]
  by (auto split: sum.split_asm option.split_asm if_splits)

text \<open>
  Destroying VMs drops exactly the cluster records that list one of them and whose VMs
  are all gone: every other record, a cluster with a VM left above all, is untouched.
\<close>

theorem drop_orphan_clusters_exact:
  assumes "drop_orphan_clusters rep vm_exists members names store = Inr (dropped, store')"
    "\<And>n c. cluster_load rep store n = Inr c \<Longrightarrow> ci_name c = n"
  shows "store' n = (if n \<in> set names \<and> orphan_record rep vm_exists members store n then None else store n)"
  using assms
proof (induction names arbitrary: store dropped)
  case (Cons m names)
  show ?case
  proof (cases "orphan_record rep vm_exists members store m")
    case False
    then have "drop_orphan_clusters rep vm_exists members names store = Inr (dropped, store')"
      using drop_wanted_skip Cons.prems(1) by blast
    from Cons.IH [OF this Cons.prems(2)] False show ?thesis by auto
  next
    case True
    then obtain c where c: "drop_wanted rep vm_exists members store m = Inr (Some c)"
      using drop_wanted_orphan by blast
    then have "ci_name c = m" using Cons.prems(2) drop_wanted_Some by blast
    with c Cons.prems(1) obtain d where
      rest: "drop_orphan_clusters rep vm_exists members names (store(m := None)) = Inr (d, store')"
      by (auto simp: res_map_eq_Inr)
    have names: "ci_name c' = n'" if "cluster_load rep (store(m := None)) n' = Inr c'" for n' c'
      using that Cons.prems(2) [of n' c'] by (cases "n' = m") (auto simp: cluster_load_def)
    have IH: "store' n = (if n \<in> set names \<and> orphan_record rep vm_exists members (store(m := None)) n
        then None else (store(m := None)) n)"
      using Cons.IH [OF rest] names by blast
    show ?thesis
      using IH True orphan_record_cong [of "store(m := None)" n store]
      by (cases "n = m") (simp_all add: orphan_record_gone)
  qed
qed simp

definition store_example :: clusters where
  "store_example =
     [''c'' \<mapsto> GoodFile (JObj (cluster_doc (cluster_record ''c'' ''pid:7'' cluster_nodes_example)))]"

theorem drop_orphan_clusters_exact_witness:
  "\<exists>dropped store'. drop_orphan_clusters (\<lambda>_. []) (\<lambda>_. False) {''o''} [''c''] store_example = Inr (dropped, store') \<and>
    store' ''c'' = None"
proof -
  let ?c = "cluster_record ''c'' ''pid:7'' cluster_nodes_example"
  have load: "cluster_load (\<lambda>_. []) store_example ''c'' = Inr ?c"
    using cluster_doc_load [of "\<lambda>_. []" ?c] by (simp add: cluster_load_def store_example_def cluster_record_def)
  have names: "ci_name c = n" if "cluster_load (\<lambda>_. []) store_example n = Inr c" for n c
    using that load by (cases "n = ''c''") (auto simp: cluster_load_def store_example_def cluster_record_def)
  have orphan: "orphan_record (\<lambda>_. []) (\<lambda>_. False) {''o''} store_example ''c''"
    unfolding orphan_record_def using load get_nodes_record by (auto simp: cluster_nodes_example_def)
  have "drop_orphan_clusters (\<lambda>_. []) (\<lambda>_. False) {''o''} [''c''] store_example =
      Inr ([''c''], store_example(''c'' := None))"
  proof -
    obtain c where c: "drop_wanted (\<lambda>_. []) (\<lambda>_. False) {''o''} store_example ''c'' = Inr (Some c)"
      using orphan drop_wanted_orphan by blast
    then have "ci_name c = ''c''" using names drop_wanted_Some by blast
    with c show ?thesis by simp
  qed
  from drop_orphan_clusters_exact [OF this names, of "''c''"] this orphan show ?thesis by auto
qed

end
