(* ===== verification/VmStore.thy ===== *)
theory VmStore
  imports AddrAlloc
begin

text \<open>
  The state directory as a map from names to records.  The interface \<open>vm_store\<close> is what the
  commands rely on: a record saved under its name is the one loaded, the others stay, a
  removed one is gone.  Inside it, any relation that holds between every two records on
  disk is kept by saving a record that is related to the others, by saving one that
  relates to others as its predecessor did, and by removing one.  The interpretation is
  on the \<^verbatim>\<open>.info\<close> files of \<open>VmState\<close>.
\<close>

definition pairwise_map :: "('v \<Rightarrow> 'v \<Rightarrow> bool) \<Rightarrow> ('k \<rightharpoonup> 'v) \<Rightarrow> bool" where
  "pairwise_map r A \<longleftrightarrow> (\<forall>m n v w. m \<noteq> n \<longrightarrow> A m = Some v \<longrightarrow> A n = Some w \<longrightarrow> r v w)"

definition kept :: "('d \<Rightarrow> ('k \<rightharpoonup> 'v) \<Rightarrow> bool) \<Rightarrow> ('v \<Rightarrow> 'v \<Rightarrow> bool) \<Rightarrow> 'd \<Rightarrow> bool" where
  "kept repr r d \<longleftrightarrow> (\<exists>A. repr d A \<and> pairwise_map r A)"

locale vm_store =
  fixes repr :: "'d \<Rightarrow> (string \<rightharpoonup> 'v) \<Rightarrow> bool"
    and load :: "'d \<Rightarrow> string \<Rightarrow> ('e, 'v) result"
    and put :: "'v \<Rightarrow> 'd \<Rightarrow> 'd"
    and del :: "string \<Rightarrow> 'd \<Rightarrow> 'd"
    and key :: "'v \<Rightarrow> string"
    and good :: "'v \<Rightarrow> bool"
  assumes load_some: "repr d A \<Longrightarrow> A n = Some v \<Longrightarrow> load d n = Inr v"
    and load_none: "repr d A \<Longrightarrow> A n = None \<Longrightarrow> \<exists>e. load d n = Inl e"
    and repr_key: "repr d A \<Longrightarrow> A n = Some v \<Longrightarrow> key v = n \<and> good v"
    and put_repr: "repr d A \<Longrightarrow> good v \<Longrightarrow> repr (put v d) (A(key v \<mapsto> v))"
    and del_repr: "repr d A \<Longrightarrow> repr (del n d) (A(n := None))"
begin

lemma load_iff: "repr d A \<Longrightarrow> load d n = Inr v \<longleftrightarrow> A n = Some v"
proof (cases "A n")
  case None
  assume "repr d A"
  with None load_none [of d A n] show ?thesis by auto
next
  case (Some w)
  assume "repr d A"
  with Some load_some [of d A n w] show ?thesis by auto
qed

lemma loaded: "kept repr r d \<Longrightarrow> load d n = Inr v \<Longrightarrow> key v = n \<and> good v"
  using load_iff repr_key by (auto simp: kept_def)

lemma loaded_related:
  "kept repr r d \<Longrightarrow> m \<noteq> n \<Longrightarrow> load d m = Inr v \<Longrightarrow> load d n = Inr w \<Longrightarrow> r v w"
  using load_iff unfolding kept_def pairwise_map_def by metis

lemma kept_put:
  assumes "kept repr r d" "good v" "\<And>n w. n \<noteq> key v \<Longrightarrow> load d n = Inr w \<Longrightarrow> r v w \<and> r w v"
  shows "kept repr r (put v d)"
proof -
  from assms(1) obtain A where A: "repr d A" "pairwise_map r A" by (auto simp: kept_def)
  have new: "r v w \<and> r w v" if "A n = Some w" "key v \<noteq> n" for n w
    using assms(3) [of n w] load_iff [OF A(1)] that by simp
  have old: "r u w" if "m \<noteq> n" "A m = Some u" "A n = Some w" for m n u w
    using A(2) that by (auto simp: pairwise_map_def)
  have "pairwise_map r (A(key v \<mapsto> v))"
    unfolding pairwise_map_def by (auto dest: new old)
  then show ?thesis using put_repr [OF A(1) assms(2)] by (auto simp: kept_def)
qed

lemma kept_replace:
  assumes "kept repr r d" "good v" "load d (key v) = Inr u" "\<And>w. (r u w \<longrightarrow> r v w) \<and> (r w u \<longrightarrow> r w v)"
  shows "kept repr r (put v d)"
  using assms(1,2)
proof (rule kept_put)
  fix n w assume "n \<noteq> key v" "load d n = Inr w"
  then show "r v w \<and> r w v" using loaded_related [OF assms(1)] assms(3,4) by metis
qed

lemma kept_del:
  assumes "kept repr r d"
  shows "kept repr r (del n d)"
proof -
  from assms obtain A where A: "repr d A" "pairwise_map r A" by (auto simp: kept_def)
  have "pairwise_map r (A(n := None))"
    using A(2) unfolding pairwise_map_def by (auto split: if_splits)
  then show ?thesis using del_repr [OF A(1)] by (auto simp: kept_def)
qed

end

text \<open>A directory that holds exactly the texts of well-formed records, each under its name.\<close>

definition represents :: "sockets \<Rightarrow> (string \<rightharpoonup> vminfo) \<Rightarrow> bool" where
  "represents dir A \<longleftrightarrow>
     (\<forall>n. dir n = map_option info_text (A n)) \<and> (\<forall>n vm. A n = Some vm \<longrightarrow> wf_vminfo vm \<and> vm_name vm = n)"

definition put_info :: "vminfo \<Rightarrow> sockets \<Rightarrow> sockets" where
  "put_info vm dir = dir(vm_name vm \<mapsto> info_text vm)"

definition del_info :: "string \<Rightarrow> sockets \<Rightarrow> sockets" where
  "del_info n dir = dir(n := None)"

lemma vm_load_read: "vm_load dir n = (case dir n of None \<Rightarrow> Inl (VMNotFound n) | Some t \<Rightarrow> info_read n t)"
  by (simp add: vm_load_def info_read_def split: option.split)

interpretation infos: vm_store represents vm_load put_info del_info vm_name wf_vminfo
proof
  fix d A n v
  show "represents d A \<Longrightarrow> A n = Some v \<Longrightarrow> vm_load d n = Inr v"
    by (auto simp: represents_def vm_load_read info_read_text)
  show "represents d A \<Longrightarrow> A n = None \<Longrightarrow> \<exists>e. vm_load d n = Inl e"
    by (simp add: represents_def vm_load_read)
  show "represents d A \<Longrightarrow> A n = Some v \<Longrightarrow> vm_name v = n \<and> wf_vminfo v"
    by (simp add: represents_def)
  show "represents d A \<Longrightarrow> wf_vminfo v \<Longrightarrow> represents (put_info v d) (A(vm_name v \<mapsto> v))"
    by (auto simp: represents_def put_info_def)
  show "represents d A \<Longrightarrow> represents (del_info n d) (A(n := None))"
    by (auto simp: represents_def del_info_def)
qed

subsection \<open>The writers of the files in terms of the interface\<close>

lemma vm_save_put: "vm_save vm dir = Inr dir' \<Longrightarrow> dir' = put_info vm dir"
  by (auto simp: vm_save_def put_info_def info_text_def split: option.splits sum.splits)

lemma kept_load_text:
  assumes "kept represents r dir" "vm_load dir n = Inr vm"
  shows "dir n = Some (info_text vm)" "wf_vminfo vm" "vm_name vm = n"
proof -
  from assms(1) obtain A where A: "represents dir A" by (auto simp: kept_def)
  with assms(2) infos.load_iff have "A n = Some vm" by blast
  then show "dir n = Some (info_text vm)" "wf_vminfo vm" "vm_name vm = n"
    using A by (auto simp: represents_def)
qed

lemma kept_not_found: "kept represents r dir \<Longrightarrow> vm_load dir n = Inl e \<Longrightarrow> dir n = None"
  by (auto simp: kept_def represents_def vm_load_read info_read_text split: option.split_asm)

text \<open>A field writer of another process: whatever its own copy holds, the file becomes that of
  the record on disk with the update.\<close>

lemma op_run_put:
  assumes "kept represents r dir" "op_ok op" "op_run op vm dir = Inr (vm', dir')"
  shows "\<exists>disk. vm_load dir (vm_name vm) = Inr disk \<and> dir' = put_info (op_record op disk) dir \<and>
    wf_vminfo (op_record op disk)"
proof -
  have "dir (vm_name vm) \<noteq> None"
    using assms(3) by (cases op) (auto simp: update_pid_def update_last_boot_def update_deploy_def adopt_image_id_def
        vm_update_fields_def res_map_eq_Inr split: option.split_asm)
  then obtain disk where disk: "vm_load dir (vm_name vm) = Inr disk"
    using kept_not_found [OF assms(1)] by (cases "vm_load dir (vm_name vm)") auto
  note disk_facts = kept_load_text [OF assms(1) disk]
  show ?thesis
    using op_run_disk [of disk op dir vm, OF disk_facts(2) assms(2) disk_facts(1)] assms(3) disk disk_facts(3) op_wf [OF disk_facts(2) assms(2)]
    by (auto simp: put_info_def)
qed

end
