(* ===== verification/QemuRun.thy ===== *)
theory QemuRun
  imports CreateChecks VmStore
begin

text \<open>
  QEMU processes (\<^verbatim>\<open>qemu_run.py\<close>): whether a VM runs, how much memory the running VMs may
  have and how long a launch waits for it, and the command line QEMU is started with.
  What Linux shows of processes and memory is an argument; the macOS branches are not
  modelled.
\<close>

subsection \<open>Running VMs\<close>

text \<open>A process as \<^verbatim>\<open>/proc\<close> shows it: its name, and its arguments unless they cannot be
  read.\<close>

record qemu_proc =
  qp_comm :: string
  qp_argv :: "string list option"

type_synonym procs = "int \<rightharpoonup> qemu_proc"

text \<open>The texts of the pid files, by VM name.\<close>

type_synonym pidfiles = "string \<rightharpoonup> string"

fun cmdline_names_vm :: "string list \<Rightarrow> string \<Rightarrow> bool \<Rightarrow> bool" where
  "cmdline_names_vm [] name strict = (\<not> strict)"
| "cmdline_names_vm (arg # argv) name strict =
     (if arg = ''-name'' then (case argv of [] \<Rightarrow> False | a # _ \<Rightarrow> a = name)
      else if startswith arg ''-name='' then drop 6 arg = name
      else cmdline_names_vm argv name strict)"

definition qemu_pid_is :: "procs \<Rightarrow> int \<Rightarrow> string \<Rightarrow> bool" where
  "qemu_pid_is procs pid name =
     (case procs pid of
        None \<Rightarrow> False
      | Some p \<Rightarrow>
          startswith (strip (qp_comm p)) ''qemu-system'' \<and>
          (case qp_argv p of
             None \<Rightarrow> True
           | Some parts \<Rightarrow> parts = [] \<or> cmdline_names_vm parts name True))"

definition pidfile_pid :: "pidfiles \<Rightarrow> string \<Rightarrow> int" where
  "pidfile_pid pidfiles name =
     (case pidfiles name of None \<Rightarrow> 0 | Some s \<Rightarrow> get_or 0 (py_int (strip s)))"

text \<open>The answer and the record, which may have adopted the pid of the pid file.\<close>

definition is_running :: "procs \<Rightarrow> pidfiles \<Rightarrow> vminfo \<Rightarrow> bool \<times> vminfo" where
  "is_running procs pidfiles vm =
     (if vm_pid vm > 0 then (qemu_pid_is procs (vm_pid vm) (vm_name vm), vm)
      else
        let pid = pidfile_pid pidfiles (vm_name vm)
        in if pid > 0 \<and> qemu_pid_is procs pid (vm_name vm) then (True, vm\<lparr>vm_pid := pid\<rparr>) else (False, vm))"

subsection \<open>Host memory\<close>

text \<open>A value of \<^verbatim>\<open>/proc/meminfo\<close> in MiB, 0 without one; \<open>None\<close> stands for an uncaught
  exception on a malformed line.\<close>

fun meminfo_lines :: "string \<Rightarrow> string list \<Rightarrow> int option" where
  "meminfo_lines key [] = Some 0"
| "meminfo_lines key (line # lines) =
     (if startswith line (key @ '':'') then
        (case split_ws line of _ # v # _ \<Rightarrow> map_option (\<lambda>kb. kb div 1024) (py_int v) | _ \<Rightarrow> None)
      else meminfo_lines key lines)"

definition read_meminfo_mb :: "string option \<Rightarrow> string \<Rightarrow> int option" where
  "read_meminfo_mb meminfo key =
     (case meminfo of None \<Rightarrow> Some 0 | Some s \<Rightarrow> meminfo_lines key (split_on CHR 0x0A (universal_newlines s)))"

text \<open>The memory limits of a cgroup and its parents, outermost last.  A cgroup is its path
  components, innermost first; \<open>lim\<close> reads a \<^verbatim>\<open>memory.max\<close>.\<close>

definition limit_here :: "(string list \<Rightarrow> string option) \<Rightarrow> string list \<Rightarrow> int option list" where
  "limit_here lim rev_path =
     (let v = strip (get_or ''max'' (lim rev_path)) in if str_isdigit v then [py_int v] else [])"

fun cgroup_limits :: "(string list \<Rightarrow> string option) \<Rightarrow> string list \<Rightarrow> int option list" where
  "cgroup_limits lim [] = limit_here lim []"
| "cgroup_limits lim (c # up) = limit_here lim (c # up) @ cgroup_limits lim up"

definition path_parts :: "string \<Rightarrow> string list" where
  "path_parts s = filter (\<lambda>c. c \<noteq> [] \<and> c \<noteq> ''.'') (split_on CHR ''/'' s)"

definition own_cgroup :: "string \<Rightarrow> string option" where
  "own_cgroup cgroup_text =
     map_option (drop 3) (List.find (\<lambda>line. startswith line ''0::'') (splitlines cgroup_text))"

definition cgroup_memory_limit_mb :: "string option \<Rightarrow> (string list \<Rightarrow> string option) \<Rightarrow> string option \<Rightarrow> int option" where
  "cgroup_memory_limit_mb proc_cgroup lim relative =
     (let rel = (case relative of Some r \<Rightarrow> Some r | None \<Rightarrow> (case proc_cgroup of None \<Rightarrow> None | Some t \<Rightarrow> own_cgroup t))
      in case rel of
           None \<Rightarrow> Some 0
         | Some r \<Rightarrow>
             let limits = cgroup_limits lim (rev (path_parts (strip r)))
             in if limits = [] then Some 0
                else if None \<in> set limits then None
                else Some (Min (set (map the limits)) div (1024 * 1024)))"

definition HOST_MEM_RESERVE_FLOOR_MB :: int where
  "HOST_MEM_RESERVE_FLOOR_MB = 1024"

text \<open>\<open>mb_scale\<close> is multiplication by the overcommit factor, a float, truncated.\<close>

record mem_budget =
  mb_total :: int
  mb_reserve :: int
  mb_scale :: "int \<Rightarrow> int"

definition budget_mb :: "mem_budget \<Rightarrow> int" where
  "budget_mb b = mb_total b - mb_reserve b"

definition limit_mb :: "mem_budget \<Rightarrow> int" where
  "limit_mb b = mb_scale b (budget_mb b)"

definition memory_budget :: "int \<Rightarrow> int \<Rightarrow> (int \<Rightarrow> int) \<Rightarrow> mem_budget option" where
  "memory_budget mem_total cgroup_mb scale =
     (if mem_total \<le> 0 then None
      else
        let total = (if 0 < cgroup_mb \<and> cgroup_mb < mem_total then cgroup_mb else mem_total)
        in Some \<lparr>mb_total = total, mb_reserve = max HOST_MEM_RESERVE_FLOOR_MB (total div 10), mb_scale = scale\<rparr>)"

text \<open>\<open>peers\<close> is the listing of the state directory.\<close>

definition vm_memory :: "procs \<Rightarrow> pidfiles \<Rightarrow> sockets \<Rightarrow> string \<Rightarrow> (string \<times> int) list" where
  "vm_memory procs pidfiles dir name =
     (case vm_load dir name of
        Inl _ \<Rightarrow> []
      | Inr other \<Rightarrow> if fst (is_running procs pidfiles other) then [(vm_name other, vm_mem other)] else [])"

definition running_vm_memory :: "procs \<Rightarrow> pidfiles \<Rightarrow> sockets \<Rightarrow> string list \<Rightarrow> string \<Rightarrow> (string \<times> int) list" where
  "running_vm_memory procs pidfiles dir peers skip =
     concat (map (vm_memory procs pidfiles dir) (filter (\<lambda>n. n \<noteq> skip) peers))"

record shortfall =
  sf_committed :: int
  sf_short :: int
  sf_fits_when_idle :: bool

definition memory_shortfall :: "mem_budget option \<Rightarrow> (string \<times> int) list \<Rightarrow> vminfo \<Rightarrow> shortfall option" where
  "memory_shortfall budget others vm =
     (case budget of
        None \<Rightarrow> None
      | Some b \<Rightarrow>
          let committed = sum_list (map snd others)
          in if vm_mem vm \<le> budget_mb b \<and> committed + vm_mem vm \<le> limit_mb b then None
             else Some \<lparr>sf_committed = committed,
                   sf_short = max (committed + vm_mem vm - limit_mb b) (vm_mem vm - budget_mb b),
                   sf_fits_when_idle = (vm_mem vm \<le> budget_mb b)\<rparr>)"

subsection \<open>Waiting for memory\<close>

text \<open>Times are nanoseconds of the monotonic clock.\<close>

definition MEMORY_POLL :: int where
  "MEMORY_POLL = 5 * 10 ^ 9"

datatype launch_decision = Admitted nat | NeverFits shortfall | GaveUp bool shortfall

text \<open>The loop of \<^verbatim>\<open>launch_qemu\<close>: \<open>look i\<close> is what the \<open>i\<close>th look under the launch lock finds, and
  \<open>now i\<close> the time read after it.  \<open>Admitted i\<close> is the start of QEMU within that look.\<close>

partial_function (option) launch_wait :: "(nat \<Rightarrow> int) \<Rightarrow> int \<Rightarrow> (nat \<Rightarrow> shortfall option) \<Rightarrow> nat \<Rightarrow> bool
    \<Rightarrow> launch_decision option" where
  [code]: "launch_wait now deadline look i waited =
     (case look i of
        None \<Rightarrow> Some (Admitted i)
      | Some s \<Rightarrow>
          if \<not> sf_fits_when_idle s then Some (NeverFits s)
          else if deadline - now i \<le> 0 then Some (GaveUp waited s)
          else launch_wait now deadline look (Suc i) True)"

text \<open>What the clock promises: sleeping takes at least the time asked for.\<close>

definition clock_sleeps :: "(nat \<Rightarrow> int) \<Rightarrow> int \<Rightarrow> bool" where
  "clock_sleeps now deadline \<longleftrightarrow>
     (\<forall>i. now i + min MEMORY_POLL (deadline - now i) \<le> now (Suc i) \<or> deadline \<le> now i)"

subsection \<open>Processors, memory and NUMA nodes\<close>

definition vm_numa_problem :: "int \<Rightarrow> int \<Rightarrow> int \<Rightarrow> bool" where
  "vm_numa_problem vcpus mem nodes \<longleftrightarrow>
     nodes < 0 \<or> (\<not> nodes \<le> 1 \<and> (vcpus mod nodes \<noteq> 0 \<or> mem div nodes < 128))"

text \<open>The share of node \<open>i\<close>: its memory and its first and last processor.\<close>

definition node_share :: "int \<Rightarrow> int \<Rightarrow> int \<Rightarrow> int \<Rightarrow> int \<times> int \<times> int" where
  "node_share vcpus mem nodes i =
     (let per_cpu = vcpus div nodes;
          per_mem = (mem div nodes) div 2 * 2;
          mb = (if i < nodes - 1 then per_mem else mem - per_mem * (nodes - 1));
          first = i * per_cpu
      in (mb, first, first + per_cpu - 1))"

definition node_args :: "int \<Rightarrow> int \<Rightarrow> int \<Rightarrow> int \<Rightarrow> string list" where
  "node_args vcpus mem nodes i =
     (case node_share vcpus mem nodes i of (mb, first, final) \<Rightarrow>
        let cpus = (if vcpus div nodes > 1 then str_int first @ ''-'' @ str_int final else str_int first)
        in [''-object'', ''memory-backend-ram,id=numa'' @ str_int i @ '',size='' @ str_int mb @ ''M'',
            ''-numa'', ''node,nodeid='' @ str_int i @ '',cpus='' @ cpus @ '',memdev=numa'' @ str_int i])"

definition smp_args :: "int \<Rightarrow> int \<Rightarrow> int \<Rightarrow> string list" where
  "smp_args vcpus mem nodes =
     (if nodes \<le> 1 then [''-smp'', str_int vcpus, ''-m'', str_int mem]
      else
        [''-smp'', str_int vcpus @ '',sockets='' @ str_int nodes @ '',cores='' @ str_int (vcpus div nodes) @ '',threads=1'',
         ''-m'', str_int mem] @
        concat (map (node_args vcpus mem nodes) [0..nodes - 1]))"

subsection \<open>Data disks\<close>

datatype disk_error = OwnerGone string string | OwnerCorrupt load_error | OwnerPrivate string string | DirGone string string | DiskGone nat string string

definition SHARED_DISK_CACHE :: string where
  "SHARED_DISK_CACHE = ''none''"

fun disk_args_from :: "string \<Rightarrow> string set \<Rightarrow> string \<Rightarrow> bool \<Rightarrow> string \<Rightarrow> string \<Rightarrow> nat \<Rightarrow> string list
    \<Rightarrow> (disk_error, string list) result" where
  "disk_args_from name files blk shared cache zeroes n [] = Inr []"
| "disk_args_from name files blk shared cache zeroes n (disk # disks) =
     (if disk \<notin> files then Inl (DiskGone n name disk)
      else
        let device = blk @ '',drive=disk'' @ str_nat n @ (if shared then '',share-rw=on'' else []);
            drive = ''id=disk'' @ str_nat n @ '',file='' @ disk @ '',format=raw,if=none,'' @ zeroes @
              (if cache \<noteq> [] then '',cache='' @ cache else [])
        in res_map (\<lambda>args. [''-device'', device, ''-drive'', drive] @ args)
             (disk_args_from name files blk shared cache zeroes (Suc n) disks))"

text \<open>\<open>ov\<close> is the overlays directory, \<open>isdir\<close> what of the host's paths is a directory.  \<open>OwnerCorrupt\<close>
  is the exception of a damaged record, which nothing catches.\<close>

definition data_disk_args :: "string \<Rightarrow> string set \<Rightarrow> (string \<Rightarrow> bool) \<Rightarrow> sockets \<Rightarrow> vminfo \<Rightarrow> string
    \<Rightarrow> (disk_error, string list) result" where
  "data_disk_args ov files isdir dir vm blk =
     res_bind
       (if vm_disks_from vm \<noteq> [] then
          (case vm_load dir (vm_disks_from vm) of
             Inl (VMNotFound _) \<Rightarrow> Inl (OwnerGone (vm_name vm) (vm_disks_from vm))
           | Inl e \<Rightarrow> Inl (OwnerCorrupt e)
           | Inr owner \<Rightarrow>
               if \<not> vm_share_disks owner then Inl (OwnerPrivate (vm_name vm) (vm_name owner)) else Inr (owner, True))
        else Inr (vm, vm_share_disks vm))
       (\<lambda>(source, shared).
          let zeroes = (if vm_disk_prealloc source \<noteq> [] then ''discard=ignore,detect-zeroes=off''
                else ''discard=unmap,detect-zeroes=unmap'');
              cache = (if shared then SHARED_DISK_CACHE else vm_disk_cache vm);
              disks = disk_paths ov source
          in if disks \<noteq> [] \<and> vm_disk_dir source \<noteq> [] \<and> \<not> isdir (disk_dir_path ov source)
             then Inl (DirGone (vm_name source) (vm_disk_dir source))
             else disk_args_from (vm_name vm) files blk shared cache zeroes 1 disks)"

subsection \<open>The kernel command line\<close>

definition NMI_PANIC_ARGS :: string where
  "NMI_PANIC_ARGS = '' unknown_nmi_panic sysctl.kernel.panic_on_unrecovered_nmi=1 sysctl.kernel.panic_on_io_nmi=1''"

text \<open>The parameters that describe the extra NICs, in parallel lists.\<close>

definition nic_fragments :: "vminfo \<Rightarrow> (string, string) result" where
  "nic_fragments vm =
     (if vm_nics vm = [] then Inr []
      else
        res_bind (if vm_nic_ips vm = [] then Inr []
            else res_map (\<lambda>p. '' fc_nic_ips='' @ join '','' (vm_nic_ips vm) @ '' fc_nic_prefixes='' @ p) (prefixes vm False)) (\<lambda>ips.
        res_bind (if vm_nic_ip6s vm = [] then Inr []
            else res_map (\<lambda>p. '' fc_nic_ip6s='' @ join '','' (vm_nic_ip6s vm) @ '' fc_nic_ip6_prefixes='' @ p) (prefixes vm True)) (\<lambda>ip6s.
          Inr ('' fc_nics='' @ join '','' (map cmdline_entry (vm_nics vm)) @ ips @ ip6s @
            (if list_ex (\<lambda>n. nic_node n \<noteq> None) (vm_nics vm)
             then '' fc_nic_numa='' @ join '','' (map (\<lambda>n. case nic_node n of None \<Rightarrow> [] | Some k \<Rightarrow> str_int k) (vm_nics vm))
             else [])))))"

definition boot_args :: "host_nets \<Rightarrow> vminfo \<Rightarrow> (string, string) result" where
  "boot_args nets vm =
     res_map (\<lambda>nics.
       ''console='' @ (if vm_arch vm = ''aarch64'' then ''ttyAMA0'' else ''ttyS0'') @ '' reboot=k panic=1 crashkernel='' @
       (if vm_mem vm \<ge> 2048 then ''512M'' else ''256M'') @
       '' net.ifnames=0 biosdevname=0 systemd.journald.forward_to_console=1 systemd.log_target=console'' @
       '' root=/dev/vda rw fc_ip='' @ vm_ip vm @ '' fc_gw='' @ SUBNET nets @ ''.1 fc_name='' @ vm_name vm @
       nics @ network_names vm @
       (if vm_arch vm = [] \<or> vm_arch vm = ''x86_64'' then NMI_PANIC_ARGS else []) @
       (if vm_kernel_args vm \<noteq> [] then '' '' @ vm_kernel_args vm else []))
     (nic_fragments vm)"

text \<open>The length of the UTF-8 encoding.\<close>

definition utf8_length :: "string \<Rightarrow> nat" where
  "utf8_length s = sum_list (map (\<lambda>c. if isascii c then 1 else 2) s)"

subsection \<open>The QEMU command line\<close>

record machine_env =
  ma_host_arch :: string
  ma_darwin :: bool
  ma_force_tcg :: bool
  ma_nested_apple :: bool
  ma_prefix :: string
  ma_exists :: "string \<Rightarrow> bool"
  ma_which :: "string \<Rightarrow> string option"

definition qemu_binary_for_arch :: "machine_env \<Rightarrow> string \<Rightarrow> string" where
  "qemu_binary_for_arch env arch =
     (let name = ''qemu-system-'' @ arch; candidate = ma_prefix env @ ''/bin/'' @ name
      in if arch = ''x86_64'' then candidate
         else if ma_exists env candidate then candidate
         else case ma_which env name of Some found \<Rightarrow> if found \<noteq> [] then found else candidate | None \<Rightarrow> candidate)"

definition same_arch :: "machine_env \<Rightarrow> string \<Rightarrow> bool" where
  "same_arch env arch \<longleftrightarrow>
     arch = ''x86_64'' \<and> ma_host_arch env \<in> {''x86_64'', ''amd64''} \<or>
     arch = ''aarch64'' \<and> ma_host_arch env \<in> {''aarch64'', ''arm64''}"

definition qemu_machine_for_arch :: "machine_env \<Rightarrow> string \<Rightarrow> string" where
  "qemu_machine_for_arch env arch =
     (let native = (if ma_darwin env then ''hvf'' else ''kvm'');
          accel = (if ma_force_tcg env \<or> \<not> same_arch env arch then ''accel=tcg'' else ''accel='' @ native)
      in if arch = ''x86_64'' then ''q35,'' @ accel
         else if arch = ''aarch64'' then
           ''virt,'' @ accel @ '',gic-version=max'' @ (if accel = ''accel=kvm'' \<and> ma_nested_apple env then '',its=off'' else [])
         else ''virt,accel=tcg'')"

definition cpu_model :: "machine_env \<Rightarrow> string \<Rightarrow> string" where
  "cpu_model env arch =
     (if \<not> ma_force_tcg env \<and> same_arch env arch then ''host''
      else if arch = ''aarch64'' then ''cortex-a57'' else ''Nehalem'')"

text \<open>How a NIC reaches the bridge: a TAP device ltvm makes, QEMU's bridge helper, or the
  socket of \<^verbatim>\<open>socket_vmnet\<close>.\<close>

datatype net_mode = NetTaps | NetHelper string | NetVmnet string

definition BRIDGE :: string where
  "BRIDGE = ''fcbr0''"

definition netdev_arg :: "net_mode \<Rightarrow> nat \<Rightarrow> string \<Rightarrow> string" where
  "netdev_arg mode idx tap =
     (case mode of
        NetVmnet sock \<Rightarrow> ''stream,id=net'' @ str_nat idx @ '',addr.type=unix,addr.path='' @ sock @ '',server=off''
      | NetHelper h \<Rightarrow> ''bridge,id=net'' @ str_nat idx @ '',br='' @ BRIDGE @ '',helper='' @ h
      | NetTaps \<Rightarrow> ''tap,id=net'' @ str_nat idx @ '',ifname='' @ tap @ '',script=no,downscript=no'')"

definition nic_args :: "net_mode \<Rightarrow> nat \<Rightarrow> nicspec \<Rightarrow> string \<Rightarrow> string \<Rightarrow> string list" where
  "nic_args mode idx nic tap mac =
     (if nic_type nic \<in> {''tcp'', ''softroce''} then
        [''-netdev'', netdev_arg mode idx tap, ''-device'', ''virtio-net-pci,netdev=net'' @ str_nat idx @ '',mac='' @ mac]
      else
        [''-device'', ''pcie-root-port,id=rp'' @ str_nat idx @ '',chassis='' @ str_nat idx,
         ''-device'', ''vfio-pci,host='' @ nic_bdf nic @ '',bus=rp'' @ str_nat idx])"

text \<open>\<^verbatim>\<open>extra_nics\<close>: index, NIC, TAP and MAC.  The index starts at 1, so neither name can fail.\<close>

definition extra_nics :: "(string \<Rightarrow> string) \<Rightarrow> vminfo \<Rightarrow> (nat \<times> nicspec \<times> string \<times> string) list" where
  "extra_nics md5 vm =
     concat (map (\<lambda>(idx, nic).
       case (extra_tap_for_name md5 (vm_name vm) idx, extra_mac_for_name md5 (vm_name vm) idx) of
         (Inr tap, Inr mac) \<Rightarrow> [(idx, nic, tap, mac)]
       | _ \<Rightarrow> []) (enumerate 1 (vm_nics vm)))"

definition qemu_argv :: "machine_env \<Rightarrow> (string \<Rightarrow> string) \<Rightarrow> string \<Rightarrow> string \<Rightarrow> net_mode \<Rightarrow> string \<Rightarrow> string list \<Rightarrow> vminfo \<Rightarrow> string list" where
  "qemu_argv env md5 ov socks mode boot disks vm =
     [qemu_binary_for_arch env (vm_arch vm), ''-name'', vm_name vm, ''-machine'', qemu_machine_for_arch env (vm_arch vm),
      ''-cpu'', cpu_model env (vm_arch vm)] @ smp_args (vm_vcpus vm) (vm_mem vm) (vm_numa_nodes vm) @
     [''-kernel'', vm_kernel vm, ''-append'', boot, ''-nodefaults'', ''-no-user-config'', ''-nographic'',
      ''-object'', ''rng-random,id=rng0,filename=/dev/urandom'', ''-device'', ''virtio-rng-pci,rng=rng0'',
      ''-serial'', ''chardev:serial0'', ''-chardev'', ''file,id=serial0,path='' @ socks @ ''/'' @ vm_name vm @ ''.log'',
      ''-device'', ''virtio-blk-pci,drive=rootfs'',
      ''-drive'', ''id=rootfs,file='' @ ov @ ''/'' @ vm_name vm @ ''.qcow2,format=qcow2,if=none'',
      ''-netdev'', netdev_arg mode 0 (vm_tap vm), ''-device'', ''virtio-net-pci,netdev=net0,mac='' @ vm_mac vm,
      ''-daemonize'', ''-pidfile'', socks @ ''/'' @ vm_name vm @ ''.pid'',
      ''-qmp'', ''unix:'' @ socks @ ''/'' @ vm_name vm @ ''.qmp,server,nowait''] @
     (if list_ex (\<lambda>n. nic_type n = ''passthrough'') (vm_nics vm) then [''-mem-prealloc''] else []) @
     concat (map (\<lambda>(idx, nic, tap, mac). nic_args mode idx nic tap mac) (extra_nics md5 vm)) @ disks"

subsection \<open>Lemmas: waiting ends\<close>

lemma launch_wait_step:
  assumes "look i = Some s" "sf_fits_when_idle s" "now i < deadline"
  shows "launch_wait now deadline look i waited = launch_wait now deadline look (Suc i) True"
  using assms by (subst launch_wait.simps) simp

lemma launch_wait_done:
  "launch_wait now deadline look i waited =
     (if look i = None \<or> \<not> sf_fits_when_idle (the (look i)) \<or> deadline \<le> now i
      then Some (case look i of None \<Rightarrow> Admitted i | Some s \<Rightarrow> if \<not> sf_fits_when_idle s then NeverFits s else GaveUp waited s)
      else launch_wait now deadline look (Suc i) True)"
  by (subst launch_wait.simps) (auto split: option.split)

lemma clock_progress:
  assumes "clock_sleeps now deadline" "now i < deadline"
  shows "deadline \<le> now (Suc i) \<or> now i + MEMORY_POLL \<le> now (Suc i)"
  using assms(1) [unfolded clock_sleeps_def, rule_format, of i] assms(2) by linarith


definition sf_example :: shortfall where
  "sf_example = \<lparr>sf_committed = 4096, sf_short = 512, sf_fits_when_idle = True\<rparr>"


subsection \<open>Lemmas: NUMA nodes\<close>

lemma ranges_join:
  assumes "0 < (c :: int)"
  shows "concat (map (\<lambda>i. [i * c..i * c + c - 1]) [0..int n - 1]) = [0..int n * c - 1]"
proof (induction n)
  case (Suc n)
  have "[0..int (Suc n) - 1] = [0..int n - 1] @ [int n]" by (simp add: upto_rec2)
  moreover have "[0..int n * c - 1] @ [int n * c..int n * c + c - 1] = [0..int n * c + c - 1]"
    using assms upto_split2 [of 0 "int n * c - 1" "int n * c + c - 1"] by (cases "n = 0") simp_all
  ultimately show ?case using Suc by (simp add: algebra_simps)
qed simp

lemma shares_sum: "sum_list (map (\<lambda>i. if i < n - 1 then (p :: int) else m - p * (n - 1)) [0..n - 1]) = m" if "0 < n"
proof -
  have "[0..n - 1] = [0..n - 2] @ [n - 1]" using that upto_rec2 [of 0 "n - 1"] by simp
  moreover have "map (\<lambda>i. if i < n - 1 then p else m - p * (n - 1)) [0..n - 2] = replicate (nat (n - 1)) p"
    using that by (intro replicate_eqI) auto
  ultimately show ?thesis using that by (simp add: sum_list_replicate algebra_simps)
qed

text \<open>
  C35.  Simulated NUMA nodes partition the VM: the memory backends add up to the VM's memory
  exactly, each has at least 128 MB, and the processor ranges of the nodes, in order, are
  the processors 0 to N-1.
\<close>

theorem numa_shares_exact:
  assumes "\<not> vm_numa_problem vcpus mem nodes" "2 \<le> nodes" "0 < vcpus"
  shows "let shares = map (node_share vcpus mem nodes) [0..nodes - 1]
    in sum_list (map fst shares) = mem \<and> list_all (\<lambda>(mb, _). 128 \<le> mb) shares \<and>
       concat (map (\<lambda>(_, first, final). [first..final]) shares) = [0..vcpus - 1]"
proof -
  let ?c = "vcpus div nodes" and ?p = "mem div nodes div 2 * 2"
  have "nodes dvd vcpus" "128 \<le> mem div nodes" using assms(1,2) by (auto simp: vm_numa_problem_def dvd_eq_mod_eq_0)
  then have c: "nodes * ?c = vcpus" "128 \<le> ?p" by auto
  then have "0 < ?c" using assms(2,3) by (metis mult_le_0_iff not_le order_trans zero_le_numeral)
  have "?p * nodes \<le> mem div nodes * nodes" using assms(2) by (intro mult_right_mono) auto
  also have "\<dots> \<le> mem" using assms(2) by (metis div_mult_mod_eq le_add_same_cancel1 pos_mod_sign zero_less_numeral order_less_le_trans)
  finally have rest: "?p \<le> mem - ?p * (nodes - 1)" by (simp add: algebra_simps)
  have "sum_list (map (fst \<circ> node_share vcpus mem nodes) [0..nodes - 1]) = mem"
    using shares_sum [of nodes ?p mem] assms(2) by (simp add: node_share_def Let_def comp_def)
  moreover have "128 \<le> fst (node_share vcpus mem nodes i)" for i using c(2) rest by (simp add: node_share_def Let_def)
  moreover have "concat (map (\<lambda>i. [i * ?c..i * ?c + ?c - 1]) [0..nodes - 1]) = [0..vcpus - 1]"
    using ranges_join [OF \<open>0 < ?c\<close>, of "nat nodes"] assms(2) c(1) by simp
  ultimately show ?thesis
    by (simp add: list_all_iff Let_def split_beta comp_def) (simp add: node_share_def Let_def)
qed

theorem numa_shares_exact_witness:
  "sum_list (map fst (map (node_share 6 1001 3) [0..2])) = 1001"
  using numa_shares_exact [of 6 1001 3] by (simp add: vm_numa_problem_def Let_def)

subsection \<open>Lemmas: shared disks\<close>

lemma disk_args_shared:
  assumes "disk_args_from name files blk True SHARED_DISK_CACHE zeroes n disks = Inr args"
  shows "disk_args_from other files blk True SHARED_DISK_CACHE zeroes n disks = Inr args \<and>
    args = concat (map (\<lambda>(k, disk). [''-device'', blk @ '',drive=disk'' @ str_nat k @ '',share-rw=on'',
      ''-drive'', ''id=disk'' @ str_nat k @ '',file='' @ disk @ '',format=raw,if=none,'' @ zeroes @ '',cache=none''])
      (enumerate n disks))"
  using assms
proof (induction disks arbitrary: n args)
  case (Cons d disks)
  then show ?case by (auto simp: res_map_eq_Inr SHARED_DISK_CACHE_def Let_def split: if_splits)
qed simp

text \<open>
  A failover pair opens the same images the same way: when the partner's data disks can be
  attached, its arguments are exactly its owner's, every disk of the owner in order, each
  with \<^verbatim>\<open>share-rw=on\<close> and \<^verbatim>\<open>cache=none\<close> whatever cache either VM was given.
\<close>

theorem failover_disks_agree:
  assumes "data_disk_args ov files isdir dir partner blk = Inr args" "vm_disks_from partner \<noteq> []"
    "vm_load dir (vm_disks_from partner) = Inr owner" "vm_disks_from owner = []"
  shows "data_disk_args ov files isdir dir owner blk = Inr args \<and>
    args = concat (map (\<lambda>(k, disk). [''-device'', blk @ '',drive=disk'' @ str_nat k @ '',share-rw=on'',
      ''-drive'', ''id=disk'' @ str_nat k @ '',file='' @ disk @ '',format=raw,if=none,'' @
        (if vm_disk_prealloc owner \<noteq> [] then ''discard=ignore,detect-zeroes=off'' else ''discard=unmap,detect-zeroes=unmap'') @
        '',cache=none'']) (enumerate 1 (disk_paths ov owner)))"
proof -
  let ?z = "if vm_disk_prealloc owner \<noteq> [] then ''discard=ignore,detect-zeroes=off'' else ''discard=unmap,detect-zeroes=unmap''"
  from assms have shares: "vm_share_disks owner"
    and there: "\<not> (disk_paths ov owner \<noteq> [] \<and> vm_disk_dir owner \<noteq> [] \<and> \<not> isdir (disk_dir_path ov owner))"
    and args: "disk_args_from (vm_name partner) files blk True SHARED_DISK_CACHE ?z 1 (disk_paths ov owner) = Inr args"
    by (auto simp: data_disk_args_def Let_def split: if_splits)
  have "data_disk_args ov files isdir dir owner blk =
      disk_args_from (vm_name owner) files blk True SHARED_DISK_CACHE ?z 1 (disk_paths ov owner)"
    using assms(4) shares there by (auto simp: data_disk_args_def Let_def)
  with disk_args_shared [OF args, of "vm_name owner"] show ?thesis by simp
qed

definition dir_pair :: sockets where
  "dir_pair = [''a'' \<mapsto> ''SHARE_DISKS=1'' @ [CHR 0x0A] @ ''MDT_DISKS=1'']"

definition partner_example :: vminfo where
  "partner_example = vm_example\<lparr>vm_disks_from := ''a''\<rparr>"

theorem failover_disks_agree_witness:
  "\<exists>owner. vm_load dir_pair ''a'' = Inr owner \<and>
     data_disk_args ''/o'' {''/o/a-disk1.img''} (\<lambda>_. True) dir_pair owner ''virtio-blk-pci'' =
     data_disk_args ''/o'' {''/o/a-disk1.img''} (\<lambda>_. True) dir_pair partner_example ''virtio-blk-pci''"
proof -
  have "case vm_load dir_pair ''a'' of Inl _ \<Rightarrow> False | Inr owner \<Rightarrow> vm_disks_from owner = []" by code_simp
  then obtain owner where owner: "vm_load dir_pair ''a'' = Inr owner" "vm_disks_from owner = []"
    by (auto split: sum.split_asm)
  have "case data_disk_args ''/o'' {''/o/a-disk1.img''} (\<lambda>_. True) dir_pair partner_example ''virtio-blk-pci'' of
      Inl _ \<Rightarrow> False | Inr _ \<Rightarrow> True"
    by code_simp
  then obtain args where args: "data_disk_args ''/o'' {''/o/a-disk1.img''} (\<lambda>_. True) dir_pair partner_example ''virtio-blk-pci'' = Inr args"
    by (auto split: sum.split_asm)
  have "vm_disks_from partner_example = ''a''" by (simp add: partner_example_def)
  with failover_disks_agree [OF args] owner args show ?thesis by auto
qed

subsection \<open>Lemmas: the identity of a QEMU\<close>

text \<open>
  A QEMU is found by the VM it was launched for and by no other: the check \<^verbatim>\<open>is_running\<close>
  makes on the arguments of a process accepts the command line ltvm builds for a VM exactly
  under that VM's name.
\<close>

theorem qemu_argv_identity:
  assumes "startswith (qemu_binary_for_arch env (vm_arch vm)) ''/''"
  shows "cmdline_names_vm (qemu_argv env md5 ov socks mode boot disks vm) n True \<longleftrightarrow> n = vm_name vm"
proof -
  obtain c cs where bin: "qemu_binary_for_arch env (vm_arch vm) = CHR ''/'' # cs" using assms
    by (cases "qemu_binary_for_arch env (vm_arch vm)") (auto simp: startswith_def)
  show ?thesis unfolding qemu_argv_def bin by (auto simp: startswith_def)
qed

definition machine_example :: machine_env where
  "machine_example = \<lparr>ma_host_arch = ''x86_64'', ma_darwin = False, ma_force_tcg = False, ma_nested_apple = False,
     ma_prefix = ''/opt/qemu'', ma_exists = (\<lambda>_. True), ma_which = (\<lambda>_. None)\<rparr>"

theorem qemu_argv_identity_witness:
  "cmdline_names_vm (qemu_argv machine_example md5_example ''/o'' ''/s'' NetTaps ''rw'' [] vm_example) (vm_name vm_example) True"
proof -
  have "startswith (qemu_binary_for_arch machine_example (vm_arch vm_example)) ''/''" by code_simp
  then show ?thesis by (simp add: qemu_argv_identity)
qed

end
