(* ===== verification/ImageStore.thy ===== *)
theory ImageStore
  imports VmStore
begin

text \<open>
  Base images and the overlays on them (\<^verbatim>\<open>image_store.py\<close>): the pointer to the current
  image, installing a new one, what overlays are backed by, pruning superseded images and
  the check a VM's base image has to pass before the VM boots.  File contents are bytes,
  here characters, and so are paths; the real path of a path is an argument.
\<close>

subsection \<open>Files\<close>

record store_fs =
  sf_files :: "string \<rightharpoonup> string"
  sf_links :: "string \<rightharpoonup> string"

definition join_path :: "string \<Rightarrow> string \<Rightarrow> string" where
  "join_path dir p = (if startswith p ''/'' then p else dir @ ''/'' @ p)"

definition parent_dir :: "string \<Rightarrow> string" where
  "parent_dir p = rev (drop 1 (dropWhile (\<lambda>c. c \<noteq> CHR ''/'') (rev p)))"

text \<open>\<^verbatim>\<open>Path.is_file\<close> follows links, at most as many as Linux does.\<close>

fun is_file_within :: "nat \<Rightarrow> store_fs \<Rightarrow> string \<Rightarrow> bool" where
  "is_file_within 0 fs p \<longleftrightarrow> sf_links fs p = None \<and> sf_files fs p \<noteq> None"
| "is_file_within (Suc n) fs p \<longleftrightarrow>
     (case sf_links fs p of
        None \<Rightarrow> sf_files fs p \<noteq> None
      | Some target \<Rightarrow> is_file_within n fs (join_path (parent_dir p) target))"

definition is_file :: "store_fs \<Rightarrow> string \<Rightarrow> bool" where
  "is_file = is_file_within 40"

subsection \<open>Image names\<close>

definition CURRENT :: string where
  "CURRENT = ''current.ext4''"

definition LEGACY :: string where
  "LEGACY = ''base.ext4''"

definition hex_lower :: "char \<Rightarrow> bool" where
  "hex_lower c \<longleftrightarrow> isdecimal c \<or> c \<in> set ''abcdef''"

definition versioned_shape :: "string \<Rightarrow> bool" where
  "versioned_shape s \<longleftrightarrow>
     length s = 32 \<and> take 5 s = ''base-'' \<and> list_all isdecimal (take 8 (drop 5 s)) \<and> s ! 13 = CHR ''T'' \<and>
     list_all isdecimal (take 6 (drop 14 s)) \<and> s ! 20 = CHR ''-'' \<and> list_all hex_lower (take 6 (drop 21 s)) \<and>
     drop 27 s = ''.ext4''"

text \<open>The pattern ends in \<open>$\<close>, which also holds before a final newline.\<close>

definition versioned_re :: "string \<Rightarrow> bool" where
  "versioned_re s \<longleftrightarrow> versioned_shape s \<or> s \<noteq> [] \<and> last s = CHR 0x0A \<and> versioned_shape (butlast s)"

definition is_image_name :: "string \<Rightarrow> bool" where
  "is_image_name name \<longleftrightarrow> name = LEGACY \<or> versioned_re name"

definition current_image :: "store_fs \<Rightarrow> string \<Rightarrow> string option" where
  "current_image fs dir =
     (case sf_links fs (dir @ ''/'' @ CURRENT) of
        Some target \<Rightarrow>
          (let t = join_path dir target in if is_file fs t then Some t else None)
      | None \<Rightarrow>
          (let legacy = dir @ ''/'' @ LEGACY in if is_file fs legacy then Some legacy else None))"

text \<open>\<open>entries\<close> are the sorted names of the directory.\<close>

definition image_files :: "store_fs \<Rightarrow> string \<Rightarrow> string list \<Rightarrow> string list" where
  "image_files fs dir entries =
     map (\<lambda>n. dir @ ''/'' @ n)
       (filter (\<lambda>n. is_image_name n \<and> is_file fs (dir @ ''/'' @ n) \<and> sf_links fs (dir @ ''/'' @ n) = None) entries)"

subsection \<open>Installing an image\<close>

text \<open>The link is made under another name and moved over the old one.\<close>

definition set_current :: "store_fs \<Rightarrow> string \<Rightarrow> string \<Rightarrow> store_fs" where
  "set_current fs dir name =
     fs\<lparr>sf_links := (sf_links fs)(dir @ ''/'' @ CURRENT \<mapsto> name), sf_files := (sf_files fs)(dir @ ''/'' @ CURRENT := None)\<rparr>"

text \<open>\<open>names\<close> are the versioned names drawn until one is free; \<open>None\<close> is a source that is not
  there, or that no drawn name was free.\<close>

definition install_image :: "store_fs \<Rightarrow> string \<Rightarrow> string \<Rightarrow> string list \<Rightarrow> (string \<times> store_fs) option" where
  "install_image fs src dir names =
     (case List.find (\<lambda>n. sf_files fs (dir @ ''/'' @ n) = None \<and> sf_links fs (dir @ ''/'' @ n) = None) names of
        None \<Rightarrow> None
      | Some n \<Rightarrow>
          (case sf_files fs src of
             None \<Rightarrow> None
           | Some content \<Rightarrow>
               Some (dir @ ''/'' @ n,
                 set_current (fs\<lparr>sf_files := (sf_files fs)(src := None, dir @ ''/'' @ n \<mapsto> content)\<rparr>) dir n)))"

subsection \<open>Overlays\<close>

definition be_int :: "string \<Rightarrow> nat" where
  "be_int bytes = foldl (\<lambda>acc b. 256 * acc + of_char b) 0 bytes"

definition QCOW2_MAGIC :: string where
  "QCOW2_MAGIC = ''QFI'' @ [CHR 0xFB]"

definition overlay_backing_file :: "store_fs \<Rightarrow> string \<Rightarrow> string option" where
  "overlay_backing_file fs overlay =
     (case sf_files fs overlay of
        None \<Rightarrow> None
      | Some content \<Rightarrow>
          let hdr = take 20 content
          in if length hdr < 20 \<or> take 4 hdr \<noteq> QCOW2_MAGIC then None
             else
               let offset = be_int (take 8 (drop 8 hdr)); sz = be_int (take 4 (drop 16 hdr))
               in if offset = 0 \<or> sz = 0 \<or> sz > 1023 then None
                  else
                    let name = take sz (drop offset content)
                    in if startswith name ''json:'' then None else Some (join_path (parent_dir overlay) name))"

definition has_no_backing :: "store_fs \<Rightarrow> string \<Rightarrow> bool" where
  "has_no_backing fs overlay =
     (case sf_files fs overlay of
        None \<Rightarrow> False
      | Some content \<Rightarrow>
          let hdr = take 20 content
          in length hdr = 20 \<and> take 4 hdr = QCOW2_MAGIC \<and> be_int (take 8 (drop 8 hdr)) = 0)"

text \<open>The images of the VM records, and what the overlays are backed by.\<close>

definition recorded_images :: "sockets \<Rightarrow> string list \<Rightarrow> (string \<times> string) list" where
  "recorded_images infos names =
     concat (map (\<lambda>n. case vm_load infos n of Inl _ \<Rightarrow> [] | Inr vm \<Rightarrow> if vm_image vm \<noteq> [] then [(n, vm_image vm)] else []) names)"

definition referenced_images :: "(string \<Rightarrow> string) \<Rightarrow> store_fs \<Rightarrow> string \<Rightarrow> string list \<Rightarrow> sockets \<Rightarrow> string list
    \<Rightarrow> string set \<times> string list" where
  "referenced_images realpath fs ov stems infos names =
     (let recorded = recorded_images infos names;
          backing = (\<lambda>s. overlay_backing_file fs (ov @ ''/'' @ s @ ''.qcow2''))
      in (set (map (realpath \<circ> snd) recorded) \<union>
            set (concat (map (\<lambda>s. case backing s of None \<Rightarrow> [] | Some b \<Rightarrow> [realpath b]) stems)),
          filter (\<lambda>s. backing s = None \<and> s \<notin> set (map fst recorded) \<and> \<not> has_no_backing fs (ov @ ''/'' @ s @ ''.qcow2'')) stems))"

text \<open>\<open>can\<close> says which files can be removed.\<close>

fun prune_files :: "(string \<Rightarrow> string) \<Rightarrow> (string \<Rightarrow> bool) \<Rightarrow> string \<Rightarrow> string set \<Rightarrow> string list \<Rightarrow> store_fs
    \<Rightarrow> nat \<Rightarrow> nat \<times> store_fs" where
  "prune_files realpath can current refs [] fs freed = (freed, fs)"
| "prune_files realpath can current refs (f # rest) fs freed =
     (if f = current \<or> realpath f \<in> refs \<or> \<not> can f then prune_files realpath can current refs rest fs freed
      else
        prune_files realpath can current refs rest (fs\<lparr>sf_files := (sf_files fs)(f := None)\<rparr>)
          (freed + length (get_or [] (sf_files fs f))))"

definition prune_superseded :: "(string \<Rightarrow> string) \<Rightarrow> (string \<Rightarrow> bool) \<Rightarrow> string \<Rightarrow> string list \<Rightarrow> sockets \<Rightarrow> string list
    \<Rightarrow> string \<Rightarrow> string list \<Rightarrow> store_fs \<Rightarrow> nat \<times> store_fs" where
  "prune_superseded realpath can ov stems infos names dir entries fs =
     (case current_image fs dir of
        None \<Rightarrow> (0, fs)
      | Some current \<Rightarrow>
          (case referenced_images realpath fs ov stems infos names of (refs, unknown) \<Rightarrow>
             if unknown \<noteq> [] then (0, fs)
             else prune_files realpath can current refs (image_files fs dir entries) fs 0))"

subsection \<open>Booting on an image\<close>

text \<open>What \<^verbatim>\<open>os.stat\<close> gives: times in nanoseconds, no file, or another error.\<close>

datatype stat_result = Stat (st_size: int) (st_mtime: int) (st_ctime: int) | StatMissing | StatError

datatype backing_problem = ImageGone string | ImageChanged string string string

text \<open>The result is the refusal, if any, with the record and the state directory, which may
  have adopted the identity of the image.\<close>

definition check_backing :: "store_fs \<Rightarrow> (string \<Rightarrow> stat_result) \<Rightarrow> string \<Rightarrow> vminfo \<Rightarrow> sockets
    \<Rightarrow> backing_problem option \<times> vminfo \<times> sockets" where
  "check_backing fs stat ov vm dir =
     (let from_header = overlay_backing_file fs (ov @ ''/'' @ vm_name vm @ ''.qcow2'')
      in case (case from_header of Some b \<Rightarrow> Some b | None \<Rightarrow> if vm_image vm \<noteq> [] then Some (vm_image vm) else None) of
           None \<Rightarrow> (None, vm, dir)
         | Some backing \<Rightarrow>
             (case stat backing of
                StatMissing \<Rightarrow>
                  if from_header = None \<and> vm_image_id vm = [] then (None, vm, dir) else (Some (ImageGone backing), vm, dir)
              | StatError \<Rightarrow> (None, vm, dir)
              | Stat sz mtime ctime \<Rightarrow>
                  let now = str_int sz @ '':'' @ str_int mtime
                  in if vm_image_id vm \<noteq> [] then
                       (if vm_image_id vm = now then None else Some (ImageChanged backing (vm_image_id vm) now), vm, dir)
                     else if vm_created vm = 0 \<or> max mtime ctime > vm_created vm * 10 ^ 9 then (None, vm, dir)
                     else
                       (case adopt_image_id vm now dir of
                          Inl _ \<Rightarrow> (None, vm, dir)
                        | Inr (vm', dir') \<Rightarrow> (None, vm', dir'))))"

subsection \<open>Lemmas: pruning\<close>

lemma prune_files_kept:
  assumes "prune_files realpath can current refs files fs freed = (freed', fs')" "p = current \<or> realpath p \<in> refs"
  shows "sf_files fs' p = sf_files fs p" "sf_links fs' = sf_links fs"
  using assms by (induction files arbitrary: fs freed) (auto split: if_splits)

text \<open>
  C21.  Pruning superseded images never takes one a VM needs: the current image, every file
  that is really the image a VM's record names, and every file that is really the backing
  file an overlay names keep their contents; and with one overlay whose backing file cannot
  be found out nothing is removed at all.
\<close>

theorem prune_keeps_backing:
  assumes "prune_superseded realpath can ov stems infos names dir entries fs = (freed, fs')"
    "current_image fs dir = Some p \<or>
     (\<exists>n vm. n \<in> set names \<and> vm_load infos n = Inr vm \<and> vm_image vm \<noteq> [] \<and> realpath p = realpath (vm_image vm)) \<or>
     (\<exists>s b. s \<in> set stems \<and> overlay_backing_file fs (ov @ ''/'' @ s @ ''.qcow2'') = Some b \<and> realpath p = realpath b) \<or>
     (\<exists>s. s \<in> set stems \<and> overlay_backing_file fs (ov @ ''/'' @ s @ ''.qcow2'') = None \<and>
        \<not> has_no_backing fs (ov @ ''/'' @ s @ ''.qcow2'') \<and> s \<notin> set names)"
  shows "sf_files fs' p = sf_files fs p"
proof (cases "fs' = fs")
  case False
  obtain refs unknown where refs: "referenced_images realpath fs ov stems infos names = (refs, unknown)" by fastforce
  from False assms(1) obtain current where current: "current_image fs dir = Some current" "unknown = []"
    "prune_files realpath can current refs (image_files fs dir entries) fs 0 = (freed, fs')"
    by (auto simp: prune_superseded_def refs split: option.split_asm if_splits)
  have recorded: "(n, vm_image vm) \<in> set (recorded_images infos names)"
    if "n \<in> set names" "vm_load infos n = Inr vm" "vm_image vm \<noteq> []" for n vm
    using that by (force simp: recorded_images_def)
  have names: "fst x \<in> set names" if "x \<in> set (recorded_images infos names)" for x
    using that by (auto simp: recorded_images_def split: sum.split_asm if_splits)
  have "p = current \<or> realpath p \<in> refs"
    using assms(2) current(1,2) refs recorded names
    by (force simp: referenced_images_def Let_def filter_empty_conv image_iff)
  from prune_files_kept(1) [OF current(3) this] show ?thesis .
qed simp

subsection \<open>Lemmas: installing\<close>

lemma versioned_no_slash: "versioned_shape n \<Longrightarrow> n \<noteq> CURRENT \<and> \<not> startswith n ''/''"
  by (auto simp: versioned_shape_def CURRENT_def startswith_def) (cases n; simp)

text \<open>
  Installing an image makes it the current one under a new name, and no file a VM may be
  using changes: everything but the moved source and the old pointer keeps its contents.
\<close>

theorem install_image_fresh:
  assumes "install_image fs src dir names = Some (dest, fs')" "list_all versioned_shape names"
    "src \<noteq> dest" "src \<noteq> dir @ ''/'' @ CURRENT"
  shows "current_image fs' dir = Some dest \<and> sf_files fs' dest = sf_files fs src \<and> sf_files fs dest = None \<and>
    (q \<noteq> src \<and> q \<noteq> dir @ ''/'' @ CURRENT \<and> sf_files fs q = Some content \<longrightarrow> sf_files fs' q = Some content)"
proof -
  from assms(1) obtain n content where n: "dest = dir @ ''/'' @ n" "n \<in> set names"
    "sf_files fs dest = None" "sf_links fs dest = None" "sf_files fs src = Some content"
    and fs': "fs' = set_current (fs\<lparr>sf_files := (sf_files fs)(src := None, dest \<mapsto> content)\<rparr>) dir n"
    by (auto simp: install_image_def split: option.split_asm dest!: find_Some_iff_first)
  have "n \<noteq> CURRENT" "\<not> startswith n ''/''" using assms(2) n(2) versioned_no_slash by (auto simp: list_all_iff)
  then have dest: "dest \<noteq> dir @ ''/'' @ CURRENT" "join_path dir n = dest" by (auto simp: n(1) join_path_def)
  then have "sf_links fs' dest = None" "sf_files fs' dest = Some content" "sf_links fs' (dir @ ''/'' @ CURRENT) = Some n"
    using n(4) by (simp_all add: fs' set_current_def)
  moreover from this have "is_file fs' dest" by (simp add: is_file_def numeral_eq_Suc)
  ultimately show ?thesis
    using dest n(3,5) by (auto simp: current_image_def Let_def fs' set_current_def)
qed

subsection \<open>Lemmas: booting\<close>

lemma image_id_inject:
  assumes "str_int a @ '':'' @ str_int b = str_int c @ '':'' @ str_int d"
  shows "a = c \<and> b = d"
proof -
  have no_colon: "CHR '':'' \<notin> set (str_int n)" for n using str_int_chars [of "CHR '':''" n] by (auto simp: isdecimal_def)
  have "str_int a @ CHR '':'' # str_int b = str_int c @ CHR '':'' # str_int d" using assms by simp
  from first_part_unique [OF this no_colon no_colon] have "str_int a = str_int c" "str_int b = str_int d" by simp_all
  then show ?thesis by (metis option.inject py_int_str_int)
qed

text \<open>
  A changed base image is caught: once a VM with a base image has booted, with an image
  not younger than the VM, the next boot is refused exactly when the image's size or
  modification time is another.
\<close>

theorem image_change_caught:
  assumes "overlay_backing_file fs (ov @ ''/'' @ vm_name vm @ ''.qcow2'') = Some b"
    "stat b = Stat sz mtime ctime" "check_backing fs stat ov vm dir = (None, vm', dir')"
    "vm_image_id vm \<noteq> [] \<or> vm_created vm \<noteq> 0 \<and> max mtime ctime \<le> vm_created vm * 10 ^ 9 \<and> dir (vm_name vm) \<noteq> None"
    "stat' b = Stat sz' mtime' ctime'"
  shows "(fst (check_backing fs stat' ov vm' dir'') \<noteq> None) \<longleftrightarrow> (sz', mtime') \<noteq> (sz, mtime)"
proof -
  have "\<exists>infos. adopt_image_id vm (str_int sz @ '':'' @ str_int mtime) dir =
      Inr (vm\<lparr>vm_image_id := str_int sz @ '':'' @ str_int mtime\<rparr>, infos)"
    if "dir (vm_name vm) \<noteq> None"
    using that by (auto simp: adopt_image_id_def vm_update_fields_def res_map_def split: option.split)
  then have id: "vm_image_id vm' = str_int sz @ '':'' @ str_int mtime" and name: "vm_name vm' = vm_name vm"
    using assms(3,4) unfolding check_backing_def Let_def assms(1,2) option.case stat_result.case
    by (auto split: if_split_asm sum.split_asm prod.split_asm)
  have "fst (check_backing fs stat' ov vm' dir'') \<noteq> None \<longleftrightarrow> vm_image_id vm' \<noteq> str_int sz' @ '':'' @ str_int mtime'"
    using id unfolding check_backing_def Let_def name assms(1,5) option.case stat_result.case by simp
  then show ?thesis using image_id_inject [of sz mtime sz' mtime'] by (auto simp: id)
qed

subsection \<open>A concrete store\<close>

definition overlay_example :: string where
  "overlay_example = QCOW2_MAGIC @ replicate 11 (CHR 0x00) @ [CHR 0x14] @ replicate 3 (CHR 0x00) @ [CHR 0x0C] @ ''/i/base.ext4''"

definition version_example :: string where
  "version_example = ''base-20240101T000000-00ab0f.ext4''"

definition fs_example :: store_fs where
  "fs_example = \<lparr>
     sf_files = [''/o/a.qcow2'' \<mapsto> overlay_example, ''/i/base.ext4'' \<mapsto> ''old'', ''/i/'' @ version_example \<mapsto> ''new'',
       ''/i/base-20230101T000000-000000.ext4'' \<mapsto> ''older'', ''/tmp/x'' \<mapsto> ''built''],
     sf_links = [''/i/current.ext4'' \<mapsto> version_example]\<rparr>"

lemma overlay_example_backing: "overlay_backing_file fs_example (''/o'' @ ''/'' @ ''a'' @ ''.qcow2'') = Some ''/i/base.ext4''"
  by code_simp

theorem prune_keeps_backing_witness:
  "let run = prune_superseded id (\<lambda>_. True) ''/o'' [''a''] Map.empty [] ''/i''
       [''base-20230101T000000-000000.ext4'', version_example, ''base.ext4''] fs_example
   in fst run = 5 \<and> sf_files (snd run) ''/i/base.ext4'' = Some ''old''"
proof -
  let ?run = "prune_superseded id (\<lambda>_. True) ''/o'' [''a''] Map.empty [] ''/i''
       [''base-20230101T000000-000000.ext4'', version_example, ''base.ext4''] fs_example"
  have "fst ?run = 5" by code_simp
  moreover have "sf_files (snd ?run) ''/i/base.ext4'' = sf_files fs_example ''/i/base.ext4''"
    using prune_keeps_backing [of id "\<lambda>_. True" "''/o''" "[''a'']" Map.empty "[]" "''/i''" _ fs_example "fst ?run" "snd ?run"]
      overlay_example_backing by (metis list.set_intros(1) prod.collapse)
  moreover have "sf_files fs_example ''/i/base.ext4'' = Some ''old''" by code_simp
  ultimately show ?thesis by (simp add: Let_def)
qed

theorem install_image_fresh_witness:
  "current_image (snd (the (install_image fs_example ''/tmp/x'' ''/i'' [version_example, ''base-20250101T000000-000000.ext4'']))) ''/i'' =
     Some ''/i/base-20250101T000000-000000.ext4''"
proof -
  let ?names = "[version_example, ''base-20250101T000000-000000.ext4'']"
  have "map_option fst (install_image fs_example ''/tmp/x'' ''/i'' ?names) = Some ''/i/base-20250101T000000-000000.ext4''"
    by code_simp
  then obtain fs' where run: "install_image fs_example ''/tmp/x'' ''/i'' ?names = Some (''/i/base-20250101T000000-000000.ext4'', fs')"
    by auto
  moreover have "list_all versioned_shape ?names" by code_simp
  ultimately show ?thesis using install_image_fresh [OF run] by (simp add: CURRENT_def)
qed

definition vm_backed :: vminfo where
  "vm_backed = vm_example\<lparr>vm_name := ''a'', vm_image_id := ''5:7''\<rparr>"

theorem image_change_caught_witness:
  "fst (check_backing fs_example (\<lambda>_. Stat 5 8 0) ''/o'' vm_backed Map.empty) \<noteq> None"
proof -
  have "overlay_backing_file fs_example (''/o'' @ ''/'' @ vm_name vm_backed @ ''.qcow2'') = Some ''/i/base.ext4''"
    using overlay_example_backing by (simp add: vm_backed_def)
  moreover have "check_backing fs_example (\<lambda>_. Stat 5 7 0) ''/o'' vm_backed Map.empty = (None, vm_backed, Map.empty)"
  proof -
    have "str_int 5 @ '':'' @ str_int 7 = ''5:7''" by code_simp
    then show ?thesis using overlay_example_backing by (simp add: check_backing_def vm_backed_def Let_def)
  qed
  moreover have "vm_image_id vm_backed \<noteq> []" by (simp add: vm_backed_def)
  ultimately show ?thesis
    using image_change_caught [of fs_example "''/o''" vm_backed "''/i/base.ext4''" "\<lambda>_. Stat 5 7 0" 5 7 0 Map.empty vm_backed Map.empty
        "\<lambda>_. Stat 5 8 0" 5 8 0 Map.empty] by simp
qed

end
