(* ===== verification/VmLifecycle.thy ===== *)
theory VmLifecycle
  imports ClusterCreate QemuRun ImageStore
begin

text \<open>
  The life of a VM on the host (\<^verbatim>\<open>vm_commands.py\<close>, with the process control of
  \<^verbatim>\<open>qemu_run.py\<close>): \<^verbatim>\<open>create\<close> with its checks, the allocation and commit under the lock,
  disk creation, launch and the rollbacks; \<^verbatim>\<open>start\<close>, \<^verbatim>\<open>set\<close>, \<^verbatim>\<open>stop\<close> and \<^verbatim>\<open>destroy\<close>.  The
  state is the host: the \<^verbatim>\<open>.info\<close> files, the other files by path, processes, pid files
  and TAP devices, claims, cluster records, \<^verbatim>\<open>/etc/hosts\<close> and the ssh configuration, and the
  passthrough devices handed back to their drivers.  What the model cannot read is in
  \<open>host_env\<close>: the image tools, QEMU itself, the guest, the artifacts of a target, clock and
  user.  A file the user may not unlink is removed through sudo, so removal always
  succeeds.
\<close>

subsection \<open>The host\<close>

record host =
  h_infos :: sockets
  h_files :: "string set"
  h_claims :: claim_store
  h_clusters :: clusters
  h_hosts :: string
  h_ssh :: string
  h_rebinds :: "(string \<times> string) list"
  h_procs :: procs
  h_pidfiles :: pidfiles
  h_taps :: "string set"

text \<open>The artifacts \<^verbatim>\<open>_resolve_os_and_kernel\<close> finds.\<close>

record artifacts =
  ar_image :: string
  ar_kernel :: string
  ar_kver :: string
  ar_target :: string
  ar_variant :: string
  ar_arch :: string
  ar_mem :: int
  ar_base :: string
  ar_image_id :: string
  ar_image_size :: "int option"

text \<open>What a TAP device ends as when it is made: not there, there but not on the bridge, or up;
  and what comes of a guest: it never answers, a later provisioning step fails, or it is
  up.\<close>

datatype tap_outcome = TapFails | TapHalf | TapUp

datatype guest_outcome = GuestSilent | GuestBroken | GuestUp

text \<open>\<open>he_tool sudo argv files\<close> runs an image tool: its error text or success, and the files
  after it.  \<open>he_qemu argv\<close> is the pid of the QEMU started, \<open>None\<close> when it does not start;
  \<open>he_kill\<close> whether a QEMU goes when it is signalled.  \<open>he_helper\<close> is the bridge helper of a
  host set up for unprivileged VMs, \<open>he_sudo\<close> whether sudo needs no password.\<close>

record host_env =
  he_overlays :: string
  he_sockets :: string
  he_md5 :: "string \<Rightarrow> string"
  he_nets :: host_nets
  he_fs :: host_fs
  he_claim :: claim_env
  he_repr :: "json \<Rightarrow> string"
  he_now :: int
  he_user :: string
  he_pid :: int
  he_tool :: "bool \<Rightarrow> string list \<Rightarrow> string set \<Rightarrow> (string, unit) result \<times> string set"
  he_overlays_writable :: bool
  he_dir_writable :: "string \<Rightarrow> bool"
  he_image_readable :: bool
  he_manageable :: "vminfo \<Rightarrow> string \<Rightarrow> bool"
  he_signalable :: "vminfo \<Rightarrow> bool"
  he_root :: bool
  he_helper :: "string option"
  he_sudo :: bool
  he_machine :: machine_env
  he_store :: store_fs
  he_stat :: "string \<Rightarrow> stat_result"
  he_budget :: "vminfo \<Rightarrow> mem_budget option"
  he_tap :: "string \<Rightarrow> tap_outcome"
  he_qemu :: "string list \<Rightarrow> int option"
  he_guest :: "vminfo \<Rightarrow> guest_outcome"
  he_kill :: "vminfo \<Rightarrow> bool"
  he_bind :: "string \<Rightarrow> (string, string option) result"

datatype life_error =
    LName name_error
  | LOwner owner_error
  | LKargs kargs_error
  | LNumaNegative int
  | LCreate create_error
  | LTap "string \<times> string list"
  | LArtifacts
  | LSize size_error
  | LRootSize
  | LAddress alloc_error
  | LExists string
  | LNuma
  | LNicNuma numa_issue
  | LImage string
  | LTool string
  | LVfio string string
  | LOverlay string
  | LBacking backing_problem
  | LMemory shortfall
  | LNetwork string
  | LCmdline nat
  | LTapDevice string
  | LNicType string
  | LNoKernel string
  | LDisk disk_error
  | LQemu string
  | LNoSsh string
  | LGuest string
  | LLoad load_error
  | LClaim claim_error
  | LNotOwner string
  | LSignal string
  | LStillRunning string
  | LPartner string string
  | LNothingToSet
  | LSetCache string
  | LSetVcpus int
  | LSetMem int
  | LRunning string
  | LSharedCache string
  | LCluster cluster_error

definition overlay_path :: "host_env \<Rightarrow> string \<Rightarrow> string" where
  "overlay_path env name = he_overlays env @ ''/'' @ name @ ''.qcow2''"

definition socket_path :: "host_env \<Rightarrow> string \<Rightarrow> string \<Rightarrow> string" where
  "socket_path env name ext = he_sockets env @ ''/'' @ name @ ''.'' @ ext"

subsection \<open>Removing the files of a VM\<close>

text \<open>\<^verbatim>\<open>OVERLAYS.glob("<name>-disk*.img")\<close>, for a name without wildcards.\<close>

definition overlay_glob :: "host_env \<Rightarrow> string \<Rightarrow> string \<Rightarrow> bool" where
  "overlay_glob env name path \<longleftrightarrow>
     (let pre = he_overlays env @ ''/'';
          f = drop (length pre) path;
          stem = name @ ''-disk''
      in startswith path pre \<and> CHR ''/'' \<notin> set f \<and> startswith f stem \<and>
         endswith (drop (length stem) f) ''.img'')"

text \<open>The pid file has its own component of the host.  The disks of a \<^verbatim>\<open>--disk-dir\<close> are matched
  exactly: \<^verbatim>\<open><name>-disk<digits>.img\<close>.\<close>

definition disk_dir_file :: "string \<Rightarrow> string \<Rightarrow> string \<Rightarrow> bool" where
  "disk_dir_file dir name path \<longleftrightarrow>
     (let pre = dir @ ''/'' @ name @ ''-disk'';
          rest = drop (length pre) path;
          digits = takeWhile isdecimal rest
      in startswith path pre \<and> digits \<noteq> [] \<and> dropWhile isdecimal rest = ''.img'')"

definition vm_targets :: "host_env \<Rightarrow> host \<Rightarrow> string \<Rightarrow> string set" where
  "vm_targets env h name =
     {overlay_path env name} \<union>
     Set.filter (overlay_glob env name) (h_files h) \<union>
     (case vm_load (h_infos h) name of
        Inl _ \<Rightarrow> {}
      | Inr vm \<Rightarrow>
          if vm_disk_dir vm \<noteq> [] then Set.filter (disk_dir_file (vm_disk_dir vm) name) (h_files h) else {}) \<union>
     {socket_path env name ''qmp'', socket_path env name ''log'',
      he_sockets env @ ''/.'' @ name @ ''.info.lock''}"

definition destroy_vm_artifacts :: "host_env \<Rightarrow> string \<Rightarrow> host \<Rightarrow> (life_error, unit) result \<times> host" where
  "destroy_vm_artifacts env name h =
     (case validate_vm_name_for_lookup name of
        Inl e \<Rightarrow> (Inl (LName e), h)
      | Inr _ \<Rightarrow>
          (Inr (), h\<lparr>h_files := h_files h - vm_targets env h name, h_infos := (h_infos h)(name := None),
             h_pidfiles := (h_pidfiles h)(name := None)\<rparr>))"

definition register_ssh_name :: "string \<Rightarrow> string \<Rightarrow> host \<Rightarrow> host" where
  "register_ssh_name name ip h =
     h\<lparr>h_hosts := register_etc_hosts name ip (h_hosts h), h_ssh := register_ssh_config name ip (h_ssh h)\<rparr>"

definition unregister_ssh_name :: "string \<Rightarrow> host \<Rightarrow> host" where
  "unregister_ssh_name name h =
     h\<lparr>h_hosts := unregister_etc_hosts name (h_hosts h), h_ssh := unregister_ssh_config name (h_ssh h)\<rparr>"

subsection \<open>Processes and TAP devices\<close>

definition running :: "host \<Rightarrow> vminfo \<Rightarrow> bool" where
  "running h vm = fst (is_running (h_procs h) (h_pidfiles h) vm)"

definition all_taps :: "host_env \<Rightarrow> vminfo \<Rightarrow> string list" where
  "all_taps env vm = vm_tap vm # map (\<lambda>(_, _, tap, _). tap) (extra_nics (he_md5 env) vm)"

text \<open>On a host set up for unprivileged VMs a TAP goes with its QEMU; one left from an earlier
  privileged start is removed when that needs no password.\<close>

definition drop_taps :: "host_env \<Rightarrow> vminfo \<Rightarrow> host \<Rightarrow> host" where
  "drop_taps env vm h =
     (if he_root env \<or> he_helper env = None \<or> he_sudo env then h\<lparr>h_taps := h_taps h - set (all_taps env vm)\<rparr> else h)"

text \<open>\<^verbatim>\<open>kill_qemu\<close>: signals QEMU when it runs and dies when it outlives the signals; the PID
  is cleared in the file, if there still is one.  A QEMU that is killed may leave its pid
  file behind.\<close>

definition kill_qemu :: "host_env \<Rightarrow> vminfo \<Rightarrow> host \<Rightarrow> (life_error, unit) result \<times> host" where
  "kill_qemu env vm h =
     (case is_running (h_procs h) (h_pidfiles h) vm of (run, vm1) \<Rightarrow>
        if run \<and> \<not> he_kill env vm1 then (Inl (LStillRunning (vm_name vm)), h)
        else
          let h1 = (if run then h\<lparr>h_procs := (h_procs h)(vm_pid vm1 := None)\<rparr> else h);
              h2 = (case update_pid vm1 0 (h_infos h1) of Inl _ \<Rightarrow> h1 | Inr (_, infos) \<Rightarrow> h1\<lparr>h_infos := infos\<rparr>)
          in (Inr (), drop_taps env vm h2))"

definition rebind_all :: "(string, string) dict \<Rightarrow> host \<Rightarrow> host" where
  "rebind_all drivers h = h\<lparr>h_rebinds := h_rebinds h @ filter (\<lambda>(bdf, drv). drv \<noteq> []) drivers\<rparr>"

subsection \<open>Creating the disks\<close>

type_synonym disk_run = "(life_error, unit) result \<times> string set"

definition then_run :: "disk_run \<Rightarrow> (string set \<Rightarrow> disk_run) \<Rightarrow> disk_run" where
  "then_run r f = (case r of (Inl e, fs) \<Rightarrow> (Inl e, fs) | (Inr _, fs) \<Rightarrow> f fs)"

definition make_image :: "host_env \<Rightarrow> bool \<Rightarrow> string list \<Rightarrow> string set \<Rightarrow> disk_run" where
  "make_image env sudo argv fs =
     (case he_tool env sudo argv fs of (Inl e, fs') \<Rightarrow> (Inl (LTool e), fs') | (Inr _, fs') \<Rightarrow> (Inr (), fs'))"

definition prealloc_cmd :: "vminfo \<Rightarrow> string \<Rightarrow> string \<Rightarrow> string list" where
  "prealloc_cmd vm mode disk =
     [''qemu-img'', ''create'', ''-q'', ''-f'', ''raw'', ''-o'', ''preallocation='' @ mode, disk, str_int (vm_disk_size vm)]"

text \<open>A failed command without output is no \<^verbatim>\<open>RuntimeError\<close> when it ran as the user.\<close>

fun is_runtime_error :: "bool \<Rightarrow> life_error \<Rightarrow> bool" where
  "is_runtime_error sudo (LTool msg) = (sudo \<or> msg \<noteq> [])"
| "is_runtime_error sudo _ = False"

fun error_text :: "life_error \<Rightarrow> string" where
  "error_text (LTool msg) = msg"
| "error_text _ = []"

text \<open>The result has the preallocation mode the VM ends up with.\<close>

definition create_preallocated_disk :: "host_env \<Rightarrow> bool \<Rightarrow> vminfo \<Rightarrow> string \<Rightarrow> string set
    \<Rightarrow> (life_error, unit) result \<times> string set \<times> vminfo" where
  "create_preallocated_disk env sudo vm disk fs =
     (if vm_disk_prealloc vm \<noteq> ''falloc'' then
        (case make_image env sudo (prealloc_cmd vm (vm_disk_prealloc vm) disk) fs of (r, fs') \<Rightarrow> (r, fs', vm))
      else
        case make_image env sudo (prealloc_cmd vm ''falloc'' disk) fs of
          (Inr _, fs') \<Rightarrow> (Inr (), fs', vm)
        | (Inl e, fs') \<Rightarrow>
            if \<not> is_runtime_error sudo e \<or> contains ''No space left'' (error_text e) then (Inl e, fs', vm)
            else
              let vm' = vm\<lparr>vm_disk_prealloc := ''full''\<rparr>
              in case make_image env sudo (prealloc_cmd vm' ''full'' disk) fs' of (r, fs'') \<Rightarrow> (r, fs'', vm'))"

fun create_data_disks :: "host_env \<Rightarrow> bool \<Rightarrow> string list \<Rightarrow> vminfo \<Rightarrow> string set
    \<Rightarrow> (life_error, unit) result \<times> string set \<times> vminfo" where
  "create_data_disks env sudo [] vm fs = (Inr (), fs, vm)"
| "create_data_disks env sudo (disk # disks) vm fs =
     (if vm_disk_prealloc vm \<noteq> [] then
        (case create_preallocated_disk env sudo vm disk fs of
           (Inl e, fs', vm') \<Rightarrow> (Inl e, fs', vm')
         | (Inr _, fs', vm') \<Rightarrow> create_data_disks env sudo disks vm' fs')
      else
        (case make_image env sudo [''truncate'', ''-s'', str_int (vm_disk_size vm), disk] fs of
           (Inl e, fs') \<Rightarrow> (Inl e, fs', vm)
         | (Inr _, fs') \<Rightarrow> create_data_disks env sudo disks vm fs'))"

definition own_images :: "host_env \<Rightarrow> vminfo \<Rightarrow> string list" where
  "own_images env vm = overlay_path env (vm_name vm) # disk_paths (he_overlays env) vm"

definition create_disks :: "host_env \<Rightarrow> vminfo \<Rightarrow> string set \<Rightarrow> (life_error, vminfo) result \<times> string set" where
  "create_disks env vm fs =
     (let as_user = he_overlays_writable env;
          disks_as_user = (if vm_disk_dir vm \<noteq> [] then he_dir_writable env (vm_disk_dir vm) else as_user);
          overlay = overlay_path env (vm_name vm)
      in if as_user \<and> \<not> he_image_readable env then (Inl (LImage (vm_image vm)), fs)
         else
           case then_run
               (make_image env (\<not> as_user)
                  [''qemu-img'', ''create'', ''-f'', ''qcow2'', ''-b'', vm_image vm, ''-F'', ''raw'', overlay] fs)
               (make_image env (\<not> as_user) [''qemu-img'', ''resize'', overlay, str_int (vm_root_size vm)]) of
             (Inl e, fs') \<Rightarrow> (Inl e, fs' - set (own_images env vm))
           | (Inr _, fs') \<Rightarrow>
               case create_data_disks env (\<not> disks_as_user) (disk_paths (he_overlays env) vm) vm fs' of
                 (Inl e, fs'', vm') \<Rightarrow> (Inl e, fs'' - set (own_images env vm'))
               | (Inr _, fs'', vm') \<Rightarrow> (Inr vm', fs''))"

subsection \<open>Create: the checks\<close>

text \<open>\<open>cm_args\<close> holds the values argparse gives, defaults included.  \<open>cm_artifacts\<close> is what the
  target, kernel and image options resolve to, \<open>None\<close> when they do not.\<close>

record create_cmd =
  cm_args :: create_args
  cm_owner_id :: "string option"
  cm_kernel_args :: "string option"
  cm_disk_size :: size_value
  cm_root_size :: size_value
  cm_ip :: "string option"
  cm_artifacts :: "artifacts option"

record create_plan =
  pl_args :: create_args
  pl_owner :: string
  pl_kargs :: string
  pl_nics :: "nicspec list"
  pl_bdfs :: "string list"
  pl_disk_size :: int
  pl_root_size :: int
  pl_ip :: "string option"
  pl_art :: artifacts

text \<open>What \<^verbatim>\<open>cmd_create\<close> does first: everything up to the point where an existing VM is
  converged instead.\<close>

definition create_prologue :: "host_env \<Rightarrow> create_cmd \<Rightarrow> (life_error, string \<times> string) result" where
  "create_prologue env cm =
     res_bind (map_err LName (validate_vm_name (ca_name (cm_args cm)))) (\<lambda>_.
     res_bind (map_err LOwner (resolve_owner_id (cm_owner_id cm) (ce_environ (he_claim env)) (he_pid env))) (\<lambda>owner.
     res_bind (map_err LKargs (validate_kernel_args (cm_kernel_args cm))) (\<lambda>kargs.
       let numa = get_or 0 (ca_numa_nodes (cm_args cm))
       in if numa < 0 then Inl (LNumaNegative numa) else Inr (owner, kargs))))"

text \<open>\<open>peers\<close> is the listing of the state directory.\<close>

definition create_checks :: "host_env \<Rightarrow> sockets \<Rightarrow> string list \<Rightarrow> create_cmd \<Rightarrow> (life_error, create_plan) result" where
  "create_checks env dir peers cm =
     res_bind (create_prologue env cm) (\<lambda>(owner, kargs).
     res_bind (map_err LCreate (validate_create_bounds (he_nets env) (he_fs env) dir peers (cm_args cm))) (\<lambda>(nics, bdfs).
     res_bind (map_err LCreate (validate_failover_disks dir peers (cm_args cm))) (\<lambda>(shared, args1).
     res_bind (map_err LCreate (validate_disk_options (he_fs env) args1)) (\<lambda>args2.
     res_bind (map_err LTap (check_tap_collision (he_md5 env) dir peers (ca_name args2) (length nics))) (\<lambda>_.
       case cm_artifacts cm of None \<Rightarrow> Inl LArtifacts | Some art \<Rightarrow>
         let args3 = (if ca_mem args2 = None then args2\<lparr>ca_mem := Some (ar_mem art)\<rparr> else args2)
         in res_bind (map_err LSize (parse_disk_size (cm_disk_size cm))) (\<lambda>dsize.
            res_bind (map_err LSize (parse_root_size (cm_root_size cm))) (\<lambda>rsize.
              if \<not> check_root_size_fits rsize (ar_image_size art) then Inl LRootSize
              else Inr \<lparr>pl_args = args3, pl_owner = owner, pl_kargs = kargs, pl_nics = nics, pl_bdfs = bdfs,
                pl_disk_size = (case shared of None \<Rightarrow> dsize | Some o' \<Rightarrow> vm_disk_size o'),
                pl_root_size = rsize, pl_ip = cm_ip cm, pl_art = art\<rparr>)))))))"

subsection \<open>Create: the commit\<close>

definition planned_vm :: "host_env \<Rightarrow> create_plan \<Rightarrow> string list \<Rightarrow> string list \<Rightarrow> vminfo" where
  "planned_vm env p ips ip6s =
     (let a = pl_args p; art = pl_art p; name = ca_name a
      in \<lparr>vm_name = name, vm_ip = hd ips, vm_pid = 0, vm_tap = tap_for_name (he_md5 env) name,
          vm_mac = mac_for_name (he_md5 env) name, vm_vcpus = get_or 0 (ca_vcpus a), vm_mem = get_or 0 (ca_mem a),
          vm_mdt_disks = get_or 0 (ca_mdt_disks a), vm_ost_disks = get_or 0 (ca_ost_disks a),
          vm_disk_size = pl_disk_size p, vm_root_size = pl_root_size p, vm_image = ar_image art,
          vm_kernel = ar_kernel art, vm_created = he_now env, vm_last_boot = 0, vm_last_deploy = 0,
          vm_build_path = [], vm_kver = ar_kver art, vm_base_image = ar_base art,
          vm_image_id = ar_image_id art, vm_os_id = ar_target art, vm_arch = ar_arch art,
          vm_creator = he_user env, vm_owner_id = Some (pl_owner p), vm_variant = ar_variant art,
          vm_nics = pl_nics p, vm_nic_ips = tl ips, vm_nic_ip6s = ip6s, vm_passthrough_drivers = [],
          vm_kernel_args = pl_kargs p, vm_numa_nodes = get_or 0 (ca_numa_nodes a),
          vm_share_disks = ca_share_disks a, vm_disks_from = ca_disks_from a, vm_disk_dir = ca_disk_dir a,
          vm_disk_cache = ca_disk_cache a, vm_disk_prealloc = ca_disk_prealloc a\<rparr>)"

text \<open>One step: the allocation lock is held from reading the peers to the saved file.\<close>

definition allocate_and_persist_vm :: "host_env \<Rightarrow> string list \<Rightarrow> create_plan \<Rightarrow> host
    \<Rightarrow> (life_error, vminfo) result \<times> host" where
  "allocate_and_persist_vm env peers p h =
     (let name = ca_name (pl_args p)
      in case create_addresses (he_md5 env) (he_nets env) (h_infos h) peers name (pl_nics p) (pl_ip p) of
           Inl e \<Rightarrow> (Inl (LAddress e), h)
         | Inr (ips, ip6s) \<Rightarrow>
             if h_infos h name \<noteq> None then (Inl (LExists name), h)
             else
               let vm = planned_vm env p ips ip6s
               in if vm_numa_problem (vm_vcpus vm) (vm_mem vm) (vm_numa_nodes vm) then (Inl LNuma, h)
                  else case create_disks env vm (h_files h) of
                      (Inl e, fs) \<Rightarrow> (Inl e, h\<lparr>h_files := fs\<rparr>)
                    | (Inr vm', fs) \<Rightarrow>
                        case vm_save vm' (h_infos h) of
                          Inl e \<Rightarrow> (Inl (LOwner e), h\<lparr>h_files := fs\<rparr>)
                        | Inr infos \<Rightarrow> (Inr vm', h\<lparr>h_files := fs, h_infos := infos\<rparr>))"

subsection \<open>Create: launch and rollback\<close>

text \<open>Binding passthrough devices, in memory; the record as far as it got comes with an
  error.\<close>

fun bind_devices :: "host_env \<Rightarrow> string list \<Rightarrow> vminfo \<Rightarrow> (life_error, unit) result \<times> vminfo" where
  "bind_devices env [] vm = (Inr (), vm)"
| "bind_devices env (bdf # bdfs) vm =
     (case he_bind env bdf of
        Inl e \<Rightarrow> (Inl (LVfio bdf e), vm)
      | Inr drv \<Rightarrow>
          bind_devices env bdfs
            (vm\<lparr>vm_passthrough_drivers := dict_set (vm_passthrough_drivers vm) bdf (get_or [] drv)\<rparr>))"

definition pick_net_mode :: "host_env \<Rightarrow> vminfo \<Rightarrow> net_mode" where
  "pick_net_mode env vm =
     (if list_ex (\<lambda>n. nic_type n = ''passthrough'') (vm_nics vm) \<or> he_root env then NetTaps
      else case he_helper env of None \<Rightarrow> NetTaps | Some helper \<Rightarrow> NetHelper helper)"

definition add_tap :: "host_env \<Rightarrow> string \<Rightarrow> string set \<Rightarrow> (life_error, unit) result \<times> string set" where
  "add_tap env tap taps =
     (case he_tap env tap of
        TapFails \<Rightarrow> (Inl (LTapDevice tap), taps)
      | TapHalf \<Rightarrow> (Inl (LTapDevice tap), insert tap taps)
      | TapUp \<Rightarrow> (Inr (), insert tap taps))"

fun nic_taps :: "host_env \<Rightarrow> net_mode \<Rightarrow> (nat \<times> nicspec \<times> string \<times> string) list \<Rightarrow> string set
    \<Rightarrow> (life_error, unit) result \<times> string set" where
  "nic_taps env mode [] taps = (Inr (), taps)"
| "nic_taps env mode ((idx, nic, tap, mac) # nics) taps =
     (if nic_type nic \<in> {''tcp'', ''softroce''} then
        (if mode = NetTaps then
           (case add_tap env tap taps of (Inl e, taps') \<Rightarrow> (Inl e, taps') | (Inr _, taps') \<Rightarrow> nic_taps env mode nics taps')
         else nic_taps env mode nics taps)
      else if nic_type nic = ''passthrough'' then nic_taps env mode nics taps
      else (Inl (LNicType (nic_type nic)), taps))"

definition setup_taps :: "host_env \<Rightarrow> net_mode \<Rightarrow> vminfo \<Rightarrow> string set \<Rightarrow> (life_error, unit) result \<times> string set" where
  "setup_taps env mode vm taps =
     (if mode = NetTaps then
        (case add_tap env (vm_tap vm) (taps - set (all_taps env vm)) of
           (Inl e, taps') \<Rightarrow> (Inl e, taps')
         | (Inr _, taps') \<Rightarrow> nic_taps env mode (extra_nics (he_md5 env) vm) taps')
      else nic_taps env mode (extra_nics (he_md5 env) vm) taps)"

type_synonym launch_run = "(life_error, unit) result \<times> vminfo \<times> host"

text \<open>The record on disk gets the pid and the time of the boot.\<close>

definition mark_started :: "host_env \<Rightarrow> int \<Rightarrow> vminfo \<Rightarrow> host \<Rightarrow> launch_run" where
  "mark_started env pid vm h =
     (case update_pid vm pid (h_infos h) of
        Inl e \<Rightarrow> (Inl (LLoad e), vm, h)
      | Inr (vm1, infos1) \<Rightarrow>
          (case update_last_boot vm1 (he_now env) infos1 of
             Inl e \<Rightarrow> (Inl (LLoad e), vm1, h\<lparr>h_infos := infos1\<rparr>)
           | Inr (vm2, infos2) \<Rightarrow> (Inr (), vm2, h\<lparr>h_infos := infos2\<rparr>)))"

text \<open>QEMU's process name is that of its binary, cut at fifteen characters.\<close>

definition qemu_started :: "host_env \<Rightarrow> string list \<Rightarrow> int \<Rightarrow> vminfo \<Rightarrow> host \<Rightarrow> host" where
  "qemu_started env argv pid vm h =
     h\<lparr>h_procs := (h_procs h)(pid \<mapsto> \<lparr>qp_comm = take 15 (''qemu-system-'' @ vm_arch vm), qp_argv = Some argv\<rparr>),
       h_pidfiles := (h_pidfiles h)(vm_name vm \<mapsto> str_int pid @ [CHR 0x0A]),
       h_files := h_files h \<union> {socket_path env (vm_name vm) ''log'', socket_path env (vm_name vm) ''qmp''}\<rparr>"

definition start_qemu :: "host_env \<Rightarrow> vminfo \<Rightarrow> host \<Rightarrow> launch_run" where
  "start_qemu env vm h =
     (case boot_args (he_nets env) vm of
        Inl e \<Rightarrow> (Inl (LNetwork e), vm, h)
      | Inr boot \<Rightarrow>
          if utf8_length boot \<ge> 2048 then (Inl (LCmdline (utf8_length boot)), vm, h)
          else
            let mode = pick_net_mode env vm
            in case setup_taps env mode vm (h_taps h) of
                 (Inl e, taps) \<Rightarrow> (Inl e, vm, h\<lparr>h_taps := taps\<rparr>)
               | (Inr _, taps) \<Rightarrow>
                   let h1 = h\<lparr>h_taps := taps\<rparr>
                   in if vm_kernel vm = [] then (Inl (LNoKernel (vm_name vm)), vm, h1)
                      else
                        (case data_disk_args (he_overlays env) (h_files h1) (fs_isdir (he_fs env)) (h_infos h1) vm ''virtio-blk-pci'' of
                           Inl e \<Rightarrow> (Inl (LDisk e), vm, h1)
                         | Inr disks \<Rightarrow>
                             let argv = qemu_argv (he_machine env) (he_md5 env) (he_overlays env) (he_sockets env) mode boot disks vm
                             in (case he_qemu env argv of
                                   None \<Rightarrow>
                                     (Inl (LQemu (vm_name vm)), vm,
                                      h1\<lparr>h_files := insert (socket_path env (vm_name vm) ''log'') (h_files h1),
                                        h_taps := (if mode = NetTaps then taps - set (all_taps env vm) else taps)\<rparr>)
                                 | Some pid \<Rightarrow> mark_started env pid vm (qemu_started env argv pid vm h1))))"

text \<open>\<^verbatim>\<open>launch_qemu\<close>, on the host its last look at the memory finds; \<open>peers\<close> is the listing of the
  state directory.\<close>

definition launch_qemu :: "host_env \<Rightarrow> string list \<Rightarrow> vminfo \<Rightarrow> host \<Rightarrow> launch_run" where
  "launch_qemu env peers vm h =
     (if running h vm then (Inr (), snd (is_running (h_procs h) (h_pidfiles h) vm), h)
      else if overlay_path env (vm_name vm) \<notin> h_files h then (Inl (LOverlay (vm_name vm)), vm, h)
      else
        case check_backing (he_store env) (he_stat env) (he_overlays env) vm (h_infos h) of
          (Some p, vm1, infos) \<Rightarrow> (Inl (LBacking p), vm1, h\<lparr>h_infos := infos\<rparr>)
        | (None, vm1, infos) \<Rightarrow>
            (let h1 = h\<lparr>h_infos := infos\<rparr>
             in case memory_shortfall (he_budget env vm1)
                   (running_vm_memory (h_procs h1) (h_pidfiles h1) (h_infos h1) peers (vm_name vm1)) vm1 of
                  Some s \<Rightarrow> (Inl (LMemory s), vm1, h1)
                | None \<Rightarrow> start_qemu env vm1 h1))"

text \<open>From the start of QEMU to a guest that is ready.  \<open>before\<close> registers the name before the
  guest answers.\<close>

definition launch_guest :: "host_env \<Rightarrow> bool \<Rightarrow> string list \<Rightarrow> vminfo \<Rightarrow> host \<Rightarrow> launch_run" where
  "launch_guest env before peers vm h =
     (case launch_qemu env peers vm h of
        (Inl e, vm1, h1) \<Rightarrow> (Inl e, vm1, h1)
      | (Inr _, vm1, h1) \<Rightarrow>
          (let h2 = register_ssh_name (vm_name vm1) (vm_ip vm1) h1
           in case he_guest env vm1 of
                GuestSilent \<Rightarrow> (Inl (LNoSsh (vm_name vm1)), vm1, if before then h2 else h1)
              | GuestBroken \<Rightarrow> (Inl (LGuest (vm_name vm1)), vm1, h2)
              | GuestUp \<Rightarrow> (Inr (), vm1, h2)))"

definition launch_and_wait :: "host_env \<Rightarrow> string list \<Rightarrow> string list \<Rightarrow> vminfo \<Rightarrow> host \<Rightarrow> launch_run" where
  "launch_and_wait env peers bdfs vm h =
     (case bind_devices env bdfs vm of
        (Inl e, vm') \<Rightarrow> (Inl e, vm', h)
      | (Inr _, vm') \<Rightarrow>
          (case (if bdfs = [] then Inr (h_infos h) else vm_save vm' (h_infos h)) of
             Inl e \<Rightarrow> (Inl (LOwner e), vm', h)
           | Inr infos \<Rightarrow> launch_guest env False peers vm' (h\<lparr>h_infos := infos\<rparr>)))"

text \<open>Every step of the rollback is tried whatever the others do.  The QEMU log is kept under
  another name.\<close>

definition keep_log :: "host_env \<Rightarrow> string \<Rightarrow> host \<Rightarrow> host" where
  "keep_log env name h =
     (let lp = socket_path env name ''log''
      in if lp \<in> h_files h then h\<lparr>h_files := insert (lp @ ''.failed'') (h_files h - {lp})\<rparr> else h)"

definition rollback_launch_failure :: "host_env \<Rightarrow> vminfo \<Rightarrow> host \<Rightarrow> host" where
  "rollback_launch_failure env vm h =
     (let h1 = keep_log env (vm_name vm) h;
          h2 = snd (kill_qemu env vm h1);
          h3 = snd (destroy_vm_artifacts env (vm_name vm) h2);
          h4 = unregister_ssh_name (vm_name vm) h3
      in rebind_all (vm_passthrough_drivers vm) h4)"

datatype create_result = Existing vminfo | Created vminfo

text \<open>A create of a VM that exists brings it up.  It asks neither for the VM's claim nor for its
  owner.\<close>

definition handle_existing_vm :: "host_env \<Rightarrow> string list \<Rightarrow> string \<Rightarrow> host \<Rightarrow> (life_error, create_result) result \<times> host" where
  "handle_existing_vm env peers name h =
     (case vm_load (h_infos h) name of
        Inl e \<Rightarrow> (Inl (LLoad e), h)
      | Inr vm \<Rightarrow>
          if running h vm then
            (case he_guest env (snd (is_running (h_procs h) (h_pidfiles h) vm)) of
               GuestSilent \<Rightarrow> (Inl (LNoSsh name), h)
             | GuestBroken \<Rightarrow> (Inl (LGuest name), h)
             | GuestUp \<Rightarrow> (Inr (Existing vm), register_ssh_name (vm_name vm) (vm_ip vm) h))
          else
            (case launch_guest env False peers vm h of
               (Inl e, vm', h') \<Rightarrow> (Inl e, h')
             | (Inr _, vm', h') \<Rightarrow> (Inr (Existing vm'), h')))"

text \<open>\<^verbatim>\<open>cmd_create\<close> without a dry run.  The checks read the host at their own time (\<open>dir0\<close>,
  \<open>peers0\<close>); the commit reads it under the lock.\<close>

definition create_commit :: "host_env \<Rightarrow> string list \<Rightarrow> create_plan \<Rightarrow> host
    \<Rightarrow> (life_error, create_result) result \<times> host" where
  "create_commit env peers p h =
     (case allocate_and_persist_vm env peers p h of
        (Inl e, h1) \<Rightarrow> (Inl e, h1)
      | (Inr vm, h1) \<Rightarrow>
          (case launch_and_wait env peers (pl_bdfs p) vm h1 of
             (Inl e, vm', h2) \<Rightarrow> (Inl e, rollback_launch_failure env vm' h2)
           | (Inr _, vm', h2) \<Rightarrow> (Inr (Created vm'), h2)))"

definition cmd_create :: "host_env \<Rightarrow> sockets \<Rightarrow> string list \<Rightarrow> string list \<Rightarrow> create_cmd \<Rightarrow> host
    \<Rightarrow> (life_error, create_result) result \<times> host" where
  "cmd_create env dir0 peers0 peers cm h =
     (let name = ca_name (cm_args cm)
      in case create_prologue env cm of
           Inl e \<Rightarrow> (Inl e, h)
         | Inr _ \<Rightarrow>
             if dir0 name \<noteq> None then handle_existing_vm env peers name h
             else case create_checks env dir0 peers0 cm of
                 Inl e \<Rightarrow> (Inl e, h)
               | Inr p \<Rightarrow> create_commit env peers p h)"

subsection \<open>Set, stop, destroy\<close>

record set_args =
  se_name :: string
  se_vcpus :: "int option"
  se_mem :: "int option"
  se_numa :: "int option"
  se_cache :: "string option"

definition set_fields :: "set_args \<Rightarrow> string option \<Rightarrow> vminfo \<Rightarrow> vminfo" where
  "set_fields a cache vm =
     vm\<lparr>vm_vcpus := get_or (vm_vcpus vm) (se_vcpus a), vm_mem := get_or (vm_mem vm) (se_mem a),
       vm_numa_nodes := get_or (vm_numa_nodes vm) (se_numa a), vm_disk_cache := get_or (vm_disk_cache vm) cache\<rparr>"

definition cmd_set :: "host_env \<Rightarrow> set_args \<Rightarrow> host \<Rightarrow> (life_error, unit) result \<times> host" where
  "cmd_set env a h =
     (let cache = (if se_cache a = Some ''default'' then Some [] else se_cache a)
      in if se_vcpus a = None \<and> se_mem a = None \<and> se_numa a = None \<and> se_cache a = None then (Inl LNothingToSet, h)
         else if get_or [] cache \<noteq> [] \<and> get_or [] cache \<notin> set DISK_CACHE_MODES then (Inl (LSetCache (get_or [] cache)), h)
         else if get_or 1 (se_vcpus a) \<le> 0 then (Inl (LSetVcpus (get_or 1 (se_vcpus a))), h)
         else if get_or 1 (se_mem a) \<le> 0 then (Inl (LSetMem (get_or 1 (se_mem a))), h)
         else
           case check (he_claim env) (h_claims h) (se_name a) of
             Inl e \<Rightarrow> (Inl (LClaim e), h)
           | Inr _ \<Rightarrow>
               (case vm_load (h_infos h) (se_name a) of
                  Inl e \<Rightarrow> (Inl (LLoad e), h)
                | Inr vm \<Rightarrow>
                    if running h vm then (Inl (LRunning (vm_name vm)), h)
                    else
                      let c = get_or (vm_disk_cache vm) cache; vm' = set_fields a cache vm
                      in if c \<noteq> vm_disk_cache vm \<and> c \<noteq> [] \<and> c \<noteq> ''none'' \<and> (vm_share_disks vm \<or> vm_disks_from vm \<noteq> [])
                         then (Inl (LSharedCache c), h)
                         else if vm_numa_problem (vm_vcpus vm') (vm_mem vm') (vm_numa_nodes vm') then (Inl LNuma, h)
                         else case numa_problem (vm_nics vm') (vm_numa_nodes vm') of
                             Some p \<Rightarrow> (Inl (LNicNuma p), h)
                           | None \<Rightarrow>
                               if vm' = vm then (Inr (), h)
                               else case vm_save vm' (h_infos h) of
                                   Inl e \<Rightarrow> (Inl (LOwner e), h)
                                 | Inr infos \<Rightarrow> (Inr (), h\<lparr>h_infos := infos\<rparr>)))"

definition require_manageable :: "host_env \<Rightarrow> host \<Rightarrow> vminfo \<Rightarrow> string \<Rightarrow> (life_error, unit) result" where
  "require_manageable env h vm verb =
     res_bind (map_err LClaim (check (he_claim env) (h_claims h) (vm_name vm))) (\<lambda>_.
       if he_manageable env vm verb then Inr () else Inl (LNotOwner (vm_name vm)))"

definition require_signalable :: "host_env \<Rightarrow> host \<Rightarrow> vminfo \<Rightarrow> (life_error, unit) result" where
  "require_signalable env h vm =
     (if running h vm \<and> \<not> he_signalable env vm then Inl (LSignal (vm_name vm)) else Inr ())"

fun cmd_start :: "host_env \<Rightarrow> string list \<Rightarrow> string list \<Rightarrow> host \<Rightarrow> (life_error, unit) result \<times> host" where
  "cmd_start env peers [] h = (Inr (), h)"
| "cmd_start env peers (name # names) h =
     (case validate_vm_name_for_lookup name of
        Inl e \<Rightarrow> (Inl (LName e), h)
      | Inr _ \<Rightarrow>
          (case vm_load (h_infos h) name of
             Inl e \<Rightarrow> (Inl (LLoad e), h)
           | Inr vm \<Rightarrow>
               (case require_manageable env h vm ''start'' of
                  Inl e \<Rightarrow> (Inl e, h)
                | Inr _ \<Rightarrow>
                    if running h vm then cmd_start env peers names h
                    else
                      (case launch_guest env True peers vm h of
                         (Inl e, _, h') \<Rightarrow> (Inl e, h')
                       | (Inr _, _, h') \<Rightarrow> cmd_start env peers names h'))))"

text \<open>The VMs \<^verbatim>\<open>stop\<close> was given, in order; one that does not exist is skipped.\<close>

fun stop_vms :: "host_env \<Rightarrow> host \<Rightarrow> string list \<Rightarrow> (life_error, vminfo list) result" where
  "stop_vms env h [] = Inr []"
| "stop_vms env h (name # names) =
     res_bind (map_err LName (validate_vm_name_for_lookup name)) (\<lambda>_.
       case vm_load (h_infos h) name of
         Inl (VMNotFound _) \<Rightarrow> stop_vms env h names
       | Inl e \<Rightarrow> Inl (LLoad e)
       | Inr vm \<Rightarrow>
           res_bind (require_manageable env h vm ''stop'') (\<lambda>_.
           res_bind (require_signalable env h vm) (\<lambda>_.
             res_map (\<lambda>vms. vm # vms) (stop_vms env h names))))"

fun kill_all :: "host_env \<Rightarrow> vminfo list \<Rightarrow> host \<Rightarrow> (life_error, unit) result \<times> host" where
  "kill_all env [] h = (Inr (), h)"
| "kill_all env (vm # vms) h =
     (case kill_qemu env vm h of (Inl e, h') \<Rightarrow> (Inl e, h') | (Inr _, h') \<Rightarrow> kill_all env vms h')"

definition cmd_stop :: "host_env \<Rightarrow> string list \<Rightarrow> host \<Rightarrow> (life_error, unit) result \<times> host" where
  "cmd_stop env names h = (case stop_vms env h names of Inl e \<Rightarrow> (Inl e, h) | Inr vms \<Rightarrow> kill_all env vms h)"

fun refuse_orphaned_partners :: "sockets \<Rightarrow> string list \<Rightarrow> string list \<Rightarrow> (life_error, unit) result" where
  "refuse_orphaned_partners dir going [] = Inr ()"
| "refuse_orphaned_partners dir going (other # others) =
     (if other \<in> set going then refuse_orphaned_partners dir going others
      else case vm_load dir other of
          Inl _ \<Rightarrow> refuse_orphaned_partners dir going others
        | Inr vm \<Rightarrow>
            if vm_disks_from vm \<in> set going then Inl (LPartner (vm_disks_from vm) other)
            else refuse_orphaned_partners dir going others)"

text \<open>The first half of destroying one VM: refusals, then QEMU is killed.\<close>

definition destroy_kill :: "host_env \<Rightarrow> string \<Rightarrow> host \<Rightarrow> (life_error, (string, string) dict) result \<times> host" where
  "destroy_kill env name h =
     (case vm_load (h_infos h) name of
        Inl (VMNotFound _) \<Rightarrow> (Inr [], h)
      | Inl e \<Rightarrow> (Inl (LLoad e), h)
      | Inr vm \<Rightarrow>
          (case res_bind (require_manageable env h vm ''destroy'') (\<lambda>_. require_signalable env h vm) of
             Inl e \<Rightarrow> (Inl e, h)
           | Inr _ \<Rightarrow>
               (case kill_qemu env vm h of
                  (Inl e, h') \<Rightarrow> (Inl e, h')
                | (Inr _, h') \<Rightarrow> (Inr (vm_passthrough_drivers vm), h'))))"

definition destroy_one :: "host_env \<Rightarrow> string \<Rightarrow> host \<Rightarrow> (life_error, unit) result \<times> host" where
  "destroy_one env name h =
     (case validate_vm_name_for_lookup name of
        Inl e \<Rightarrow> (Inl (LName e), h)
      | Inr _ \<Rightarrow>
          (case destroy_kill env name h of
             (Inl e, h1) \<Rightarrow> (Inl e, h1)
           | (Inr drivers, h1) \<Rightarrow>
               let existed = (h_infos h name \<noteq> None);
                   h2 = snd (destroy_vm_artifacts env name (rebind_all drivers h1));
                   h3 = unregister_ssh_name name h2
               in (Inr (), if existed then h3\<lparr>h_claims := forget (h_claims h3) name\<rparr> else h3)))"

fun destroy_all :: "host_env \<Rightarrow> string list \<Rightarrow> host \<Rightarrow> (life_error, unit) result \<times> host" where
  "destroy_all env [] h = (Inr (), h)"
| "destroy_all env (name # names) h =
     (case destroy_one env name h of (Inl e, h') \<Rightarrow> (Inl e, h') | (Inr _, h') \<Rightarrow> destroy_all env names h')"

text \<open>\<open>peers\<close> and \<open>cnames\<close> are the listings of the VMs and of the cluster records.\<close>

definition cmd_destroy :: "host_env \<Rightarrow> string list \<Rightarrow> string list \<Rightarrow> string list \<Rightarrow> host
    \<Rightarrow> (life_error, string list) result \<times> host" where
  "cmd_destroy env peers cnames names h =
     (case refuse_orphaned_partners (h_infos h) names peers of
        Inl e \<Rightarrow> (Inl e, h)
      | Inr _ \<Rightarrow>
          (case destroy_all env names h of
             (Inl e, h') \<Rightarrow> (Inl e, h')
           | (Inr _, h') \<Rightarrow>
               (case drop_orphan_clusters (he_repr env) (\<lambda>n. h_infos h' n \<noteq> None) (set names) cnames (h_clusters h') of
                  Inl e \<Rightarrow> (Inl (LCluster e), h')
                | Inr (dropped, cs) \<Rightarrow> (Inr dropped, h'\<lparr>h_clusters := cs\<rparr>))))"

end
