(* ===== verification/HostInvariants.thy ===== *)
theory HostInvariants
  imports VmLifecycle
begin

text \<open>
  What every sequence of commands keeps of the host, however their checks and commits
  interleave: the state directory stays a map of well-formed records, and relations
  between VMs (no shared address, one failover partner) hold where the code enforces them
  under the lock, and fail where it does not.
\<close>

subsection \<open>Relations between the VMs of a directory\<close>

text \<open>What a relation may depend on: the addresses and the owner of the disks.\<close>

definition vm_core :: "vminfo \<Rightarrow> string list \<times> string" where
  "vm_core vm = (vm_ips vm, vm_disks_from vm)"

definition dir_ok :: "(string list \<times> string \<Rightarrow> string list \<times> string \<Rightarrow> bool) \<Rightarrow> sockets \<Rightarrow> bool" where
  "dir_ok s dir \<longleftrightarrow> kept represents (\<lambda>v w. s (vm_core v) (vm_core w)) dir"

lemma dir_ok_empty: "dir_ok s Map.empty"
  by (auto simp: dir_ok_def kept_def represents_def pairwise_map_def intro: exI [of _ Map.empty])

lemma dir_ok_related:
  "dir_ok s dir \<Longrightarrow> m \<noteq> n \<Longrightarrow> vm_load dir m = Inr v \<Longrightarrow> vm_load dir n = Inr w \<Longrightarrow> s (vm_core v) (vm_core w)"
  unfolding dir_ok_def by (rule infos.loaded_related)

lemma dir_ok_del: "dir_ok s dir \<Longrightarrow> dir_ok s (dir(n := None))"
  unfolding dir_ok_def using infos.kept_del by (simp add: del_info_def)

lemma dir_ok_replace:
  assumes "dir_ok s dir" "vm_load dir (vm_name vm) = Inr old" "wf_vminfo vm" "vm_core vm = vm_core old"
  shows "dir_ok s (put_info vm dir)"
  using infos.kept_replace [OF assms(1) [unfolded dir_ok_def] assms(3,2)] assms(4)
  by (simp add: dir_ok_def)

lemma dir_ok_new:
  assumes "dir_ok s dir" "wf_vminfo vm"
    "\<And>n w. n \<noteq> vm_name vm \<Longrightarrow> vm_load dir n = Inr w \<Longrightarrow> s (vm_core vm) (vm_core w) \<and> s (vm_core w) (vm_core vm)"
  shows "dir_ok s (put_info vm dir)"
  unfolding dir_ok_def using assms by (intro infos.kept_put) (auto simp: dir_ok_def)

lemmas dir_ok_load = kept_load_text [of "\<lambda>v w. s (vm_core v) (vm_core w)" for s, folded dir_ok_def]

lemma load_put_info: "wf_vminfo vm \<Longrightarrow> vm_load (put_info vm dir) (vm_name vm) = Inr vm"
  by (simp add: vm_load_read put_info_def info_read_text)

lemma vm_core_op [simp]: "vm_core (op_record op vm) = vm_core vm"
  by (cases op) (simp_all add: vm_core_def vm_ips_def)

lemma dir_ok_op:
  assumes "dir_ok s dir" "op_ok op" "op_run op vm dir = Inr (vm', dir')"
  shows "dir_ok s dir'"
proof -
  from op_run_put [OF assms(1) [unfolded dir_ok_def] assms(2,3)] obtain disk where
    disk: "vm_load dir (vm_name vm) = Inr disk" "dir' = put_info (op_record op disk) dir" "wf_vminfo (op_record op disk)"
    by blast
  moreover have "vm_name disk = vm_name vm" using dir_ok_load(3) [OF assms(1) disk(1)] .
  ultimately show ?thesis using dir_ok_replace [OF assms(1), of "op_record op disk" disk] by simp
qed

subsection \<open>Each operation keeps them\<close>

lemma drop_taps_infos [simp]: "h_infos (drop_taps env vm h) = h_infos h"
  by (simp add: drop_taps_def)

lemma is_running_name [simp]: "vm_name (snd (is_running procs pf vm)) = vm_name vm"
  by (simp add: is_running_def Let_def)

text \<open>The record a kill leaves: the pid cleared, if there is a record.\<close>

lemma kill_qemu_infos:
  assumes "kill_qemu env vm h = (r, h')"
  shows "h_infos h' = h_infos h \<or> (\<exists>vm1 vm2. vm_name vm1 = vm_name vm \<and> update_pid vm1 0 (h_infos h) = Inr (vm2, h_infos h'))"
proof -
  obtain run vm1 where run: "is_running (h_procs h) (h_pidfiles h) vm = (run, vm1)" by fastforce
  have name: "vm_name vm1 = vm_name vm" using is_running_name [of "h_procs h" "h_pidfiles h" vm] run by simp
  show ?thesis
  proof (cases "update_pid vm1 0 (h_infos h)")
    case (Inl e)
    then show ?thesis using assms run by (auto simp: kill_qemu_def Let_def split: if_splits)
  next
    case (Inr x)
    then show ?thesis using assms run name
      by (cases x) (auto simp: kill_qemu_def Let_def split: if_splits)
  qed
qed

lemma dir_ok_kill:
  assumes "dir_ok s (h_infos h)" "kill_qemu env vm h = (r, h')"
  shows "dir_ok s (h_infos h')"
  using kill_qemu_infos [OF assms(2)] dir_ok_op [OF assms(1), of "SetPid 0"] assms(1) by auto

lemma rebind_infos [simp]: "h_infos (rebind_all d h) = h_infos h"
  by (simp add: rebind_all_def)

lemma unregister_infos [simp]: "h_infos (unregister_ssh_name n h) = h_infos h" "h_infos (register_ssh_name n ip h) = h_infos h"
  by (simp_all add: unregister_ssh_name_def register_ssh_name_def)

lemma keep_log_infos [simp]: "h_infos (keep_log env n h) = h_infos h"
  by (simp add: keep_log_def Let_def)

lemma dir_ok_artifacts:
  "dir_ok s (h_infos h) \<Longrightarrow> dir_ok s (h_infos (snd (destroy_vm_artifacts env n h)))"
  by (auto simp: destroy_vm_artifacts_def dir_ok_del split: sum.split)

lemma dir_ok_rollback:
  assumes "dir_ok s (h_infos h)"
  shows "dir_ok s (h_infos (rollback_launch_failure env vm h))"
proof -
  obtain r h' where kill: "kill_qemu env vm (keep_log env (vm_name vm) h) = (r, h')" by fastforce
  have "dir_ok s (h_infos h')" using dir_ok_kill [OF _ kill] assms by simp
  then show ?thesis by (simp add: rollback_launch_failure_def Let_def kill dir_ok_artifacts)
qed

lemma set_fields_core [simp]: "vm_core (set_fields a c vm) = vm_core vm" "vm_name (set_fields a c vm) = vm_name vm"
  by (simp_all add: set_fields_def vm_core_def vm_ips_def)

lemma cache_unbroken: "c \<in> set DISK_CACHE_MODES \<Longrightarrow> unbroken c"
  unfolding DISK_CACHE_MODES_def by (auto simp: unbroken_def islinebreak_def)

lemma set_fields_wf:
  assumes "wf_vminfo vm" "get_or [] c \<noteq> [] \<Longrightarrow> get_or [] c \<in> set DISK_CACHE_MODES"
  shows "wf_vminfo (set_fields a c vm)"
proof -
  have "unbroken (get_or (vm_disk_cache vm) c)"
  proof (cases c)
    case None
    then show ?thesis using assms(1) by (simp add: wf_vminfo_def vm_strings_def)
  next
    case (Some x)
    then show ?thesis using assms(2) cache_unbroken by (cases "x = []") auto
  qed
  then show ?thesis using assms(1) by (simp add: wf_vminfo_def vm_strings_def set_fields_def)
qed

lemma dir_ok_set:
  assumes "dir_ok s (h_infos h)" "cmd_set env a h = (r, h')"
  shows "dir_ok s (h_infos h')"
proof (cases "h' = h")
  case False
  define cache where "cache = (if se_cache a = Some ''default'' then Some [] else se_cache a)"
  from False assms(2) obtain vm infos where load: "vm_load (h_infos h) (se_name a) = Inr vm"
    and save: "vm_save (set_fields a cache vm) (h_infos h) = Inr infos" and h': "h' = h\<lparr>h_infos := infos\<rparr>"
    and cache: "get_or [] cache \<noteq> [] \<Longrightarrow> get_or [] cache \<in> set DISK_CACHE_MODES"
    by (auto simp: cmd_set_def Let_def cache_def [symmetric] split: if_splits sum.split_asm option.split_asm)
  have "wf_vminfo vm" "vm_name vm = se_name a" using dir_ok_load [OF assms(1) load] by simp_all
  then show ?thesis
    using dir_ok_replace [OF assms(1), of "set_fields a cache vm" vm] load vm_save_put [OF save] set_fields_wf [OF _ cache]
    by (simp add: h')
qed (use assms in simp)

lemma dir_ok_kill_all: "dir_ok s (h_infos h) \<Longrightarrow> kill_all env vms h = (r, h') \<Longrightarrow> dir_ok s (h_infos h')"
  by (induction vms arbitrary: h) (auto split: prod.split_asm sum.split_asm dest: dir_ok_kill)

lemma dir_ok_stop: "dir_ok s (h_infos h) \<Longrightarrow> cmd_stop env names h = (r, h') \<Longrightarrow> dir_ok s (h_infos h')"
  by (auto simp: cmd_stop_def split: sum.split_asm dest: dir_ok_kill_all)

lemma dir_ok_destroy_kill:
  "dir_ok s (h_infos h) \<Longrightarrow> destroy_kill env n h = (r, h') \<Longrightarrow> dir_ok s (h_infos h')"
  by (auto simp: destroy_kill_def split: sum.split_asm prod.split_asm load_error.split_asm dest: dir_ok_kill)

lemma dir_ok_destroy_one:
  assumes "dir_ok s (h_infos h)" "destroy_one env n h = (r, h')"
  shows "dir_ok s (h_infos h')"
proof -
  obtain r1 h1 where kill: "destroy_kill env n h = (r1, h1)" by fastforce
  have ok: "dir_ok s (h_infos h1)" using dir_ok_destroy_kill [OF assms(1) kill] .
  have "h' = h \<or> h' = h1 \<or> h_infos h' = h_infos (snd (destroy_vm_artifacts env n (rebind_all d h1)))"
    if "r1 = Inr d" for d
    using assms(2) kill that by (auto simp: destroy_one_def Let_def split: sum.split_asm if_splits)
  moreover have "h' = h \<or> h' = h1" if "r1 = Inl e" for e
    using assms(2) kill that by (auto simp: destroy_one_def split: sum.split_asm)
  ultimately show ?thesis
    using assms(1) ok dir_ok_artifacts [of s "rebind_all d h1" env n for d] by (cases r1) auto
qed

lemma dir_ok_destroy_all: "dir_ok s (h_infos h) \<Longrightarrow> destroy_all env ns h = (r, h') \<Longrightarrow> dir_ok s (h_infos h')"
  by (induction ns arbitrary: h) (auto split: prod.split_asm sum.split_asm dest: dir_ok_destroy_one)

lemma dir_ok_destroy:
  "dir_ok s (h_infos h) \<Longrightarrow> cmd_destroy env peers cnames names h = (r, h') \<Longrightarrow> dir_ok s (h_infos h')"
  by (auto simp: cmd_destroy_def split: sum.split_asm prod.split_asm dest: dir_ok_destroy_all)

subsection \<open>Create\<close>

definition same_but_prealloc :: "vminfo \<Rightarrow> vminfo \<Rightarrow> bool" where
  "same_but_prealloc vm vm' \<longleftrightarrow> vm' = vm \<or> vm' = vm\<lparr>vm_disk_prealloc := ''full''\<rparr>"

lemma same_but_prealloc_trans: "same_but_prealloc u v \<Longrightarrow> same_but_prealloc v w \<Longrightarrow> same_but_prealloc u w"
  by (auto simp: same_but_prealloc_def)

lemma preallocated_vm: "create_preallocated_disk env sudo vm disk fs = (r, fs', vm') \<Longrightarrow> same_but_prealloc vm vm'"
  by (auto simp: create_preallocated_disk_def same_but_prealloc_def Let_def
      split: if_splits prod.split_asm sum.split_asm)

lemma data_disks_vm: "create_data_disks env sudo disks vm fs = (r, fs', vm') \<Longrightarrow> same_but_prealloc vm vm'"
proof (induction disks arbitrary: vm fs)
  case Nil
  then show ?case by (simp add: same_but_prealloc_def)
next
  case (Cons d disks)
  have refl: "same_but_prealloc v v" for v by (simp add: same_but_prealloc_def)
  from Cons.prems consider (stop) "same_but_prealloc vm vm'"
    | (next_disk) v fs1 where "same_but_prealloc vm v" "create_data_disks env sudo disks v fs1 = (r, fs', vm')"
    using refl by (auto split: if_splits prod.split_asm sum.split_asm dest: preallocated_vm)
  then show ?case by cases (auto dest: Cons.IH intro: same_but_prealloc_trans)
qed

lemma create_disks_vm: "create_disks env vm fs = (Inr vm', fs') \<Longrightarrow> same_but_prealloc vm vm'"
  by (auto simp: create_disks_def Let_def split: if_splits prod.split_asm sum.split_asm dest: data_disks_vm)

lemma full_unbroken: "unbroken ''full''"
  by (simp add: unbroken_def islinebreak_def)

lemma same_but_prealloc_facts:
  assumes "same_but_prealloc vm vm'"
  shows "vm_core vm' = vm_core vm" "vm_name vm' = vm_name vm" "wf_vminfo vm \<Longrightarrow> wf_vminfo vm'"
    "vm_passthrough_drivers vm' = vm_passthrough_drivers vm"
  using assms full_unbroken
  by (auto simp: same_but_prealloc_def vm_core_def vm_ips_def wf_vminfo_def vm_strings_def)

text \<open>The records a plan may lead to are well formed, and so are the driver names the host
  reports for its devices.\<close>

definition plan_wf :: "host_env \<Rightarrow> string list \<Rightarrow> create_plan \<Rightarrow> host \<Rightarrow> bool" where
  "plan_wf env peers p h \<longleftrightarrow>
     (\<forall>ips ip6s. create_addresses (he_md5 env) (he_nets env) (h_infos h) peers (ca_name (pl_args p)) (pl_nics p) (pl_ip p)
        = Inr (ips, ip6s) \<longrightarrow> wf_vminfo (planned_vm env p ips ip6s)) \<and>
     (\<forall>b drv. b \<in> set (pl_bdfs p) \<longrightarrow> he_bind env b = Inr drv \<longrightarrow> wf_driver (b, get_or [] drv))"

text \<open>What a successful allocation did: a new record with fresh addresses is on disk.\<close>

lemma allocate_effect:
  assumes "allocate_and_persist_vm env peers p h = (r, h')" "plan_wf env peers p h"
  shows "(\<exists>e. r = Inl e) \<and> h_infos h' = h_infos h \<or>
    (\<exists>vm ips ip6s. r = Inr vm \<and> h_infos h' = put_info vm (h_infos h) \<and> h_infos h (vm_name vm) = None \<and> wf_vminfo vm \<and>
      vm_name vm = ca_name (pl_args p) \<and> vm_passthrough_drivers vm = [] \<and>
      vm_core vm = vm_core (planned_vm env p ips ip6s) \<and>
      create_addresses (he_md5 env) (he_nets env) (h_infos h) peers (ca_name (pl_args p)) (pl_nics p) (pl_ip p) = Inr (ips, ip6s))"
proof (cases "\<exists>e. r = Inl e")
  case True
  then show ?thesis
    using assms(1) by (auto simp: allocate_and_persist_vm_def Let_def split: sum.split_asm prod.split_asm if_splits)
next
  case False
  then obtain vm where r: "r = Inr vm" by (cases r) auto
  with assms(1) obtain ips ip6s fs where
    addr: "create_addresses (he_md5 env) (he_nets env) (h_infos h) peers (ca_name (pl_args p)) (pl_nics p) (pl_ip p) = Inr (ips, ip6s)"
    and new: "h_infos h (ca_name (pl_args p)) = None"
    and disks: "create_disks env (planned_vm env p ips ip6s) (h_files h) = (Inr vm, fs)"
    and save: "vm_save vm (h_infos h) = Inr (h_infos h')"
    by (auto simp: allocate_and_persist_vm_def Let_def split: sum.split_asm prod.split_asm if_splits)
  have name: "vm_name (planned_vm env p ips ip6s) = ca_name (pl_args p)"
    "vm_passthrough_drivers (planned_vm env p ips ip6s) = []"
    by (simp_all add: planned_vm_def Let_def)
  have "wf_vminfo (planned_vm env p ips ip6s)" using assms(2) addr by (simp add: plan_wf_def)
  with same_but_prealloc_facts [OF create_disks_vm [OF disks]] show ?thesis
    using r addr new vm_save_put [OF save] name by auto
qed

lemma bind_devices_vm:
  assumes "bind_devices env bdfs vm = (r, vm')"
    "\<And>b drv. b \<in> set bdfs \<Longrightarrow> he_bind env b = Inr drv \<Longrightarrow> wf_driver (b, get_or [] drv)" "wf_vminfo vm"
  shows "wf_vminfo vm' \<and> vm_core vm' = vm_core vm \<and> vm_name vm' = vm_name vm"
  using assms
proof (induction bdfs arbitrary: vm)
  case (Cons b bdfs)
  show ?case
  proof (cases "he_bind env b")
    case (Inr drv)
    let ?vm = "vm\<lparr>vm_passthrough_drivers := dict_set (vm_passthrough_drivers vm) b (get_or [] drv)\<rparr>"
    have "list_all wf_driver (dict_set d b v)" if "list_all wf_driver d" "wf_driver (b, v)" for d v
      using that by (induction d) auto
    then have "wf_vminfo ?vm"
      using Cons.prems(3) Cons.prems(2) [of b drv] Inr distinct_dict_set
      by (auto simp: wf_vminfo_def vm_strings_def)
    moreover have "bind_devices env bdfs ?vm = (r, vm')" using Cons.prems(1) Inr by simp
    ultimately have "wf_vminfo vm' \<and> vm_core vm' = vm_core ?vm \<and> vm_name vm' = vm_name ?vm"
      using Cons.IH Cons.prems(2) by (meson list.set_intros(2))
    then show ?thesis by (simp add: vm_core_def vm_ips_def)
  qed (use Cons.prems in auto)
qed simp

lemma image_id_unbroken: "unbroken (str_int a @ '':'' @ str_int b)"
  using str_int_clean [of _ a] str_int_clean [of _ b] by (auto simp: unbroken_def list_all_iff islinebreak_def)

lemma dir_ok_backing:
  assumes "dir_ok s dir" "check_backing fs stat ov vm dir = (r, vm', dir')"
  shows "dir_ok s dir' \<and> vm_name vm' = vm_name vm"
proof -
  consider "dir' = dir" "vm' = vm"
    | n m where "adopt_image_id vm (str_int n @ '':'' @ str_int m) dir = Inr (vm', dir')"
    using assms(2) by (auto simp: check_backing_def Let_def split: option.split_asm stat_result.split_asm if_splits sum.split_asm prod.split_asm)
  then show ?thesis
  proof cases
    case 2
    then have "dir_ok s dir'" using dir_ok_op [OF assms(1), of "SetImageId (str_int n @ '':'' @ str_int m)" vm vm' dir'] image_id_unbroken by simp
    moreover have "vm_name vm' = vm_name vm" using 2 by (auto simp: adopt_image_id_def res_map_eq_Inr)
    ultimately show ?thesis by simp
  qed (use assms(1) in simp)
qed

lemma dir_ok_mark:
  assumes "dir_ok s (h_infos h)" "mark_started env pid vm h = (r, vm', h')"
  shows "dir_ok s (h_infos h')"
proof (cases "update_pid vm pid (h_infos h)")
  case (Inl e)
  then show ?thesis using assms by (auto simp: mark_started_def)
next
  case (Inr x)
  obtain vm1 infos1 where x: "x = (vm1, infos1)" by fastforce
  have ok1: "dir_ok s infos1" using dir_ok_op [OF assms(1), of "SetPid pid"] Inr x by simp
  have "dir_ok s infos2" if "update_last_boot vm1 (he_now env) infos1 = Inr (vm2, infos2)" for vm2 infos2
    using dir_ok_op [OF ok1, of "SetLastBoot (he_now env)"] that by simp
  then show ?thesis using assms(2) ok1 Inr x by (auto simp: mark_started_def split: sum.split_asm)
qed

lemma started_infos [simp]: "h_infos (qemu_started env argv pid vm h) = h_infos h"
  by (simp add: qemu_started_def)

lemma dir_ok_start:
  assumes "dir_ok s (h_infos h)" "start_qemu env vm h = (r, vm', h')"
  shows "dir_ok s (h_infos h')"
proof -
  have "h_infos h' = h_infos h \<or> (\<exists>argv pid h1. h_infos h1 = h_infos h \<and> mark_started env pid vm h1 = (r, vm', h'))"
    using assms(2) unfolding start_qemu_def Let_def
    by (auto split: sum.split_asm if_splits prod.split_asm option.split_asm)
  then show ?thesis using assms(1) dir_ok_mark by metis
qed

lemma dir_ok_launch_qemu:
  assumes "dir_ok s (h_infos h)" "launch_qemu env peers vm h = (r, vm', h')"
  shows "dir_ok s (h_infos h')"
proof -
  obtain p vm1 infos where chk: "check_backing (he_store env) (he_stat env) (he_overlays env) vm (h_infos h) = (p, vm1, infos)"
    by (metis prod_cases3)
  have "dir_ok s infos" using dir_ok_backing [OF assms(1) chk] by simp
  then have start: "dir_ok s (h_infos h')" if "start_qemu env vm1 (h\<lparr>h_infos := infos\<rparr>) = (r, vm', h')"
    using dir_ok_start [OF _ that] by simp
  show ?thesis
    using assms start \<open>dir_ok s infos\<close> chk
    by (auto simp: launch_qemu_def Let_def split: if_splits option.split_asm)
qed

lemma dir_ok_launch_guest:
  assumes "dir_ok s (h_infos h)" "launch_guest env before peers vm h = (r, vm', h')"
  shows "dir_ok s (h_infos h')"
proof -
  obtain r1 vm1 h1 where launch: "launch_qemu env peers vm h = (r1, vm1, h1)" by (metis prod_cases3)
  have "h_infos h' = h_infos h1"
    using assms(2) launch by (auto simp: launch_guest_def Let_def split: sum.split_asm guest_outcome.split_asm if_splits)
  then show ?thesis using dir_ok_launch_qemu [OF assms(1) launch] by simp
qed

lemma dir_ok_launch:
  assumes "launch_and_wait env peers bdfs vm h = (r, vm', h')" "dir_ok s (h_infos h)"
    "vm_load (h_infos h) (vm_name vm) = Inr vm" "wf_vminfo vm"
    "\<And>b drv. b \<in> set bdfs \<Longrightarrow> he_bind env b = Inr drv \<Longrightarrow> wf_driver (b, get_or [] drv)"
  shows "dir_ok s (h_infos h')"
proof -
  obtain r1 vm1 where bind: "bind_devices env bdfs vm = (r1, vm1)" by fastforce
  note vm1 = bind_devices_vm [OF bind assms(5,4)]
  have put: "dir_ok s (put_info vm1 (h_infos h))"
    using vm1 assms(3) by (intro dir_ok_replace [OF assms(2)]) auto
  have "h' = h \<or> (\<exists>infos. (infos = h_infos h \<or> infos = put_info vm1 (h_infos h)) \<and>
      launch_guest env False peers vm1 (h\<lparr>h_infos := infos\<rparr>) = (r, vm', h'))"
    using assms(1) bind
    by (auto simp: launch_and_wait_def split: sum.split_asm if_splits dest: vm_save_put)
  then show ?thesis using assms(2) put dir_ok_launch_guest [of s "h\<lparr>h_infos := infos\<rparr>" env False peers vm1 r vm' h' for infos] by auto
qed

lemma dir_ok_existing:
  assumes "dir_ok s (h_infos h)" "handle_existing_vm env peers name h = (r, h')"
  shows "dir_ok s (h_infos h')"
  using assms by (auto simp: handle_existing_vm_def split: sum.split_asm if_splits guest_outcome.split_asm prod.split_asm
      dest: dir_ok_launch_guest)

lemma dir_ok_start_all:
  "dir_ok s (h_infos h) \<Longrightarrow> cmd_start env peers names h = (r, h') \<Longrightarrow> dir_ok s (h_infos h')"
  by (induction names arbitrary: h)
    (auto split: sum.split_asm if_splits prod.split_asm dest: dir_ok_launch_guest)

lemma dir_ok_commit:
  assumes "create_commit env peers p h = (r, h')" "plan_wf env peers p h" "dir_ok s (h_infos h)"
    "\<And>ips ip6s n w. create_addresses (he_md5 env) (he_nets env) (h_infos h) peers (ca_name (pl_args p)) (pl_nics p) (pl_ip p)
        = Inr (ips, ip6s) \<Longrightarrow> n \<noteq> ca_name (pl_args p) \<Longrightarrow> vm_load (h_infos h) n = Inr w \<Longrightarrow>
        s (vm_core (planned_vm env p ips ip6s)) (vm_core w) \<and> s (vm_core w) (vm_core (planned_vm env p ips ip6s))"
  shows "dir_ok s (h_infos h')"
proof -
  obtain r1 h1 where alloc: "allocate_and_persist_vm env peers p h = (r1, h1)" by fastforce
  show ?thesis
  proof (cases r1)
    case (Inl e)
    then show ?thesis using allocate_effect [OF alloc assms(2)] assms(1,3) alloc by (auto simp: create_commit_def)
  next
    case (Inr vm)
    with allocate_effect [OF alloc assms(2)] obtain ips ip6s where
      put: "h_infos h1 = put_info vm (h_infos h)" "wf_vminfo vm" "vm_name vm = ca_name (pl_args p)"
        "vm_core vm = vm_core (planned_vm env p ips ip6s)"
      and addr: "create_addresses (he_md5 env) (he_nets env) (h_infos h) peers (ca_name (pl_args p)) (pl_nics p) (pl_ip p) = Inr (ips, ip6s)"
      by auto
    have ok1: "dir_ok s (h_infos h1)"
      unfolding put(1) using put assms(4) [OF addr] by (intro dir_ok_new [OF assms(3)]) auto
    obtain r2 vm2 h2 where launch: "launch_and_wait env peers (pl_bdfs p) vm h1 = (r2, vm2, h2)" by (metis prod_cases3)
    have "vm_load (h_infos h1) (vm_name vm) = Inr vm" unfolding put(1) by (rule load_put_info [OF put(2)])
    then have "dir_ok s (h_infos h2)"
      using dir_ok_launch [OF launch ok1 _ put(2)] assms(2) by (auto simp: plan_wf_def)
    then show ?thesis
      using assms(1) alloc Inr launch dir_ok_rollback by (auto simp: create_commit_def split: sum.split_asm)
  qed
qed

subsection \<open>No address is shared\<close>

text \<open>One command of one process.  The plan of a commit is any plan, whenever its checks were
  made; the listing a commit uses is taken under the lock.\<close>

inductive upkeep_step :: "host \<Rightarrow> host \<Rightarrow> bool" where
  change: "cmd_set env a h = (r, h') \<Longrightarrow> upkeep_step h h'"
| start: "cmd_start env peers names h = (r, h') \<Longrightarrow> upkeep_step h h'"
| existing: "handle_existing_vm env peers name h = (r, h') \<Longrightarrow> upkeep_step h h'"
| stop: "cmd_stop env names h = (r, h') \<Longrightarrow> upkeep_step h h'"
| destroy: "cmd_destroy env peers cnames names h = (r, h') \<Longrightarrow> upkeep_step h h'"
| update: "op_ok op \<Longrightarrow> op_run op vm (h_infos h) = Inr (vm', dir) \<Longrightarrow> upkeep_step h (h\<lparr>h_infos := dir\<rparr>)"

inductive host_step :: "host \<Rightarrow> host \<Rightarrow> bool" where
  create: "set peers = dom (h_infos h) \<Longrightarrow> plan_wf env peers p h \<Longrightarrow> create_commit env peers p h = (r, h')
    \<Longrightarrow> host_step h h'"
| upkeep: "upkeep_step h h' \<Longrightarrow> host_step h h'"

inductive_cases host_stepE: "host_step h h'"
inductive_cases upkeep_stepE: "upkeep_step h h'"

lemma upkeep_dir_ok: "upkeep_step h h' \<Longrightarrow> dir_ok s (h_infos h) \<Longrightarrow> dir_ok s (h_infos h')"
  by (erule upkeep_stepE) (auto intro: dir_ok_set dir_ok_start_all dir_ok_existing dir_ok_stop dir_ok_destroy dir_ok_op)

definition no_shared_address :: "string list \<times> string \<Rightarrow> string list \<times> string \<Rightarrow> bool" where
  "no_shared_address c d \<longleftrightarrow> set (fst c) \<inter> set (fst d) = {}"

lemma planned_ips: "length ips = 1 + length nics \<Longrightarrow> set (fst (vm_core (planned_vm env p ips ip6s))) \<subseteq> set ips"
  by (cases ips) (auto simp: vm_core_def vm_ips_def planned_vm_def Let_def)

lemma host_step_addresses:
  assumes "host_step h h'" "dir_ok no_shared_address (h_infos h)"
  shows "dir_ok no_shared_address (h_infos h')"
  using assms
proof (induction rule: host_step.induct)
  case (create peers h env p r h')
  show ?case
  proof (rule dir_ok_commit [OF create(3,2,4)])
    fix ips ip6s n w
    assume addr: "create_addresses (he_md5 env) (he_nets env) (h_infos h) peers (ca_name (pl_args p)) (pl_nics p) (pl_ip p) = Inr (ips, ip6s)"
      and n: "n \<noteq> ca_name (pl_args p)" and load: "vm_load (h_infos h) n = Inr w"
    have "n \<in> set peers" using load create(1) by (auto simp: vm_load_read split: option.split_asm)
    then have "set ips \<inter> set (vm_ips w) = {}" "length ips = 1 + length (pl_nics p)"
      using create_addresses_fresh [OF addr] n load by blast+
    then show "no_shared_address (vm_core (planned_vm env p ips ip6s)) (vm_core w) \<and>
        no_shared_address (vm_core w) (vm_core (planned_vm env p ips ip6s))"
      using planned_ips [of ips "pl_nics p" env p ip6s] by (auto simp: no_shared_address_def vm_core_def)
  qed
qed (rule upkeep_dir_ok)


subsection \<open>Failover pairs\<close>

definition one_partner :: "string list \<times> string \<Rightarrow> string list \<times> string \<Rightarrow> bool" where
  "one_partner c d \<longleftrightarrow> snd c = [] \<or> snd c \<noteq> snd d"

text \<open>Commands that run one after the other: a create commits on the state it checked.\<close>

inductive serial_step :: "host \<Rightarrow> host \<Rightarrow> bool" where
  create: "set peers = dom (h_infos h) \<Longrightarrow> create_checks env (h_infos h) peers cm = Inr p \<Longrightarrow> plan_wf env peers p h
    \<Longrightarrow> create_commit env peers p h = (r, h') \<Longrightarrow> serial_step h h'"
| upkeep: "upkeep_step h h' \<Longrightarrow> serial_step h h'"

lemma disks_taken_free:
  assumes "disks_taken dir name owner others = Inr ()" "n \<in> set others" "n \<noteq> name" "n \<noteq> owner" "vm_load dir n = Inr vm"
  shows "vm_disks_from vm \<noteq> owner"
  using assms by (induction others) (auto split: if_splits sum.split_asm)

lemma failover_checked:
  assumes "validate_failover_disks dir peers a = Inr (shared, a')" "ca_disks_from a \<noteq> []"
    "n \<in> set peers" "n \<noteq> ca_name a" "vm_load dir n = Inr vm"
  shows "vm_disks_from vm \<noteq> ca_disks_from a"
proof (cases "n = ca_disks_from a")
  case True
  then show ?thesis
    using assms by (auto simp: validate_failover_disks_def Let_def res_bind_eq_Inr split: if_splits sum.split_asm)
next
  case False
  have "disks_taken dir (ca_name a) (ca_disks_from a) peers = Inr ()"
    using assms(1,2) by (auto simp: validate_failover_disks_def Let_def res_bind_eq_Inr res_map_eq_Inr
        split: if_splits sum.split_asm load_error.split_asm)
  from disks_taken_free [OF this assms(3,4) False assms(5)] show ?thesis .
qed

lemma failover_args:
  "validate_failover_disks dir peers a = Inr (shared, a') \<Longrightarrow>
     ca_disks_from a' = ca_disks_from a \<and> ca_name a' = ca_name a"
  by (auto simp: validate_failover_disks_def Let_def res_bind_eq_Inr res_map_eq_Inr
      split: if_splits sum.split_asm load_error.split_asm)

lemma disk_option_args:
  "validate_disk_options fs a = Inr a' \<Longrightarrow> ca_disks_from a' = ca_disks_from a \<and> ca_name a' = ca_name a"
  by (auto simp: validate_disk_options_def Let_def res_bind_eq_Inr split: if_splits)

lemma create_checks_failover:
  assumes "create_checks env dir peers cm = Inr p"
  shows "\<exists>shared a'. validate_failover_disks dir peers (cm_args cm) = Inr (shared, a') \<and>
    ca_disks_from (pl_args p) = ca_disks_from (cm_args cm) \<and> ca_name (pl_args p) = ca_name (cm_args cm)"
proof -
  from assms obtain shared a1 a2 where a1: "validate_failover_disks dir peers (cm_args cm) = Inr (shared, a1)"
    and a2: "validate_disk_options (he_fs env) a1 = Inr a2"
    and p: "ca_disks_from (pl_args p) = ca_disks_from a2 \<and> ca_name (pl_args p) = ca_name a2"
    by (auto simp: create_checks_def res_bind_eq_Inr map_err_eq_Inr Let_def split: option.split_asm if_splits)
  from failover_args [OF a1] disk_option_args [OF a2] a1 p show ?thesis by auto
qed

lemma serial_step_partner:
  assumes "serial_step h h'" "dir_ok one_partner (h_infos h)"
  shows "dir_ok one_partner (h_infos h')"
  using assms
proof (induction rule: serial_step.induct)
  case (create peers h env cm p r h')
  obtain shared a' where checked: "validate_failover_disks (h_infos h) peers (cm_args cm) = Inr (shared, a')"
    and p: "ca_disks_from (pl_args p) = ca_disks_from (cm_args cm)" "ca_name (pl_args p) = ca_name (cm_args cm)"
    using create_checks_failover [OF create(2)] by blast
  show ?case
  proof (rule dir_ok_commit [OF create(4,3,5)])
    fix ips ip6s n w
    assume n: "n \<noteq> ca_name (pl_args p)" and load: "vm_load (h_infos h) n = Inr w"
    have "n \<in> set peers" using load create(1) by (auto simp: vm_load_read split: option.split_asm)
    then have "ca_disks_from (cm_args cm) \<noteq> [] \<Longrightarrow> vm_disks_from w \<noteq> ca_disks_from (cm_args cm)"
      using failover_checked [OF checked] n p(2) load by auto
    moreover have "vm_disks_from (planned_vm env p ips ip6s) = ca_disks_from (cm_args cm)"
      using p(1) by (simp add: planned_vm_def Let_def)
    ultimately show "one_partner (vm_core (planned_vm env p ips ip6s)) (vm_core w) \<and>
        one_partner (vm_core w) (vm_core (planned_vm env p ips ip6s))"
      by (auto simp: one_partner_def vm_core_def)
  qed
qed (rule upkeep_dir_ok)

text \<open>
  C15.  Commands that do not overlap keep failover pairs at two: no two VMs attach the disks of
  the same third one.
\<close>

theorem one_failover_partner:
  assumes "serial_step\<^sup>*\<^sup>* h0 h" "h_infos h0 = Map.empty" "m \<noteq> n"
    "vm_load (h_infos h) m = Inr v" "vm_load (h_infos h) n = Inr w" "vm_disks_from v \<noteq> []"
  shows "vm_disks_from v \<noteq> vm_disks_from w"
proof -
  have "dir_ok one_partner (h_infos h)"
    using assms(1,2) by (induction rule: rtranclp_induct) (auto simp: dir_ok_empty intro: serial_step_partner)
  from dir_ok_related [OF this assms(3-5)] assms(6) show ?thesis by (simp add: one_partner_def vm_core_def)
qed

subsection \<open>A concrete host\<close>

definition tool_example :: "bool \<Rightarrow> string list \<Rightarrow> string set \<Rightarrow> (string, unit) result \<times> string set" where
  "tool_example sudo argv fs = (Inr (), fs \<union> set (filter (\<lambda>a. startswith a ''/vm/'') argv))"

definition env_example :: host_env where
  "env_example =
     \<lparr>he_overlays = ''/vm/o'', he_sockets = ''/vm/s'', he_md5 = md5_example, he_nets = host_example,
      he_fs = \<lparr>fs_iommu = False, fs_pci = (\<lambda>_. False), fs_isdir = (\<lambda>_. True)\<rparr>,
      he_claim = claim_env_example ''u'', he_repr = (\<lambda>_. []), he_now = 5, he_user = ''u'', he_pid = 7,
      he_tool = tool_example, he_overlays_writable = True, he_dir_writable = (\<lambda>_. True),
      he_image_readable = True, he_manageable = (\<lambda>_ _. True), he_signalable = (\<lambda>_. True),
      he_root = False, he_helper = Some ''/helper'', he_sudo = True, he_machine = machine_example,
      he_store = \<lparr>sf_files = Map.empty, sf_links = Map.empty\<rparr>, he_stat = (\<lambda>_. StatError), he_budget = (\<lambda>_. None),
      he_tap = (\<lambda>_. TapUp), he_qemu = (\<lambda>argv. Some (int (of_char (hd (argv ! 2))))), he_guest = (\<lambda>_. GuestUp),
      he_kill = (\<lambda>_. True), he_bind = (\<lambda>_. Inr None)\<rparr>"

definition host_empty :: host where
  "host_empty =
     \<lparr>h_infos = Map.empty, h_files = {}, h_claims = claim_store_example, h_clusters = Map.empty,
      h_hosts = [], h_ssh = [], h_rebinds = [], h_procs = Map.empty, h_pidfiles = Map.empty, h_taps = {}\<rparr>"

definition art_example :: artifacts where
  "art_example =
     \<lparr>ar_image = ''/img'', ar_kernel = ''/k'', ar_kver = ''5'', ar_target = ''rocky9'', ar_variant = ''base'',
      ar_arch = ''x86_64'', ar_mem = 2048, ar_base = ''img'', ar_image_id = [], ar_image_size = None\<rparr>"

definition args_for :: "string \<Rightarrow> string \<Rightarrow> create_args" where
  "args_for name disks_from =
     \<lparr>ca_name = name, ca_vcpus = Some 2, ca_mem = None, ca_mdt_disks = Some 1, ca_ost_disks = Some 0, ca_nic = [],
      ca_numa_nodes = None, ca_share_disks = (disks_from = []), ca_disks_from = disks_from, ca_typed_disks = False,
      ca_disk_dir = [], ca_disk_cache = [], ca_disk_prealloc = []\<rparr>"

definition cmd_for :: "string \<Rightarrow> string \<Rightarrow> create_cmd" where
  "cmd_for name disks_from =
     \<lparr>cm_args = args_for name disks_from, cm_owner_id = None, cm_kernel_args = None, cm_disk_size = SNone,
      cm_root_size = SNone, cm_ip = None, cm_artifacts = Some art_example\<rparr>"

definition plan_for :: "string \<Rightarrow> string \<Rightarrow> create_plan" where
  "plan_for name disks_from =
     \<lparr>pl_args = (args_for name disks_from)\<lparr>ca_mem := Some 2048,
        ca_mdt_disks := Some (if disks_from = [] then 1 else 0)\<rparr>,
      pl_owner = ''pid:7'', pl_kargs = [], pl_nics = [], pl_bdfs = [], pl_disk_size = DISK_SIZE_BYTES,
      pl_root_size = ROOT_SIZE_BYTES, pl_ip = None, pl_art = art_example\<rparr>"

definition vm_for :: "string \<Rightarrow> string \<Rightarrow> string \<Rightarrow> vminfo" where
  "vm_for name disks_from ip = planned_vm env_example (plan_for name disks_from) [ip] []"

lemma plan_a_checks: "create_checks env_example Map.empty [] (cmd_for ''a'' []) = Inr (plan_for ''a'' [])"
  by code_simp

lemma wf_without_nics:
  assumes "list_all unbroken (vm_strings vm)" "wf_owner (vm_owner_id vm)" "vm_nics vm = []" "vm_nic_ips vm = []"
    "vm_nic_ip6s vm = []" "vm_passthrough_drivers vm = []"
  shows "wf_vminfo vm"
  using assms by (simp add: wf_vminfo_def)

lemma vm_for_wf: "list_all unbroken (vm_strings (vm_for n d ip)) \<Longrightarrow> wf_vminfo (vm_for n d ip)"
proof (rule wf_without_nics)
  have "wf_owner (Some ''pid:7'')" by code_simp
  then show "wf_owner (vm_owner_id (vm_for n d ip))"
    by (simp add: vm_for_def planned_vm_def plan_for_def Let_def)
qed (simp_all add: vm_for_def planned_vm_def plan_for_def Let_def)

lemma vm_for_fields [simp]:
  "vm_name (vm_for n d ip) = n" "vm_disk_dir (vm_for n d ip) = []" "vm_ost_disks (vm_for n d ip) = 0"
  "vm_mdt_disks (vm_for n d ip) = (if d = [] then 1 else 0)" "vm_disks_from (vm_for n d ip) = d"
  "vm_share_disks (vm_for n d ip) = (d = [])" "vm_nics (vm_for n d ip) = []" "vm_kernel (vm_for n d ip) = ''/k''"
  "vm_image (vm_for n d ip) = ''/img''" "vm_pid (vm_for n d ip) = 0" "vm_arch (vm_for n d ip) = ''x86_64''" "vm_ip (vm_for n d ip) = ip"
  by (simp_all add: vm_for_def planned_vm_def plan_for_def args_for_def art_example_def Let_def)

text \<open>A launch, step by step, up to what QEMU and the guest do.\<close>

lemma launch_to_qemu:
  assumes "\<not> running h vm" "overlay_path env (vm_name vm) \<in> h_files h"
    "check_backing (he_store env) (he_stat env) (he_overlays env) vm (h_infos h) = (None, vm, h_infos h)"
    "he_budget env vm = None" "boot_args (he_nets env) vm = Inr boot" "utf8_length boot < 2048"
    "setup_taps env (pick_net_mode env vm) vm (h_taps h) = (Inr (), taps)" "vm_kernel vm \<noteq> []"
    "data_disk_args (he_overlays env) (h_files h) (fs_isdir (he_fs env)) (h_infos h) vm ''virtio-blk-pci'' = Inr disks"
    "argv = qemu_argv (he_machine env) (he_md5 env) (he_overlays env) (he_sockets env) (pick_net_mode env vm) boot disks vm"
  shows "launch_qemu env peers vm h =
    (case he_qemu env argv of
       None \<Rightarrow> (Inl (LQemu (vm_name vm)), vm, h\<lparr>h_files := insert (socket_path env (vm_name vm) ''log'') (h_files h),
         h_taps := (if pick_net_mode env vm = NetTaps then taps - set (all_taps env vm) else taps)\<rparr>)
     | Some pid \<Rightarrow> mark_started env pid vm (qemu_started env argv pid vm (h\<lparr>h_taps := taps\<rparr>)))"
  using assms by (simp add: launch_qemu_def start_qemu_def memory_shortfall_def Let_def split: option.split)

definition vm_up :: "vminfo \<Rightarrow> vminfo" where
  "vm_up vm = vm\<lparr>vm_pid := int (of_char (hd (vm_name vm))), vm_last_boot := 5\<rparr>"

lemma mark_started_disk:
  assumes "wf_vminfo vm" "h_infos h (vm_name vm) = Some (info_text vm)"
  shows "mark_started env pid vm h =
    (Inr (), vm\<lparr>vm_pid := pid, vm_last_boot := he_now env\<rparr>,
     h\<lparr>h_infos := put_info (vm\<lparr>vm_pid := pid, vm_last_boot := he_now env\<rparr>) (h_infos h)\<rparr>)"
proof -
  have 1: "update_pid vm pid (h_infos h) = Inr (vm\<lparr>vm_pid := pid\<rparr>, (h_infos h)(vm_name vm \<mapsto> info_text (vm\<lparr>vm_pid := pid\<rparr>)))"
    using op_run_disk [of vm "SetPid pid" "h_infos h" vm] assms by simp
  have "wf_vminfo (vm\<lparr>vm_pid := pid\<rparr>)" using assms(1) by (simp add: ltvm_wf)
  from op_run_disk [OF this, of "SetLastBoot (he_now env)" "(h_infos h)(vm_name vm \<mapsto> info_text (vm\<lparr>vm_pid := pid\<rparr>))" "vm\<lparr>vm_pid := pid\<rparr>"]
  show ?thesis by (simp add: mark_started_def 1 put_info_def)
qed

text \<open>On the example host every launch of these VMs succeeds.\<close>

lemma example_launch:
  assumes "list_all unbroken (vm_strings (vm_for n d ip))" "h_infos h n = Some (info_text (vm_for n d ip))"
    "h_pidfiles h n = None"
    "''/vm/o/'' @ n @ ''.qcow2'' \<in> h_files h"
    "boot_args host_example (vm_for n d ip) = Inr boot" "utf8_length boot < 2048"
    "data_disk_args ''/vm/o'' (h_files h) (\<lambda>_. True) (h_infos h) (vm_for n d ip) ''virtio-blk-pci'' = Inr disks"
  shows "\<exists>h'. launch_and_wait env_example peers [] (vm_for n d ip) h = (Inr (), vm_up (vm_for n d ip), h') \<and>
    h_infos h' = put_info (vm_up (vm_for n d ip)) (h_infos h) \<and>
    h_files h' = h_files h \<union> {''/vm/s/'' @ n @ ''.log'', ''/vm/s/'' @ n @ ''.qmp''} \<and>
    (\<forall>m. m \<noteq> n \<longrightarrow> h_pidfiles h' m = h_pidfiles h m)"
proof -
  let ?vm = "vm_for n d ip" and ?pid = "int (of_char (hd n))"
  define argv where "argv = qemu_argv machine_example md5_example ''/vm/o'' ''/vm/s'' (NetHelper ''/helper'') boot disks ?vm"
  have wf: "wf_vminfo ?vm" by (rule vm_for_wf [OF assms(1)])
  have idle: "\<not> running h ?vm" using assms(3) by (simp add: running_def is_running_def pidfile_pid_def)
  have chk: "check_backing (he_store env_example) (he_stat env_example) (he_overlays env_example) ?vm (h_infos h) = (None, ?vm, h_infos h)"
    by (simp add: check_backing_def overlay_backing_file_def env_example_def)
  have mode: "pick_net_mode env_example ?vm = NetHelper ''/helper''" by (simp add: pick_net_mode_def env_example_def)
  have taps: "setup_taps env_example (NetHelper ''/helper'') ?vm (h_taps h) = (Inr (), h_taps h)"
    by (simp add: setup_taps_def extra_nics_def)
  have "argv ! 2 = n" by (simp add: argv_def qemu_argv_def)
  then have qemu: "he_qemu env_example argv = Some ?pid" by (simp add: env_example_def)
  have "launch_qemu env_example peers ?vm h = mark_started env_example ?pid ?vm (qemu_started env_example argv ?pid ?vm (h\<lparr>h_taps := h_taps h\<rparr>))"
    using launch_to_qemu [OF idle _ chk, of boot "h_taps h" disks argv peers] assms(4-7) mode taps qemu
    by (simp add: overlay_path_def env_example_def argv_def)
  also have "\<dots> = (Inr (), vm_up ?vm, (qemu_started env_example argv ?pid ?vm h)\<lparr>h_infos := put_info (vm_up ?vm) (h_infos h)\<rparr>)"
    using mark_started_disk [OF wf, of "qemu_started env_example argv ?pid ?vm h" env_example ?pid] assms(2)
    by (simp add: vm_up_def env_example_def)
  finally have launch: "launch_qemu env_example peers ?vm h =
      (Inr (), vm_up ?vm, (qemu_started env_example argv ?pid ?vm h)\<lparr>h_infos := put_info (vm_up ?vm) (h_infos h)\<rparr>)" .
  have up: "he_guest env_example = (\<lambda>_. GuestUp)" by (simp add: env_example_def)
  show ?thesis
    by (simp add: launch_and_wait_def launch_guest_def launch up Let_def register_ssh_name_def) (auto simp: qemu_started_def socket_path_def env_example_def)
qed


lemma example_tool: "make_image env_example s argv fs = (Inr (), fs \<union> set (filter (\<lambda>a. startswith a ''/vm/'') argv))"
  by (simp add: make_image_def env_example_def tool_example_def)

lemma example_data_disks:
  assumes "vm_disk_prealloc vm = []" "list_all (\<lambda>d. startswith d ''/vm/'') ds"
  shows "\<exists>files. create_data_disks env_example s ds vm fs = (Inr (), files, vm) \<and> fs \<union> set ds \<subseteq> files"
  using assms(2)
proof (induction ds arbitrary: fs)
  case (Cons d ds)
  define fs2 where "fs2 = fs \<union> set (filter (\<lambda>a. startswith a ''/vm/'') [''truncate'', ''-s'', str_int (vm_disk_size vm), d])"
  obtain files where files: "create_data_disks env_example s ds vm fs2 = (Inr (), files, vm)" "fs2 \<union> set ds \<subseteq> files"
    using Cons.IH [of fs2] Cons.prems by auto
  have "make_image env_example s [''truncate'', ''-s'', str_int (vm_disk_size vm), d] fs = (Inr (), fs2)"
    by (simp only: example_tool fs2_def)
  then have "create_data_disks env_example s (d # ds) vm fs = (Inr (), files, vm)" using assms(1) files(1) by simp
  moreover have "d \<in> fs2" "fs \<subseteq> fs2" using Cons.prems by (simp_all add: fs2_def)
  ultimately show ?case using files(2) by auto
qed simp

lemma example_disks:
  "\<exists>files. create_disks env_example (vm_for n d ip) fs = (Inr (vm_for n d ip), files) \<and>
    fs \<union> {''/vm/o/'' @ n @ ''.qcow2''} \<union> set (disk_paths ''/vm/o'' (vm_for n d ip)) \<subseteq> files"
proof -
  let ?o = "''/vm/o/'' @ n @ ''.qcow2''" and ?vm = "vm_for n d ip"
  have env: "he_overlays_writable env_example" "he_image_readable env_example" "he_overlays env_example = ''/vm/o''"
    by (simp_all add: env_example_def)
  have pre: "vm_disk_prealloc ?vm = []" by (simp add: vm_for_def planned_vm_def plan_for_def args_for_def Let_def)
  have paths: "list_all (\<lambda>p. startswith p ''/vm/'') (disk_paths ''/vm/o'' ?vm)"
    by (auto simp: disk_paths_def disk_path_def disk_dir_path_def list_all_iff startswith_def)
  have o: "startswith ?o ''/vm/''" by (simp add: startswith_def)
  define fs1 where "fs1 = fs \<union> set (filter (\<lambda>a. startswith a ''/vm/'') [''qemu-img'', ''create'', ''-f'', ''qcow2'', ''-b'', ''/img'', ''-F'', ''raw'', ?o])"
  define fs2 where "fs2 = fs1 \<union> set (filter (\<lambda>a. startswith a ''/vm/'') [''qemu-img'', ''resize'', ?o, str_int (vm_root_size ?vm)])"
  have run: "then_run (make_image env_example False [''qemu-img'', ''create'', ''-f'', ''qcow2'', ''-b'', ''/img'', ''-F'', ''raw'', ?o] fs)
      (make_image env_example False [''qemu-img'', ''resize'', ?o, str_int (vm_root_size ?vm)]) = (Inr (), fs2)"
    by (simp only: example_tool then_run_def prod.case sum.case fs1_def fs2_def)
  obtain files where files: "create_data_disks env_example False (disk_paths ''/vm/o'' ?vm) ?vm fs2 = (Inr (), files, ?vm)"
    "fs2 \<union> set (disk_paths ''/vm/o'' ?vm) \<subseteq> files"
    using example_data_disks [OF pre paths] by blast
  have "create_disks env_example ?vm fs = (Inr ?vm, files)"
    using run files(1) by (simp add: create_disks_def Let_def env overlay_path_def)
  moreover have "?o \<in> fs2" using o by (simp add: fs2_def)
  moreover have "fs \<subseteq> fs2" unfolding fs1_def fs2_def by (intro subsetI UnI1)
  ultimately show ?thesis using files(2) by blast
qed

lemma wf_saved: "wf_vminfo vm \<Longrightarrow> vm_save vm dir = Inr (put_info vm dir)"
  by (auto simp: vm_save_def put_info_def info_text_def wf_vminfo_def wf_owner_def split: option.splits)

lemma example_allocate:
  assumes "create_addresses md5_example host_example (h_infos h) peers n [] None = Inr ([ip], [])" "h_infos h n = None"
    "list_all unbroken (vm_strings (vm_for n d ip))"
  shows "\<exists>h'. allocate_and_persist_vm env_example peers (plan_for n d) h = (Inr (vm_for n d ip), h') \<and>
    h_files h \<union> {''/vm/o/'' @ n @ ''.qcow2''} \<union> set (disk_paths ''/vm/o'' (vm_for n d ip)) \<subseteq> h_files h' \<and>
    h_pidfiles h' = h_pidfiles h"
proof -
  obtain files where files: "create_disks env_example (vm_for n d ip) (h_files h) = (Inr (vm_for n d ip), files)"
    "h_files h \<union> {''/vm/o/'' @ n @ ''.qcow2''} \<union> set (disk_paths ''/vm/o'' (vm_for n d ip)) \<subseteq> files"
    using example_disks by blast
  have plan: "ca_name (pl_args (plan_for n d)) = n" "pl_nics (plan_for n d) = []" "pl_ip (plan_for n d) = None"
    "he_md5 env_example = md5_example" "he_nets env_example = host_example"
    by (simp_all add: plan_for_def args_for_def env_example_def)
  have numa: "\<not> vm_numa_problem (vm_vcpus (vm_for n d ip)) (vm_mem (vm_for n d ip)) (vm_numa_nodes (vm_for n d ip))"
    by (simp add: vm_for_def planned_vm_def plan_for_def args_for_def Let_def vm_numa_problem_def)
  show ?thesis
    using assms(1,2) files numa wf_saved [OF vm_for_wf [OF assms(3)]]
    by (simp add: allocate_and_persist_vm_def Let_def plan vm_for_def [symmetric])
qed

lemma disk_args_ok: "set ds \<subseteq> files \<Longrightarrow> \<exists>args. disk_args_from name files blk shared cache zeroes k ds = Inr args"
proof (induction ds arbitrary: k)
  case (Cons d ds)
  then obtain args where "disk_args_from name files blk shared cache zeroes (Suc k) ds = Inr args" by auto
  with Cons.prems show ?case by (simp add: Let_def res_map_def)
qed simp

lemma data_disk_args_ok:
  assumes "vm_disks_from vm = [] \<and> owner = vm \<or>
      vm_load infos (vm_disks_from vm) = Inr owner \<and> vm_disks_from vm \<noteq> [] \<and> vm_share_disks owner"
    "set (disk_paths ov owner) \<subseteq> files"
  shows "\<exists>args. data_disk_args ov files (\<lambda>_. True) infos vm blk = Inr args"
  using assms by (auto simp: data_disk_args_def Let_def intro: disk_args_ok)

lemma example_create:
  assumes addr: "create_addresses md5_example host_example (h_infos h) peers n [] None = Inr ([ip], [])" "h_infos h n = None"
    and wf: "plan_wf env_example peers (plan_for n d) h" "list_all unbroken (vm_strings (vm_for n d ip))"
    and fresh: "h_pidfiles h n = None"
    and boot: "boot_args host_example (vm_for n d ip) = Inr boot" "utf8_length boot < 2048"
    and owner: "d = [] \<or> vm_load (put_info (vm_for n d ip) (h_infos h)) d = Inr owner \<and> vm_share_disks owner \<and>
      set (disk_paths ''/vm/o'' owner) \<subseteq> h_files h"
  shows "\<exists>h'. create_commit env_example peers (plan_for n d) h = (Inr (Created (vm_up (vm_for n d ip))), h') \<and>
    h_infos h' = put_info (vm_up (vm_for n d ip)) (h_infos h) \<and>
    set (disk_paths ''/vm/o'' (vm_for n d ip)) \<union> h_files h \<subseteq> h_files h' \<and> (\<forall>m. m \<noteq> n \<longrightarrow> h_pidfiles h' m = h_pidfiles h m)"
proof -
  let ?vm = "vm_for n d ip"
  obtain h1 where h1: "allocate_and_persist_vm env_example peers (plan_for n d) h = (Inr ?vm, h1)"
    "h_files h \<union> {''/vm/o/'' @ n @ ''.qcow2''} \<union> set (disk_paths ''/vm/o'' ?vm) \<subseteq> h_files h1" "h_pidfiles h1 = h_pidfiles h"
    using example_allocate [OF addr wf(2)] by blast
  have put: "h_infos h1 = put_info ?vm (h_infos h)"
    using allocate_effect [OF h1(1) wf(1)] by auto
  have on_disk: "h_infos h1 n = Some (info_text ?vm)" by (simp add: put put_info_def)
  have "\<exists>disks. data_disk_args ''/vm/o'' (h_files h1) (\<lambda>_. True) (h_infos h1) ?vm ''virtio-blk-pci'' = Inr disks"
    using owner h1(2) by (intro data_disk_args_ok [of _ "if d = [] then ?vm else owner"]) (auto simp: put)
  then obtain disks where disks: "data_disk_args ''/vm/o'' (h_files h1) (\<lambda>_. True) (h_infos h1) ?vm ''virtio-blk-pci'' = Inr disks" ..
  obtain h2 where h2: "launch_and_wait env_example peers [] ?vm h1 = (Inr (), vm_up ?vm, h2)"
      "h_infos h2 = put_info (vm_up ?vm) (h_infos h1)" "h_files h1 \<subseteq> h_files h2" "\<forall>m. m \<noteq> n \<longrightarrow> h_pidfiles h2 m = h_pidfiles h1 m"
    using example_launch [OF wf(2) on_disk _ _ boot disks, of peers] fresh h1(2,3) by auto
  have bdfs: "pl_bdfs (plan_for n d) = []" by (simp add: plan_for_def)
  have "create_commit env_example peers (plan_for n d) h = (Inr (Created (vm_up ?vm)), h2)"
    by (simp add: create_commit_def h1(1) bdfs h2(1))
  moreover have "put_info (vm_up ?vm) (put_info ?vm (h_infos h)) = put_info (vm_up ?vm) (h_infos h)"
    by (simp add: put_info_def vm_up_def)
  ultimately show ?thesis using h2 put h1(2,3) by auto
qed

lemma example_plan_wf:
  assumes "create_addresses md5_example host_example (h_infos h) peers n [] None = Inr ([ip], [])"
    "list_all unbroken (vm_strings (vm_for n d ip))"
  shows "plan_wf env_example peers (plan_for n d) h"
proof -
  have plan: "ca_name (pl_args (plan_for n d)) = n" "pl_nics (plan_for n d) = []" "pl_ip (plan_for n d) = None" "pl_bdfs (plan_for n d) = []"
    "he_md5 env_example = md5_example" "he_nets env_example = host_example"
    by (simp_all add: plan_for_def args_for_def env_example_def)
  show ?thesis using assms(1) vm_for_wf [OF assms(2)] by (simp add: plan_wf_def plan vm_for_def [symmetric])
qed

abbreviation vm_a :: vminfo where "vm_a \<equiv> vm_for ''a'' [] ''192.168.100.10''"
abbreviation vm_b :: vminfo where "vm_b \<equiv> vm_for ''b'' ''a'' ''192.168.100.11''"

lemma vm_ab_wf: "list_all unbroken (vm_strings vm_a)" "list_all unbroken (vm_strings vm_b)"
  by code_simp+

lemma vm_up_wf: "wf_vminfo (vm_up vm_a)" "wf_vminfo (vm_up vm_b)"
  using vm_for_wf [OF vm_ab_wf(1)] vm_for_wf [OF vm_ab_wf(2)] by (simp_all add: vm_up_def ltvm_wf)

lemma vm_up_fields [simp]: "vm_name (vm_up vm) = vm_name vm" "vm_share_disks (vm_up vm) = vm_share_disks vm"
  "vm_disks_from (vm_up vm) = vm_disks_from vm" "disk_paths ov (vm_up vm) = disk_paths ov vm"
  by (simp_all add: vm_up_def disk_paths_def disk_path_def disk_dir_path_def fun_eq_iff)

lemma example_boot:
  "\<exists>boot. boot_args host_example vm_a = Inr boot \<and> utf8_length boot < 2048"
  "\<exists>boot. boot_args host_example vm_b = Inr boot \<and> utf8_length boot < 2048"
proof -
  have "case boot_args host_example vm_a of Inl _ \<Rightarrow> False | Inr b \<Rightarrow> utf8_length b < 2048"
    "case boot_args host_example vm_b of Inl _ \<Rightarrow> False | Inr b \<Rightarrow> utf8_length b < 2048"
    by code_simp+
  then show "\<exists>boot. boot_args host_example vm_a = Inr boot \<and> utf8_length boot < 2048"
    "\<exists>boot. boot_args host_example vm_b = Inr boot \<and> utf8_length boot < 2048"
    by (auto split: sum.split_asm)
qed

lemma addr_a: "create_addresses md5_example host_example (h_infos host_empty) [] ''a'' [] None = Inr ([''192.168.100.10''], [])"
  by code_simp

lemma addr_b: "create_addresses md5_example host_example [''a'' \<mapsto> info_text (vm_up vm_a)] [''a''] ''b'' [] None = Inr ([''192.168.100.11''], [])"
  by code_simp

definition host_a :: host where
  "host_a = snd (create_commit env_example [] (plan_for ''a'' []) host_empty)"

definition host_ab :: host where
  "host_ab = snd (create_commit env_example [''a''] (plan_for ''b'' ''a'') host_a)"

lemma create_a:
  "create_commit env_example [] (plan_for ''a'' []) host_empty = (Inr (Created (vm_up vm_a)), host_a)"
  "h_infos host_a = [''a'' \<mapsto> info_text (vm_up vm_a)]" "set (disk_paths ''/vm/o'' vm_a) \<subseteq> h_files host_a" "h_pidfiles host_a ''b'' = None"
proof -
  obtain boot where boot: "boot_args host_example vm_a = Inr boot" "utf8_length boot < 2048" using example_boot(1) by blast
  have empty: "h_infos host_empty = Map.empty" "h_pidfiles host_empty = Map.empty" by (simp_all add: host_empty_def)
  obtain h' where h': "create_commit env_example [] (plan_for ''a'' []) host_empty = (Inr (Created (vm_up vm_a)), h')"
    "h_infos h' = put_info (vm_up vm_a) (h_infos host_empty)" "set (disk_paths ''/vm/o'' vm_a) \<subseteq> h_files h'" "h_pidfiles h' ''b'' = None"
    using example_create [OF addr_a _ example_plan_wf [OF addr_a vm_ab_wf(1)] vm_ab_wf(1) _ boot] by (auto simp: empty)
  then have "host_a = h'" by (simp add: host_a_def)
  with h' show "create_commit env_example [] (plan_for ''a'' []) host_empty = (Inr (Created (vm_up vm_a)), host_a)"
    "h_infos host_a = [''a'' \<mapsto> info_text (vm_up vm_a)]" "set (disk_paths ''/vm/o'' vm_a) \<subseteq> h_files host_a" "h_pidfiles host_a ''b'' = None"
    by (simp_all add: put_info_def empty)
qed

lemma addr_b_host: "create_addresses md5_example host_example (h_infos host_a) [''a''] ''b'' [] None = Inr ([''192.168.100.11''], [])"
  using addr_b by (simp add: create_a(2))

lemma create_b:
  "create_commit env_example [''a''] (plan_for ''b'' ''a'') host_a = (Inr (Created (vm_up vm_b)), host_ab)"
  "h_infos host_ab = put_info (vm_up vm_b) (h_infos host_a)"
proof -
  obtain boot where boot: "boot_args host_example vm_b = Inr boot" "utf8_length boot < 2048" using example_boot(2) by blast
  have "vm_load (put_info vm_b (h_infos host_a)) ''a'' = Inr (vm_up vm_a)"
    using vm_up_wf(1) by (simp add: put_info_def create_a(2) vm_load_read info_read_text)
  then obtain h' where "create_commit env_example [''a''] (plan_for ''b'' ''a'') host_a = (Inr (Created (vm_up vm_b)), h')"
    "h_infos h' = put_info (vm_up vm_b) (h_infos host_a)"
    using example_create [OF addr_b_host _ example_plan_wf [OF addr_b_host vm_ab_wf(2)] vm_ab_wf(2) create_a(4) boot, of "vm_up vm_a"] create_a(2,3)
    by auto
  then show "create_commit env_example [''a''] (plan_for ''b'' ''a'') host_a = (Inr (Created (vm_up vm_b)), host_ab)"
    "h_infos host_ab = put_info (vm_up vm_b) (h_infos host_a)"
    by (simp_all add: host_ab_def)
qed

lemma host_run: "host_step\<^sup>*\<^sup>* host_empty host_ab"
proof -
  have "host_step host_empty host_a"
    using host_step.create [OF _ example_plan_wf [OF addr_a vm_ab_wf(1)] create_a(1)] by (simp add: host_empty_def)
  moreover have "host_step host_a host_ab"
    using host_step.create [OF _ example_plan_wf [OF addr_b_host vm_ab_wf(2)] create_b(1)] by (simp add: create_a(2))
  ultimately show ?thesis by simp
qed

lemma host_ab_loads: "vm_load (h_infos host_ab) ''a'' = Inr (vm_up vm_a)" "vm_load (h_infos host_ab) ''b'' = Inr (vm_up vm_b)"
  using vm_up_wf by (simp_all add: create_b(2) create_a(2) put_info_def vm_load_read info_read_text)


lemma plan_ab_checks:
  "create_checks env_example Map.empty [] (cmd_for ''a'' []) = Inr (plan_for ''a'' [])"
  "create_checks env_example [''a'' \<mapsto> info_text (vm_up vm_a)] [''a''] (cmd_for ''b'' ''a'') = Inr (plan_for ''b'' ''a'')"
  by code_simp+

lemma serial_run: "serial_step\<^sup>*\<^sup>* host_empty host_ab"
proof -
  have "serial_step host_empty host_a"
    using serial_step.create [OF _ _ example_plan_wf [OF addr_a vm_ab_wf(1)] create_a(1)] plan_ab_checks(1) by (simp add: host_empty_def)
  moreover have "serial_step host_a host_ab"
    using serial_step.create [OF _ _ example_plan_wf [OF addr_b_host vm_ab_wf(2)] create_b(1)] plan_ab_checks(2) by (simp add: create_a(2))
  ultimately show ?thesis by simp
qed

theorem one_failover_partner_witness:
  "vm_disks_from (vm_up vm_b) \<noteq> vm_disks_from (vm_up vm_a)"
  using one_failover_partner [OF serial_run _ _ host_ab_loads(2,1)] by (simp add: host_empty_def)

subsection \<open>Overlapping creates\<close>

abbreviation vm_c :: vminfo where "vm_c \<equiv> vm_for ''c'' ''a'' ''192.168.100.12''"

text \<open>A host with a VM that shares its disk.\<close>

definition shared_info :: string where
  "shared_info = ''IP=192.168.100.10'' @ [CHR 0x0A] @ ''SHARE_DISKS=1'' @ [CHR 0x0A] @ ''MDT_DISKS=1''"

definition host_shared :: host where
  "host_shared = host_empty\<lparr>h_infos := [''a'' \<mapsto> shared_info], h_files := {''/vm/o/a-disk1.img''}\<rparr>"

lemma vm_c_wf: "list_all unbroken (vm_strings vm_c)"
  by code_simp

lemma boot_c: "\<exists>boot. boot_args host_example vm_c = Inr boot \<and> utf8_length boot < 2048"
proof -
  have "case boot_args host_example vm_c of Inl _ \<Rightarrow> False | Inr b \<Rightarrow> utf8_length b < 2048" by code_simp
  then show ?thesis by (auto split: sum.split_asm)
qed

lemma shared_owner:
  "\<exists>owner. info_read ''a'' shared_info = Inr owner \<and> vm_share_disks owner \<and> disk_paths ''/vm/o'' owner = [''/vm/o/a-disk1.img'']"
proof -
  have "case info_read ''a'' shared_info of Inl _ \<Rightarrow> False
    | Inr owner \<Rightarrow> vm_share_disks owner \<and> disk_paths ''/vm/o'' owner = [''/vm/o/a-disk1.img'']"
    by code_simp
  then show ?thesis by (auto split: sum.split_asm)
qed

lemma race_checks:
  "create_checks env_example [''a'' \<mapsto> shared_info] [''a''] (cmd_for ''b'' ''a'') = Inr (plan_for ''b'' ''a'')"
  "create_checks env_example [''a'' \<mapsto> shared_info] [''a''] (cmd_for ''c'' ''a'') = Inr (plan_for ''c'' ''a'')"
  by code_simp+

lemma race_addresses:
  "create_addresses md5_example host_example [''a'' \<mapsto> shared_info] [''a''] ''b'' [] None = Inr ([''192.168.100.11''], [])"
  "create_addresses md5_example host_example [''a'' \<mapsto> shared_info, ''b'' \<mapsto> info_text (vm_up vm_b)] [''a'', ''b''] ''c'' [] None =
     Inr ([''192.168.100.12''], [])"
  by code_simp+


end
