(* ===== verification/ClusterConf.thy ===== *)
theory ClusterConf
  imports ClusterCreate
begin

text \<open>
  The cluster block of \<^verbatim>\<open>cfg/local.sh\<close> (\<^verbatim>\<open>vm_cluster.py\<close>, with helpers of
  \<^verbatim>\<open>deploy.py\<close>): the LNet net read from the MGS, the placement of file-backed OSTs, and
  the lines that give every target its host and device.  The free space a node reports is
  an argument.
\<close>

subsection \<open>LNet\<close>

record cluster_lnet =
  ln_nettype :: string
  ln_mgsnid :: string
  ln_large :: bool

datatype lnet_error = LnetNetworks string | LnetNeedsTcp string | LnetNoAddress string string

definition net_char :: "char \<Rightarrow> bool" where
  "net_char c \<longleftrightarrow> (97 \<le> (of_char c :: nat) \<and> (of_char c :: nat) \<le> 122) \<or> isdecimal c"

text \<open>\<^verbatim>\<open>_NET_RE.match\<close>: the type, its index digits and the interfaces, \<open>None\<close> for a group that
  did not take part.\<close>

definition net_re :: "string \<Rightarrow> (string \<times> string \<times> string option) option" where
  "net_re s =
     (let s1 = lstrip s;
          word = takeWhile net_char s1;
          index = rev (takeWhile isdecimal (rev word));
          nettype = take (length word - length index) word;
          rest = lstrip (dropWhile net_char s1)
      in if nettype = [] \<or> isdecimal (hd nettype) then None
         else case rest of
             [] \<Rightarrow> Some (nettype, index, None)
           | c # cs \<Rightarrow>
               if c = CHR '','' then Some (nettype, index, None)
               else if c = CHR ''('' \<and> CHR '')'' \<in> set cs then Some (nettype, index, Some (takeWhile (\<lambda>d. d \<noteq> CHR '')'') cs))
               else None)"

text \<open>\<^verbatim>\<open>output.partition("--\n")\<close>.\<close>

fun probe_split :: "string \<Rightarrow> string \<times> string" where
  "probe_split [] = ([], [])"
| "probe_split (c # cs) =
     (if startswith (c # cs) (''--'' @ [CHR 0x0A]) then ([], drop 3 (c # cs))
      else let (a, b) = probe_split cs in (c # a, b))"

definition addr_line :: "bool \<Rightarrow> string \<Rightarrow> string \<Rightarrow> string option" where
  "addr_line ipv6 iface line =
     (let fs = split_ws line
      in if length fs < 4 \<or> fs ! 1 \<noteq> iface then None
         else if fs ! 2 = (if ipv6 then ''inet6'' else ''inet'') \<and> (\<not> ipv6 \<or> ''global'' \<in> set fs)
         then Some (hd (split_on CHR ''/'' (fs ! 3)))
         else None)"

fun first_some :: "('a \<Rightarrow> 'b option) \<Rightarrow> 'a list \<Rightarrow> 'b option" where
  "first_some f [] = None"
| "first_some f (x # xs) = (case f x of Some y \<Rightarrow> Some y | None \<Rightarrow> first_some f xs)"

definition lnet_from_probe :: "string \<Rightarrow> string \<Rightarrow> (lnet_error, cluster_lnet) result" where
  "lnet_from_probe output ip_family =
     (let (networks, addrs) = probe_split output;
          n = strip networks
      in case net_re (if n = [] then ''tcp0(eth0)'' else n) of
           None \<Rightarrow> Inl (LnetNetworks networks)
         | Some (nettype, index, ifgroup) \<Rightarrow>
             let ifaces = (if get_or [] ifgroup = [] then ''eth0'' else get_or [] ifgroup);
                 iface = strip (hd (split_on CHR '','' ifaces));
                 net = (if index = [] \<or> index = ''0'' then nettype else nettype @ index);
                 ipv6 = (ip_family = ''ipv6'')
             in if ipv6 \<and> nettype \<noteq> ''tcp'' then Inl (LnetNeedsTcp net)
                else case first_some (addr_line ipv6 iface) (splitlines addrs) of
                    Some ip \<Rightarrow> Inr \<lparr>ln_nettype = nettype, ln_mgsnid = ip @ ''@'' @ net, ln_large = ipv6\<rparr>
                  | None \<Rightarrow> Inl (LnetNoAddress iface net))"

subsection \<open>File-backed OSTs\<close>

definition OST_FILE_RESERVE_KB :: int where
  "OST_FILE_RESERVE_KB = 1024 * 1024"

definition OST_FILE_MIN_KB :: int where
  "OST_FILE_MIN_KB = 256 * 1024"

definition ost_file_path :: "int \<Rightarrow> string" where
  "ost_file_path n = ''/var/lib/ltvm/ost-files/ost'' @ str_int n"

definition ost_file_kb :: "int \<Rightarrow> int \<Rightarrow> int \<Rightarrow> int" where
  "ost_file_kb space_kb nfiles cap_kb =
     (let share = (space_kb - OST_FILE_RESERVE_KB) div nfiles;
          capped = (if cap_kb \<noteq> 0 then min share cap_kb else share);
          rounded = capped div 1024 * 1024
      in if rounded \<ge> OST_FILE_MIN_KB then rounded else 0)"

definition min_disk_kb :: "cluster_node list \<Rightarrow> (string, int) dict \<Rightarrow> int" where
  "min_disk_kb nodes disk_sizes =
     (let sizes = map (\<lambda>n. get_or 0 (dict_get disk_sizes (cn_name n))) nodes
      in case sizes of [] \<Rightarrow> 0
         | s # ss \<Rightarrow> if list_ex (\<lambda>x. x = 0) sizes then 0 else fold min ss s div 1024)"

record ost_plan =
  op_hosts :: "(int, string) dict"
  op_size_kb :: int

datatype conf_error =
    ConfCluster cluster_error
  | ConfFstype string
  | ConfNoOss string
  | ConfNode string string
  | ConfSpace string int int

text \<open>OST \<open>first + i\<close> goes to node \<open>i\<close> modulo the number of nodes.\<close>

definition ost_hosts :: "cluster_node list \<Rightarrow> int \<Rightarrow> (int, string) dict" where
  "ost_hosts oss ost_count =
     (let first = sum_list (map cn_ost_disks oss) + 1
      in map (\<lambda>(i, idx). (idx, cn_name (oss ! (i mod length oss))))
           (List.enumerate 0 (py_range first (ost_count + 1))))"

fun ost_sizes :: "(string \<Rightarrow> int list \<Rightarrow> (string, int) result) \<Rightarrow> (int, string) dict \<Rightarrow> int \<Rightarrow> cluster_node list \<Rightarrow> int
    \<Rightarrow> (conf_error, int) result" where
  "ost_sizes space hosts cap_kb [] size_kb = Inr size_kb"
| "ost_sizes space hosts cap_kb (node # nodes) size_kb =
     (let keep = map fst (filter (\<lambda>(i, h). h = cn_name node) hosts)
      in case space (cn_name node) keep of
           Inl e \<Rightarrow> Inl (ConfNode (cn_name node) e)
         | Inr sp \<Rightarrow>
             if keep = [] then ost_sizes space hosts cap_kb nodes size_kb
             else
               let kb = ost_file_kb sp (int (length keep)) cap_kb
               in if kb = 0 then Inl (ConfSpace (cn_name node) (int (length keep)) sp)
                  else ost_sizes space hosts cap_kb nodes (if size_kb \<noteq> 0 then min size_kb kb else kb))"

definition plan_ost_files :: "(string \<Rightarrow> int list \<Rightarrow> (string, int) result) \<Rightarrow> cluster_info \<Rightarrow> int
    \<Rightarrow> (string, int) dict \<Rightarrow> (conf_error, ost_plan option) result" where
  "plan_ost_files space c ost_count disk_sizes =
     res_bind (map_err ConfCluster (oss_nodes c)) (\<lambda>oss.
       if ost_count \<noteq> 0 \<and> oss = [] then Inl (ConfNoOss (ci_name c))
       else
         let hosts = ost_hosts oss ost_count
         in res_map (\<lambda>size_kb. if hosts = [] then None else Some \<lparr>op_hosts = hosts, op_size_kb = size_kb\<rparr>)
              (ost_sizes space hosts (min_disk_kb oss disk_sizes) oss 0))"

subsection \<open>The block\<close>

text \<open>A slot is a node and the number of a disk on it, counted from the root disk.\<close>

type_synonym slot = "cluster_node \<times> int"

definition node_slots :: "(cluster_node \<Rightarrow> int) \<Rightarrow> (cluster_node \<Rightarrow> int) \<Rightarrow> cluster_node \<Rightarrow> slot list" where
  "node_slots offset disks n = map (\<lambda>d. (n, offset n + d)) (py_range 0 (disks n))"

definition mdt_slots :: "cluster_node list \<Rightarrow> slot list" where
  "mdt_slots nodes = concat (map (node_slots (\<lambda>_. 1) cn_mdt_disks) nodes)"

definition ost_offset :: "cluster_node \<Rightarrow> int" where
  "ost_offset n = (if is_mds n then 1 + cn_mdt_disks n else if is_mgs n \<and> \<not> is_mds n then 2 else 1)"

definition ost_slots :: "cluster_node list \<Rightarrow> slot list" where
  "ost_slots nodes = concat (map (node_slots ost_offset cn_ost_disks) nodes)"

definition target_lines :: "(string, string) dict \<Rightarrow> string \<Rightarrow> string \<Rightarrow> int \<Rightarrow> slot \<Rightarrow> string list" where
  "target_lines partner_of dev facet idx s =
     [dev @ str_int idx @ ''=/dev/vd'' @ [disk_letter (snd s)], facet @ str_int idx @ ''_HOST='' @ cn_name (fst s)] @
     (case dict_get partner_of (cn_name (fst s)) of
        Some p \<Rightarrow> [facet @ str_int idx @ ''failover_HOST='' @ p] | None \<Rightarrow> [])"

definition slots_lines :: "(string, string) dict \<Rightarrow> string \<Rightarrow> string \<Rightarrow> slot list \<Rightarrow> string list" where
  "slots_lines partner_of dev facet slots =
     concat (map (\<lambda>(i, s). target_lines partner_of dev facet (int i) s) (List.enumerate 1 slots))"

definition fstype_line :: "string \<Rightarrow> string" where
  "fstype_line fstype = ''FSTYPE=${_ltvm_env_FSTYPE:-'' @ fstype @ ''}''"

definition head_lines :: "string \<Rightarrow> string \<Rightarrow> cluster_lnet \<Rightarrow> string list" where
  "head_lines cname os_family lnet =
     [''# --- Cluster configuration (generated by ltvm cluster deploy) ---'', ''# Cluster: '' @ cname, [],
      ''FSNAME=lustre'', ''NETTYPE='' @ ln_nettype lnet,
      ''FORCE_LARGE_NID='' @ (if ln_large lnet then ''true'' else ''false''), [],
      ''LUSTRE='' @ lustre_libdir os_family, ''RLUSTRE='' @ lustre_libdir os_family,
      ''RPWD='' @ lustre_libdir os_family @ ''/tests'', []]"

definition mgs_lines :: "(string, string) dict \<Rightarrow> cluster_node \<Rightarrow> cluster_lnet \<Rightarrow> string list" where
  "mgs_lines partner_of mgs lnet =
     [''mgs_HOST='' @ cn_name mgs] @
     (case dict_get partner_of (cn_name mgs) of Some p \<Rightarrow> [''mgsfailover_HOST='' @ p] | None \<Rightarrow> []) @
     [''MGSNID='' @ ln_mgsnid lnet] @ (if is_mds mgs then [] else [''MGSDEV=/dev/vdb'']) @ [[]]"

definition mds_lines :: "(string, string) dict \<Rightarrow> (string, int) dict \<Rightarrow> cluster_node list \<Rightarrow> string list" where
  "mds_lines partner_of disk_sizes mds =
     (if mds = [] then []
      else [''mds_HOST='' @ cn_name (hd mds), env_count ''MDSCOUNT'' (sum_list (map cn_mdt_disks mds))] @
        (let kb = min_disk_kb mds disk_sizes in if kb \<noteq> 0 then [''MDSSIZE='' @ str_int kb] else []) @
        slots_lines partner_of ''MDSDEV'' ''mds'' (mdt_slots mds) @ [[]])"

definition file_lines :: "ost_plan option \<Rightarrow> string list" where
  "file_lines files =
     (case files of None \<Rightarrow> []
      | Some p \<Rightarrow> concat (map (\<lambda>(idx, host).
          [''OSTDEV'' @ str_int idx @ ''='' @ ost_file_path idx, ''ost'' @ str_int idx @ ''_HOST='' @ host]) (op_hosts p)))"

definition oss_lines :: "(string, string) dict \<Rightarrow> (string, int) dict \<Rightarrow> int \<Rightarrow> ost_plan option \<Rightarrow> cluster_node list \<Rightarrow> string list" where
  "oss_lines partner_of disk_sizes ost_count files oss =
     (if oss = [] then []
      else [''ost_HOST='' @ cn_name (hd oss),
          env_count ''OSTCOUNT'' (if ost_count \<noteq> 0 then ost_count else sum_list (map cn_ost_disks oss))] @
        (let kb = (case files of Some p \<Rightarrow> op_size_kb p | None \<Rightarrow> min_disk_kb oss disk_sizes)
         in if kb \<noteq> 0 then [''OSTSIZE='' @ str_int kb] else []) @
        slots_lines partner_of ''OSTDEV'' ''ost'' (ost_slots oss) @ file_lines files @ [[]])"

definition client_lines :: "cluster_node list \<Rightarrow> string list" where
  "client_lines clients =
     (if clients = [] then []
      else [''CLIENTS='' @ join '','' (map cn_name clients)] @
        (if tl clients \<noteq> [] then [''RCLIENTS='' @ [CHR 0x22] @ join '' '' (map cn_name (tl clients)) @ [CHR 0x22]] else []) @
        [''CLIENTCOUNT=${CLIENTCOUNT:-'' @ str_nat (length clients) @ ''}''])"

definition tail_lines :: "string \<Rightarrow> string list" where
  "tail_lines fstype =
     [[], fstype_line fstype, ''OSTSEQWIDTH=${OSTSEQWIDTH:-0x20000}'', [],
      ''LCTL=/usr/sbin/lctl'', ''LFS=/usr/bin/lfs'', [],
      ''POWER_DOWN='' @ [CHR 0x22] @ ''/usr/sbin/ltvm-power off'' @ [CHR 0x22],
      ''POWER_UP='' @ [CHR 0x22] @ ''/usr/sbin/ltvm-power on'' @ [CHR 0x22],
      ''ZPOOL=/usr/sbin/ltvm-zpool'', [],
      ''PDSH='' @ [CHR 0x22] @ ''pdsh -S -Rssh -w'' @ [CHR 0x22], ''LOAD_MODULES_REMOTE=true'',
      ''MOUNT=/mnt/lustre'', ''MOUNT1=${MOUNT1:-$MOUNT}'', ''MOUNT2=/mnt/lustre2'',
      ''MOUNT3=${MOUNT3:-${MOUNT}3}'', ''DIR=${DIR:-$MOUNT}'', ''DIR1=${DIR1:-$MOUNT1}'',
      ''DIR2=${DIR2:-$MOUNT2}'', ''DIR3=${DIR3:-$MOUNT3}'', [],
      ''# --- END cluster configuration ---'']"

definition local_sh_lines :: "cluster_info \<Rightarrow> string \<Rightarrow> string \<Rightarrow> cluster_lnet option \<Rightarrow> (string, int) dict \<Rightarrow> int
    \<Rightarrow> ost_plan option \<Rightarrow> (conf_error, string list) result" where
  "local_sh_lines c os_family fstype lnet disk_sizes ost_count files =
     (if fstype \<noteq> ''ldiskfs'' \<and> fstype \<noteq> ''zfs'' then Inl (ConfFstype fstype)
      else
        res_bind (map_err ConfCluster (mgs_node c)) (\<lambda>mgs.
        res_bind (map_err ConfCluster (get_nodes c)) (\<lambda>nodes.
          let l = get_or \<lparr>ln_nettype = ''tcp'', ln_mgsnid = cn_ip mgs @ ''@tcp'', ln_large = False\<rparr> lnet;
              partner_of = partner_dict nodes
          in Inr (head_lines (ci_name c) os_family l @ mgs_lines partner_of mgs l @
               mds_lines partner_of disk_sizes (filter is_mds nodes) @
               oss_lines partner_of disk_sizes ost_count files (filter is_oss nodes) @
               client_lines (filter is_client nodes) @ tail_lines fstype))))"

definition generate_local_sh :: "cluster_info \<Rightarrow> string \<Rightarrow> string \<Rightarrow> cluster_lnet option \<Rightarrow> (string, int) dict \<Rightarrow> int
    \<Rightarrow> ost_plan option \<Rightarrow> (conf_error, string) result" where
  "generate_local_sh c os_family fstype lnet disk_sizes ost_count files =
     res_map (\<lambda>lines. join [CHR 0x0A] lines @ [CHR 0x0A])
       (local_sh_lines c os_family fstype lnet disk_sizes ost_count files)"

definition expected_targets :: "cluster_info \<Rightarrow> int \<Rightarrow> (cluster_error, int) result" where
  "expected_targets c ost_count =
     res_bind (get_nodes c) (\<lambda>nodes.
     res_bind (mgs_node c) (\<lambda>mgs.
       Inr (sum_list (map cn_mdt_disks (filter is_mds nodes)) +
         (if ost_count \<noteq> 0 then ost_count else sum_list (map cn_ost_disks (filter is_oss nodes))) +
         (if is_mds mgs then 0 else 1))))"

subsection \<open>Every disk of every node is one target\<close>

definition node_disks :: "cluster_node \<Rightarrow> int" where
  "node_disks n = (cn_mdt_disks n + mgs_disk n) + cn_ost_disks n"

definition mgs_slots :: "cluster_node \<Rightarrow> slot list" where
  "mgs_slots mgs = (if is_mds mgs then [] else [(mgs, 1)])"

definition target_slots :: "cluster_node \<Rightarrow> cluster_node list \<Rightarrow> slot list" where
  "target_slots mgs nodes = mgs_slots mgs @ mdt_slots (filter is_mds nodes) @ ost_slots (filter is_oss nodes)"

abbreviation slots_of :: "cluster_node \<Rightarrow> slot list \<Rightarrow> int list" where
  "slots_of n slots \<equiv> map snd (filter (\<lambda>s. cn_name (fst s) = cn_name n) slots)"

lemma slots_of_node [simp]:
  "slots_of n (node_slots offset disks m) =
     (if cn_name m = cn_name n then map (\<lambda>d. offset m + d) (py_range 0 (disks m)) else [])"
  by (simp add: node_slots_def filter_map comp_def)

lemma slots_of_concat:
  assumes "distinct (map cn_name ms)"
  shows "slots_of n (concat (map (node_slots offset disks) ms)) =
    (case find (\<lambda>m. cn_name m = cn_name n) ms of
       Some m \<Rightarrow> map (\<lambda>d. offset m + d) (py_range 0 (disks m)) | None \<Rightarrow> [])"
  using assms
proof (induction ms)
  case (Cons m ms)
  show ?case
  proof (cases "cn_name m = cn_name n")
    case True
    with Cons.prems have "find (\<lambda>m. cn_name m = cn_name n) ms = None" by (auto simp: find_None_iff image_iff)
    with True Cons show ?thesis by simp
  qed (use Cons in simp)
qed simp

lemma find_named:
  assumes "distinct (map cn_name nodes)" "n \<in> set nodes"
  shows "find (\<lambda>m. cn_name m = cn_name n) (filter P nodes) = (if P n then Some n else None)"
proof (cases "P n")
  case True
  then obtain m where m: "find (\<lambda>m. cn_name m = cn_name n) (filter P nodes) = Some m"
    using assms(2) by (cases "find (\<lambda>m. cn_name m = cn_name n) (filter P nodes)") (auto simp: find_None_iff)
  then have "m \<in> set nodes" "cn_name m = cn_name n" using find_Some_iff_first by fastforce+
  then have "m = n" using assms by (meson distinct_map inj_onD)
  with m True show ?thesis by simp
next
  case False
  have "cn_name m = cn_name n \<Longrightarrow> m \<in> set nodes \<Longrightarrow> m = n" for m
    using assms by (meson distinct_map inj_onD)
  with False show ?thesis by (auto simp: find_None_iff)
qed

lemma py_range_from: "map (\<lambda>d. a + d) (py_range 0 n) = py_range a (a + n)"
  unfolding py_range_def by (rule nth_equalityI) (auto simp: nth_upto)

lemma py_range_join: "a \<le> b \<Longrightarrow> b \<le> c \<Longrightarrow> py_range a b @ py_range b c = py_range a c"
  unfolding py_range_def using upto_split2 [of a "b - 1" "c - 1"] by (cases "a = b") auto

lemma slots_of_mgs:
  assumes "length (filter is_mgs nodes) = 1" "find is_mgs nodes = Some mgs" "n \<in> set nodes"
    "distinct (map cn_name nodes)"
  shows "slots_of n (mgs_slots mgs) = py_range 1 (1 + mgs_disk n)"
proof -
  have mgs: "mgs \<in> set nodes" "is_mgs mgs" using find_Some_iff_first [OF assms(2)] by auto
  have "is_mgs n \<Longrightarrow> n = mgs"
  proof -
    assume "is_mgs n"
    then have "n \<in> set (filter is_mgs nodes)" "mgs \<in> set (filter is_mgs nodes)" using assms(3) mgs by auto
    then show "n = mgs" using assms(1) by (cases "filter is_mgs nodes") auto
  qed
  moreover have "cn_name mgs = cn_name n \<Longrightarrow> n = mgs" using assms(3,4) mgs(1) by (metis distinct_map inj_onD)
  moreover have "py_range 1 1 = []" "py_range 1 2 = [1]" by (simp_all add: py_range_def)
  ultimately show ?thesis using mgs(2) by (auto simp: mgs_slots_def mgs_disk_def)
qed

lemma node_slots_exact:
  assumes "cluster_shape nodes" "find is_mgs nodes = Some mgs" "n \<in> set nodes"
  shows "slots_of n (target_slots mgs nodes) = py_range 1 (1 + node_disks n)"
proof -
  have names: "distinct (map cn_name nodes)" "distinct (map cn_name (filter P nodes))" for P
    using assms(1) distinct_map_filter by (auto simp: cluster_shape_def)
  have counts: "counts_ok n" using assms(1,3) by (auto simp: cluster_shape_def list_all_iff)
  note find = find_named [OF names(1) assms(3)]
  have zero: "py_range a a = []" for a by (simp add: py_range_def)
  have mdt: "slots_of n (mdt_slots (filter is_mds nodes)) = py_range 1 (1 + cn_mdt_disks n)"
    using counts unfolding mdt_slots_def slots_of_concat [OF names(2)] find
    by (auto simp: py_range_from counts_ok_def zero)
  have ost: "slots_of n (ost_slots (filter is_oss nodes)) = py_range (ost_offset n) (ost_offset n + cn_ost_disks n)"
    using counts unfolding ost_slots_def slots_of_concat [OF names(2)] find
    by (auto simp: py_range_from counts_ok_def zero)
  have mgs: "slots_of n (mgs_slots mgs) = py_range 1 (1 + mgs_disk n)"
    using slots_of_mgs [OF _ assms(2,3) names(1)] assms(1) unfolding cluster_shape_def by blast
  have "ost_offset n = 1 + cn_mdt_disks n + mgs_disk n" "is_mds n \<Longrightarrow> mgs_disk n = 0" "\<not> is_mds n \<Longrightarrow> cn_mdt_disks n = 0" "0 \<le> mgs_disk n"
    using counts by (auto simp: ost_offset_def mgs_disk_def counts_ok_def)
  then have "py_range 1 (1 + mgs_disk n) @ py_range 1 (1 + cn_mdt_disks n) = py_range 1 (ost_offset n)"
    by (cases "is_mds n") (auto simp: zero)
  moreover have "1 \<le> ost_offset n" "0 \<le> cn_ost_disks n" "1 + node_disks n = ost_offset n + cn_ost_disks n"
    using counts \<open>ost_offset n = _\<close> \<open>0 \<le> mgs_disk n\<close> by (auto simp: counts_ok_def node_disks_def)
  ultimately show ?thesis
    using py_range_join [of 1 "ost_offset n" "ost_offset n + cn_ost_disks n"]
    by (simp add: target_slots_def mdt ost mgs flip: append_assoc)
qed

lemma slots_lines_mem:
  assumes "i < length slots"
  shows "set (target_lines partner_of dev facet (int i + 1) (slots ! i)) \<subseteq> set (slots_lines partner_of dev facet slots)"
proof -
  have "(i + 1, slots ! i) \<in> set (List.enumerate 1 slots)"
    using assms by (force simp: in_set_enumerate_eq)
  then have "target_lines partner_of dev facet (int (i + 1)) (slots ! i) \<in>
      set (map (\<lambda>(i, s). target_lines partner_of dev facet (int i) s) (List.enumerate 1 slots))"
    by force
  then show ?thesis unfolding slots_lines_def by (force simp: add.commute)
qed


lemma ost_file_kb_fits:
  assumes "0 < n" "ost_file_kb sp n cap \<noteq> 0"
  shows "OST_FILE_MIN_KB \<le> ost_file_kb sp n cap" "ost_file_kb sp n cap mod 1024 = 0"
    "cap \<noteq> 0 \<Longrightarrow> ost_file_kb sp n cap \<le> cap" "n * ost_file_kb sp n cap + OST_FILE_RESERVE_KB \<le> sp"
proof -
  define share where "share = (sp - OST_FILE_RESERVE_KB) div n"
  define capped where "capped = (if cap \<noteq> 0 then min share cap else share)"
  have kb: "ost_file_kb sp n cap = capped div 1024 * 1024" "OST_FILE_MIN_KB \<le> capped div 1024 * 1024"
    using assms(2) by (auto simp: ost_file_kb_def Let_def share_def capped_def split: if_splits)
  then show "OST_FILE_MIN_KB \<le> ost_file_kb sp n cap" "ost_file_kb sp n cap mod 1024 = 0" by simp_all
  have le: "capped div 1024 * 1024 \<le> capped" by simp
  then show "cap \<noteq> 0 \<Longrightarrow> ost_file_kb sp n cap \<le> cap" using kb(1) by (simp add: capped_def split: if_splits)
  have "capped div 1024 * 1024 \<le> share" using le by (simp add: capped_def split: if_splits)
  then have "n * (capped div 1024 * 1024) \<le> n * share" using assms(1) by (simp add: mult_left_mono)
  also have "n * share \<le> sp - OST_FILE_RESERVE_KB"
    using assms(1) unfolding share_def by (metis add_le_same_cancel1 div_mult_mod_eq le_add_same_cancel1 mult.commute pos_mod_sign)
  finally show "n * ost_file_kb sp n cap + OST_FILE_RESERVE_KB \<le> sp" using kb(1) by simp
qed

definition files_on :: "(int, string) dict \<Rightarrow> cluster_node \<Rightarrow> int list" where
  "files_on hosts n = map fst (filter (\<lambda>(i, h). h = cn_name n) hosts)"

definition ost_fit :: "(string \<Rightarrow> int list \<Rightarrow> (string, int) result) \<Rightarrow> (int, string) dict \<Rightarrow> int \<Rightarrow> cluster_node \<Rightarrow> bool" where
  "ost_fit space hosts kb n \<longleftrightarrow> files_on hosts n = [] \<or>
     (\<exists>sp. space (cn_name n) (files_on hosts n) = Inr sp \<and>
       int (length (files_on hosts n)) * kb + OST_FILE_RESERVE_KB \<le> sp)"

lemma ost_fit_mono: "ost_fit space hosts kb n \<Longrightarrow> kb' \<le> kb \<Longrightarrow> ost_fit space hosts kb' n"
  unfolding ost_fit_def by (meson add_mono_thms_linordered_semiring(3) mult_left_mono of_nat_0_le_iff order_trans)

lemma ost_sizes_ok:
  assumes "ost_sizes space hosts cap nodes s = Inr r" "0 \<le> s"
  shows "0 \<le> r \<and> (s \<noteq> 0 \<longrightarrow> r \<noteq> 0 \<and> r \<le> s) \<and> list_all (ost_fit space hosts r) nodes \<and>
    (r = s \<or> OST_FILE_MIN_KB \<le> r \<and> r mod 1024 = 0 \<and> (cap \<noteq> 0 \<longrightarrow> r \<le> cap)) \<and>
    (r = 0 \<longrightarrow> list_all (\<lambda>n. files_on hosts n = []) nodes)"
  using assms
proof (induction nodes arbitrary: s)
  case (Cons n nodes)
  obtain sp where sp: "space (cn_name n) (files_on hosts n) = Inr sp"
    using Cons.prems(1) by (auto simp: files_on_def Let_def split: sum.split_asm)
  show ?case
  proof (cases "files_on hosts n = []")
    case True
    with Cons.prems sp have "ost_sizes space hosts cap nodes s = Inr r" by (simp add: files_on_def Let_def)
    from Cons.IH [OF this Cons.prems(2)] True show ?thesis by (simp add: ost_fit_def)
  next
    case False
    define kb where "kb = ost_file_kb sp (int (length (files_on hosts n))) cap"
    define s' where "s' = (if s \<noteq> 0 then min s kb else kb)"
    have rest: "kb \<noteq> 0" "ost_sizes space hosts cap nodes s' = Inr r"
      using Cons.prems(1) sp False by (auto simp: files_on_def Let_def kb_def s'_def split: if_splits)
    have kb: "OST_FILE_MIN_KB \<le> kb" "kb mod 1024 = 0" "cap \<noteq> 0 \<Longrightarrow> kb \<le> cap" "ost_fit space hosts kb n"
      using ost_file_kb_fits [of "int (length (files_on hosts n))" sp cap] False rest(1) sp
      unfolding ost_fit_def kb_def by auto
    have s': "0 < s'" "s' \<le> kb" "s \<noteq> 0 \<Longrightarrow> s' \<le> s" "s' = s \<or> s' = kb"
      using kb(1) Cons.prems(2) by (auto simp: s'_def OST_FILE_MIN_KB_def)
    have IH: "0 \<le> r \<and> r \<noteq> 0 \<and> r \<le> s' \<and> list_all (ost_fit space hosts r) nodes \<and>
        (r = s' \<or> OST_FILE_MIN_KB \<le> r \<and> r mod 1024 = 0 \<and> (cap \<noteq> 0 \<longrightarrow> r \<le> cap))"
      using Cons.IH [OF rest(2)] s'(1) by simp
    have "ost_fit space hosts r n" using ost_fit_mono [OF kb(4)] IH s'(2) by simp
    moreover have "r = s \<or> OST_FILE_MIN_KB \<le> r \<and> r mod 1024 = 0 \<and> (cap \<noteq> 0 \<longrightarrow> r \<le> cap)"
      using IH s'(4) kb(1-3) by metis
    moreover have "s \<noteq> 0 \<Longrightarrow> r \<le> s" using IH s'(3) by linarith
    ultimately show ?thesis using IH by simp
  qed
qed (simp)

lemma ost_hosts_shape:
  "map fst (ost_hosts oss k) = py_range (sum_list (map cn_ost_disks oss) + 1) (k + 1)"
  "oss \<noteq> [] \<Longrightarrow> set (map snd (ost_hosts oss k)) \<subseteq> cn_name ` set oss"
proof -
  let ?first = "sum_list (map cn_ost_disks oss) + 1"
  have "map fst (ost_hosts oss k) = map snd (List.enumerate 0 (py_range ?first (k + 1)))"
    by (simp add: ost_hosts_def Let_def split_def comp_def)
  then show "map fst (ost_hosts oss k) = py_range ?first (k + 1)" by simp
  show "oss \<noteq> [] \<Longrightarrow> set (map snd (ost_hosts oss k)) \<subseteq> cn_name ` set oss"
    by (auto simp: ost_hosts_def Let_def split_def)
qed

text \<open>
  The file-backed OSTs of a plan are exactly those past the disks, each on an OSS node,
  and the size they get fits: on every node the files and the reserve together stay
  within the space the node reported, and the size is a whole number of MiB and no smaller
  than the minimum.
\<close>

theorem ost_files_fit:
  assumes "plan_ost_files space c k disk_sizes = Inr (Some p)" "oss_nodes c = Inr oss"
  shows "map fst (op_hosts p) = py_range (sum_list (map cn_ost_disks oss) + 1) (k + 1) \<and>
    set (map snd (op_hosts p)) \<subseteq> cn_name ` set oss \<and>
    OST_FILE_MIN_KB \<le> op_size_kb p \<and> op_size_kb p mod 1024 = 0 \<and>
    list_all (ost_fit space (op_hosts p) (op_size_kb p)) oss"
proof -
  from assms have hosts: "op_hosts p = ost_hosts oss k" "ost_hosts oss k \<noteq> []"
    and sizes: "ost_sizes space (ost_hosts oss k) (min_disk_kb oss disk_sizes) oss 0 = Inr (op_size_kb p)"
    and k: "k = 0 \<or> oss \<noteq> []"
    by (auto simp: plan_ost_files_def res_map_eq_Inr Let_def split: if_splits)
  have "oss \<noteq> []"
  proof
    assume "oss = []"
    then have "map fst (ost_hosts oss k) = []" using k ost_hosts_shape(1) [of oss k] by (simp add: py_range_def)
    then show False using hosts(2) by simp
  qed
  note shape = ost_hosts_shape(1) [of oss k] ost_hosts_shape(2) [OF this, of k]
  obtain i h where ih: "(i, h) \<in> set (ost_hosts oss k)" using hosts(2) by (cases "ost_hosts oss k") auto
  then obtain n where n: "n \<in> set oss" "h = cn_name n" using shape(2) by (force simp: image_iff)
  then have "files_on (ost_hosts oss k) n \<noteq> []" using ih by (auto simp: files_on_def filter_empty_conv)
  then have "op_size_kb p \<noteq> 0" using ost_sizes_ok [OF sizes] n(1) by (auto simp: list_all_iff)
  then show ?thesis using ost_sizes_ok [OF sizes] shape hosts(1) by simp
qed

definition cluster_example_info :: cluster_info where
  "cluster_example_info = cluster_record ''c'' ''pid:7'' cluster_nodes_example"

lemma cluster_example_nodes: "get_nodes cluster_example_info = Inr cluster_nodes_example"
  by (simp add: cluster_example_info_def)

lemma cluster_example_shape: "cluster_shape cluster_nodes_example"
  by code_simp

lemma cluster_example_mgs: "mgs_node cluster_example_info = Inr (hd cluster_nodes_example)"
proof -
  have "find is_mgs cluster_nodes_example = Some (hd cluster_nodes_example)" by code_simp
  then show ?thesis by (simp add: mgs_node_def cluster_example_nodes)
qed

lemma cluster_example_text:
  "\<exists>contents. generate_local_sh cluster_example_info ''rhel'' ''ldiskfs'' None [] 0 None = Inr contents"
  by (simp add: generate_local_sh_def local_sh_lines_def cluster_example_mgs cluster_example_nodes Let_def)


definition space_example :: "string \<Rightarrow> int list \<Rightarrow> (string, int) result" where
  "space_example _ _ = Inr 4194304"

theorem ost_files_fit_witness:
  "map fst (op_hosts \<lparr>op_hosts = [(3, ''o''), (4, ''o'')], op_size_kb = 1572864\<rparr>) = [3, 4]"
proof -
  have oss: "oss_nodes cluster_example_info = Inr [cluster_nodes_example ! 1]"
    by (simp add: oss_nodes_def cluster_example_nodes) (simp add: cluster_nodes_example_def is_oss_def)
  have "plan_ost_files space_example cluster_example_info 4 [] =
      Inr (Some \<lparr>op_hosts = [(3, ''o''), (4, ''o'')], op_size_kb = 1572864\<rparr>)"
    unfolding plan_ost_files_def oss by code_simp
  from ost_files_fit [OF this oss] show ?thesis
    by (simp add: cluster_nodes_example_def py_range_def upto_rec1)
qed

end
