(* ===== verification/ClusterFacets.thy ===== *)
theory ClusterFacets
  imports ClusterConf
begin

text \<open>
  The facets of the nodes of a cluster (\<^verbatim>\<open>node_facets\<close> of \<^verbatim>\<open>cluster_failover.py\<close>): the names the
  test framework has for the targets a node holds, found by matching the lines of the
  cluster block that \<^verbatim>\<open>generate_local_sh\<close> writes.  The lemmas show that the block can be
  read back: every target is found on its host, and nothing else is.
\<close>

subsection \<open>The facets of a node\<close>

text \<open>One line against \<^verbatim>\<open>^(mgs|mds\d+|ost\d+)_HOST=(\S+)$\<close>: what comes before the first
  underscore, and the rest of the line.\<close>

definition facet_key :: "string \<Rightarrow> bool" where
  "facet_key k \<longleftrightarrow>
     k = ''mgs'' \<or>
     (take 3 k = ''mds'' \<or> take 3 k = ''ost'') \<and> drop 3 k \<noteq> [] \<and> list_all isdecimal (drop 3 k)"

definition facet_line :: "string \<Rightarrow> (string \<times> string) list" where
  "facet_line l =
     (let k = takeWhile (\<lambda>c. c \<noteq> CHR ''_'') l;
          r = drop (length k) l;
          host = drop 6 r
      in if facet_key k \<and> startswith r ''_HOST='' \<and> host \<noteq> [] \<and> list_all (\<lambda>c. \<not> isspace c) host
         then [(k, host)] else [])"

definition add_facet :: "bool \<Rightarrow> string \<times> string \<Rightarrow> (string, string list) dict \<Rightarrow> (string, string list) dict" where
  "add_facet separate_mgs row d =
     (if fst row = ''mgs'' \<and> \<not> separate_mgs then d
      else dict_set d (snd row) (get_or [] (dict_get d (snd row)) @ [fst row]))"

definition node_facets :: "cluster_info \<Rightarrow> (conf_error, (string, string list) dict) result" where
  "node_facets c =
     res_map (\<lambda>contents.
       fold (add_facet (contains ''MGSDEV='' contents)) (concat (map facet_line (split_on CHR 0x0A contents))) [])
     (generate_local_sh c ''rhel'' ''ldiskfs'' None [] 0 None)"

subsection \<open>Lemmas: reading the block back\<close>

text \<open>The targets of a cluster with their hosts, in the order of the block.\<close>

definition slot_facets :: "string \<Rightarrow> slot list \<Rightarrow> (string \<times> string) list" where
  "slot_facets kind slots = map (\<lambda>(i, s). (kind @ str_nat i, cn_name (fst s))) (List.enumerate 1 slots)"

definition target_facets :: "cluster_node \<Rightarrow> cluster_node list \<Rightarrow> (string \<times> string) list" where
  "target_facets mgs nodes =
     map (\<lambda>s. (''mgs'', cn_name (fst s))) (mgs_slots mgs) @
     slot_facets ''mds'' (mdt_slots (filter is_mds nodes)) @ slot_facets ''ost'' (ost_slots (filter is_oss nodes))"

text \<open>A text of the block: one line, and no second \<open>=\<close>.\<close>

definition block_word :: "string \<Rightarrow> bool" where
  "block_word s \<longleftrightarrow> CHR ''='' \<notin> set s \<and> CHR 0x0A \<notin> set s"

definition host_word :: "string \<Rightarrow> bool" where
  "host_word s \<longleftrightarrow> s \<noteq> [] \<and> list_all (\<lambda>c. \<not> isspace c \<and> c \<noteq> CHR ''='') s"

lemma host_word_block: "host_word s \<Longrightarrow> block_word s"
  by (auto simp: host_word_def block_word_def list_all_iff isspace_def ascii_space_def)

lemma facet_key_plain:
  assumes "facet_key k"
  shows "CHR ''_'' \<notin> set k"
proof -
  have "CHR ''_'' \<notin> set (drop 3 k)" if "list_all isdecimal (drop 3 k)" using that by (auto simp: list_all_iff isdecimal_def)
  moreover have "set k = set (take 3 k) \<union> set (drop 3 k)" by (metis append_take_drop_id set_append)
  moreover have "CHR ''_'' \<notin> set ''mds''" "CHR ''_'' \<notin> set ''ost''" "CHR ''_'' \<notin> set ''mgs''" by simp_all
  ultimately show ?thesis using assms unfolding facet_key_def by (metis Un_iff)
qed

lemma facet_line_host: "facet_key k \<Longrightarrow> host_word h \<Longrightarrow> facet_line (k @ ''_HOST='' @ h) = [(k, h)]"
  using facet_key_plain [of k]
  by (auto simp: facet_line_def Let_def takeWhile_append startswith_def host_word_def list_all_iff)

lemma facet_line_other: "c \<noteq> CHR ''m'' \<Longrightarrow> c \<noteq> CHR ''o'' \<Longrightarrow> facet_line (c # l) = []" "facet_line [] = []"
  by (auto simp: facet_line_def Let_def facet_key_def)

lemma facet_line_key: "CHR ''_'' \<notin> set k \<Longrightarrow> \<not> facet_key k \<Longrightarrow> facet_line (k @ CHR ''_'' # r) = []"
  by (auto simp: facet_line_def Let_def takeWhile_append)

lemma kind_key:
  assumes "k = ''mds'' \<or> k = ''ost''"
  shows "facet_key (k @ str_nat i)" "\<not> facet_key (k @ str_nat i @ ''failover'')"
proof -
  have parts: "take 3 (k @ s) = k" "drop 3 (k @ s) = s" for s using assms by auto
  have "list_all isdecimal (str_nat i)" using str_nat_decimal by (auto simp: list_all_iff)
  moreover have "\<not> list_all isdecimal (str_nat i @ ''failover'')" by (simp add: isdecimal_def)
  moreover have "k @ s \<noteq> ''mgs''" for s using assms by auto
  ultimately show "facet_key (k @ str_nat i)" "\<not> facet_key (k @ str_nat i @ ''failover'')"
    using assms unfolding facet_key_def parts by auto
qed

lemma facet_line_failover:
  assumes "k = ''mds'' \<or> k = ''ost''"
  shows "facet_line (k @ str_nat i @ ''failover_HOST='' @ h) = []"
proof -
  have "CHR ''_'' \<notin> set (k @ str_nat i @ ''failover'')" using assms str_nat_decimal [of "CHR ''_''" i] by (auto simp: isdecimal_def)
  from facet_line_key [OF this kind_key(2) [OF assms], of "''HOST='' @ h"] show ?thesis by simp
qed

lemma str_int_of_nat [simp]: "str_int (int n) = str_nat n"
  by (simp add: str_int_def)

lemma target_lines_facets:
  assumes "kind = ''mds'' \<and> dev = ''MDSDEV'' \<or> kind = ''ost'' \<and> dev = ''OSTDEV''" "host_word (cn_name (fst s))"
  shows "concat (map facet_line (target_lines pd dev kind (int i) s)) = [(kind @ str_nat i, cn_name (fst s))]"
proof -
  have k: "kind = ''mds'' \<or> kind = ''ost''" using assms(1) by auto
  have "facet_line (dev @ str_nat i @ ''=/dev/vd'' @ [disk_letter (snd s)]) = []" using assms(1) by (auto simp: facet_line_other)
  moreover have "facet_line (kind @ str_nat i @ ''_HOST='' @ cn_name (fst s)) = [(kind @ str_nat i, cn_name (fst s))]"
    using facet_line_host [OF kind_key(1) [OF k] assms(2), of i] by simp
  ultimately show ?thesis
    using facet_line_failover [OF k, of i] by (cases "dict_get pd (cn_name (fst s))") (simp_all add: target_lines_def)
qed

lemma slots_lines_facets:
  assumes "kind = ''mds'' \<and> dev = ''MDSDEV'' \<or> kind = ''ost'' \<and> dev = ''OSTDEV''" "list_all (\<lambda>s. host_word (cn_name (fst s))) slots"
  shows "concat (map facet_line (slots_lines pd dev kind slots)) = slot_facets kind slots"
proof -
  have "concat (map facet_line (concat (map (\<lambda>(i, s). target_lines pd dev kind (int i) s) (List.enumerate n slots)))) =
      map (\<lambda>(i, s). (kind @ str_nat i, cn_name (fst s))) (List.enumerate n slots)" for n
    using assms(2) by (induction slots arbitrary: n) (auto simp: target_lines_facets [OF assms(1)])
  then show ?thesis by (simp add: slots_lines_def slot_facets_def)
qed

text \<open>A line without a newline that does not name the device of a separate MGS.\<close>

definition clean_line :: "string \<Rightarrow> bool" where
  "clean_line l \<longleftrightarrow> CHR 0x0A \<notin> set l \<and> \<not> contains ''MGSDEV='' l"

lemma contains_iff: "contains p s \<longleftrightarrow> (\<exists>a b. s = a @ p @ b)"
proof (induction s)
  case (Cons x s)
  have "(\<exists>a b. x # s = a @ p @ b) \<longleftrightarrow> (\<exists>b. x # s = p @ b) \<or> (\<exists>a b. s = a @ p @ b)"
  proof
    assume "\<exists>a b. x # s = a @ p @ b"
    then obtain a b where "x # s = a @ p @ b" by blast
    then show "(\<exists>b. x # s = p @ b) \<or> (\<exists>a b. s = a @ p @ b)" by (cases a) auto
  next
    assume "(\<exists>b. x # s = p @ b) \<or> (\<exists>a b. s = a @ p @ b)"
    then show "\<exists>a b. x # s = a @ p @ b" by (metis append_Cons append_Nil)
  qed
  moreover have "startswith (x # s) p \<longleftrightarrow> (\<exists>b. x # s = p @ b)"
    unfolding startswith_def by (metis append_eq_conv_conj append_take_drop_id)
  ultimately show ?case using Cons.IH by simp
qed simp

lemma contains_sep:
  assumes "c \<notin> set p" "p \<noteq> []"
  shows "contains p (w @ c # r) \<longleftrightarrow> contains p w \<or> contains p r"
proof
  assume "contains p (w @ c # r)"
  then obtain a b where "a @ p @ b = w @ c # r" unfolding contains_iff by metis
  then consider us where "a = w @ us" "us @ p @ b = c # r" | us where "w = a @ us" "p @ b = us @ c # r"
    by (auto simp: append_eq_append_conv2)
  then show "contains p w \<or> contains p r"
  proof cases
    case (1 us)
    with assms obtain us' where "us = c # us'" by (cases us; cases p) auto
    with 1 show ?thesis unfolding contains_iff by auto
  next
    case (2 us)
    then consider vs where "p = us @ vs" "vs @ b = c # r" | vs where "us = p @ vs" by (auto simp: append_eq_append_conv2)
    then show ?thesis
    proof cases
      case (1 vs)
      with assms(1) have "vs = []" by (cases vs) auto
      with 1 2 show ?thesis unfolding contains_iff by (metis append_Nil2)
    next
      case (2 vs)
      with \<open>w = a @ us\<close> show ?thesis unfolding contains_iff by auto
    qed
  qed
next
  assume "contains p w \<or> contains p r"
  then show "contains p (w @ c # r)" unfolding contains_iff by (metis append.assoc append_Cons)
qed

lemma contains_join: "c \<notin> set p \<Longrightarrow> p \<noteq> [] \<Longrightarrow> contains p (join [c] ls) \<longleftrightarrow> list_ex (contains p) ls"
proof (induction "[c]" ls rule: join.induct)
  case (3 w v ws)
  then show ?case using contains_sep [of c p w "join [c] (v # ws)"] by simp
qed simp_all

lemma contains_key:
  assumes "CHR ''='' \<notin> set k" "CHR ''='' \<notin> set v" "contains (q @ ''='') (k @ CHR ''='' # v)"
  shows "\<exists>a. k = a @ q"
proof -
  from assms(3) obtain a b where eq: "(a @ q) @ CHR ''='' # b = k @ CHR ''='' # v" unfolding contains_iff by auto
  have "CHR ''='' \<notin> set (a @ q)"
  proof
    assume "CHR ''='' \<in> set (a @ q)"
    then obtain x y where "a @ q = x @ CHR ''='' # y" "CHR ''='' \<notin> set x" by (meson split_list_first)
    with eq have "x @ CHR ''='' # (y @ CHR ''='' # b) = k @ CHR ''='' # v" by simp
    from first_part_unique(2) [OF this \<open>CHR ''='' \<notin> set x\<close> assms(1)] assms(2) show False by auto
  qed
  from first_part_unique(1) [OF eq this assms(1)] show ?thesis by blast
qed

lemma clean_kv:
  assumes "block_word k" "block_word v" "last k \<noteq> CHR ''V''"
  shows "clean_line (k @ CHR ''='' # v)"
proof -
  have "\<not> contains (''MGSDEV'' @ ''='') (k @ CHR ''='' # v)"
  proof
    assume "contains (''MGSDEV'' @ ''='') (k @ CHR ''='' # v)"
    then obtain a where "k = a @ ''MGSDEV''" using contains_key assms(1,2) unfolding block_word_def by blast
    then show False using assms(3) by simp
  qed
  then show ?thesis using assms(1,2) by (simp add: clean_line_def block_word_def)
qed

lemma clean_word: "block_word l \<Longrightarrow> clean_line l"
  unfolding clean_line_def block_word_def contains_iff by auto

lemma block_word_append [simp]: "block_word (a @ b) \<longleftrightarrow> block_word a \<and> block_word b"
  by (auto simp: block_word_def)

lemma block_word_nums: "block_word (str_nat n)" "block_word (str_int i)"
  using str_nat_decimal [of _ n] str_int_chars [of _ i] by (auto simp: block_word_def isdecimal_def)

lemma block_word_join: "block_word sep \<Longrightarrow> list_all block_word ws \<Longrightarrow> block_word (join sep ws)"
  using set_join [of sep ws] by (auto simp: block_word_def list_all_iff)

lemma partner_dict_names: "dict_get (partner_dict nodes) k = Some p \<Longrightarrow> p \<in> cn_name ` set nodes"
proof -
  have "dict_get (fold (\<lambda>n d. if cn_failover_for n \<noteq> [] then dict_set d (cn_failover_for n) (cn_name n) else d) nodes d) k = Some p \<Longrightarrow>
      p \<in> cn_name ` set nodes \<or> dict_get d k = Some p" for d
    by (induction nodes arbitrary: d) (fastforce split: if_splits)+
  from this [of "[]"] show "dict_get (partner_dict nodes) k = Some p \<Longrightarrow> p \<in> cn_name ` set nodes"
    by (simp add: partner_dict_def)
qed

definition block_ok :: "cluster_info \<Rightarrow> cluster_node \<Rightarrow> cluster_node list \<Rightarrow> bool" where
  "block_ok c mgs nodes \<longleftrightarrow> block_word (ci_name c) \<and> block_word (cn_ip mgs) \<and>
     list_all (\<lambda>n. host_word (cn_name n) \<and> node_disks n \<le> 25) nodes"

lemma clean_literals:
  "list_all clean_line (head_lines [] ''rhel'' \<lparr>ln_nettype = ''tcp'', ln_mgsnid = ip, ln_large = False\<rparr>)"
  "list_all clean_line (tail_lines ''ldiskfs'')"
  "concat (map facet_line (head_lines [] ''rhel'' \<lparr>ln_nettype = ''tcp'', ln_mgsnid = ip, ln_large = False\<rparr>)) = []"
  "concat (map facet_line (tail_lines ''ldiskfs'')) = []"
  unfolding clean_line_def by code_simp+

lemma head_lines_cluster: "head_lines cname f l = (head_lines [] f l)[1 := ''# Cluster: '' @ cname]"
  by (simp add: head_lines_def)

lemma head_lines_plain:
  assumes "block_word cname"
  shows "list_all clean_line (head_lines cname ''rhel'' \<lparr>ln_nettype = ''tcp'', ln_mgsnid = ip, ln_large = False\<rparr>)"
    "concat (map facet_line (head_lines cname ''rhel'' \<lparr>ln_nettype = ''tcp'', ln_mgsnid = ip, ln_large = False\<rparr>)) = []"
proof -
  have "block_word (''# Cluster: '' @ cname)" "facet_line (''# Cluster: '' @ cname) = []"
    using assms by (simp_all add: facet_line_other) (simp add: block_word_def)
  then show "list_all clean_line (head_lines cname ''rhel'' \<lparr>ln_nettype = ''tcp'', ln_mgsnid = ip, ln_large = False\<rparr>)"
    "concat (map facet_line (head_lines cname ''rhel'' \<lparr>ln_nettype = ''tcp'', ln_mgsnid = ip, ln_large = False\<rparr>)) = []"
    using clean_literals(1,3) [of ip] clean_word [of "''# Cluster: '' @ cname"]
    unfolding head_lines_cluster [of cname] list_all_iff
    by (auto dest!: set_update_subset_insert [THEN subsetD])
qed

lemma client_lines_plain:
  assumes "list_all (\<lambda>n. host_word (cn_name n)) ns"
  shows "list_all clean_line (client_lines ns)" "concat (map facet_line (client_lines ns)) = []"
proof -
  have words: "block_word (join sep (map cn_name xs))" if "set xs \<subseteq> set ns" "block_word sep" for xs sep
    using that assms host_word_block by (intro block_word_join) (auto simp: list_all_iff)
  have sub: "set (tl ns) \<subseteq> set ns" by (cases ns) auto
  have "clean_line (''CLIENTS'' @ CHR ''='' # join '','' (map cn_name ns))"
    by (intro clean_kv words) (simp_all add: block_word_def)
  moreover have "clean_line (''RCLIENTS'' @ CHR ''='' # [CHR 0x22] @ join '' '' (map cn_name (tl ns)) @ [CHR 0x22])"
    using words [of "tl ns" "'' ''"] sub by (intro clean_kv) (simp_all add: block_word_def)
  moreover have "clean_line (''CLIENTCOUNT'' @ CHR ''='' # ''${CLIENTCOUNT:-'' @ str_nat (length ns) @ ''}'')"
    using block_word_nums(1) [of "length ns"] by (intro clean_kv) (simp_all add: block_word_def)
  ultimately show "list_all clean_line (client_lines ns)" by (simp add: client_lines_def)
  show "concat (map facet_line (client_lines ns)) = []" by (simp add: client_lines_def facet_line_other)
qed

lemma clean_kv_host: "block_word k \<Longrightarrow> last k \<noteq> CHR ''V'' \<Longrightarrow> host_word h \<Longrightarrow> clean_line (k @ CHR ''='' # h)"
  by (simp add: clean_kv host_word_block)

lemma clean_literal_kv:
  assumes "host_word h"
  shows "clean_line (''mgs_HOST='' @ h)" "clean_line (''mgsfailover_HOST='' @ h)" "clean_line (''mds_HOST='' @ h)" "clean_line (''ost_HOST='' @ h)"
  using clean_kv_host [OF _ _ assms, of "''mgs_HOST''"] clean_kv_host [OF _ _ assms, of "''mgsfailover_HOST''"]
    clean_kv_host [OF _ _ assms, of "''mds_HOST''"] clean_kv_host [OF _ _ assms, of "''ost_HOST''"]
  by (simp_all add: block_word_def)

lemma mgs_lines_plain:
  assumes "block_word (cn_ip mgs)" "host_word (cn_name mgs)" "\<forall>k p. dict_get pd k = Some p \<longrightarrow> host_word p"
  shows "list_all clean_line (mgs_lines pd mgs \<lparr>ln_nettype = ''tcp'', ln_mgsnid = cn_ip mgs @ ''@tcp'', ln_large = False\<rparr>) = is_mds mgs"
    "list_all (\<lambda>l. CHR 0x0A \<notin> set l) (mgs_lines pd mgs \<lparr>ln_nettype = ''tcp'', ln_mgsnid = cn_ip mgs @ ''@tcp'', ln_large = False\<rparr>)"
    "concat (map facet_line (mgs_lines pd mgs \<lparr>ln_nettype = ''tcp'', ln_mgsnid = cn_ip mgs @ ''@tcp'', ln_large = False\<rparr>)) = [(''mgs'', cn_name mgs)]"
proof -
  have nid: "clean_line (''MGSNID='' @ cn_ip mgs @ ''@tcp'')"
    using clean_kv [of "''MGSNID''" "cn_ip mgs @ ''@tcp''"] assms(1) by (simp add: block_word_def)
  have dev: "\<not> clean_line ''MGSDEV=/dev/vdb''" "CHR 0x0A \<notin> set ''MGSDEV=/dev/vdb''" "clean_line []" "facet_line ''MGSDEV=/dev/vdb'' = []"
    by (simp_all add: facet_line_other) (code_simp | simp add: clean_line_def startswith_def)+
  have host: "facet_line (''mgs_HOST='' @ cn_name mgs) = [(''mgs'', cn_name mgs)]"
    using facet_line_host [of "''mgs''", OF _ assms(2)] by (simp add: facet_key_def)
  have fail: "facet_line (''mgsfailover_HOST='' @ p) = []" for p
    using facet_line_key [of "''mgsfailover''" "''HOST='' @ p"] by (simp add: facet_key_def)
  show "list_all clean_line (mgs_lines pd mgs \<lparr>ln_nettype = ''tcp'', ln_mgsnid = cn_ip mgs @ ''@tcp'', ln_large = False\<rparr>) = is_mds mgs"
    using nid dev clean_literal_kv(1) [OF assms(2)] clean_literal_kv(2) assms(3)
    by (cases "dict_get pd (cn_name mgs)") (simp_all add: mgs_lines_def)
  show "list_all (\<lambda>l. CHR 0x0A \<notin> set l) (mgs_lines pd mgs \<lparr>ln_nettype = ''tcp'', ln_mgsnid = cn_ip mgs @ ''@tcp'', ln_large = False\<rparr>)"
    using nid dev(2) clean_literal_kv(1) [OF assms(2)] clean_literal_kv(2) assms(3)
    by (cases "dict_get pd (cn_name mgs)") (simp_all add: mgs_lines_def clean_line_def)
  show "concat (map facet_line (mgs_lines pd mgs \<lparr>ln_nettype = ''tcp'', ln_mgsnid = cn_ip mgs @ ''@tcp'', ln_large = False\<rparr>)) = [(''mgs'', cn_name mgs)]"
    using host fail dev(4)
    by (cases "dict_get pd (cn_name mgs)") (simp_all add: mgs_lines_def facet_line_other)
qed

lemma slot_bounds:
  assumes "cluster_shape nodes" "find is_mgs nodes = Some mgs" "list_all (\<lambda>n. node_disks n \<le> 25) nodes"
    "s \<in> set (mdt_slots (filter is_mds nodes)) \<or> s \<in> set (ost_slots (filter is_oss nodes))"
  shows "fst s \<in> set nodes" "1 \<le> snd s \<and> snd s \<le> 25"
proof -
  show node: "fst s \<in> set nodes" using assms(4) by (auto simp: mdt_slots_def ost_slots_def node_slots_def)
  have "s \<in> set (target_slots mgs nodes)" using assms(4) by (auto simp: target_slots_def)
  then have "snd s \<in> set (slots_of (fst s) (target_slots mgs nodes))" by auto
  then have "snd s \<in> set (py_range 1 (1 + node_disks (fst s)))" unfolding node_slots_exact [OF assms(1,2) node] .
  then show "1 \<le> snd s \<and> snd s \<le> 25" using assms(3) node by (auto simp: py_range_def list_all_iff)
qed

lemma disk_letter_word: "1 \<le> n \<Longrightarrow> n \<le> 25 \<Longrightarrow> block_word [disk_letter n]"
proof -
  assume "1 \<le> n" "n \<le> 25"
  then have "98 \<le> nat (97 + n)" "nat (97 + n) < 256" by auto
  then have "of_char (disk_letter n) = nat (97 + n)" by (simp add: disk_letter_def)
  then have "of_char (disk_letter n) \<noteq> (of_char CHR ''='' :: nat)" "of_char (disk_letter n) \<noteq> (of_char CHR 0x0A :: nat)"
    using \<open>98 \<le> nat (97 + n)\<close> by simp_all
  then show ?thesis unfolding block_word_def by (metis empty_iff empty_set set_ConsD)
qed

lemma slots_lines_clean:
  assumes "list_all (\<lambda>s. host_word (cn_name (fst s)) \<and> 1 \<le> snd s \<and> snd s \<le> 25) slots"
    "\<forall>k p. dict_get pd k = Some p \<longrightarrow> host_word p" "block_word dev" "block_word kind"
  shows "list_all clean_line (slots_lines pd dev kind slots)"
proof -
  have target: "list_all clean_line (target_lines pd dev kind (int i) s)" if s: "s \<in> set slots" for i s
  proof -
    have digit: "last (k @ str_nat i) \<noteq> CHR ''V''" for k
      using str_nat_decimal [of "last (str_nat i)" i] by (auto simp: isdecimal_def)
    have s: "host_word (cn_name (fst s))" "block_word [disk_letter (snd s)]" using assms(1) s by (auto simp: list_all_iff disk_letter_word)
    have "clean_line ((dev @ str_nat i) @ CHR ''='' # ''/dev/vd'' @ [disk_letter (snd s)])"
      using assms(3) s(2) digit by (intro clean_kv) (simp_all add: block_word_nums, simp add: block_word_def)
    moreover have "clean_line ((kind @ str_nat i @ ''_HOST'') @ CHR ''='' # cn_name (fst s))"
      using assms(4) s(1) by (intro clean_kv_host) (simp_all add: block_word_nums, simp add: block_word_def)
    moreover have "clean_line ((kind @ str_nat i @ ''failover_HOST'') @ CHR ''='' # p)" if "dict_get pd (cn_name (fst s)) = Some p" for p
      using assms(2,4) that by (intro clean_kv_host) (simp_all add: block_word_nums, simp add: block_word_def)
    ultimately show ?thesis by (cases "dict_get pd (cn_name (fst s))") (simp_all add: target_lines_def)
  qed
  have "(i, s) \<in> set (List.enumerate 1 slots) \<Longrightarrow> s \<in> set slots" for i s
    by (metis in_set_zip enumerate_eq_zip set_zip_rightD)
  then show ?thesis using target unfolding slots_lines_def list_all_iff by (auto, blast)
qed

lemma count_line_plain:
  "clean_line (env_count ''MDSCOUNT'' n)" "clean_line (env_count ''OSTCOUNT'' n)"
  "facet_line (env_count ''MDSCOUNT'' n) = []" "facet_line (env_count ''OSTCOUNT'' n) = []"
  using clean_kv [of "''MDSCOUNT''" "''${_ltvm_env_MDSCOUNT:-'' @ str_int n @ ''}''"]
    clean_kv [of "''OSTCOUNT''" "''${_ltvm_env_OSTCOUNT:-'' @ str_int n @ ''}''"] block_word_nums(2) [of n]
  by (simp_all add: env_count_def facet_line_other block_word_def)

lemma min_disk_kb_none [simp]: "min_disk_kb ns [] = 0"
  by (cases ns) (simp_all add: min_disk_kb_def)

lemma server_lines:
  assumes "list_all (\<lambda>n. host_word (cn_name n)) nodes"
    "list_all (\<lambda>s. host_word (cn_name (fst s)) \<and> 1 \<le> snd s \<and> snd s \<le> 25) (mdt_slots (filter is_mds nodes))"
    "list_all (\<lambda>s. host_word (cn_name (fst s)) \<and> 1 \<le> snd s \<and> snd s \<le> 25) (ost_slots (filter is_oss nodes))"
    "\<forall>k p. dict_get pd k = Some p \<longrightarrow> host_word p"
  shows "list_all clean_line (mds_lines pd [] (filter is_mds nodes))" "list_all clean_line (oss_lines pd [] 0 None (filter is_oss nodes))"
    "concat (map facet_line (mds_lines pd [] (filter is_mds nodes))) = slot_facets ''mds'' (mdt_slots (filter is_mds nodes))"
    "concat (map facet_line (oss_lines pd [] 0 None (filter is_oss nodes))) = slot_facets ''ost'' (ost_slots (filter is_oss nodes))"
proof -
  have names: "host_word (cn_name (hd ns))" if "ns \<noteq> []" "set ns \<subseteq> set nodes" for ns
    using that assms(1) by (cases ns) (auto simp: list_all_iff)
  have none: "facet_line (''mds_HOST='' @ n) = []" "facet_line (''ost_HOST='' @ n) = []" for n
    using facet_line_key [of "''mds''" "''HOST='' @ n"] facet_line_key [of "''ost''" "''HOST='' @ n"] by (simp_all add: facet_key_def)
  have empty: "clean_line []" by (simp add: clean_line_def)
  have hosts: "list_all (\<lambda>s. host_word (cn_name (fst s))) (mdt_slots (filter is_mds nodes))"
    "list_all (\<lambda>s. host_word (cn_name (fst s))) (ost_slots (filter is_oss nodes))"
    using assms(2,3) by (auto simp: list_all_iff)
  have clean: "list_all clean_line (slots_lines pd ''MDSDEV'' ''mds'' (mdt_slots (filter is_mds nodes)))"
    "list_all clean_line (slots_lines pd ''OSTDEV'' ''ost'' (ost_slots (filter is_oss nodes)))"
    by (rule slots_lines_clean [OF assms(2)] slots_lines_clean [OF assms(3)]; use assms(4) in \<open>auto simp: block_word_def\<close>)+
  show "list_all clean_line (mds_lines pd [] (filter is_mds nodes))"
    using clean(1) empty count_line_plain(1) clean_literal_kv(3) [OF names [of "filter is_mds nodes"]]
    by (auto simp: mds_lines_def block_word_def)
  show "list_all clean_line (oss_lines pd [] 0 None (filter is_oss nodes))"
    using clean(2) empty count_line_plain(2) clean_literal_kv(4) [OF names [of "filter is_oss nodes"]]
    by (auto simp: oss_lines_def file_lines_def block_word_def)
  show "concat (map facet_line (mds_lines pd [] (filter is_mds nodes))) = slot_facets ''mds'' (mdt_slots (filter is_mds nodes))"
    using slots_lines_facets [OF _ hosts(1), of "''mds''" "''MDSDEV''"] count_line_plain(3) none(1)
    by (cases "filter is_mds nodes = []") (simp_all add: mds_lines_def facet_line_other, simp add: mdt_slots_def slot_facets_def)
  show "concat (map facet_line (oss_lines pd [] 0 None (filter is_oss nodes))) = slot_facets ''ost'' (ost_slots (filter is_oss nodes))"
    using slots_lines_facets [OF _ hosts(2), of "''ost''" "''OSTDEV''"] count_line_plain(4) none(2)
    by (cases "filter is_oss nodes = []") (simp_all add: oss_lines_def file_lines_def facet_line_other, simp add: ost_slots_def slot_facets_def)
qed

lemma add_facets:
  "get_or [] (dict_get (fold (add_facet separate) rows d) h) =
     get_or [] (dict_get d h) @ map fst (filter (\<lambda>r. snd r = h \<and> (fst r = ''mgs'' \<longrightarrow> separate)) rows)"
  by (induction rows arbitrary: d) (auto simp: add_facet_def)

lemma slot_facets_parts:
  "map snd (slot_facets kind slots) = map (\<lambda>s. cn_name (fst s)) slots"
  "map fst (slot_facets kind slots) = map (\<lambda>i. kind @ str_nat i) [1..<1 + length slots]"
proof -
  have "map snd (slot_facets kind slots) = map (\<lambda>s. cn_name (fst s)) (map snd (List.enumerate 1 slots))"
    by (simp add: slot_facets_def comp_def split_def del: map_snd_enumerate)
  then show "map snd (slot_facets kind slots) = map (\<lambda>s. cn_name (fst s)) slots" by (simp only: map_snd_enumerate)
  have "map fst (slot_facets kind slots) = map (\<lambda>i. kind @ str_nat i) (map fst (List.enumerate 1 slots))"
    by (simp add: slot_facets_def comp_def split_def del: map_fst_enumerate)
  then show "map fst (slot_facets kind slots) = map (\<lambda>i. kind @ str_nat i) [1..<1 + length slots]" by (simp only: map_fst_enumerate)
qed

lemma target_facets_hosts: "map snd (target_facets mgs nodes) = map (\<lambda>s. cn_name (fst s)) (target_slots mgs nodes)"
  by (simp add: target_facets_def target_slots_def slot_facets_parts(1) mgs_slots_def)

lemma slot_facet_kind: "f \<in> fst ` set (slot_facets kind slots) \<Longrightarrow> length kind = 3 \<Longrightarrow> take 3 f = kind"
  unfolding set_map [symmetric] slot_facets_parts by auto

lemma facet_names_distinct: "distinct (map fst (target_facets mgs nodes))"
proof -
  have names: "distinct (map fst (slot_facets kind slots))" for kind slots
    unfolding slot_facets_parts by (auto simp: distinct_map inj_on_def dest: str_nat_inj)
  have apart: "set (map fst (slot_facets k ss)) \<inter> set (map fst (slot_facets l ts)) = {}" if "k \<noteq> l" "length k = 3" "length l = 3" for k l ss ts
    using slot_facet_kind [of _ k ss] slot_facet_kind [of _ l ts] that by auto
  have "''mgs'' \<notin> set (map fst (slot_facets k ss))" if "k \<noteq> ''mgs''" "length k = 3" for k ss
    using slot_facet_kind [of "''mgs''" k ss] that by auto
  then show ?thesis
    using names apart [of "''mds''" "''ost''"]
    by (simp add: target_facets_def mgs_slots_def del: set_map)
qed

lemma join_snoc: "ws \<noteq> [] \<Longrightarrow> join sep (ws @ [w]) = join sep ws @ sep @ w"
  by (induction sep ws rule: join.induct) auto

lemma local_sh_default:
  assumes "get_nodes c = Inr nodes" "mgs_node c = Inr mgs" "cluster_shape nodes" "block_ok c mgs nodes"
  shows "\<exists>contents. generate_local_sh c ''rhel'' ''ldiskfs'' None [] 0 None = Inr contents \<and>
    concat (map facet_line (split_on CHR 0x0A contents)) =
      (''mgs'', cn_name mgs) # slot_facets ''mds'' (mdt_slots (filter is_mds nodes)) @ slot_facets ''ost'' (ost_slots (filter is_oss nodes)) \<and>
    contains ''MGSDEV='' contents = (\<not> is_mds mgs)"
proof -
  let ?l = "\<lparr>ln_nettype = ''tcp'', ln_mgsnid = cn_ip mgs @ ''@tcp'', ln_large = False\<rparr>" and ?pd = "partner_dict nodes"
  define lines where "lines = head_lines (ci_name c) ''rhel'' ?l @ mgs_lines ?pd mgs ?l @ mds_lines ?pd [] (filter is_mds nodes) @
    oss_lines ?pd [] 0 None (filter is_oss nodes) @ client_lines (filter is_client nodes) @ tail_lines ''ldiskfs''"
  have ok: "block_word (ci_name c)" "block_word (cn_ip mgs)" "list_all (\<lambda>n. host_word (cn_name n)) nodes" "list_all (\<lambda>n. node_disks n \<le> 25) nodes"
    using assms(4) by (auto simp: block_ok_def list_all_iff)
  have find: "find is_mgs nodes = Some mgs" using assms(1,2) by (simp add: mgs_node_def split: option.split_asm)
  have partner: "\<forall>k p. dict_get ?pd k = Some p \<longrightarrow> host_word p"
    using partner_dict_names [of nodes] ok(3) by (fastforce simp: list_all_iff)
  have mgs_name: "host_word (cn_name mgs)" using find_Some_iff_first [OF find] ok(3) by (auto simp: list_all_iff)
  have slots: "host_word (cn_name (fst s)) \<and> 1 \<le> snd s \<and> snd s \<le> 25"
    if "s \<in> set (mdt_slots (filter is_mds nodes)) \<or> s \<in> set (ost_slots (filter is_oss nodes))" for s
    using slot_bounds [OF assms(3) find ok(4) that] ok(3) by (auto simp: list_all_iff)
  have srv: "list_all (\<lambda>s. host_word (cn_name (fst s)) \<and> 1 \<le> snd s \<and> snd s \<le> 25) (mdt_slots (filter is_mds nodes))"
    "list_all (\<lambda>s. host_word (cn_name (fst s)) \<and> 1 \<le> snd s \<and> snd s \<le> 25) (ost_slots (filter is_oss nodes))"
    using slots by (auto simp: list_all_iff)
  have clients: "list_all (\<lambda>n. host_word (cn_name n)) (filter is_client nodes)" using ok(3) by (auto simp: list_all_iff)
  note parts = head_lines_plain [OF ok(1), of "cn_ip mgs @ ''@tcp''"] mgs_lines_plain [OF ok(2) mgs_name partner]
    server_lines [OF ok(3) srv partner] client_lines_plain [OF clients] clean_literals(2,4)
  have "\<forall>l \<in> set lines. CHR 0x0A \<notin> set l"
    using parts(1,4,6,7,10,12) unfolding lines_def by (auto simp: list_all_iff clean_line_def)
  moreover have "lines \<noteq> []" by (simp add: lines_def head_lines_def)
  ultimately have "split_on CHR 0x0A (join [CHR 0x0A] (lines @ [[]])) = lines @ [[]]" by (intro split_on_join) auto
  then have split: "split_on CHR 0x0A (join [CHR 0x0A] lines @ [CHR 0x0A]) = lines @ [[]]"
    using \<open>lines \<noteq> []\<close> by (simp add: join_snoc)
  have rows: "concat (map facet_line (lines @ [[]])) =
      (''mgs'', cn_name mgs) # slot_facets ''mds'' (mdt_slots (filter is_mds nodes)) @ slot_facets ''ost'' (ost_slots (filter is_oss nodes))"
    by (simp only: lines_def map_append concat_append parts(2,5,8,9,11,13) list.map concat.simps facet_line_other(2) append_Nil append_Nil2 append_Cons)
  have "list_ex (contains ''MGSDEV='') lines = (\<not> is_mds mgs)"
  proof -
    have "list_all clean_line lines = is_mds mgs" using parts(1,3,6,7,10,12) by (simp add: lines_def)
    then show ?thesis using \<open>\<forall>l \<in> set lines. CHR 0x0A \<notin> set l\<close> by (auto simp: list_all_iff list_ex_iff clean_line_def)
  qed
  then have dev: "contains ''MGSDEV='' (join [CHR 0x0A] lines @ [CHR 0x0A]) = (\<not> is_mds mgs)"
    using contains_sep [of "CHR 0x0A" "''MGSDEV=''" "join [CHR 0x0A] lines" "[]"] contains_join [of "CHR 0x0A" "''MGSDEV=''" lines] by simp
  have "generate_local_sh c ''rhel'' ''ldiskfs'' None [] 0 None = Inr (join [CHR 0x0A] lines @ [CHR 0x0A])"
    using assms(1,2) by (simp add: generate_local_sh_def local_sh_lines_def Let_def lines_def map_err_def)
  then show ?thesis using rows dev unfolding split [symmetric] by blast
qed

lemma node_facets_read:
  assumes "get_nodes c = Inr nodes" "mgs_node c = Inr mgs" "cluster_shape nodes" "block_ok c mgs nodes"
  shows "\<exists>d. node_facets c = Inr d \<and>
    (\<forall>h. get_or [] (dict_get d h) = map fst (filter (\<lambda>r. snd r = h) (target_facets mgs nodes)))"
proof -
  obtain contents where contents: "generate_local_sh c ''rhel'' ''ldiskfs'' None [] 0 None = Inr contents"
    "concat (map facet_line (split_on CHR 0x0A contents)) =
      (''mgs'', cn_name mgs) # slot_facets ''mds'' (mdt_slots (filter is_mds nodes)) @ slot_facets ''ost'' (ost_slots (filter is_oss nodes))"
    "contains ''MGSDEV='' contents = (\<not> is_mds mgs)"
    using local_sh_default [OF assms] by blast
  define rows where "rows = concat (map facet_line (split_on CHR 0x0A contents))"
  define d where "d = fold (add_facet (\<not> is_mds mgs)) rows []"
  have d: "node_facets c = Inr d" by (simp add: node_facets_def contents(1,3) d_def rows_def)
  have names: "''mgs'' \<notin> fst ` set (slot_facets kind slots)" if "kind \<noteq> ''mgs''" "length kind = 3" for kind slots
    using slot_facet_kind [of "''mgs''" kind slots] that by auto
  have targets: "filter (\<lambda>r. snd r = h \<and> (fst r = ''mgs'' \<longrightarrow> \<not> is_mds mgs)) rows = filter (\<lambda>r. snd r = h) (target_facets mgs nodes)" for h
  proof -
    have "filter (\<lambda>r. snd r = h \<and> (fst r = ''mgs'' \<longrightarrow> \<not> is_mds mgs)) (slot_facets k ss) = filter (\<lambda>r. snd r = h) (slot_facets k ss)"
      if "k \<noteq> ''mgs''" "length k = 3" for k ss
      using names [OF that, of ss] by (intro filter_cong) (auto simp: image_iff)
    then show ?thesis by (simp add: rows_def contents(2) target_facets_def mgs_slots_def)
  qed
  have "get_or [] (dict_get d h) = map fst (filter (\<lambda>r. snd r = h) (target_facets mgs nodes))" for h
    by (simp add: d_def add_facets targets)
  then show ?thesis using d by blast
qed

text \<open>
  Reading the cluster block back finds every target once: each node holds, in order, the
  facets whose host line names it, the facet names are pairwise different, and a node has
  as many of them as it has data disks, so a failover moves every disk of the primary.
\<close>

theorem node_facets_exact:
  assumes "get_nodes c = Inr nodes" "mgs_node c = Inr mgs" "cluster_shape nodes" "block_ok c mgs nodes"
  shows "\<exists>d. node_facets c = Inr d \<and> distinct (map fst (target_facets mgs nodes)) \<and>
    (\<forall>h. get_or [] (dict_get d h) = map fst (filter (\<lambda>r. snd r = h) (target_facets mgs nodes))) \<and>
    (\<forall>n \<in> set nodes. int (length (get_or [] (dict_get d (cn_name n)))) = node_disks n)"
proof -
  obtain d where d: "node_facets c = Inr d"
    and facets: "get_or [] (dict_get d h) = map fst (filter (\<lambda>r. snd r = h) (target_facets mgs nodes))" for h
    using node_facets_read [OF assms] by blast
  have "int (length (get_or [] (dict_get d (cn_name n)))) = node_disks n" if n: "n \<in> set nodes" for n
  proof -
    have find: "find is_mgs nodes = Some mgs" using assms(1,2) by (simp add: mgs_node_def split: option.split_asm)
    have "length (get_or [] (dict_get d (cn_name n))) = length (filter (\<lambda>h. h = cn_name n) (map snd (target_facets mgs nodes)))"
      by (simp add: facets filter_map comp_def)
    also have "\<dots> = length (slots_of n (target_slots mgs nodes))" unfolding target_facets_hosts by (simp add: filter_map comp_def)
    also have "\<dots> = nat (node_disks n)" unfolding node_slots_exact [OF assms(3) find n] by (simp add: py_range_def)
    finally show ?thesis using assms(3) n by (auto simp: cluster_shape_def list_all_iff counts_ok_def node_disks_def mgs_disk_def)
  qed
  then show ?thesis using d facets facet_names_distinct by blast
qed

lemma cluster_example_block: "block_ok cluster_example_info (hd cluster_nodes_example) cluster_nodes_example"
  by code_simp

theorem node_facets_exact_witness:
  "\<exists>d. node_facets cluster_example_info = Inr d \<and>
    map (\<lambda>n. int (length (get_or [] (dict_get d (cn_name n))))) cluster_nodes_example = map node_disks cluster_nodes_example"
  using node_facets_exact [OF cluster_example_nodes cluster_example_mgs cluster_example_shape cluster_example_block] by auto

end
