(* ===== verification/ClusterFailover.thy ===== *)
theory ClusterFailover
  imports HostInvariants ClusterFacets
begin

text \<open>
  Failing a server over to its partner and back (\<^verbatim>\<open>cluster_failover.py\<close>): the checks, the
  fault, the move and what is undone.  \<^verbatim>\<open>failover-facets.sh\<close> runs in a guest on top of
  Lustre's test framework, which is not part of the repository: what a run of it returns
  and leaves is the parameter \<open>fe_script\<close>, over a state of the guests the model does not
  look into.  On the host the state has, beside the VMs, which of them have their link
  down and which have a stopped QEMU.
\<close>

subsection \<open>State and parameters\<close>

datatype how = Umount | Kill | Panic | Freeze | SplitBrain

record 'g fo_state =
  fo_host :: host
  fo_down :: "string set"
  fo_stopped :: "string set"
  fo_guest :: 'g

text \<open>The output of a command: \<^verbatim>\<open>subprocess.CompletedProcess\<close>.\<close>

record completed =
  cp_rc :: int
  cp_out :: string
  cp_err :: string

text \<open>What a client answers: to the start of the script, and to each look at its status until
  the deadline.\<close>

datatype poll_answer = PollTimeout | Poll int string

record script_run =
  sr_start :: "completed option"
  sr_answers :: "poll_answer list"

text \<open>\<open>fe_script action facets\<close> is how a run of the script goes, and the guests after it;
  \<open>fe_panic\<close> what crashing the kernel of a guest leaves.  \<open>fe_signal\<close> and \<open>fe_qmp\<close> say whether
  a signal can be sent and a QMP command is answered, \<open>fe_ssh\<close> whether a guest answers in
  time, \<open>fe_family\<close> whether the operating system of a VM is known.\<close>

record 'g fo_env =
  fe_host :: host_env
  fe_darwin :: bool
  fe_peers :: "string list"
  fe_family :: "vminfo \<Rightarrow> bool"
  fe_signal :: "vminfo \<Rightarrow> bool"
  fe_qmp :: "vminfo \<Rightarrow> bool"
  fe_ssh :: "vminfo \<Rightarrow> bool"
  fe_script :: "string \<Rightarrow> string list \<Rightarrow> 'g fo_state \<Rightarrow> script_run \<times> 'g"
  fe_panic :: "vminfo \<Rightarrow> 'g \<Rightarrow> 'g"

datatype fo_error =
    FFreezeRefused
  | FCluster cluster_error
  | FConf conf_error
  | FClaim claim_error
  | FIsPartner string string
  | FNoPartner string
  | FLoad load_error
  | FNoFacets string
  | FNoClient string
  | FFamily string
  | FNotRunning string
  | FActive string
  | FActiveMissing "string list"
  | FMoved "string list"
  | FUmount string
  | FSignal string
  | FQmp string
  | FStart life_error
  | FSsh string
  | FDrop int

record fo_pair =
  pr_primary :: vminfo
  pr_partner :: vminfo
  pr_client :: vminfo
  pr_facets :: "string list"

subsection \<open>The pair\<close>

definition load_vm :: "'g fo_state \<Rightarrow> string \<Rightarrow> (fo_error, vminfo) result" where
  "load_vm st name = map_err FLoad (vm_load (h_infos (fo_host st)) name)"

definition make_pair :: "'g fo_env \<Rightarrow> cluster_info \<Rightarrow> string \<Rightarrow> 'g fo_state \<Rightarrow> (fo_error, fo_pair) result" where
  "make_pair env c primary st =
     res_bind (map_err FCluster (info_partners c)) (\<lambda>partners.
       case dict_get partners primary of
         None \<Rightarrow>
           (case find (\<lambda>pq. snd pq = primary) partners of
              Some pq \<Rightarrow> Inl (FIsPartner primary (fst pq))
            | None \<Rightarrow> Inl (FNoPartner primary))
       | Some partner \<Rightarrow>
           res_bind (load_vm st primary) (\<lambda>p.
           res_bind (load_vm st partner) (\<lambda>q.
           res_bind (map_err FConf (node_facets c)) (\<lambda>facets.
             let fs = get_or [] (dict_get facets primary)
             in if fs = [] then Inl (FNoFacets primary)
                else
                  res_bind (map_err FCluster (client_nodes c)) (\<lambda>clients.
                    case clients of
                      [] \<Rightarrow> Inl (FNoClient (ci_name c))
                    | k # _ \<Rightarrow>
                        res_bind (load_vm st (cn_name k)) (\<lambda>client.
                          if fe_family env client
                          then Inr \<lparr>pr_primary = p, pr_partner = q, pr_client = client, pr_facets = fs\<rparr>
                          else Inl (FFamily (vm_name client))))))))"

text \<open>The status is what the shell wrote: decimal digits.  A job that does not end in time is
  stopped.\<close>

fun poll_job :: "poll_answer list \<Rightarrow> completed option" where
  "poll_job [] = None"
| "poll_job (PollTimeout # answers) = poll_job answers"
| "poll_job (Poll rc out # answers) =
     (case partition1 CHR 0x0A out of (code, _, rest) \<Rightarrow>
        if rc = 0 \<and> str_isdigit (strip code)
        then Some \<lparr>cp_rc = get_or 0 (py_int code), cp_out = rest, cp_err = []\<rparr>
        else poll_job answers)"

definition facets_result :: "script_run \<Rightarrow> completed" where
  "facets_result run =
     (case sr_start run of
        None \<Rightarrow> \<lparr>cp_rc = 124, cp_out = [], cp_err = ''cannot start''\<rparr>
      | Some r \<Rightarrow>
          if cp_rc r \<noteq> 0 then r
          else (case poll_job (sr_answers run) of
              Some c \<Rightarrow> c
            | None \<Rightarrow> \<lparr>cp_rc = 124, cp_out = [], cp_err = ''timed out; stopped it''\<rparr>))"

definition facets_run :: "'g fo_env \<Rightarrow> string \<Rightarrow> string list \<Rightarrow> 'g fo_state \<Rightarrow> completed \<times> 'g" where
  "facets_run env action facets st =
     (case fe_script env action facets st of (run, g) \<Rightarrow> (facets_result run, g))"

definition facets_cmd :: "'g fo_env \<Rightarrow> string \<Rightarrow> string list \<Rightarrow> 'g fo_state \<Rightarrow> completed \<times> 'g fo_state" where
  "facets_cmd env action facets st =
     (case facets_run env action facets st of (r, g) \<Rightarrow> (r, st\<lparr>fo_guest := g\<rparr>))"

fun active_row :: "string list \<Rightarrow> (string, string \<times> string) dict \<Rightarrow> (string, string \<times> string) dict" where
  "active_row [facet, host, state] d = dict_set d facet (host, state)"
| "active_row _ d = d"

definition read_active :: "'g fo_env \<Rightarrow> fo_pair \<Rightarrow> 'g fo_state
    \<Rightarrow> (fo_error, (string, string \<times> string) dict) result \<times> 'g fo_state" where
  "read_active env pair st =
     (case facets_cmd env ''active'' (pr_facets pair) st of (r, st') \<Rightarrow>
        if cp_rc r \<noteq> 0 then (Inl (FActive (strip (cp_out r @ cp_err r))), st')
        else
          let active = fold active_row (map split_ws (splitlines (cp_out r))) [];
              missing = filter (\<lambda>f. dict_get active f = None) (pr_facets pair)
          in if missing \<noteq> [] then (Inl (FActiveMissing missing), st') else (Inr active, st'))"

text \<open>\<^verbatim>\<open>moved_facets\<close> for one pair: the facets the partner holds or may hold.\<close>

definition pair_moved :: "(string, string \<times> string) dict \<Rightarrow> string \<Rightarrow> string list" where
  "pair_moved active partner =
     map fst (filter (\<lambda>(facet, host, state). host = partner \<and> state \<noteq> ''unmounted'') active)"

fun moved_facets_from :: "'g fo_env \<Rightarrow> cluster_info \<Rightarrow> (string \<times> string) list \<Rightarrow> 'g fo_state
    \<Rightarrow> (fo_error, (string \<times> string list) list) result \<times> 'g fo_state" where
  "moved_facets_from env c [] st = (Inr [], st)"
| "moved_facets_from env c ((primary, partner) # pairs) st =
     (case make_pair env c primary st of
        Inl e \<Rightarrow> (Inl e, st)
      | Inr pair \<Rightarrow>
          (case read_active env pair st of
             (Inl e, st1) \<Rightarrow> (Inl e, st1)
           | (Inr active, st1) \<Rightarrow>
               (case moved_facets_from env c pairs st1 of
                  (Inl e, st2) \<Rightarrow> (Inl e, st2)
                | (Inr rest, st2) \<Rightarrow>
                    (Inr (if pair_moved active partner = [] then rest else (primary, pair_moved active partner) # rest), st2))))"

definition require_no_moved_facets :: "'g fo_env \<Rightarrow> cluster_info \<Rightarrow> 'g fo_state \<Rightarrow> (fo_error, unit) result \<times> 'g fo_state" where
  "require_no_moved_facets env c st =
     (case map_err FCluster (info_partners c) of
        Inl e \<Rightarrow> (Inl e, st)
      | Inr partners \<Rightarrow>
          (case moved_facets_from env c partners st of
             (Inl e, st1) \<Rightarrow> (Inl e, st1)
           | (Inr moved, st1) \<Rightarrow> (if moved = [] then Inr () else Inl (FMoved (concat (map snd moved))), st1)))"

subsection \<open>Faults\<close>

text \<open>A signal goes to the pid of the record; a link belongs to the QEMU process.\<close>

definition kill_process :: "vminfo \<Rightarrow> 'g fo_state \<Rightarrow> 'g fo_state" where
  "kill_process vm st =
     st\<lparr>fo_host := (fo_host st)\<lparr>h_procs := (h_procs (fo_host st))(vm_pid vm := None)\<rparr>,
       fo_down := fo_down st - {vm_name vm}, fo_stopped := fo_stopped st - {vm_name vm}\<rparr>"

definition set_link :: "'g fo_env \<Rightarrow> vminfo \<Rightarrow> bool \<Rightarrow> 'g fo_state \<Rightarrow> (fo_error, unit) result \<times> 'g fo_state" where
  "set_link env vm up st =
     (if \<not> fe_qmp env vm then (Inl (FQmp (vm_name vm)), st)
      else (Inr (), st\<lparr>fo_down := (if up then fo_down st - {vm_name vm} else insert (vm_name vm) (fo_down st))\<rparr>))"

definition fault :: "'g fo_env \<Rightarrow> fo_pair \<Rightarrow> how \<Rightarrow> 'g fo_state \<Rightarrow> (fo_error, unit) result \<times> 'g fo_state" where
  "fault env pair how st =
     (let vm = pr_primary pair
      in case how of
           Umount \<Rightarrow>
             (case facets_cmd env ''stop'' (pr_facets pair) st of (r, st') \<Rightarrow>
                if cp_rc r \<noteq> 0 then (Inl (FUmount (strip (cp_out r @ cp_err r))), st') else (Inr (), st'))
         | Kill \<Rightarrow> if fe_signal env vm then (Inr (), kill_process vm st) else (Inl (FSignal (vm_name vm)), st)
         | Panic \<Rightarrow> (Inr (), st\<lparr>fo_guest := fe_panic env vm (fo_guest st)\<rparr>)
         | Freeze \<Rightarrow>
             (case set_link env vm False st of
                (Inl e, st1) \<Rightarrow> (Inl e, st1)
              | (Inr _, st1) \<Rightarrow>
                  if fe_signal env vm then (Inr (), st1\<lparr>fo_stopped := insert (vm_name vm) (fo_stopped st1)\<rparr>)
                  else (case set_link env vm True st1 of
                      (Inl e, st2) \<Rightarrow> (Inl e, st2)
                    | (Inr _, st2) \<Rightarrow> (Inl (FSignal (vm_name vm)), st2)))
         | SplitBrain \<Rightarrow> set_link env vm False st)"

definition resume :: "'g fo_env \<Rightarrow> vminfo \<Rightarrow> how \<Rightarrow> 'g fo_state \<Rightarrow> (fo_error, unit) result \<times> 'g fo_state" where
  "resume env vm how st =
     (if how = Freeze \<and> \<not> fe_signal env vm then (Inl (FSignal (vm_name vm)), st)
      else set_link env vm True
        (if how = Freeze then st\<lparr>fo_stopped := fo_stopped st - {vm_name vm}\<rparr> else st))"

subsection \<open>Failover\<close>

definition require_claims :: "'g fo_env \<Rightarrow> cluster_info \<Rightarrow> 'g fo_state \<Rightarrow> (fo_error, unit) result" where
  "require_claims env c st =
     res_bind (map_err FCluster (get_nodes c)) (\<lambda>nodes.
       map_err FClaim (require_all (he_claim (fe_host env)) (h_claims (fo_host st)) (map cn_name nodes)))"

text \<open>A check that also finds the pid of a QEMU recorded as stopped.\<close>

definition require_running :: "'g fo_state \<Rightarrow> vminfo \<Rightarrow> (fo_error, vminfo) result" where
  "require_running st vm =
     (case is_running (h_procs (fo_host st)) (h_pidfiles (fo_host st)) vm of (run, vm') \<Rightarrow>
        if run then Inr vm' else Inl (FNotRunning (vm_name vm)))"

definition running_pair :: "'g fo_state \<Rightarrow> fo_pair \<Rightarrow> (fo_error, fo_pair) result" where
  "running_pair st pair =
     res_bind (require_running st (pr_primary pair)) (\<lambda>p.
     res_bind (require_running st (pr_partner pair)) (\<lambda>q.
     res_bind (require_running st (pr_client pair)) (\<lambda>k.
       Inr (pair\<lparr>pr_primary := p, pr_partner := q, pr_client := k\<rparr>))))"

definition facets_on :: "(string, string \<times> string) dict \<Rightarrow> string \<Rightarrow> string list \<Rightarrow> string list" where
  "facets_on active node facets = filter (\<lambda>f. fst (get_or ([], []) (dict_get active f)) = node) facets"

record fo_report =
  rp_rc :: int
  rp_split :: "string list option"
  rp_resumed :: bool

definition failover_checks :: "'g fo_env \<Rightarrow> string \<Rightarrow> string \<Rightarrow> how \<Rightarrow> 'g fo_state \<Rightarrow> (fo_error, fo_pair) result" where
  "failover_checks env name node how st =
     (if how = Freeze \<and> fe_darwin env then Inl FFreezeRefused
      else
        res_bind (map_err FCluster (cluster_load (he_repr (fe_host env)) (h_clusters (fo_host st)) name)) (\<lambda>c.
        res_bind (require_claims env c st) (\<lambda>_.
        res_bind (make_pair env c node st) (running_pair st))))"

text \<open>After the fault: move the facets; for a split brain look whether the partner took any;
  and bring the primary back unless it is to be held.\<close>

definition takeover :: "'g fo_env \<Rightarrow> fo_pair \<Rightarrow> how \<Rightarrow> bool \<Rightarrow> 'g fo_state
    \<Rightarrow> (fo_error, fo_report) result \<times> 'g fo_state" where
  "takeover env pair how hold st =
     (case facets_cmd env ''move'' (pr_facets pair) st of (r, st1) \<Rightarrow>
        case (if how = SplitBrain \<and> cp_rc r \<noteq> 124
              then (case read_active env pair st1 of
                  (Inl e, st2) \<Rightarrow> (Inl e, st2)
                | (Inr after, st2) \<Rightarrow>
                    let split = filter (\<lambda>f. dict_get after f = Some (vm_name (pr_partner pair), ''mounted'')) (pr_facets pair)
                    in (Inr (if split \<noteq> [] then 1 else 0, Some split), st2))
              else (Inr (cp_rc r, None), st1)) of
          (Inl e, st2) \<Rightarrow> (Inl e, st2)
        | (Inr (rc, split), st2) \<Rightarrow>
            if (how = Freeze \<or> how = SplitBrain) \<and> \<not> hold then
              (case resume env (pr_primary pair) how st2 of
                 (Inl e, st3) \<Rightarrow> (Inl e, st3)
               | (Inr _, st3) \<Rightarrow> (Inr \<lparr>rp_rc = rc, rp_split = split, rp_resumed = True\<rparr>, st3))
            else (Inr \<lparr>rp_rc = rc, rp_split = split, rp_resumed = False\<rparr>, st2))"

definition cmd_cluster_failover :: "'g fo_env \<Rightarrow> string \<Rightarrow> string \<Rightarrow> how \<Rightarrow> bool \<Rightarrow> 'g fo_state
    \<Rightarrow> (fo_error, fo_report) result \<times> 'g fo_state" where
  "cmd_cluster_failover env name node how hold st =
     (case failover_checks env name node how st of
        Inl e \<Rightarrow> (Inl e, st)
      | Inr pair \<Rightarrow>
          (case read_active env pair st of
             (Inl e, st1) \<Rightarrow> (Inl e, st1)
           | (Inr active, st1) \<Rightarrow>
               let moved = facets_on active (vm_name (pr_partner pair)) (pr_facets pair)
               in if moved \<noteq> [] then (Inl (FMoved moved), st1)
                  else
                    (case fault env pair how st1 of
                       (Inl e, st2) \<Rightarrow> (Inl e, st2)
                     | (Inr _, st2) \<Rightarrow> takeover env pair how hold st2)))"

subsection \<open>Failback\<close>

text \<open>Bringing the primary back from any fault: a QEMU that is gone is started again, as
  \<^verbatim>\<open>ltvm start\<close> does it, with a link that is up.\<close>

definition unfault :: "'g fo_env \<Rightarrow> vminfo \<Rightarrow> 'g fo_state \<Rightarrow> (fo_error, unit) result \<times> 'g fo_state" where
  "unfault env vm st =
     (case (case is_running (h_procs (fo_host st)) (h_pidfiles (fo_host st)) vm of (run, vm') \<Rightarrow>
            if run then resume env vm' Freeze st
            else (case cmd_start (fe_host env) (fe_peers env) [vm_name vm] (fo_host st) of
                (Inl e, h) \<Rightarrow> (Inl (FStart e), st\<lparr>fo_host := h\<rparr>)
              | (Inr _, h) \<Rightarrow>
                  (Inr (), st\<lparr>fo_host := h, fo_down := fo_down st - {vm_name vm}, fo_stopped := fo_stopped st - {vm_name vm}\<rparr>))) of
        (Inl e, st1) \<Rightarrow> (Inl e, st1)
      | (Inr _, st1) \<Rightarrow> if fe_ssh env vm then (Inr (), st1) else (Inl (FSsh (vm_name vm)), st1))"

fun failback_steps :: "'g fo_env \<Rightarrow> (string \<times> string list) list \<Rightarrow> int \<Rightarrow> 'g fo_state \<Rightarrow> int \<times> 'g fo_state" where
  "failback_steps env [] rc st = (rc, st)"
| "failback_steps env ((action, facets) # steps) rc st =
     (if facets = [] then failback_steps env steps rc st
      else
        case facets_cmd env action facets st of (r, st') \<Rightarrow>
          if cp_rc r \<noteq> 0 then (if action = ''stop'' then (cp_rc r, st') else failback_steps env steps (cp_rc r) st')
          else failback_steps env steps rc st')"

definition failback_checks :: "'g fo_env \<Rightarrow> string \<Rightarrow> string \<Rightarrow> 'g fo_state \<Rightarrow> (fo_error, fo_pair) result" where
  "failback_checks env name node st =
     res_bind (map_err FCluster (cluster_load (he_repr (fe_host env)) (h_clusters (fo_host st)) name)) (\<lambda>c.
     res_bind (require_claims env c st) (\<lambda>_.
     res_bind (make_pair env c node st) (\<lambda>pair.
     res_bind (require_running st (pr_partner pair)) (\<lambda>q.
     res_bind (require_running st (pr_client pair)) (\<lambda>k.
       Inr (pair\<lparr>pr_partner := q, pr_client := k\<rparr>))))))"

text \<open>What is on the partner goes back; what is recorded on the primary but not mounted there
  is mounted.  The result is the exit status, \<open>None\<close> when there was nothing to do.\<close>

definition move_back :: "'g fo_env \<Rightarrow> fo_pair \<Rightarrow> (string, string \<times> string) dict \<Rightarrow> 'g fo_state
    \<Rightarrow> (fo_error, int option) result \<times> 'g fo_state" where
  "move_back env pair active st =
     (let back = facets_on active (vm_name (pr_partner pair)) (pr_facets pair);
          remount = filter (\<lambda>f. dict_get active f = Some (vm_name (pr_primary pair), ''unmounted'')) (pr_facets pair);
          go = (\<lambda>st. case failback_steps env [(''stop'', back), (''move'', back), (''start'', remount)] 0 st of
                  (rc, st') \<Rightarrow> (Inr (Some rc), st'))
      in if back = [] \<and> remount = [] then (Inr None, st)
         else if back = [] then go st
         else
           (case facets_cmd env ''drop'' back st of (r, st1) \<Rightarrow>
              if cp_rc r \<noteq> 0 then (Inl (FDrop (cp_rc r)), st1) else go st1))"

definition cmd_cluster_failback :: "'g fo_env \<Rightarrow> string \<Rightarrow> string \<Rightarrow> 'g fo_state
    \<Rightarrow> (fo_error, int option) result \<times> 'g fo_state" where
  "cmd_cluster_failback env name node st =
     (case failback_checks env name node st of
        Inl e \<Rightarrow> (Inl e, st)
      | Inr pair \<Rightarrow>
          (case unfault env (pr_primary pair) st of
             (Inl e, st1) \<Rightarrow> (Inl e, st1)
           | (Inr _, st1) \<Rightarrow>
               (case read_active env pair st1 of
                  (Inl e, st2) \<Rightarrow> (Inl e, st2)
                | (Inr active, st2) \<Rightarrow> move_back env pair active st2)))"

subsection \<open>Faults stay with the primary and are undone\<close>

text \<open>What a step leaves alone: the host, and the links and processes of every other VM.\<close>

definition only_on :: "string \<Rightarrow> 'g fo_state \<Rightarrow> 'g fo_state \<Rightarrow> bool" where
  "only_on n st st' \<longleftrightarrow>
     fo_down st' - {n} = fo_down st - {n} \<and> fo_stopped st' - {n} = fo_stopped st - {n} \<and>
     (\<exists>procs. fo_host st' = (fo_host st)\<lparr>h_procs := procs\<rparr>)"

lemma only_on_refl [simp]: "only_on n st st"
  by (auto simp: only_on_def intro: exI [of _ "h_procs (fo_host st)"])

lemma only_on_trans: "only_on n a b \<Longrightarrow> only_on n b c \<Longrightarrow> only_on n a c"
  by (auto simp: only_on_def)

definition same_but_guest :: "'g fo_state \<Rightarrow> 'g fo_state \<Rightarrow> bool" where
  "same_but_guest st st' \<longleftrightarrow> (\<exists>g. st' = st\<lparr>fo_guest := g\<rparr>)"

lemma same_but_guest_only: "same_but_guest st st' \<Longrightarrow> only_on n st st'"
  by (auto simp: same_but_guest_def only_on_def intro: exI [of _ "h_procs (fo_host st)"])

lemma facets_cmd_same: "facets_cmd env action facets st = (r, st') \<Longrightarrow> same_but_guest st st'"
  by (auto simp: facets_cmd_def same_but_guest_def split: prod.split_asm)

lemma read_active_same: "read_active env pair st = (r, st') \<Longrightarrow> same_but_guest st st'"
  by (auto simp: read_active_def Let_def split: prod.split_asm if_splits dest: facets_cmd_same)

lemma set_link_only:
  assumes "set_link env vm up st = (r, st')"
  shows "only_on (vm_name vm) st st'" "fo_stopped st' = fo_stopped st" "r = Inr () \<Longrightarrow> (vm_name vm \<in> fo_down st') = (\<not> up)"
  using assms by (auto simp: set_link_def only_on_def split: if_splits intro: exI [of _ "h_procs (fo_host st)"])

lemma fault_only:
  assumes "fault env pair how st = (r, st')"
  shows "only_on (vm_name (pr_primary pair)) st st'"
proof (cases how)
  case Umount
  then show ?thesis using assms by (auto simp: fault_def Let_def split: prod.split_asm if_splits dest!: facets_cmd_same intro: same_but_guest_only)
next
  case Kill
  then show ?thesis using assms by (auto simp: fault_def Let_def only_on_def kill_process_def split: if_splits intro: exI [of _ "h_procs (fo_host st)"])
next
  case Panic
  then show ?thesis using assms by (auto simp: fault_def Let_def only_on_def intro: exI [of _ "h_procs (fo_host st)"])
next
  case SplitBrain
  then show ?thesis using assms set_link_only(1) by (simp add: fault_def Let_def)
next
  case Freeze
  obtain r1 st1 where down: "set_link env (pr_primary pair) False st = (r1, st1)" by fastforce
  obtain r2 st2 where up: "set_link env (pr_primary pair) True st1 = (r2, st2)" by fastforce
  have "only_on (vm_name (pr_primary pair)) st1 (st1\<lparr>fo_stopped := insert (vm_name (pr_primary pair)) (fo_stopped st1)\<rparr>)"
    by (auto simp: only_on_def intro: exI [of _ "h_procs (fo_host st1)"])
  then show ?thesis
    using assms Freeze down up set_link_only(1) [OF down] set_link_only(1) [OF up] only_on_trans
    by (auto simp: fault_def Let_def split: sum.split_asm if_splits)
qed

lemma resume_effect:
  assumes "resume env vm how st = (r, st')"
  shows "only_on (vm_name vm) st st'"
    "r = Inr () \<Longrightarrow> vm_name vm \<notin> fo_down st' \<and> (how = Freeze \<longrightarrow> vm_name vm \<notin> fo_stopped st')"
proof -
  define mid where "mid = (if how = Freeze then st\<lparr>fo_stopped := fo_stopped st - {vm_name vm}\<rparr> else st)"
  have mid: "only_on (vm_name vm) st mid" "how = Freeze \<Longrightarrow> vm_name vm \<notin> fo_stopped mid"
    by (auto simp: mid_def only_on_def intro: exI [of _ "h_procs (fo_host st)"])
  have "only_on (vm_name vm) st st' \<and> (r = Inr () \<longrightarrow> vm_name vm \<notin> fo_down st' \<and> (how = Freeze \<longrightarrow> vm_name vm \<notin> fo_stopped st'))"
  proof (cases "how = Freeze \<and> \<not> fe_signal env vm")
    case True
    then show ?thesis using assms by (auto simp: resume_def)
  next
    case False
    with assms have link: "set_link env vm True mid = (r, st')" unfolding resume_def mid_def by (simp only: if_False)
    show ?thesis using only_on_trans [OF mid(1) set_link_only(1) [OF link]] set_link_only(2,3) [OF link] mid(2) by auto
  qed
  then show "only_on (vm_name vm) st st'" "r = Inr () \<Longrightarrow> vm_name vm \<notin> fo_down st' \<and> (how = Freeze \<longrightarrow> vm_name vm \<notin> fo_stopped st')"
    by auto
qed

lemma takeover_effect:
  assumes "takeover env pair how hold st = (r, st')"
  shows "only_on (vm_name (pr_primary pair)) st st'"
    "r = Inr rep \<Longrightarrow> rp_resumed rep = ((how = Freeze \<or> how = SplitBrain) \<and> \<not> hold) \<and>
       (rp_resumed rep \<longrightarrow> vm_name (pr_primary pair) \<notin> fo_down st' \<and> (how = Freeze \<longrightarrow> vm_name (pr_primary pair) \<notin> fo_stopped st'))"
proof -
  let ?n = "vm_name (pr_primary pair)"
  obtain m st1 where move: "facets_cmd env ''move'' (pr_facets pair) st = (m, st1)" by fastforce
  obtain a st2 where read: "read_active env pair st1 = (a, st2)" by fastforce
  have same: "only_on ?n st st1" "only_on ?n st st2"
    using facets_cmd_same [OF move] read_active_same [OF read] same_but_guest_only only_on_trans by blast+
  have "st' = st1 \<and> \<not> ((how = Freeze \<or> how = SplitBrain) \<and> \<not> hold) \<and> (\<forall>rep. r = Inr rep \<longrightarrow> \<not> rp_resumed rep) \<or>
      st' = st2 \<and> (\<forall>rep. r = Inr rep \<longrightarrow> hold \<and> \<not> rp_resumed rep) \<or>
      (\<exists>mid r3. (mid = st1 \<or> mid = st2) \<and> (how = Freeze \<or> how = SplitBrain) \<and> \<not> hold \<and>
        resume env (pr_primary pair) how mid = (r3, st') \<and> (\<forall>rep. r = Inr rep \<longrightarrow> r3 = Inr () \<and> rp_resumed rep))"
  proof (cases "how = SplitBrain \<and> cp_rc m \<noteq> 124")
    case True
    show ?thesis
    proof (cases a)
      case (Inl e)
      then show ?thesis using assms move read True by (auto simp: takeover_def)
    next
      case (Inr after)
      obtain r3 st3 where res: "resume env (pr_primary pair) how st2 = (r3, st3)" by fastforce
      show ?thesis using assms move read True Inr res by (cases hold; cases r3) (auto simp: takeover_def Let_def)
    qed
  next
    case False
    obtain r3 st3 where res: "resume env (pr_primary pair) how st1 = (r3, st3)" by fastforce
    have skip: "(if how = SplitBrain \<and> cp_rc m \<noteq> 124 then x else y) = y" for x y :: "(fo_error, int \<times> string list option) result \<times> 'a fo_state"
      using False by auto
    note run = assms [unfolded takeover_def move prod.case skip sum.case res]
    show ?thesis
    proof (cases "(how = Freeze \<or> how = SplitBrain) \<and> \<not> hold")
      case True
      have "st' = st3" "\<forall>rep. r = Inr rep \<longrightarrow> r3 = Inr () \<and> rp_resumed rep"
        using run unfolding if_P [OF True] by (auto split: sum.split_asm)
      then show ?thesis using True res by blast
    next
      case no: False
      have "st' = st1" "r = Inr \<lparr>rp_rc = cp_rc m, rp_split = None, rp_resumed = False\<rparr>"
        using run unfolding if_not_P [OF no] by auto
      then show ?thesis using no by (intro disjI1) simp
    qed
  qed
  then consider "st' = st1" "\<not> ((how = Freeze \<or> how = SplitBrain) \<and> \<not> hold)" "\<forall>rep. r = Inr rep \<longrightarrow> \<not> rp_resumed rep"
    | "st' = st2" "\<forall>rep. r = Inr rep \<longrightarrow> hold \<and> \<not> rp_resumed rep"
    | mid r3 where "mid = st1 \<or> mid = st2" "(how = Freeze \<or> how = SplitBrain) \<and> \<not> hold"
      "resume env (pr_primary pair) how mid = (r3, st')" "\<forall>rep. r = Inr rep \<longrightarrow> r3 = Inr () \<and> rp_resumed rep"
    by blast
  note cases = this
  show "only_on ?n st st'"
    using cases same resume_effect(1) only_on_trans by cases blast+
  show "r = Inr rep \<Longrightarrow> rp_resumed rep = ((how = Freeze \<or> how = SplitBrain) \<and> \<not> hold) \<and>
       (rp_resumed rep \<longrightarrow> ?n \<notin> fo_down st' \<and> (how = Freeze \<longrightarrow> ?n \<notin> fo_stopped st'))"
    using cases resume_effect(2) by cases (simp_all, blast)
qed

lemma running_adopted: "is_running procs pf vm = (True, vm') \<Longrightarrow> fst (is_running procs pf vm')"
  by (auto simp: is_running_def Let_def split: if_splits)

lemma checks_running:
  assumes "failover_checks env name node how st = Inr pair"
  shows "list_all (running (fo_host st)) [pr_primary pair, pr_partner pair, pr_client pair]"
proof -
  from assms obtain pair0 where "running_pair st pair0 = Inr pair"
    by (auto simp: failover_checks_def res_bind_eq_Inr split: if_splits)
  then show ?thesis
    by (auto simp: running_pair_def require_running_def res_bind_eq_Inr running_def split: prod.split_asm if_splits dest!: running_adopted)
qed



subsection \<open>Failback never leaves a target mounted twice\<close>

text \<open>What \<^verbatim>\<open>failover-facets.sh\<close> does for the facets of a pair, as its own description has it.
  \<open>act g f\<close> is the recorded active node of a facet and \<open>mnt g\<close> what is mounted where.
  \<^verbatim>\<open>stop\<close> unmounts on the active node, \<^verbatim>\<open>drop\<close> on the passive one, \<^verbatim>\<open>start\<close> mounts on the active
  node, \<^verbatim>\<open>move\<close> on the other one; each says by its status whether it did all of it.\<close>

definition stop_law :: "'g fo_env \<Rightarrow> ('g \<Rightarrow> string \<Rightarrow> string) \<Rightarrow> ('g \<Rightarrow> (string \<times> string) set) \<Rightarrow> bool" where
  "stop_law env act mnt \<longleftrightarrow>
     (\<forall>fs st r g. facets_run env ''stop'' fs st = (r, g) \<longrightarrow>
        act g = act (fo_guest st) \<and> mnt g \<subseteq> mnt (fo_guest st) \<and>
        (\<forall>h f. f \<notin> set fs \<longrightarrow> (f, h) \<in> mnt (fo_guest st) \<longrightarrow> (f, h) \<in> mnt g) \<and>
        (cp_rc r = 0 \<longrightarrow> (\<forall>f \<in> set fs. (f, act g f) \<notin> mnt g)))"

definition drop_law :: "'g fo_env \<Rightarrow> ('g \<Rightarrow> string \<Rightarrow> string) \<Rightarrow> ('g \<Rightarrow> (string \<times> string) set) \<Rightarrow> string \<Rightarrow> string \<Rightarrow> bool" where
  "drop_law env act mnt p q \<longleftrightarrow>
     (\<forall>fs st r g. facets_run env ''drop'' fs st = (r, g) \<longrightarrow>
        act g = act (fo_guest st) \<and> mnt g \<subseteq> mnt (fo_guest st) \<and>
        (cp_rc r = 0 \<longrightarrow> (\<forall>f \<in> set fs. act g f = q \<longrightarrow> (f, p) \<notin> mnt g)))"

definition move_law :: "'g fo_env \<Rightarrow> ('g \<Rightarrow> string \<Rightarrow> string) \<Rightarrow> ('g \<Rightarrow> (string \<times> string) set) \<Rightarrow> string \<Rightarrow> string \<Rightarrow> bool" where
  "move_law env act mnt p q \<longleftrightarrow>
     (\<forall>fs st r g. facets_run env ''move'' fs st = (r, g) \<longrightarrow>
        (\<forall>f. f \<notin> set fs \<longrightarrow> act g f = act (fo_guest st) f) \<and>
        mnt (fo_guest st) \<subseteq> mnt g \<and>
        (\<forall>f h. (f, h) \<in> mnt g - mnt (fo_guest st) \<longrightarrow> f \<in> set fs \<and> (act (fo_guest st) f = q \<longrightarrow> h = p)) \<and>
        (cp_rc r = 0 \<longrightarrow> (\<forall>f \<in> set fs. act (fo_guest st) f = q \<longrightarrow> (f, p) \<in> mnt g)))"

definition start_law :: "'g fo_env \<Rightarrow> ('g \<Rightarrow> string \<Rightarrow> string) \<Rightarrow> ('g \<Rightarrow> (string \<times> string) set) \<Rightarrow> bool" where
  "start_law env act mnt \<longleftrightarrow>
     (\<forall>fs st r g. facets_run env ''start'' fs st = (r, g) \<longrightarrow>
        act g = act (fo_guest st) \<and> mnt (fo_guest st) \<subseteq> mnt g \<and>
        (\<forall>f h. (f, h) \<in> mnt g - mnt (fo_guest st) \<longrightarrow> f \<in> set fs \<and> h = act (fo_guest st) f) \<and>
        (cp_rc r = 0 \<longrightarrow> (\<forall>f \<in> set fs. (f, act (fo_guest st) f) \<in> mnt g)))"

text \<open>The answer of \<^verbatim>\<open>active\<close> is the record, and a facet it calls unmounted is not mounted there.\<close>

definition active_true :: "('g \<Rightarrow> string \<Rightarrow> string) \<Rightarrow> ('g \<Rightarrow> (string \<times> string) set) \<Rightarrow> (string, string \<times> string) dict \<Rightarrow> string list \<Rightarrow> 'g \<Rightarrow> bool" where
  "active_true act mnt active fs g \<longleftrightarrow>
     (\<forall>f \<in> set fs. \<exists>state. dict_get active f = Some (act g f, state) \<and> (state = ''unmounted'' \<longrightarrow> (f, act g f) \<notin> mnt g))"

definition mounted_once :: "('g \<Rightarrow> (string \<times> string) set) \<Rightarrow> string \<Rightarrow> string \<Rightarrow> string list \<Rightarrow> 'g \<Rightarrow> bool" where
  "mounted_once mnt p q fs g \<longleftrightarrow> (\<forall>f \<in> set fs. (f, p) \<notin> mnt g \<or> (f, q) \<notin> mnt g)"

lemma facets_cmd_run: "facets_cmd env a fs st = (r, st') \<Longrightarrow> facets_run env a fs st = (r, fo_guest st')"
  by (auto simp: facets_cmd_def split: prod.split_asm)

text \<open>No facet is on the partner, or about to be mounted there.\<close>

lemma start_keeps_off:
  assumes "start_law env act mnt" "facets_cmd env ''start'' fs st = (r, st')" "p \<noteq> q"
    "\<forall>f \<in> set fs. act (fo_guest st) f = p" "\<forall>f \<in> set all. (f, q) \<notin> mnt (fo_guest st)"
  shows "\<forall>f \<in> set all. (f, q) \<notin> mnt (fo_guest st')" "mnt (fo_guest st) \<subseteq> mnt (fo_guest st')"
    "cp_rc r = 0 \<Longrightarrow> \<forall>f \<in> set fs. (f, p) \<in> mnt (fo_guest st')"
  using assms(1) [unfolded start_law_def, rule_format, OF facets_cmd_run [OF assms(2)]] assms(3-5) by fastforce+

lemma move_keeps_off:
  assumes "move_law env act mnt p q" "facets_cmd env ''move'' fs st = (r, st')" "p \<noteq> q"
    "\<forall>f \<in> set fs. act (fo_guest st) f = q" "\<forall>f \<in> set all. (f, q) \<notin> mnt (fo_guest st)"
  shows "\<forall>f \<in> set all. (f, q) \<notin> mnt (fo_guest st')" "\<forall>f. f \<notin> set fs \<longrightarrow> act (fo_guest st') f = act (fo_guest st) f"
    "cp_rc r = 0 \<Longrightarrow> \<forall>f \<in> set fs. (f, p) \<in> mnt (fo_guest st')"
  using assms(1) [unfolded move_law_def, rule_format, OF facets_cmd_run [OF assms(2)]] assms(3-5) by fastforce+

lemma remount_steps:
  assumes "start_law env act mnt" "p \<noteq> q" "\<forall>f \<in> set fs. act (fo_guest st) f = p" "\<forall>f \<in> set all. (f, q) \<notin> mnt (fo_guest st)"
    "failback_steps env [(''start'', fs)] rc st = (rc', st')"
  shows "\<forall>f \<in> set all. (f, q) \<notin> mnt (fo_guest st')" "mnt (fo_guest st) \<subseteq> mnt (fo_guest st')"
    "rc' = 0 \<Longrightarrow> rc = 0 \<and> (\<forall>f \<in> set fs. (f, p) \<in> mnt (fo_guest st'))"
proof -
  obtain r st1 where start: "facets_cmd env ''start'' fs st = (r, st1)" by fastforce
  note off = start_keeps_off [OF assms(1) start assms(2-4)]
  have run: "fs = [] \<and> rc' = rc \<and> st' = st \<or> st' = st1 \<and> (rc' = 0 \<longrightarrow> rc = 0 \<and> cp_rc r = 0)"
    using assms(5) start by (auto split: if_splits)
  show "\<forall>f \<in> set all. (f, q) \<notin> mnt (fo_guest st')" "mnt (fo_guest st) \<subseteq> mnt (fo_guest st')"
    "rc' = 0 \<Longrightarrow> rc = 0 \<and> (\<forall>f \<in> set fs. (f, p) \<in> mnt (fo_guest st'))"
    using run off assms(4) by auto
qed

lemma failback_steps_once:
  assumes laws: "stop_law env act mnt" "move_law env act mnt p q" "start_law env act mnt" and "p \<noteq> q"
    and lost: "\<forall>f \<in> set lost. act (fo_guest st) f = q \<and> (f, p) \<notin> mnt (fo_guest st)"
    and rest: "\<forall>f \<in> set all - set lost. (f, q) \<notin> mnt (fo_guest st)"
    and remount: "\<forall>f \<in> set remount. act (fo_guest st) f = p"
    and run: "failback_steps env [(''stop'', lost), (''move'', lost), (''start'', remount)] 0 st = (rc, st')"
  shows "mounted_once mnt p q all (fo_guest st')" "rc = 0 \<Longrightarrow> \<forall>f \<in> set lost \<union> set remount. (f, p) \<in> mnt (fo_guest st')"
proof -
  have apart: "f \<notin> set lost" if "f \<in> set remount" for f using that lost remount \<open>p \<noteq> q\<close> by auto
  have "mounted_once mnt p q all (fo_guest st') \<and> (rc = 0 \<longrightarrow> (\<forall>f \<in> set lost \<union> set remount. (f, p) \<in> mnt (fo_guest st')))"
  proof (cases "lost = []")
    case True
    then have "failback_steps env [(''start'', remount)] 0 st = (rc, st')" using run by simp
    from remount_steps [OF laws(3) \<open>p \<noteq> q\<close> remount _ this, of all] rest True show ?thesis by (auto simp: mounted_once_def)
  next
    case False
    obtain r1 st1 where stop: "facets_cmd env ''stop'' lost st = (r1, st1)" by fastforce
    obtain r2 st2 where move: "facets_cmd env ''move'' lost st1 = (r2, st2)" by fastforce
    note s = laws(1) [unfolded stop_law_def, rule_format, OF facets_cmd_run [OF stop]]
    show ?thesis
    proof (cases "cp_rc r1 = 0")
      case stopped: True
      have acts: "\<forall>f \<in> set lost. act (fo_guest st1) f = q" "\<forall>f \<in> set remount. act (fo_guest st1) f = p" using s lost remount by auto
      have off1: "\<forall>f \<in> set all. (f, q) \<notin> mnt (fo_guest st1)"
        using s stopped acts(1) rest by (metis DiffI subsetD)
      note m = move_keeps_off [OF laws(2) move \<open>p \<noteq> q\<close> acts(1) off1]
      have acts2: "\<forall>f \<in> set remount. act (fo_guest st2) f = p" using m(2) acts(2) apart by simp
      have "\<exists>rc2. failback_steps env [(''start'', remount)] rc2 st2 = (rc, st') \<and> (rc2 = 0 \<longrightarrow> cp_rc r2 = 0)"
        using run False stop move stopped by (auto split: if_splits)
      then obtain rc2 where rc2: "failback_steps env [(''start'', remount)] rc2 st2 = (rc, st')" "rc2 = 0 \<longrightarrow> cp_rc r2 = 0" by blast
      note e = remount_steps [OF laws(3) \<open>p \<noteq> q\<close> acts2 m(1) rc2(1)]
      show ?thesis using e m(3) rc2(2) by (auto simp: mounted_once_def)
    next
      case failed: False
      then have "rc = cp_rc r1" "st' = st1" using run False stop by auto
      then show ?thesis using failed s lost rest unfolding mounted_once_def by (metis DiffI subsetD)
    qed
  qed
  then show "mounted_once mnt p q all (fo_guest st')" "rc = 0 \<Longrightarrow> \<forall>f \<in> set lost \<union> set remount. (f, p) \<in> mnt (fo_guest st')" by auto
qed


subsection \<open>A concrete failover\<close>

definition fo_nodes :: "cluster_node list" where
  "fo_nodes = cluster_nodes_example @
     [\<lparr>cn_name = ''k'', cn_roles = [''client''], cn_mdt_disks = 0, cn_ost_disks = 0, cn_ip = ''192.168.100.13'', cn_failover_for = []\<rparr>]"

definition fo_host_example :: host where
  "fo_host_example = host_empty\<lparr>
     h_infos := [''o'' \<mapsto> ''PID=3'', ''f'' \<mapsto> ''PID=4'', ''k'' \<mapsto> ''PID=5''],
     h_clusters := [''c'' \<mapsto> GoodFile (JObj (cluster_doc (cluster_record ''c'' ''pid:7'' fo_nodes)))],
     h_procs := (\<lambda>pid. if pid \<in> {3, 4, 5} then Some \<lparr>qp_comm = ''qemu-system-x86'', qp_argv = None\<rparr> else None)\<rparr>"

type_synonym fo_guest_example = "(string \<Rightarrow> string) \<times> (string \<times> string) set"

definition pair_other :: "string \<Rightarrow> string" where
  "pair_other h = (if h = ''f'' then ''o'' else ''f'')"

text \<open>A framework where every step succeeds, except that the disks refuse a second mount.\<close>

definition facets_example :: "string \<Rightarrow> string list \<Rightarrow> fo_guest_example fo_state \<Rightarrow> completed \<times> fo_guest_example" where
  "facets_example action fs st =
     (case fo_guest st of (act, mnt) \<Rightarrow>
        if action = ''active'' then
          (\<lparr>cp_rc = 0, cp_out = concat (map (\<lambda>f. f @ '' '' @ act f @ (if (f, act f) \<in> mnt then '' mounted'' else '' unmounted'') @ [CHR 0x0A]) fs),
             cp_err = []\<rparr>, act, mnt)
        else if action = ''stop'' then (\<lparr>cp_rc = 0, cp_out = [], cp_err = []\<rparr>, act, mnt - set (map (\<lambda>f. (f, act f)) fs))
        else if action = ''drop'' then (\<lparr>cp_rc = 0, cp_out = [], cp_err = []\<rparr>, act, mnt - set (map (\<lambda>f. (f, pair_other (act f))) fs))
        else if action = ''move'' then
          (if list_ex (\<lambda>f. (f, act f) \<in> mnt) fs then (\<lparr>cp_rc = 1, cp_out = [], cp_err = []\<rparr>, act, mnt)
           else (\<lparr>cp_rc = 0, cp_out = [], cp_err = []\<rparr>, (\<lambda>f. if f \<in> set fs then pair_other (act f) else act f),
             mnt \<union> set (map (\<lambda>f. (f, pair_other (act f))) fs)))
        else (\<lparr>cp_rc = 0, cp_out = [], cp_err = []\<rparr>, act, mnt \<union> set (map (\<lambda>f. (f, act f)) fs)))"

definition script_example :: "string \<Rightarrow> string list \<Rightarrow> fo_guest_example fo_state \<Rightarrow> script_run \<times> fo_guest_example" where
  "script_example action fs st =
     (case facets_example action fs st of (r, g) \<Rightarrow>
        (\<lparr>sr_start = Some \<lparr>cp_rc = 0, cp_out = [], cp_err = []\<rparr>,
           sr_answers = [PollTimeout, Poll 0 (str_nat (nat (cp_rc r)) @ CHR 0x0A # cp_out r)]\<rparr>, g))"

definition fo_env_example :: "fo_guest_example fo_env" where
  "fo_env_example =
     \<lparr>fe_host = env_example, fe_darwin = False, fe_peers = [], fe_family = (\<lambda>_. True), fe_signal = (\<lambda>_. True),
      fe_qmp = (\<lambda>_. True), fe_ssh = (\<lambda>_. True), fe_script = script_example, fe_panic = (\<lambda>_ g. g)\<rparr>"

definition fo_state_example :: "fo_guest_example fo_state" where
  "fo_state_example =
     \<lparr>fo_host = fo_host_example, fo_down = {}, fo_stopped = {}, fo_guest = (\<lambda>_. ''o'', {(''ost1'', ''o''), (''ost2'', ''o'')})\<rparr>"

lemma fo_nodes_facts:
  "get_nodes (cluster_record ''c'' ''pid:7'' fo_nodes) = Inr fo_nodes" "cluster_shape fo_nodes"
  "find is_mgs fo_nodes = Some (hd fo_nodes)" "partner_dict fo_nodes = [(''o'', ''f'')]" "filter is_client fo_nodes = [last fo_nodes]"
  "map fst (filter (\<lambda>r. snd r = ''o'') (target_facets (hd fo_nodes) fo_nodes)) = [''ost1'', ''ost2'']"
  "block_ok (cluster_record ''c'' ''pid:7'' fo_nodes) (hd fo_nodes) fo_nodes" "cn_name (last fo_nodes) = ''k''"
  by (rule get_nodes_record | code_simp)+

lemma fo_loads:
  "\<exists>p q k. vm_load (h_infos fo_host_example) ''o'' = Inr p \<and> vm_load (h_infos fo_host_example) ''f'' = Inr q \<and>
    vm_load (h_infos fo_host_example) ''k'' = Inr k \<and> vm_name p = ''o'' \<and> vm_name q = ''f'' \<and>
    list_all (running fo_host_example) [p, q, k]"
proof -
  have "case (vm_load (h_infos fo_host_example) ''o'', vm_load (h_infos fo_host_example) ''f'', vm_load (h_infos fo_host_example) ''k'') of
      (Inr p, Inr q, Inr k) \<Rightarrow> vm_name p = ''o'' \<and> vm_name q = ''f'' \<and> list_all (running fo_host_example) [p, q, k] | _ \<Rightarrow> False"
    by code_simp
  then show ?thesis by (auto split: sum.split_asm)
qed

lemma fo_example_checks:
  "\<exists>pair. failover_checks fo_env_example ''c'' ''o'' how fo_state_example = Inr pair \<and>
    vm_name (pr_primary pair) = ''o'' \<and> vm_name (pr_partner pair) = ''f''"
proof -
  let ?c = "cluster_record ''c'' ''pid:7'' fo_nodes"
  obtain p q k where vms: "vm_load (h_infos fo_host_example) ''o'' = Inr p" "vm_load (h_infos fo_host_example) ''f'' = Inr q"
    "vm_load (h_infos fo_host_example) ''k'' = Inr k" "vm_name p = ''o''" "vm_name q = ''f''" "list_all (running fo_host_example) [p, q, k]"
    using fo_loads by blast
  have host: "fo_host fo_state_example = fo_host_example" by (simp add: fo_state_example_def)
  have run: "\<exists>vm'. require_running fo_state_example vm = Inr vm' \<and> vm_name vm' = vm_name vm" if "running fo_host_example vm" for vm
    using that unfolding require_running_def host running_def is_running_def by (auto simp: Let_def split: if_splits)
  obtain p' q' k' where run: "require_running fo_state_example p = Inr p'" "vm_name p' = ''o''"
    "require_running fo_state_example q = Inr q'" "vm_name q' = ''f''" "require_running fo_state_example k = Inr k'"
    using vms(4-6) run [of p] run [of q] run [of k] by auto
  have load: "cluster_load rep (h_clusters fo_host_example) ''c'' = Inr ?c" for rep
    by (simp add: fo_host_example_def cluster_load_def) (simp add: cluster_of_doc_def cluster_doc_def cluster_record_def opt_json_def json_count_def Let_def)
  have claims: "require_claims fo_env_example ?c fo_state_example = Inr ()"
  proof -
    have "require_all (claim_env_example ''u'') claim_store_example (map cn_name fo_nodes) = Inr ()" by code_simp
    then show ?thesis
      unfolding require_claims_def fo_nodes_facts(1) host
      by (simp add: fo_env_example_def env_example_def fo_host_example_def host_empty_def)
  qed
  have mgs: "mgs_node ?c = Inr (hd fo_nodes)" by (simp add: mgs_node_def fo_nodes_facts)
  obtain d where d: "node_facets ?c = Inr d" "get_or [] (dict_get d ''o'') = [''ost1'', ''ost2'']"
    using node_facets_read [OF fo_nodes_facts(1) mgs fo_nodes_facts(2,7)] fo_nodes_facts(6) by auto
  have "make_pair fo_env_example ?c ''o'' fo_state_example = Inr \<lparr>pr_primary = p, pr_partner = q, pr_client = k, pr_facets = [''ost1'', ''ost2'']\<rparr>"
    using vms d by (simp add: make_pair_def info_partners_def fo_nodes_facts load_vm_def host client_nodes_def fo_env_example_def Let_def)
  then have "failover_checks fo_env_example ''c'' ''o'' how fo_state_example =
      Inr \<lparr>pr_primary = p', pr_partner = q', pr_client = k', pr_facets = [''ost1'', ''ost2'']\<rparr>"
    using load claims run by (simp add: failover_checks_def running_pair_def host) (simp add: fo_env_example_def)
  then show ?thesis using run by simp
qed


definition fo_pair_example :: fo_pair where
  "fo_pair_example = \<lparr>pr_primary = vm_example\<lparr>vm_name := ''o''\<rparr>, pr_partner = vm_example\<lparr>vm_name := ''f''\<rparr>,
     pr_client = vm_example, pr_facets = [''ost1'', ''ost2'']\<rparr>"

definition fo_env_mute :: "fo_guest_example fo_env" where
  "fo_env_mute = fo_env_example\<lparr>fe_script := (\<lambda>_ _ st. (\<lparr>sr_start = Some \<lparr>cp_rc = 1, cp_out = [], cp_err = []\<rparr>, sr_answers = []\<rparr>, fo_guest st))\<rparr>"


text \<open>The example framework keeps the laws.\<close>

lemma poll_status: "poll_job (PollTimeout # Poll 0 (str_nat n @ CHR 0x0A # out) # rest) = Some \<lparr>cp_rc = int n, cp_out = out, cp_err = []\<rparr>"
proof -
  have digits: "\<And>c. c \<in> set (str_nat n) \<Longrightarrow> isdecimal c" by (rule str_nat_decimal)
  then have "CHR 0x0A \<notin> set (str_nat n)" by (force simp: isdecimal_def)
  moreover have "strip (str_nat n) = str_nat n" using digits isdecimal_not_space by (intro strip_no_space) blast
  moreover have "str_isdigit (str_nat n)" using digits isdecimal_isdigit by (auto simp: str_isdigit_def list_all_iff)
  ultimately show ?thesis by (simp add: partition1_append)
qed

lemma facets_run_example: "facets_run fo_env_example = facets_example"
proof (intro ext)
  fix action fs st
  obtain r g where run: "facets_example action fs st = (r, g)" by (rule prod.exhaust)
  then have "cp_err r = []" "int (nat (cp_rc r)) = cp_rc r"
    by (auto simp: facets_example_def split: prod.split_asm if_splits)
  then have "facets_result (fst (script_example action fs st)) = r"
    unfolding script_example_def run facets_result_def by (simp add: poll_status del: poll_job.simps int_nat_eq)
  then show "facets_run fo_env_example action fs st = facets_example action fs st"
    by (simp add: facets_run_def fo_env_example_def run script_example_def)
qed

lemma facets_example_laws:
  "stop_law fo_env_example fst snd" "drop_law fo_env_example fst snd ''o'' ''f''"
  "move_law fo_env_example fst snd ''o'' ''f''" "start_law fo_env_example fst snd"
proof -
  show "stop_law fo_env_example fst snd" "start_law fo_env_example fst snd"
    unfolding stop_law_def start_law_def facets_run_example by (auto simp: facets_example_def split: prod.split_asm)
  show "drop_law fo_env_example fst snd ''o'' ''f''"
    unfolding drop_law_def facets_run_example by (auto simp: facets_example_def pair_other_def image_iff split: prod.split_asm)
  show "move_law fo_env_example fst snd ''o'' ''f''"
    unfolding move_law_def facets_run_example by (auto simp: facets_example_def pair_other_def image_iff split: prod.split_asm if_splits)
qed

definition fo_state_moved :: "fo_guest_example fo_state" where
  "fo_state_moved = fo_state_example\<lparr>fo_guest := (\<lambda>_. ''f'', {(''ost1'', ''f''), (''ost2'', ''f''), (''ost1'', ''o'')})\<rparr>"

definition fo_active_example :: "(string, string \<times> string) dict" where
  "fo_active_example = [(''ost1'', (''f'', ''mounted'')), (''ost2'', (''f'', ''mounted''))]"


end
