(* ===== verification/SuiteResults.thy ===== *)
theory SuiteResults
  imports PyStr
begin

text \<open>
  Results of test suites (\<^verbatim>\<open>suite_run.py\<close>): the reader of auster's \<^verbatim>\<open>results.yml\<close>, which may be cut off
  at any line and has the tests of a suite that another suite runs inside the test that runs it, the
  summary of the files, and whether a run counts as failed.
\<close>

subsection \<open>Lines\<close>

text \<open>
  The regular expressions: \<open>match_key\<close> is \<^verbatim>\<open>^ {n}(k1|k2|...):\s?(.*)\<close>.  A line has no newline, so
  \<^verbatim>\<open>.*\<close> is the rest of it.
\<close>

definition opt_space :: "string \<Rightarrow> string" where
  "opt_space s = (case s of [] \<Rightarrow> [] | c # cs \<Rightarrow> if isspace c then cs else s)"

definition key_head :: "nat \<Rightarrow> string \<Rightarrow> string" where
  "key_head n k = replicate n CHR 0x20 @ k @ '':''"

definition match_key :: "nat \<Rightarrow> string list \<Rightarrow> string \<Rightarrow> (string \<times> string) option" where
  "match_key n keys line =
     (case find (\<lambda>k. startswith line (key_head n k)) keys of
        None \<Rightarrow> None
      | Some k \<Rightarrow> Some (k, opt_space (drop (length (key_head n k)) line)))"

definition clean :: "string \<Rightarrow> string" where
  "clean s = rstrip_char CHR 0x27 (dropWhile (\<lambda>c. c = CHR 0x27) (strip s))"

definition SUB_KEYS :: "string list" where
  "SUB_KEYS = [''status'', ''duration'', ''return_code'', ''error'']"

definition SUITE_KEYS :: "string list" where
  "SUITE_KEYS = [''name'', ''status'', ''duration'']"

definition sub_name :: "string \<Rightarrow> string option" where
  "sub_name line =
     (case match_key 12 [''name''] line of
        None \<Rightarrow> None
      | Some (_, rest) \<Rightarrow> let w = takeWhile (\<lambda>c. \<not> isspace c) rest in if w = [] then None else Some w)"

definition sub_field :: "string \<Rightarrow> (string \<times> string) option" where
  "sub_field line = map_option (\<lambda>(k, v). (k, clean v)) (match_key 12 SUB_KEYS line)"

definition suite_line :: "string \<Rightarrow> (string \<times> string) option" where
  "suite_line line = map_option (\<lambda>(k, v). (k, clean v)) (match_key 8 SUITE_KEYS line)"

subsection \<open>The reader\<close>

text \<open>
  A subtest is a dictionary the list of its suite and the variables \<^verbatim>\<open>cur\<close> and \<^verbatim>\<open>waiting\<close> share: the
  two hold positions in that list.  The suites and \<^verbatim>\<open>waiting\<close> are kept last first.
\<close>

type_synonym test_row = "(string, string) dict"

record suite_result =
  s_name :: string
  s_fields :: "(string, string) dict"
  s_subs :: "test_row list"

record reader =
  rd_suites :: "suite_result list"
  rd_cur :: "nat option"
  rd_waiting :: "nat list"

definition has_status :: "test_row \<Rightarrow> bool" where
  "has_status r \<longleftrightarrow> dict_get r ''status'' \<noteq> None"

definition open_test :: "suite_result \<Rightarrow> nat option \<Rightarrow> nat list \<Rightarrow> nat list" where
  "open_test s cur waiting =
     (case cur of None \<Rightarrow> waiting | Some i \<Rightarrow> if \<not> has_status (s_subs s ! i) then i # waiting else waiting)"

definition new_subtest :: "string \<Rightarrow> suite_result \<Rightarrow> suite_result list \<Rightarrow> reader \<Rightarrow> reader" where
  "new_subtest n s ss st =
     \<lparr>rd_suites = s\<lparr>s_subs := s_subs s @ [[(''name'', n)]]\<rparr> # ss, rd_cur = Some (length (s_subs s)),
      rd_waiting = open_test s (rd_cur st) (rd_waiting st)\<rparr>"

definition set_subfield :: "string \<Rightarrow> string \<Rightarrow> nat \<Rightarrow> suite_result \<Rightarrow> suite_result list \<Rightarrow> reader \<Rightarrow> reader" where
  "set_subfield k v i s ss st =
     (let (j, w) = (if k = ''status'' \<and> has_status (s_subs s ! i) \<and> rd_waiting st \<noteq> []
                    then (hd (rd_waiting st), tl (rd_waiting st)) else (i, rd_waiting st))
      in \<lparr>rd_suites = s\<lparr>s_subs := (s_subs s)[j := dict_set (s_subs s ! j) k v]\<rparr> # ss, rd_cur = Some j, rd_waiting = w\<rparr>)"

definition set_suite :: "string \<Rightarrow> string \<Rightarrow> reader \<Rightarrow> reader" where
  "set_suite k v st =
     (if k = ''name'' then
        \<lparr>rd_suites = \<lparr>s_name = v, s_fields = [], s_subs = []\<rparr> # rd_suites st, rd_cur = None, rd_waiting = []\<rparr>
      else
        case rd_suites st of
          [] \<Rightarrow> st
        | s # ss \<Rightarrow> st\<lparr>rd_suites := s\<lparr>s_fields := dict_set (s_fields s) k v\<rparr> # ss\<rparr>)"

definition read_line :: "string \<Rightarrow> reader \<Rightarrow> reader" where
  "read_line line st =
     (case (sub_name line, rd_suites st) of
        (Some n, s # ss) \<Rightarrow> new_subtest n s ss st
      | _ \<Rightarrow>
          (case (sub_field line, rd_cur st, rd_suites st) of
             (Some (k, v), Some i, s # ss) \<Rightarrow> set_subfield k v i s ss st
           | _ \<Rightarrow> (case suite_line line of None \<Rightarrow> st | Some (k, v) \<Rightarrow> set_suite k v st)))"

definition parse_results :: "string \<Rightarrow> suite_result list" where
  "parse_results text' =
     rev (rd_suites (fold read_line (splitlines text') \<lparr>rd_suites = [], rd_cur = None, rd_waiting = []\<rparr>))"

subsection \<open>The summary\<close>

record summary =
  sm_counts :: "(string, int) dict"
  sm_suites :: "(string \<times> string option \<times> string option) list"
  sm_failures :: "test_row list"
  sm_unfinished :: "test_row list"

definition count_test :: "string \<Rightarrow> test_row \<Rightarrow> summary \<Rightarrow> summary" where
  "count_test suite t sm =
     (let st = get_or [] (dict_get t ''status''); row = (''suite'', suite) # t
      in if st = [] then sm\<lparr>sm_unfinished := sm_unfinished sm @ [row]\<rparr>
         else
           let sm' = sm\<lparr>sm_counts := dict_set (sm_counts sm) st (get_or 0 (dict_get (sm_counts sm) st) + 1)\<rparr>
           in if st \<noteq> ''PASS'' \<and> st \<noteq> ''SKIP'' then sm'\<lparr>sm_failures := sm_failures sm' @ [row]\<rparr> else sm')"

definition count_suite :: "suite_result \<Rightarrow> summary \<Rightarrow> summary" where
  "count_suite s sm =
     fold (count_test (s_name s)) (s_subs s)
       (sm\<lparr>sm_suites := sm_suites sm @ [(s_name s, dict_get (s_fields s) ''status'', dict_get (s_fields s) ''duration'')]\<rparr>)"

text \<open>\<^verbatim>\<open>summarize\<close> over the texts of the results files, in the order of their paths.\<close>

definition summarize :: "string list \<Rightarrow> summary" where
  "summarize texts =
     fold count_suite (concat (map (\<lambda>t. parse_results (universal_newlines t)) texts))
       \<lparr>sm_counts = [], sm_suites = [], sm_failures = [], sm_unfinished = []\<rparr>"

datatype run_state = RDone | RRunning | RDied

record run_status =
  rs_id :: string
  rs_state :: run_state
  rs_rc :: "int option"
  rs_age :: "int option"
  rs_current :: string
  rs_rebooted :: "string list"
  rs_unreachable :: "string list"

definition failed :: "run_status \<Rightarrow> summary \<Rightarrow> bool" where
  "failed st sm \<longleftrightarrow> rs_state st \<noteq> RDone \<or> rs_rc st \<noteq> Some 0 \<or> sm_failures sm \<noteq> [] \<or> sm_unfinished sm \<noteq> []"

subsection \<open>What a suite writes\<close>

text \<open>
  A finished test has a name, the tests it ran itself, then its status and its other fields.  The
  file of a suite that was killed has tests that are open: each is written with the tests that
  finished before it inside the same parent, and \<open>l_done\<close> are those inside the innermost one.
\<close>

datatype test = Test (t_name: string) (t_inner: "test list") (t_status: string) (t_extra: "(string \<times> string) list")

record suite_log =
  l_name :: string
  l_open :: "(test list \<times> string) list"
  l_done :: "test list"
  l_fields :: "(string \<times> string) list"

definition field_text :: "nat \<Rightarrow> string \<Rightarrow> string \<Rightarrow> string" where
  "field_text n k v = key_head n k @ '' '' @ v"

fun test_lines :: "test \<Rightarrow> string list" where
  "test_lines (Test n inner st extra) =
     field_text 12 ''name'' n # concat (map test_lines inner) @
     field_text 12 ''status'' st # map (\<lambda>(k, v). field_text 12 k v) extra"

definition log_lines :: "suite_log \<Rightarrow> string list" where
  "log_lines l =
     field_text 8 ''name'' (l_name l) #
     concat (map (\<lambda>(ts, n). concat (map test_lines ts) @ [field_text 12 ''name'' n]) (l_open l)) @
     concat (map test_lines (l_done l)) @ map (\<lambda>(k, v). field_text 8 k v) (l_fields l)"

definition put_fields :: "(string \<times> string) list \<Rightarrow> (string, string) dict \<Rightarrow> (string, string) dict" where
  "put_fields kvs d = fold (\<lambda>(k, v) d. dict_set d k v) kvs d"

fun test_rows :: "test \<Rightarrow> test_row list" where
  "test_rows (Test n inner st extra) = put_fields ((''status'', st) # extra) [(''name'', n)] # concat (map test_rows inner)"

definition log_result :: "suite_log \<Rightarrow> suite_result" where
  "log_result l =
     \<lparr>s_name = l_name l, s_fields = put_fields (l_fields l) [],
      s_subs = concat (map (\<lambda>(ts, n). concat (map test_rows ts) @ [[(''name'', n)]]) (l_open l)) @
        concat (map test_rows (l_done l))\<rparr>"

fun test_all :: "(test \<Rightarrow> bool) \<Rightarrow> test \<Rightarrow> bool" where
  "test_all P (Test n inner st extra) \<longleftrightarrow> P (Test n inner st extra) \<and> list_all (test_all P) inner"

definition word_text :: "string \<Rightarrow> bool" where
  "word_text n \<longleftrightarrow> n \<noteq> [] \<and> list_all (\<lambda>c. \<not> isspace c) n"

definition clean_text :: "string \<Rightarrow> bool" where
  "clean_text v \<longleftrightarrow> clean v = v"

definition wf_test :: "test \<Rightarrow> bool" where
  "wf_test t \<longleftrightarrow> word_text (t_name t) \<and> clean_text (t_status t) \<and>
     list_all (\<lambda>(k, v). k \<in> set SUB_KEYS \<and> k \<noteq> ''status'' \<and> clean_text v) (t_extra t)"

definition wf_log :: "suite_log \<Rightarrow> bool" where
  "wf_log l \<longleftrightarrow> clean_text (l_name l) \<and> list_all (\<lambda>(ts, n). list_all (test_all wf_test) ts \<and> word_text n) (l_open l) \<and>
     list_all (test_all wf_test) (l_done l) \<and>
     list_all (\<lambda>(k, v). k \<in> set SUITE_KEYS \<and> k \<noteq> ''name'' \<and> clean_text v) (l_fields l)"

text \<open>The lines the reader looks at; a file has others.\<close>

definition relevant :: "string \<Rightarrow> bool" where
  "relevant line \<longleftrightarrow> sub_name line \<noteq> None \<or> sub_field line \<noteq> None \<or> suite_line line \<noteq> None"

definition file_of :: "suite_log list \<Rightarrow> string \<Rightarrow> bool" where
  "file_of logs text' \<longleftrightarrow> filter relevant (splitlines text') = concat (map log_lines logs)"

subsection \<open>Lemmas: reading the lines that were written\<close>

definition plain_key :: "string \<Rightarrow> bool" where
  "plain_key k \<longleftrightarrow> k \<noteq> [] \<and> hd k \<noteq> CHR 0x20 \<and> CHR '':'' \<notin> set k"

lemma key_head_split:
  assumes "plain_key k"
  shows "takeWhile (\<lambda>c. c = CHR 0x20) (key_head n k @ s) = replicate n CHR 0x20"
    "dropWhile (\<lambda>c. c = CHR 0x20) (key_head n k @ s) = k @ CHR '':'' # s"
  using assms by (induction n; cases k; simp add: key_head_def plain_key_def)+

lemma key_head_iff:
  assumes "plain_key k" "plain_key k'"
  shows "startswith (key_head n k @ s) (key_head m k') \<longleftrightarrow> n = m \<and> k = k'"
proof
  assume "startswith (key_head n k @ s) (key_head m k')"
  then obtain r where r: "key_head n k @ s = key_head m k' @ r"
    unfolding startswith_def by (metis append_take_drop_id)
  have "n = m" using key_head_split(1) [OF assms(1), of n s] key_head_split(1) [OF assms(2), of m r] r by (metis length_replicate)
  moreover have "k @ CHR '':'' # s = k' @ CHR '':'' # r"
    using key_head_split(2) [OF assms(1), of n s] key_head_split(2) [OF assms(2), of m r] r by metis
  then have "k = k'" using assms first_part_unique(1) [of k "CHR '':''" s k' r] by (simp add: plain_key_def)
  ultimately show "n = m \<and> k = k'" by simp
qed (simp add: startswith_append)

lemma plain_keys: "list_all plain_key SUB_KEYS" "list_all plain_key SUITE_KEYS" "plain_key ''name''"
  by code_simp+

lemma find_key: "find (\<lambda>k'. b \<and> k = k') keys = (if b \<and> k \<in> set keys then Some k else None)"
  by (induction keys) auto

lemma find_cong_list: "list_all (\<lambda>x. P x = Q x) xs \<Longrightarrow> find P xs = find Q xs"
  by (induction xs) auto

lemma match_key_field:
  assumes "plain_key k" "list_all plain_key keys"
  shows "match_key m keys (field_text n k v) = (if n = m \<and> k \<in> set keys then Some (k, v) else None)"
proof -
  have "list_all (\<lambda>k'. startswith (field_text n k v) (key_head m k') = (n = m \<and> k = k')) keys"
    using assms by (auto simp: list_all_iff field_text_def key_head_iff)
  then have "find (\<lambda>k'. startswith (field_text n k v) (key_head m k')) keys = (if n = m \<and> k \<in> set keys then Some k else None)"
    by (simp only: find_cong_list find_key)
  then show ?thesis
    by (simp add: match_key_def field_text_def opt_space_def isspace_def ascii_space_def split: if_split)
qed

lemma keys_distinct: "''name'' \<notin> set SUB_KEYS" "''status'' \<in> set SUB_KEYS" "''name'' \<in> set SUITE_KEYS"
  by code_simp+

lemma takeWhile_word: "word_text n \<Longrightarrow> takeWhile (\<lambda>c. \<not> isspace c) n = n"
  by (simp add: word_text_def takeWhile_all list_all_iff)

lemma name_line_read: "word_text n \<Longrightarrow> sub_name (field_text 12 ''name'' n) = Some n"
  using plain_keys(3) by (simp add: sub_name_def match_key_field takeWhile_word) (simp add: word_text_def)

lemma field_line_read:
  assumes "k \<in> set SUB_KEYS" "clean_text v"
  shows "sub_name (field_text 12 k v) = None" "sub_field (field_text 12 k v) = Some (k, v)"
proof -
  have k: "plain_key k" "k \<noteq> ''name''" using assms(1) plain_keys(1) keys_distinct by (auto simp: list_all_iff)
  have "match_key 12 [''name''] (field_text 12 k v) = None" using k plain_keys(3) by (subst match_key_field) auto
  then show "sub_name (field_text 12 k v) = None" by (simp add: sub_name_def)
  show "sub_field (field_text 12 k v) = Some (k, v)"
    using assms k plain_keys by (simp add: sub_field_def match_key_field clean_text_def)
qed

lemma suite_line_read:
  assumes "k \<in> set SUITE_KEYS" "clean_text v"
  shows "sub_name (field_text 8 k v) = None" "sub_field (field_text 8 k v) = None" "suite_line (field_text 8 k v) = Some (k, v)"
proof -
  have k: "plain_key k" using assms(1) plain_keys(2) by (auto simp: list_all_iff)
  have "match_key 12 [''name''] (field_text 8 k v) = None" using k plain_keys(3) by (subst match_key_field) auto
  then show "sub_name (field_text 8 k v) = None" by (simp add: sub_name_def)
  show "sub_field (field_text 8 k v) = None" "suite_line (field_text 8 k v) = Some (k, v)"
    using assms k plain_keys by (simp_all add: sub_field_def suite_line_def match_key_field clean_text_def)
qed

subsection \<open>Lemmas: nested tests\<close>

abbreviation at :: "suite_result \<Rightarrow> suite_result list \<Rightarrow> nat option \<Rightarrow> nat list \<Rightarrow> reader" where
  "at s ss c w \<equiv> \<lparr>rd_suites = s # ss, rd_cur = c, rd_waiting = w\<rparr>"

abbreviation with_rows :: "suite_result \<Rightarrow> test_row list \<Rightarrow> suite_result" where
  "with_rows s rows \<equiv> s\<lparr>s_subs := s_subs s @ rows\<rparr>"

lemma read_name: "word_text n \<Longrightarrow> read_line (field_text 12 ''name'' n) (at s ss c w) =
    at (with_rows s [[(''name'', n)]]) ss (Some (length (s_subs s))) (open_test s c w)"
  by (simp add: read_line_def name_line_read new_subtest_def)

lemma read_field: "k \<in> set SUB_KEYS \<Longrightarrow> clean_text v \<Longrightarrow> read_line (field_text 12 k v) (at s ss (Some i) w) = set_subfield k v i s ss (at s ss (Some i) w)"
  by (simp add: read_line_def field_line_read)

lemma read_suite: "k \<in> set SUITE_KEYS \<Longrightarrow> clean_text v \<Longrightarrow> read_line (field_text 8 k v) st = set_suite k v st"
  by (simp add: read_line_def suite_line_read)

lemma read_extra:
  assumes "list_all (\<lambda>(k, v). k \<in> set SUB_KEYS \<and> k \<noteq> ''status'' \<and> clean_text v) extra" "i < length (s_subs s)"
  shows "fold read_line (map (\<lambda>(k, v). field_text 12 k v) extra) (at s ss (Some i) w) =
    at (s\<lparr>s_subs := (s_subs s)[i := put_fields extra (s_subs s ! i)]\<rparr>) ss (Some i) w"
  using assms
proof (induction extra arbitrary: s)
  case (Cons kv extra)
  then show ?case by (cases kv) (simp add: read_field set_subfield_def put_fields_def)
qed (simp add: put_fields_def)

text \<open>A state that may be in a suite: the position of the current test is one of the list.\<close>

definition cur_ok :: "suite_result \<Rightarrow> nat option \<Rightarrow> bool" where
  "cur_ok s c \<longleftrightarrow> (case c of None \<Rightarrow> True | Some i \<Rightarrow> i < length (s_subs s))"

lemma open_test_rows [simp]: "cur_ok s c \<Longrightarrow> open_test (with_rows s rows) c w = open_test s c w"
  by (cases c) (simp_all add: open_test_def cur_ok_def nth_append)

definition reads_test :: "test \<Rightarrow> bool" where
  "reads_test t \<longleftrightarrow> (\<forall>s ss c w. cur_ok s c \<longrightarrow>
     fold read_line (test_lines t) (at s ss c w) =
       at (with_rows s (test_rows t)) ss (Some (length (s_subs s))) (open_test s c w))"

lemma has_status_put: "list_all (\<lambda>(k, v). k \<noteq> ''status'') extra \<Longrightarrow> has_status r \<Longrightarrow> has_status (put_fields extra r)"
  by (induction extra arbitrary: r) (auto simp: put_fields_def has_status_def)

lemma hd_test_rows: "test_rows t \<noteq> []" "has_status (hd (test_rows t))"
proof -
  show "test_rows t \<noteq> []" by (cases t) simp
  have "has_status r \<Longrightarrow> has_status (put_fields kvs r)" for kvs r
    by (induction kvs arbitrary: r) (auto simp: put_fields_def has_status_def)
  then show "has_status (hd (test_rows t))" by (cases t) (simp add: put_fields_def has_status_def)
qed

text \<open>After finished tests the current one has its status, and nothing new waits but the one that was open.\<close>

lemma reads_tests:
  assumes "list_all reads_test ts" "cur_ok s c" "ts \<noteq> []"
  shows "\<exists>j. j < length (s_subs s @ concat (map test_rows ts)) \<and> has_status ((s_subs s @ concat (map test_rows ts)) ! j) \<and>
    fold read_line (concat (map test_lines ts)) (at s ss c w) =
      at (with_rows s (concat (map test_rows ts))) ss (Some j) (open_test s c w)"
  using assms
proof (induction ts arbitrary: s c w)
  case (Cons t ts)
  let ?s = "with_rows s (test_rows t)" and ?i = "length (s_subs s)"
  have step: "fold read_line (test_lines t) (at s ss c w) = at ?s ss (Some ?i) (open_test s c w)"
    using Cons.prems by (simp add: reads_test_def)
  have i: "?i < length (s_subs ?s)" "has_status (s_subs ?s ! ?i)"
    using hd_test_rows [of t] by (auto simp: nth_append hd_conv_nth)
  show ?case
  proof (cases "ts = []")
    case True
    with step i show ?thesis by (auto intro: exI [of _ ?i])
  next
    case False
    have "open_test ?s (Some ?i) (open_test s c w) = open_test s c w" using i by (simp add: open_test_def)
    with Cons.IH [of ?s "Some ?i" "open_test s c w"] Cons.prems False i step show ?thesis by (simp add: cur_ok_def)
  qed
qed simp

lemma reads_status:
  assumes "clean_text st" "i < length (s_subs s)" "\<not> has_status (s_subs s ! i)"
  shows "read_line (field_text 12 ''status'' st) (at s ss (Some i) w) =
    at (s\<lparr>s_subs := (s_subs s)[i := dict_set (s_subs s ! i) ''status'' st]\<rparr>) ss (Some i) w"
    and "j < length (s_subs s) \<Longrightarrow> has_status (s_subs s ! j) \<Longrightarrow> read_line (field_text 12 ''status'' st) (at s ss (Some j) (i # w)) =
    at (s\<lparr>s_subs := (s_subs s)[i := dict_set (s_subs s ! i) ''status'' st]\<rparr>) ss (Some i) w"
  using assms keys_distinct(2) by (simp_all add: read_field set_subfield_def)

lemma reads_test_all: "test_all wf_test t \<Longrightarrow> reads_test t"
proof (induction t)
  case (Test n inner st extra)
  have wf: "word_text n" "clean_text st" "list_all (\<lambda>(k, v). k \<in> set SUB_KEYS \<and> k \<noteq> ''status'' \<and> clean_text v) extra"
    using Test.prems by (simp_all add: wf_test_def)
  have inner: "list_all reads_test inner" using Test by (simp add: list_all_iff)
  show ?case unfolding reads_test_def
  proof (intro allI impI)
    fix s ss c w
    assume ok: "cur_ok s c"
    let ?i = "length (s_subs s)" and ?s1 = "with_rows s [[(''name'', n)]]" and ?w = "open_test s c w" and ?rows = "concat (map test_rows inner)"
    let ?s2 = "with_rows ?s1 ?rows"
    have i: "?i < length (s_subs ?s2)" "s_subs ?s2 ! ?i = [(''name'', n)]" "\<not> has_status (s_subs ?s2 ! ?i)"
      by (simp_all add: nth_append has_status_def)
    have "read_line (field_text 12 ''status'' st) (fold read_line (concat (map test_lines inner)) (at ?s1 ss (Some ?i) ?w)) =
      at (?s2\<lparr>s_subs := (s_subs ?s2)[?i := dict_set (s_subs ?s2 ! ?i) ''status'' st]\<rparr>) ss (Some ?i) ?w"
    proof (cases "inner = []")
      case True
      then show ?thesis using reads_status(1) [OF wf(2) i(1,3)] by simp
    next
      case False
      have "open_test ?s1 (Some ?i) ?w = ?i # ?w" by (simp add: open_test_def has_status_def)
      with reads_tests [OF inner _ False, of ?s1 "Some ?i" ss ?w] obtain j where
        j: "j < length (s_subs ?s2)" "has_status (s_subs ?s2 ! j)"
          "fold read_line (concat (map test_lines inner)) (at ?s1 ss (Some ?i) ?w) = at ?s2 ss (Some j) (?i # ?w)"
        by (auto simp: cur_ok_def)
      show ?thesis unfolding j(3) using reads_status(2) [OF wf(2) i(1,3) j(1,2)] by simp
    qed
    then show "fold read_line (test_lines (Test n inner st extra)) (at s ss c w) =
        at (with_rows s (test_rows (Test n inner st extra))) ss (Some ?i) ?w"
      using read_extra [OF wf(3), of ?i "?s2\<lparr>s_subs := (s_subs ?s2)[?i := dict_set (s_subs ?s2 ! ?i) ''status'' st]\<rparr>" ss ?w] i(1,2)
      by (simp add: read_name wf(1) put_fields_def list_update_append)
  qed
qed

subsection \<open>Lemmas: whole files\<close>

lemma reads_done:
  assumes "list_all (test_all wf_test) ts" "cur_ok s c"
  shows "\<exists>c' w'. cur_ok (with_rows s (concat (map test_rows ts))) c' \<and>
    fold read_line (concat (map test_lines ts)) (at s ss c w) = at (with_rows s (concat (map test_rows ts))) ss c' w'"
proof (cases "ts = []")
  case False
  have "list_all reads_test ts" using assms(1) by (simp add: list_all_iff reads_test_all)
  from reads_tests [OF this assms(2) False, of ss w] show ?thesis by (auto simp: cur_ok_def intro: exI [of _ "Some _"])
qed (use assms in auto)

lemma reads_open:
  assumes "list_all (\<lambda>(ts, n). list_all (test_all wf_test) ts \<and> word_text n) frames" "cur_ok s c"
  shows "\<exists>c' w'. cur_ok (with_rows s (concat (map (\<lambda>(ts, n). concat (map test_rows ts) @ [[(''name'', n)]]) frames))) c' \<and>
    fold read_line (concat (map (\<lambda>(ts, n). concat (map test_lines ts) @ [field_text 12 ''name'' n]) frames)) (at s ss c w) =
      at (with_rows s (concat (map (\<lambda>(ts, n). concat (map test_rows ts) @ [[(''name'', n)]]) frames))) ss c' w'"
  using assms
proof (induction frames arbitrary: s c w)
  case (Cons f frames)
  obtain ts n where f: "f = (ts, n)" by fastforce
  with Cons.prems have wf: "list_all (test_all wf_test) ts" "word_text n" by auto
  let ?s1 = "with_rows s (concat (map test_rows ts))"
  let ?s2 = "with_rows ?s1 [[(''name'', n)]]"
  obtain c1 w1 where 1: "cur_ok ?s1 c1" "fold read_line (concat (map test_lines ts)) (at s ss c w) = at ?s1 ss c1 w1"
    using reads_done [OF wf(1) Cons.prems(2)] by blast
  have "cur_ok ?s2 (Some (length (s_subs ?s1)))" by (simp add: cur_ok_def)
  with Cons.IH [of ?s2 "Some (length (s_subs ?s1))" "open_test ?s1 c1 w1"] Cons.prems(1) show ?case
    by (simp add: f 1 read_name [OF wf(2)])
qed auto

lemma reads_suite_fields:
  assumes "list_all (\<lambda>(k, v). k \<in> set SUITE_KEYS \<and> k \<noteq> ''name'' \<and> clean_text v) kvs"
  shows "fold read_line (map (\<lambda>(k, v). field_text 8 k v) kvs) (at s ss c w) = at (s\<lparr>s_fields := put_fields kvs (s_fields s)\<rparr>) ss c w"
  using assms
proof (induction kvs arbitrary: s)
  case (Cons kv kvs)
  then show ?case by (cases kv) (simp add: read_suite set_suite_def put_fields_def)
qed (simp add: put_fields_def)

lemma reads_log:
  assumes "wf_log l"
  shows "\<exists>c w. fold read_line (log_lines l) st = at (log_result l) (rd_suites st) c w"
proof -
  let ?s = "\<lparr>s_name = l_name l, s_fields = [], s_subs = []\<rparr>" and ?ss = "rd_suites st"
  have wf: "clean_text (l_name l)" "list_all (\<lambda>(ts, n). list_all (test_all wf_test) ts \<and> word_text n) (l_open l)"
    "list_all (test_all wf_test) (l_done l)" "list_all (\<lambda>(k, v). k \<in> set SUITE_KEYS \<and> k \<noteq> ''name'' \<and> clean_text v) (l_fields l)"
    using assms by (simp_all add: wf_log_def)
  have name: "read_line (field_text 8 ''name'' (l_name l)) st = at ?s ?ss None []"
    using wf(1) keys_distinct(3) by (simp add: read_suite set_suite_def)
  obtain c1 w1 where 1: "cur_ok (with_rows ?s (concat (map (\<lambda>(ts, n). concat (map test_rows ts) @ [[(''name'', n)]]) (l_open l)))) c1"
    "fold read_line (concat (map (\<lambda>(ts, n). concat (map test_lines ts) @ [field_text 12 ''name'' n]) (l_open l))) (at ?s ?ss None []) =
      at (with_rows ?s (concat (map (\<lambda>(ts, n). concat (map test_rows ts) @ [[(''name'', n)]]) (l_open l)))) ?ss c1 w1"
    using reads_open [OF wf(2), of ?s None ?ss "[]"] by (auto simp: cur_ok_def)
  from reads_done [OF wf(3) this(1), of ?ss w1] name this(2) show ?thesis
    by (auto simp: log_lines_def log_result_def reads_suite_fields [OF wf(4)])
qed

lemma read_irrelevant: "\<not> relevant line \<Longrightarrow> read_line line st = st"
  unfolding relevant_def read_line_def by (cases "sub_name line"; cases "sub_field line"; cases "suite_line line") simp_all

lemma fold_relevant: "fold read_line (filter relevant ls) st = fold read_line ls st"
  by (induction ls arbitrary: st) (simp_all add: read_irrelevant)

lemma reads_logs: "list_all wf_log logs \<Longrightarrow> rd_suites (fold read_line (concat (map log_lines logs)) st) = rev (map log_result logs) @ rd_suites st"
proof (induction logs arbitrary: st)
  case (Cons l logs)
  then obtain c w where "fold read_line (log_lines l) st = at (log_result l) (rd_suites st) c w" using reads_log by fastforce
  with Cons show ?case by simp
qed simp

lemma parse_results_logs:
  assumes "list_all wf_log logs" "file_of logs text'"
  shows "parse_results text' = map log_result logs"
  using reads_logs [OF assms(1), of "\<lparr>rd_suites = [], rd_cur = None, rd_waiting = []\<rparr>"] assms(2)
  by (simp add: parse_results_def file_of_def flip: fold_relevant [of "splitlines text'"])

text \<open>
  C22.  Nested results read back: from a results file of any suites, each with tests nested to any
  depth and cut off inside any number of open tests, with any other lines between, the reader
  returns every test in the order of its name, each with its own status and fields, and the open
  ones without a status.
\<close>

theorem parse_results_exact:
  assumes "list_all wf_log logs" "file_of logs text'"
  shows "parse_results text' = map log_result logs"
  by (rule parse_results_logs [OF assms])

definition log_example :: suite_log where
  "log_example =
     \<lparr>l_name = ''sanity-compr'',
      l_open = [([Test ''test_1'' [Test ''inner_0'' [] ''PASS'' [], Test ''inner_1'' [Test ''deep'' [] ''SKIP'' []] ''FAIL'' [(''error'', ''x y'')]] ''PASS'' [(''duration'', ''3'')]], ''test_2'')],
      l_done = [Test ''inner_2'' [] ''PASS'' []], l_fields = []\<rparr>"

definition file_example :: string where
  "file_example = join [CHR 0x0A] (''Tests:'' # ''-'' # log_lines log_example)"

lemma log_example_file: "list_all wf_log [log_example]" "file_of [log_example] file_example"
  by code_simp+

theorem parse_results_exact_witness:
  "map (\<lambda>s. map (\<lambda>r. (dict_get r ''name'', dict_get r ''status'')) (s_subs s)) (parse_results file_example) =
   [[(Some ''test_1'', Some ''PASS''), (Some ''inner_0'', Some ''PASS''), (Some ''inner_1'', Some ''FAIL''), (Some ''deep'', Some ''SKIP''),
     (Some ''test_2'', None), (Some ''inner_2'', Some ''PASS'')]]"
  unfolding parse_results_exact [OF log_example_file] by code_simp

subsection \<open>Lemmas: the summary\<close>

definition good_status :: "string \<Rightarrow> bool" where
  "good_status st \<longleftrightarrow> st = ''PASS'' \<or> st = ''SKIP''"

definition row_status :: "test_row \<Rightarrow> string" where
  "row_status r = get_or [] (dict_get r ''status'')"

definition nothing_bad :: "summary \<Rightarrow> bool" where
  "nothing_bad sm \<longleftrightarrow> sm_failures sm = [] \<and> sm_unfinished sm = []"

lemma count_test_bad: "nothing_bad (count_test n t sm) \<longleftrightarrow> nothing_bad sm \<and> good_status (row_status t)"
  by (simp add: count_test_def Let_def good_status_def row_status_def nothing_bad_def)

lemma count_tests_bad: "nothing_bad (fold (count_test n) ts sm) \<longleftrightarrow> nothing_bad sm \<and> list_all (\<lambda>t. good_status (row_status t)) ts"
  by (induction ts arbitrary: sm) (simp_all add: count_test_bad)

lemma count_suites_bad:
  "nothing_bad (fold count_suite ss sm) \<longleftrightarrow> nothing_bad sm \<and> list_all (\<lambda>s. list_all (\<lambda>t. good_status (row_status t)) (s_subs s)) ss"
  by (induction ss arbitrary: sm) (simp_all add: count_suite_def count_tests_bad, simp_all add: nothing_bad_def)

lemma row_status_put: "list_all (\<lambda>(k, v). k \<noteq> ''status'') kvs \<Longrightarrow> row_status (put_fields kvs r) = row_status r"
  by (induction kvs arbitrary: r) (auto simp: put_fields_def row_status_def)

lemma test_rows_status:
  "test_all wf_test t \<Longrightarrow> list_all (\<lambda>r. good_status (row_status r)) (test_rows t) \<longleftrightarrow> test_all (\<lambda>t. good_status (t_status t)) t"
proof (induction t)
  case (Test n inner st extra)
  have "list_all (\<lambda>(k, v). k \<noteq> ''status'') extra" using Test.prems by (auto simp: wf_test_def list_all_iff)
  then have "row_status (put_fields ((''status'', st) # extra) [(''name'', n)]) = st"
    using row_status_put [of extra "dict_set [(''name'', n)] ''status'' st"] by (simp add: put_fields_def row_status_def)
  with Test show ?case by (simp add: list_all_iff)
qed

definition all_good :: "suite_log \<Rightarrow> bool" where
  "all_good l \<longleftrightarrow> l_open l = [] \<and> list_all (test_all (\<lambda>t. good_status (t_status t))) (l_done l)"

lemma log_result_good:
  assumes "wf_log l"
  shows "list_all (\<lambda>r. good_status (row_status r)) (s_subs (log_result l)) \<longleftrightarrow> all_good l"
proof -
  have "\<not> good_status (row_status [(''name'', n)])" for n by (simp add: row_status_def good_status_def)
  then have "list_all (\<lambda>r. good_status (row_status r)) (concat (map (\<lambda>(ts, n). concat (map test_rows ts) @ [[(''name'', n)]]) (l_open l)))
      \<longleftrightarrow> l_open l = []" by (cases "l_open l") auto
  moreover have "list_all (\<lambda>r. good_status (row_status r)) (concat (map test_rows (l_done l))) \<longleftrightarrow>
      list_all (test_all (\<lambda>t. good_status (t_status t))) (l_done l)"
    using assms test_rows_status by (auto simp: wf_log_def list_all_iff)
  ultimately show ?thesis by (simp add: log_result_def all_good_def)
qed

definition files_of :: "suite_log list list \<Rightarrow> string list \<Rightarrow> bool" where
  "files_of logss texts \<longleftrightarrow> list_all2 (\<lambda>logs t. file_of logs (universal_newlines t)) logss texts \<and> list_all (list_all wf_log) logss"

lemma files_parsed: "files_of logss texts \<Longrightarrow> concat (map (\<lambda>t. parse_results (universal_newlines t)) texts) = map log_result (concat logss)"
proof (induction texts arbitrary: logss)
  case (Cons t texts)
  then obtain logs rest where l: "logss = logs # rest" "file_of logs (universal_newlines t)" "list_all wf_log logs" "files_of rest texts"
    by (auto simp: files_of_def list_all2_Cons2)
  with Cons.IH parse_results_logs show ?case by simp
qed (auto simp: files_of_def)

lemma failed_good:
  assumes "files_of logss texts"
  shows "\<not> failed st (summarize texts) \<longleftrightarrow> rs_state st = RDone \<and> rs_rc st = Some 0 \<and> list_all (list_all all_good) logss"
proof -
  let ?sm = "summarize texts"
  have "nothing_bad ?sm \<longleftrightarrow> list_all (\<lambda>s. list_all (\<lambda>t. good_status (row_status t)) (s_subs s)) (map log_result (concat logss))"
    unfolding summarize_def files_parsed [OF assms] count_suites_bad by (simp add: nothing_bad_def)
  also have "\<dots> \<longleftrightarrow> list_all (list_all all_good) logss"
    using assms log_result_good by (auto simp: files_of_def list_all_iff)
  finally show ?thesis by (auto simp: failed_def nothing_bad_def)
qed

text \<open>
  A run passes exactly when everything did: it counts as not failed if and only if it ended
  with status 0 and, in every results file, no test was cut off and every test at every depth has
  the status PASS or SKIP.
\<close>

theorem failed_exact:
  assumes "files_of logss texts"
  shows "\<not> failed st (summarize texts) \<longleftrightarrow>
    rs_state st = RDone \<and> rs_rc st = Some 0 \<and> list_all (list_all all_good) logss"
  by (rule failed_good [OF assms])

definition status_example :: run_status where
  "status_example = \<lparr>rs_id = ''r'', rs_state = RDone, rs_rc = Some 0, rs_age = Some 9, rs_current = [], rs_rebooted = [], rs_unreachable = []\<rparr>"

theorem failed_exact_witness: "failed status_example (summarize [file_example]) \<and> \<not> failed status_example (summarize [])"
proof -
  have "universal_newlines file_example = file_example" by code_simp
  then have "files_of [[log_example]] [file_example]" "files_of [] []" using log_example_file by (simp_all add: files_of_def)
  moreover have "\<not> all_good log_example" "rs_state status_example = RDone" "rs_rc status_example = Some 0" by code_simp+
  ultimately show ?thesis using failed_exact [of "[[log_example]]" "[file_example]" status_example] failed_exact [of "[]" "[]" status_example] by simp
qed

definition counted :: "summary \<Rightarrow> int" where
  "counted sm = sum_list (map snd (sm_counts sm)) + int (length (sm_unfinished sm))"

lemma counted_test: "counted (count_test n t sm) = counted sm + 1"
proof -
  have "sum_list (map snd (dict_set d k (get_or 0 (dict_get d k) + 1))) = sum_list (map snd d) + (1 :: int)" for d :: "(string, int) dict" and k
    by (induction d) auto
  then show ?thesis by (simp add: count_test_def Let_def counted_def)
qed

lemma counted_tests: "counted (fold (count_test n) ts sm) = counted sm + int (length ts)"
  by (induction ts arbitrary: sm) (simp_all add: counted_test)

lemma counted_suites: "counted (fold count_suite ss sm) = counted sm + int (length (concat (map s_subs ss)))"
  by (induction ss arbitrary: sm) (simp_all add: count_suite_def counted_tests, simp_all add: counted_def)

text \<open>No test is lost from the summary: the counts and the unfinished tests add up to all tests read.\<close>

theorem summary_total:
  "counted (summarize texts) = int (length (concat (map s_subs (concat (map (\<lambda>t. parse_results (universal_newlines t)) texts)))))"
  unfolding summarize_def counted_suites by (simp add: counted_def)

end
