(* ===== verification/SuiteProbe.thy ===== *)
theory SuiteProbe
  imports NameReg SuiteResults
begin

text \<open>
  A run of a test suite in a guest (\<^verbatim>\<open>suite_run.py\<close>): the names and settings it takes, the script that
  starts auster with everything quoted for the shell, the report of the runs of a guest, and what
  state each of them is in.  The shell code that prints the report runs in the guest; its output
  format is \<open>probe_text\<close>.
\<close>

subsection \<open>Names and settings\<close>

datatype suite_arg_error = BadName string string | BadEnv string

definition suite_char :: "char \<Rightarrow> bool" where
  "suite_char c \<longleftrightarrow> isalpha_ascii c \<or> isdecimal c \<or> c \<in> set ''._+-''"

definition suite_name_shape :: "string \<Rightarrow> bool" where
  "suite_name_shape s = (case s of [] \<Rightarrow> False | c # cs \<Rightarrow> (isalpha_ascii c \<or> isdecimal c) \<and> list_all suite_char cs)"

text \<open>The pattern ends in \<open>$\<close>, which also matches before a newline that ends the text.\<close>

definition suite_name_re :: "string \<Rightarrow> bool" where
  "suite_name_re s \<longleftrightarrow> suite_name_shape s \<or> (s \<noteq> [] \<and> last s = CHR 0x0A \<and> suite_name_shape (butlast s))"

definition check_name :: "string \<Rightarrow> string \<Rightarrow> (suite_arg_error, unit) result" where
  "check_name kind value' = (if suite_name_re value' then Inr () else Inl (BadName kind value'))"

definition env_name :: "string \<Rightarrow> bool" where
  "env_name s = (case s of [] \<Rightarrow> False
     | c # cs \<Rightarrow> (isalpha_ascii c \<or> c = CHR ''_'') \<and> list_all (\<lambda>d. isalpha_ascii d \<or> isdecimal d \<or> d = CHR ''_'') cs)"

definition env_re :: "string \<Rightarrow> (string \<times> string) option" where
  "env_re item =
     (case partition1 CHR ''='' item of (n, found, v) \<Rightarrow> if found \<and> env_name n then Some (n, v) else None)"

text \<open>\<^verbatim>\<open>shlex.quote\<close> and \<^verbatim>\<open>shlex.join\<close>.\<close>

definition shell_safe :: "char \<Rightarrow> bool" where
  "shell_safe c \<longleftrightarrow> isalpha_ascii c \<or> isdecimal c \<or> c \<in> set ''_@%+=:,./-''"

definition quote_char :: "char \<Rightarrow> string" where
  "quote_char c = (if c = CHR 0x27 then [CHR 0x27, CHR 0x22, CHR 0x27, CHR 0x22, CHR 0x27] else [c])"

definition shlex_quote :: "string \<Rightarrow> string" where
  "shlex_quote s =
     (if s = [] then [CHR 0x27, CHR 0x27]
      else if list_all shell_safe s then s
      else CHR 0x27 # concat (map quote_char s) @ [CHR 0x27])"

definition shlex_join :: "string list \<Rightarrow> string" where
  "shlex_join ws = join '' '' (map shlex_quote ws)"

definition env_assignment :: "string \<Rightarrow> (suite_arg_error, string) result" where
  "env_assignment item =
     (case env_re item of None \<Rightarrow> Inl (BadEnv item) | Some (n, v) \<Rightarrow> Inr (n @ ''='' @ shlex_quote v))"

definition env_assignments :: "string list \<Rightarrow> (suite_arg_error, string list) result" where
  "env_assignments env = res_list env_assignment env"

subsection \<open>The script of a run\<close>

definition SUITE_ROOT :: string where
  "SUITE_ROOT = ''/root/ltvm-suite''"

definition run_dir :: "string \<Rightarrow> string" where
  "run_dir run_id = SUITE_ROOT @ ''/'' @ run_id"

definition auster_argv :: "string \<Rightarrow> string \<Rightarrow> string option \<Rightarrow> bool \<Rightarrow> bool \<Rightarrow> string list" where
  "auster_argv run_id suite only reformat slow =
     [''./auster'', ''-k'', ''-v''] @ (if slow then [''-s''] else []) @ (if reformat then [''-r''] else []) @
     [''-H'', ''-d'', run_dir run_id @ ''/logs'', suite] @
     (case only of None \<Rightarrow> [] | Some o' \<Rightarrow> if o' = [] then [] else [''--only'', o'])"

definition run_script :: "string \<Rightarrow> string \<Rightarrow> string \<Rightarrow> string option \<Rightarrow> string list \<Rightarrow> bool \<Rightarrow> bool
    \<Rightarrow> (suite_arg_error, string) result" where
  "run_script run_id libdir suite only env reformat slow =
     (let d = run_dir run_id
      in res_map (\<lambda>assignments.
           join [CHR 0x0A]
             [''#!/bin/bash'',
              ''echo $$ > '' @ d @ ''/pid'',
              ''cd '' @ libdir @ ''/tests || { echo rc=127 > '' @ d @ ''/done; exit 127; }'',
              ''export LUSTRE='' @ libdir,
              ''sed -i -E 's/^(export +)?CLEANUP_DM_DEV=.*/CLEANUP_DM_DEV=false/' cfg/local.sh'',
              ''bash llmountcleanup.sh > '' @ d @ ''/cleanup.log 2>&1'',
              join '' '' (assignments @ [shlex_join (auster_argv run_id suite only reformat slow)]),
              ''echo rc=$? > '' @ d @ ''/done''] @ [CHR 0x0A])
         (env_assignments env))"

subsection \<open>The report of the runs\<close>

record probed_run =
  qr_id :: string
  qr_rc :: string
  qr_alive :: bool
  qr_started :: "int option"
  qr_current :: string
  qr_boots :: "(string, string) dict"
  qr_powered :: "string list"

record probe_state =
  qs_now :: "int option"
  qs_uptime :: "int option"
  qs_runs :: "probed_run list"
  qs_power :: "(int \<times> string) list"

definition parse_int :: "string \<Rightarrow> int option" where
  "parse_int s = py_int (strip s)"

definition parse_boots :: "string \<Rightarrow> (string, string) dict" where
  "parse_boots s =
     fold (\<lambda>w d. case partition1 CHR ''='' w of (n, found, b) \<Rightarrow> if found then dict_set d n b else d) (split_ws s) []"

definition probe_line :: "string \<Rightarrow> probe_state \<Rightarrow> probe_state" where
  "probe_line line st =
     (let f = split_on CHR 0x09 line
      in if f ! 0 = ''node'' \<and> length f \<ge> 3 then st\<lparr>qs_now := parse_int (f ! 1), qs_uptime := parse_int (f ! 2)\<rparr>
         else if f ! 0 = ''power'' \<and> length f \<ge> 3 then
           (case parse_int (f ! 1) of None \<Rightarrow> st | Some w \<Rightarrow> st\<lparr>qs_power := qs_power st @ [(w, strip (f ! 2))]\<rparr>)
         else if f ! 0 = ''run'' \<and> length f \<ge> 6 then
           st\<lparr>qs_runs := qs_runs st @
             [\<lparr>qr_id = f ! 1, qr_rc = strip (f ! 2), qr_alive = (strip (f ! 3) = ''1''), qr_started = parse_int (f ! 4),
               qr_current = strip (f ! 5), qr_boots = parse_boots (if length f > 6 then f ! 6 else []), qr_powered = []\<rparr>]\<rparr>
         else st)"

definition powered_since :: "(int \<times> string) list \<Rightarrow> int option \<Rightarrow> string list" where
  "powered_since events started = (case started of None \<Rightarrow> [] | Some s \<Rightarrow> map snd (filter (\<lambda>(w, _). w \<ge> s) events))"

definition parse_probe :: "string \<Rightarrow> int option \<times> int option \<times> probed_run list" where
  "parse_probe text' =
     (let st = fold probe_line (splitlines text') \<lparr>qs_now = None, qs_uptime = None, qs_runs = [], qs_power = []\<rparr>
      in (qs_now st, qs_uptime st, map (\<lambda>r. r\<lparr>qr_powered := powered_since (qs_power st) (qr_started r)\<rparr>) (qs_runs st)))"

definition boot_line :: "string \<Rightarrow> string option" where
  "boot_line line =
     (let f = split_on CHR 0x09 line
      in if f ! 0 = ''node'' \<and> length f \<ge> 4 \<and> strip (f ! 3) \<noteq> [] then Some (strip (f ! 3)) else None)"

definition probe_boot_id :: "string \<Rightarrow> string option" where
  "probe_boot_id text' =
     (case List.map_filter boot_line (splitlines text') of [] \<Rightarrow> None | b # _ \<Rightarrow> Some b)"

subsection \<open>The state of a run\<close>

definition classify :: "probed_run \<Rightarrow> int option \<Rightarrow> (string, int option) dict \<Rightarrow> (string, string option) dict \<Rightarrow> run_status" where
  "classify run now uptimes boot_ids =
     (let started = qr_started run;
          age = (case (now, started) of (Some n, Some s) \<Rightarrow> Some (n - s) | _ \<Rightarrow> None);
          (state, rc) = (if qr_rc run \<noteq> [] then (RDone, parse_int (qr_rc run))
                         else if qr_alive run then (RRunning, None) else (RDied, None));
          recorded = qr_boots run;
          rebooted =
            (if state \<noteq> RDone \<and> recorded \<noteq> [] then
               map fst (filter (\<lambda>(n, b). case get_or None (dict_get boot_ids n) of None \<Rightarrow> False | Some i \<Rightarrow> i \<noteq> [] \<and> i \<noteq> b) recorded)
             else if state \<noteq> RDone then
               (case age of None \<Rightarrow> [] | Some a \<Rightarrow> map fst (filter (\<lambda>(n, u). case u of None \<Rightarrow> False | Some v \<Rightarrow> v < a) uptimes))
             else [])
      in \<lparr>rs_id = qr_id run, rs_state = state, rs_rc = rc, rs_age = age, rs_current = qr_current run,
          rs_rebooted = filter (\<lambda>n. n \<notin> set (qr_powered run)) rebooted,
          rs_unreachable = map fst (filter (\<lambda>(_, u). u = None) uptimes)\<rparr>)"

subsection \<open>Lemmas: the shell reads back what was quoted\<close>

text \<open>
  A reader of shell words (POSIX, Shell Command Language, 2.2): blanks separate words, a single quote
  takes everything up to the next one, a double quote everything up to the next one as long as no
  character in it is special there.  Unquoted characters outside the set that needs no quoting are
  refused, whatever the shell would do with them.
\<close>

datatype shell_mode = Blank | Word string | Single string | Double string

fun shell_words :: "shell_mode \<Rightarrow> string \<Rightarrow> string list option" where
  "shell_words Blank [] = Some []"
| "shell_words (Word w) [] = Some [rev w]"
| "shell_words _ [] = None"
| "shell_words (Single w) (c # cs) = (if c = CHR 0x27 then shell_words (Word w) cs else shell_words (Single (c # w)) cs)"
| "shell_words (Double w) (c # cs) =
     (if c = CHR 0x22 then shell_words (Word w) cs
      else if c = CHR ''$'' \<or> c = CHR 0x60 \<or> c = CHR 0x5C then None
      else shell_words (Double (c # w)) cs)"
| "shell_words m (c # cs) =
     (let w = (case m of Word w \<Rightarrow> w | _ \<Rightarrow> [])
      in if c = CHR 0x20 then (case m of Blank \<Rightarrow> shell_words Blank cs | _ \<Rightarrow> map_option ((#) (rev w)) (shell_words Blank cs))
         else if c = CHR 0x27 then shell_words (Single w) cs
         else if c = CHR 0x22 then shell_words (Double w) cs
         else if shell_safe c then shell_words (Word (c # w)) cs
         else None)"

definition shell_split :: "string \<Rightarrow> string list option" where
  "shell_split s = shell_words Blank s"

lemma shell_safe_plain: "shell_safe c \<Longrightarrow> c \<noteq> CHR 0x20 \<and> c \<noteq> CHR 0x27 \<and> c \<noteq> CHR 0x22"
  by (auto simp: shell_safe_def isalpha_ascii_def isdecimal_def)

lemma shell_words_safe: "list_all shell_safe s \<Longrightarrow> shell_words (Word w) (s @ rest) = shell_words (Word (rev s @ w)) rest"
  using shell_safe_plain by (induction s arbitrary: w) auto

lemma shell_words_quoted: "shell_words (Single w) (concat (map quote_char s) @ CHR 0x27 # rest) = shell_words (Word (rev s @ w)) rest"
  by (induction s arbitrary: w) (auto simp: quote_char_def)

lemma shell_words_quote: "shell_words (Word w) (shlex_quote s @ rest) = shell_words (Word (rev s @ w)) rest"
  by (simp add: shlex_quote_def shell_words_safe shell_words_quoted)

lemma shell_words_start: "s \<noteq> [] \<Longrightarrow> hd s \<noteq> CHR 0x20 \<Longrightarrow> shell_words Blank s = shell_words (Word []) s"
  by (cases s) auto

lemma quote_start: "shlex_quote s \<noteq> []" "hd (shlex_quote s) \<noteq> CHR 0x20"
  using shell_safe_plain by (cases s; auto simp: shlex_quote_def)+

text \<open>A text that the reader takes as one word, in whatever stands after it.\<close>

definition reads_as :: "string \<Rightarrow> string \<Rightarrow> bool" where
  "reads_as s v \<longleftrightarrow> s \<noteq> [] \<and> hd s \<noteq> CHR 0x20 \<and> (\<forall>w rest. shell_words (Word w) (s @ rest) = shell_words (Word (rev v @ w)) rest)"

lemma reads_as_quote: "reads_as (shlex_quote v) v"
  using quote_start by (simp add: reads_as_def shell_words_quote)

lemma reads_as_assignment: "env_name n \<Longrightarrow> reads_as (n @ ''='' @ shlex_quote v) (n @ ''='' @ v)"
proof -
  assume n: "env_name n"
  then have safe: "list_all shell_safe (n @ ''='')" "n \<noteq> []"
    by (auto simp: env_name_def shell_safe_def list_all_iff split: list.split_asm)
  then have "hd n \<noteq> CHR 0x20" using shell_safe_plain by (cases n) auto
  with safe(2) shell_words_safe [OF safe(1)] show ?thesis by (simp add: reads_as_def shell_words_quote)
qed

lemma shell_split_join:
  assumes "list_all2 reads_as ss vs"
  shows "shell_split (join '' '' ss) = Some vs"
  using assms
proof (induction ss vs rule: list_all2_induct)
  case (Cons s ss v vs)
  have split: "shell_split (s @ rest) = shell_words (Word (rev v)) rest" for rest
    using Cons(1) shell_words_start [of "s @ rest"] by (simp add: shell_split_def reads_as_def)
  show ?case
  proof (cases ss)
    case Nil
    then show ?thesis using split [of "[]"] Cons(2) by simp
  next
    case (Cons s' ss')
    then show ?thesis using split [of "CHR 0x20 # join '' '' ss"] Cons.IH by (simp add: shell_split_def)
  qed
qed (simp add: shell_split_def)

lemma env_re_name: "env_re item = Some (n, v) \<Longrightarrow> env_name n \<and> item = n @ ''='' @ v"
  using partition1_found [of "CHR ''=''" item] by (auto simp: env_re_def split: prod.split_asm if_split_asm)

lemma env_assignments_read:
  assumes "env_assignments env = Inr assignments"
  shows "list_all2 reads_as assignments env"
proof -
  have "reads_as a item" if "env_assignment item = Inr a" for a item
    using that env_re_name reads_as_assignment by (fastforce simp: env_assignment_def split: option.split_asm)
  with assms show ?thesis by (auto simp: env_assignments_def res_list_Inr_iff list_all2_conv_all_nth)
qed

lemma shlex_join_append: "shell_split (join '' '' (as @ [shlex_join ws])) = Some (vs @ ws)" if "list_all2 reads_as as vs" "ws \<noteq> []"
proof -
  have "join '' '' (as @ [shlex_join ws]) = join '' '' (as @ map shlex_quote ws)" for as
    using that(2) by (induction as rule: induct_list012) (auto simp: shlex_join_def neq_Nil_conv)
  moreover have "list_all2 reads_as (as @ map shlex_quote ws) (vs @ ws)"
    using that(1) reads_as_quote by (intro list_all2_appendI) (simp_all add: list_all2_conv_all_nth)
  ultimately show ?thesis using shell_split_join by simp
qed

lemma join_last_two: "xs \<noteq> [] \<Longrightarrow> join sep (xs @ [a, b]) = join sep xs @ sep @ a @ sep @ b"
  by (induction sep xs rule: join.induct) auto

lemma script_lines: "join nl [a, b, c, d, e, f, line, l] = join nl [a, b, c, d, e, f] @ nl @ line @ nl @ l"
  using join_last_two [of "[a, b, c, d, e, f]" nl line l] by simp

text \<open>
  C29.  Nothing given to a suite run escapes into the shell: whatever the settings, the suite and the
  list of tests are, quotes, blanks, dollar signs and newlines included, the line of the script that
  starts auster reads as exactly the settings that were given, then auster and its arguments.
\<close>

theorem run_script_words:
  assumes "run_script run_id libdir suite only env reformat slow = Inr text'"
  shows "\<exists>before after line. text' = before @ line @ CHR 0x0A # ''echo rc=$? > '' @ after \<and>
    shell_split line = Some (env @ auster_argv run_id suite only reformat slow)"
proof -
  obtain as where as: "env_assignments env = Inr as" using assms by (auto simp: run_script_def Let_def res_map_eq_Inr)
  let ?line = "join '' '' (as @ [shlex_join (auster_argv run_id suite only reformat slow)])"
  have "shell_split ?line = Some (env @ auster_argv run_id suite only reformat slow)"
    using env_assignments_read [OF as] by (rule shlex_join_append) (simp add: auster_argv_def)
  moreover have "\<exists>before. text' = before @ ?line @ CHR 0x0A # ''echo rc=$? > '' @ run_dir run_id @ ''/done'' @ [CHR 0x0A]"
  proof -
    from assms as have "\<exists>before. text' = (before @ [CHR 0x0A] @ ?line @ [CHR 0x0A] @ ''echo rc=$? > '' @ run_dir run_id @ ''/done'') @ [CHR 0x0A]"
      unfolding run_script_def Let_def script_lines by (auto simp only: res_map_simps sum.inject)
    then show ?thesis by (metis append.assoc append_Cons append_Nil)
  qed
  ultimately show ?thesis by blast
qed

theorem run_script_words_witness:
  "\<exists>line. shell_split line = Some ([''A=x y'', ''B=$(rm)''] @ auster_argv ''r'' ''sanity'' (Some ''1 it's'') True False)"
proof -
  obtain t where "run_script ''r'' ''/l'' ''sanity'' (Some ''1 it's'') [''A=x y'', ''B=$(rm)''] True False = Inr t"
  proof -
    have "env_assignments [''A=x y'', ''B=$(rm)''] = Inr [''A='' @ shlex_quote ''x y'', ''B='' @ shlex_quote ''$(rm)'']" by code_simp
    then show thesis using that by (simp add: run_script_def Let_def)
  qed
  from run_script_words [OF this] show ?thesis by blast
qed

text \<open>A name that ends in a newline passes the check although the message promises letters, digits and
  \<^verbatim>\<open>._+-\<close> only, and stands unquoted in the shell code of the run.\<close>

lemma suite_name_newline: "check_name ''run id'' (''sanity'' @ [CHR 0x0A]) = Inr ()"
  by code_simp

subsection \<open>Lemmas: the report reads back\<close>

text \<open>What a guest has: its clock, its uptime, its boot id, the logged power events, and its runs.\<close>

record guest_run =
  gr_id :: string
  gr_rc :: "int option"
  gr_alive :: bool
  gr_started :: int
  gr_current :: string
  gr_boots :: "(string \<times> string) list"

definition tsv_line :: "string list \<Rightarrow> string" where
  "tsv_line fs = join [CHR 0x09] fs"

definition boots_text :: "(string \<times> string) list \<Rightarrow> string" where
  "boots_text bs = concat (map (\<lambda>(n, b). n @ ''='' @ b @ '' '') bs)"

definition rc_text :: "int option \<Rightarrow> string" where
  "rc_text rc = (case rc of None \<Rightarrow> [] | Some i \<Rightarrow> str_int i)"

definition run_line :: "guest_run \<Rightarrow> string" where
  "run_line g = tsv_line [''run'', gr_id g, rc_text (gr_rc g), if gr_alive g then ''1'' else ''0'', str_int (gr_started g), gr_current g, boots_text (gr_boots g)]"

definition probe_text :: "int \<Rightarrow> int \<Rightarrow> string \<Rightarrow> (int \<times> string) list \<Rightarrow> guest_run list \<Rightarrow> string" where
  "probe_text now up boot events runs =
     unlines (tsv_line [''node'', str_int now, str_int up, boot] #
       map (\<lambda>(w, n). tsv_line [''power'', str_int w, n]) events @ map run_line runs)"

definition plain_field :: "string \<Rightarrow> bool" where
  "plain_field s \<longleftrightarrow> unbroken s \<and> CHR 0x09 \<notin> set s \<and> strip s = s"

definition wf_run :: "guest_run \<Rightarrow> bool" where
  "wf_run g \<longleftrightarrow> plain_field (gr_id g) \<and> plain_field (gr_current g) \<and>
     list_all (\<lambda>(n, b). word_text n \<and> CHR ''='' \<notin> set n \<and> list_all (\<lambda>c. \<not> isspace c) b) (gr_boots g)"

definition run_read :: "(int \<times> string) list \<Rightarrow> guest_run \<Rightarrow> probed_run" where
  "run_read events g =
     \<lparr>qr_id = gr_id g, qr_rc = rc_text (gr_rc g), qr_alive = gr_alive g, qr_started = Some (gr_started g),
      qr_current = gr_current g, qr_boots = put_fields (gr_boots g) [], qr_powered = powered_since events (Some (gr_started g))\<rparr>"

lemma split_tab_line: "fs \<noteq> [] \<Longrightarrow> list_all (\<lambda>f. CHR 0x09 \<notin> set f) fs \<Longrightarrow> split_on CHR 0x09 (tsv_line fs) = fs"
  by (simp add: tsv_line_def split_on_join list_all_iff)

lemma str_int_plain: "plain_field (str_int i)"
  using str_int_clean str_int_chars [of _ i] by (auto simp: plain_field_def isdecimal_def intro!: strip_no_space)

lemma no_space_plain: "list_all (\<lambda>c. \<not> isspace c) s \<Longrightarrow> plain_field s"
proof -
  assume s: "list_all (\<lambda>c. \<not> isspace c) s"
  have "islinebreak c \<Longrightarrow> isspace c" for c by (auto simp: char_class_defs)
  with s show ?thesis
    by (auto simp: plain_field_def unbroken_def list_all_iff intro!: strip_no_space) (auto simp: char_class_defs)
qed

lemma rc_text_plain: "plain_field (rc_text rc)"
  using str_int_plain by (cases rc) (simp_all add: rc_text_def plain_field_def strip_def lstrip_def rstrip_def)

lemma split_ws_words: "list_all word_text ws \<Longrightarrow> split_ws (concat (map (\<lambda>w. w @ '' '') ws)) = ws"
proof (induction ws)
  case (Cons w ws)
  have "isspace CHR 0x20" by (simp add: char_class_defs)
  with Cons words_aux_head [of w "CHR 0x20" "[]" "concat (map (\<lambda>w. w @ '' '') ws)"] show ?case
    by (simp add: split_ws_def word_text_def)
qed (simp add: split_ws_def)

lemma boot_word: "CHR ''='' \<notin> set n \<Longrightarrow> partition1 CHR ''='' (n @ ''='' @ b) = (n, True, b)"
  by (simp add: partition1_append)

lemma parse_boots_text:
  assumes "list_all (\<lambda>(n, b). word_text n \<and> CHR ''='' \<notin> set n \<and> list_all (\<lambda>c. \<not> isspace c) b) bs"
  shows "parse_boots (boots_text bs) = put_fields bs []"
proof -
  let ?w = "\<lambda>(n, b). n @ ''='' @ b"
  have "\<not> isspace CHR ''=''" by (simp add: char_class_defs)
  with assms have "list_all word_text (map ?w bs)" by (auto simp: list_all_iff word_text_def)
  moreover have "boots_text bs = concat (map (\<lambda>w. w @ '' '') (map ?w bs))" by (simp add: boots_text_def comp_def split_def)
  ultimately have "split_ws (boots_text bs) = map ?w bs" using split_ws_words by metis
  moreover have "fold (\<lambda>w d. case partition1 CHR ''='' w of (n, found, b) \<Rightarrow> if found then dict_set d n b else d) (map ?w bs) d = put_fields bs d" for d
    using assms
  proof (induction bs arbitrary: d)
    case (Cons nb bs)
    then show ?case by (cases nb) (simp add: put_fields_def boot_word del: append.simps)
  qed (simp add: put_fields_def)
  ultimately show ?thesis by (simp add: parse_boots_def)
qed

lemma boots_text_plain:
  assumes "list_all (\<lambda>(n, b). word_text n \<and> CHR ''='' \<notin> set n \<and> list_all (\<lambda>c. \<not> isspace c) b) bs"
  shows "unbroken (boots_text bs) \<and> CHR 0x09 \<notin> set (boots_text bs)"
proof -
  have "c = CHR ''='' \<or> c = CHR 0x20 \<or> \<not> isspace c" if "c \<in> set (boots_text bs)" for c
    using that assms by (auto simp: boots_text_def word_text_def list_all_iff)
  then have "\<not> islinebreak c \<and> c \<noteq> CHR 0x09" if "c \<in> set (boots_text bs)" for c
    using that by (fastforce simp: char_class_defs)
  then show ?thesis by (auto simp: unbroken_def list_all_iff)
qed

lemma node_line_read:
  assumes "plain_field boot"
  shows "probe_line (tsv_line [''node'', str_int now, str_int up, boot]) st = st\<lparr>qs_now := Some now, qs_uptime := Some up\<rparr>"
    "boot \<noteq> [] \<Longrightarrow> boot_line (tsv_line [''node'', str_int now, str_int up, boot]) = Some boot"
proof -
  have f: "split_on CHR 0x09 (tsv_line [''node'', str_int now, str_int up, boot]) = [''node'', str_int now, str_int up, boot]"
    using assms str_int_plain by (intro split_tab_line) (auto simp: plain_field_def)
  show "probe_line (tsv_line [''node'', str_int now, str_int up, boot]) st = st\<lparr>qs_now := Some now, qs_uptime := Some up\<rparr>"
    using str_int_plain by (simp add: probe_line_def f parse_int_def plain_field_def)
  show "boot \<noteq> [] \<Longrightarrow> boot_line (tsv_line [''node'', str_int now, str_int up, boot]) = Some boot"
    using assms by (simp add: boot_line_def f plain_field_def)
qed

lemma power_line_read:
  assumes "plain_field n"
  shows "probe_line (tsv_line [''power'', str_int w, n]) st = st\<lparr>qs_power := qs_power st @ [(w, n)]\<rparr>"
proof -
  have f: "split_on CHR 0x09 (tsv_line [''power'', str_int w, n]) = [''power'', str_int w, n]"
    using assms str_int_plain by (intro split_tab_line) (auto simp: plain_field_def)
  show ?thesis using assms str_int_plain by (simp add: probe_line_def f parse_int_def plain_field_def)
qed

lemma run_line_read:
  assumes "wf_run g"
  shows "probe_line (run_line g) st = st\<lparr>qs_runs := qs_runs st @ [(run_read events g)\<lparr>qr_powered := []\<rparr>]\<rparr>"
proof -
  let ?fs = "[''run'', gr_id g, rc_text (gr_rc g), if gr_alive g then ''1'' else ''0'', str_int (gr_started g), gr_current g, boots_text (gr_boots g)]"
  have wf: "plain_field (gr_id g)" "plain_field (gr_current g)"
    "list_all (\<lambda>(n, b). word_text n \<and> CHR ''='' \<notin> set n \<and> list_all (\<lambda>c. \<not> isspace c) b) (gr_boots g)"
    using assms by (simp_all add: wf_run_def)
  have "split_on CHR 0x09 (run_line g) = ?fs"
    unfolding run_line_def using wf(1,2) boots_text_plain [OF wf(3)] str_int_plain rc_text_plain
    by (intro split_tab_line) (auto simp: plain_field_def)
  moreover have "strip ''1'' = ''1''" "strip ''0'' = ''0''" by code_simp+
  ultimately show ?thesis
    using wf(1,2) str_int_plain rc_text_plain
    by (simp add: probe_line_def run_read_def parse_int_def plain_field_def parse_boots_text [OF wf(3)] del: split_on.simps)
qed

lemma power_lines_read: "list_all (\<lambda>(w, n). plain_field n) events \<Longrightarrow>
    fold probe_line (map (\<lambda>(w, n). tsv_line [''power'', str_int w, n]) events) st = st\<lparr>qs_power := qs_power st @ events\<rparr>"
proof (induction events arbitrary: st)
  case (Cons e events)
  then show ?case by (cases e) (simp add: power_line_read)
qed simp

lemma run_lines_read: "list_all wf_run runs \<Longrightarrow>
    fold probe_line (map run_line runs) st = st\<lparr>qs_runs := qs_runs st @ map (\<lambda>g. (run_read events g)\<lparr>qr_powered := []\<rparr>) runs\<rparr>"
proof (induction runs arbitrary: st)
  case (Cons g runs)
  then show ?case using run_line_read [of g st events] by simp
qed simp

lemma tsv_unbroken: "list_all unbroken fs \<Longrightarrow> unbroken (tsv_line fs)"
  unfolding tsv_line_def by (rule unbroken_join) (simp_all add: unbroken_def islinebreak_def)

lemma probe_lines_unbroken:
  assumes "plain_field boot" "list_all (\<lambda>(w, n). plain_field n) events" "list_all wf_run runs"
  shows "list_all unbroken (tsv_line [''node'', str_int now, str_int up, boot] #
    map (\<lambda>(w, n). tsv_line [''power'', str_int w, n]) events @ map run_line runs)"
proof -
  have lits: "unbroken ''node''" "unbroken ''power''" "unbroken ''run''" "unbroken ''1''" "unbroken ''0''" by code_simp+
  have "unbroken (run_line g)" if "wf_run g" for g
    using that boots_text_plain [of "gr_boots g"] rc_text_plain [of "gr_rc g"] lits
    by (auto simp: run_line_def wf_run_def plain_field_def intro!: tsv_unbroken)
  with assms lits show ?thesis by (auto simp: list_all_iff plain_field_def intro!: tsv_unbroken)
qed

lemma splitlines_unlines: "list_all unbroken ls \<Longrightarrow> splitlines (unlines ls) = ls"
  unfolding unlines_def by (rule splitlines_concat) (auto simp: unbroken_def list_all_iff)

lemma probe_read:
  assumes "plain_field boot" "boot \<noteq> []" "list_all (\<lambda>(w, n). plain_field n) events" "list_all wf_run runs"
  shows "parse_probe (probe_text now up boot events runs) = (Some now, Some up, map (run_read events) runs)"
    "probe_boot_id (probe_text now up boot events runs) = Some boot"
proof -
  note lines = splitlines_unlines [OF probe_lines_unbroken [OF assms(1,3,4), of now up]]
  show "parse_probe (probe_text now up boot events runs) = (Some now, Some up, map (run_read events) runs)"
    using run_lines_read [OF assms(4), of _ events]
    by (simp add: parse_probe_def probe_text_def lines node_line_read [OF assms(1)] power_lines_read [OF assms(3)] run_read_def comp_def)
  show "probe_boot_id (probe_text now up boot events runs) = Some boot"
    using node_line_read(2) [OF assms(1,2), of now up] by (simp add: probe_boot_id_def probe_text_def lines List.map_filter_simps)
qed

text \<open>
  A crash during a run is told from a reboot the suite asked for: the report of a guest reads
  back as its runs, and a run that has not ended and recorded the boot ids of its nodes is
  reported with exactly those nodes rebooted whose boot id is known, differs from the recorded
  one, and which no power event since the start of the run names.
\<close>

theorem crashes_exact:
  assumes "plain_field boot" "boot \<noteq> []" "list_all (\<lambda>(w, n). plain_field n) events" "list_all wf_run runs"
    "g \<in> set runs" "gr_rc g = None" "gr_boots g \<noteq> []" "distinct (map fst (gr_boots g))"
  shows "\<exists>run \<in> set (snd (snd (parse_probe (probe_text now up boot events runs)))). qr_id run = gr_id g \<and>
    (let st = classify run (Some now) uptimes ids in
      rs_state st = (if gr_alive g then RRunning else RDied) \<and>
      (n \<in> set (rs_rebooted st) \<longleftrightarrow> (\<exists>old new. dict_get (gr_boots g) n = Some old \<and> dict_get ids n = Some (Some new) \<and> new \<noteq> [] \<and> new \<noteq> old) \<and>
        \<not> (\<exists>w. (w, n) \<in> set events \<and> gr_started g \<le> w)))"
proof -
  have put: "put_fields (gr_boots g) [] = gr_boots g"
  proof -
    have "distinct (map fst (d @ kvs)) \<Longrightarrow> put_fields kvs d = d @ kvs" for kvs d :: "(string \<times> string) list"
      by (induction kvs arbitrary: d) (auto simp: put_fields_def dict_set_new)
    from this [of "[]" "gr_boots g"] assms(8) show ?thesis by simp
  qed
  let ?run = "run_read events g" and ?new = "\<lambda>(n, b). case get_or None (dict_get ids n) of None \<Rightarrow> False | Some i \<Rightarrow> i \<noteq> [] \<and> i \<noteq> b"
  let ?st = "classify ?run (Some now) uptimes ids"
  have run: "?run \<in> set (snd (snd (parse_probe (probe_text now up boot events runs))))" "qr_id ?run = gr_id g"
    using probe_read(1) [OF assms(1-4)] assms(5) by (simp_all add: run_read_def)
  have rc: "qr_rc ?run = []" "qr_alive ?run = gr_alive g" "qr_boots ?run = gr_boots g" "gr_boots g \<noteq> []"
    using assms(6,7) put by (simp_all add: run_read_def rc_text_def)
  have state: "rs_state ?st = (if gr_alive g then RRunning else RDied)"
    using rc unfolding classify_def Let_def by (cases "gr_alive g") simp_all
  have "rs_rebooted ?st = filter (\<lambda>n. n \<notin> set (qr_powered ?run)) (map fst (filter ?new (gr_boots g)))"
    using rc unfolding classify_def Let_def by (cases "gr_alive g") simp_all
  moreover have "n \<in> set (qr_powered ?run) \<longleftrightarrow> (\<exists>w. (w, n) \<in> set events \<and> gr_started g \<le> w)"
    by (force simp: run_read_def powered_since_def)
  moreover have "n \<in> set (map fst (filter ?new (gr_boots g))) \<longleftrightarrow>
      (\<exists>old new. dict_get (gr_boots g) n = Some old \<and> dict_get ids n = Some (Some new) \<and> new \<noteq> [] \<and> new \<noteq> old)"
    using assms(8) by (force simp: map_of_eq_Some_iff get_or_def split: option.split_asm)
  ultimately have "n \<in> set (rs_rebooted ?st) \<longleftrightarrow>
      (\<exists>old new. dict_get (gr_boots g) n = Some old \<and> dict_get ids n = Some (Some new) \<and> new \<noteq> [] \<and> new \<noteq> old) \<and>
      \<not> (\<exists>w. (w, n) \<in> set events \<and> gr_started g \<le> w)" by simp
  with run state show ?thesis unfolding Let_def by blast
qed

definition guest_run_example :: guest_run where
  "guest_run_example = \<lparr>gr_id = ''sanity-1'', gr_rc = None, gr_alive = True, gr_started = 100, gr_current = ''== sanity test 3'',
     gr_boots = [(''m'', ''aa''), (''o'', ''bb''), (''c'', ''cc'')]\<rparr>"

theorem crashes_exact_witness:
  "\<exists>run \<in> set (snd (snd (parse_probe (probe_text 200 50 ''cc'' [(150, ''o'')] [guest_run_example])))).
     ''m'' \<in> set (rs_rebooted (classify run (Some 200) [] [(''m'', Some ''dd''), (''o'', Some ''ee''), (''c'', Some ''cc'')]))"
proof -
  have hyps: "plain_field ''cc''" "list_all (\<lambda>(w, n). plain_field n) [(150 :: int, ''o'')]" "list_all wf_run [guest_run_example]"
    "gr_rc guest_run_example = None" "gr_boots guest_run_example \<noteq> []" "distinct (map fst (gr_boots guest_run_example))"
    "dict_get (gr_boots guest_run_example) ''m'' = Some ''aa''" by code_simp+
  from crashes_exact [OF hyps(1) _ hyps(2,3) _ hyps(4-6), of 200 50 "[]" "[(''m'', Some ''dd''), (''o'', Some ''ee''), (''c'', Some ''cc'')]" "''m''"] hyps(7)
  show ?thesis by (auto simp: Let_def)
qed

end
