(* ===== verification/SuiteRun.thy ===== *)
theory SuiteRun
  imports ClusterFailover SuiteProbe
begin

text \<open>
  Starting a suite and waiting for it (\<^verbatim>\<open>suite_run.py\<close>): the target, the checks before a start, the
  launch, the polls until the run ends, and the exit status.  What a guest answers to a command is
  the parameter \<open>se_ssh\<close> (\<open>None\<close>: no answer in time); \<open>se_disks\<close> is \<^verbatim>\<open>configure_test_disks\<close> in the guest,
  \<open>se_family\<close> the operating system of a target, if its configuration can be read, \<open>se_cwd\<close> whether
  the working directory still exists, \<open>se_dest\<close> what \<^verbatim>\<open>check_dest\<close> finds wrong, \<open>se_stamp\<close> the time in the name of a run.
\<close>

subsection \<open>Targets\<close>

datatype guest_command =
    CmdProbe "string option"
  | CmdUptimeBoot
  | CmdBootId
  | CmdHasBlock string
  | CmdLaunch string "(string, string) dict" string

record 'g suite_env =
  se_fo :: "'g fo_env"
  se_ssh :: "vminfo \<Rightarrow> guest_command \<Rightarrow> 'g \<Rightarrow> completed option \<times> 'g"
  se_disks :: "vminfo \<Rightarrow> string \<Rightarrow> 'g \<Rightarrow> string option \<times> 'g"
  se_family :: "string \<Rightarrow> string option"
  se_cwd :: bool
  se_dest :: "string option"
  se_stamp :: string

datatype suite_error =
    SArg suite_arg_error
  | STimeoutNoWait
  | SResultsNoWait
  | SDebugNoWait
  | SNotFound string
  | SCluster cluster_error
  | SLoad load_error
  | SClaim claim_error
  | SDown "string list"
  | SUnreachable string
  | SBusy string
  | SDisks string
  | SNoBlock string
  | SFailover fo_error
  | SNoCwd
  | SDest string
  | SNotStarted string
  | SGone string
  | SRsync int

record suite_target =
  tg_name :: string
  tg_cluster :: bool
  tg_exec :: string
  tg_nodes :: "string list"

definition resolve_target :: "'g suite_env \<Rightarrow> string \<Rightarrow> 'g fo_state \<Rightarrow> (suite_error, suite_target) result" where
  "resolve_target env name st =
     (case cluster_load (he_repr (fe_host (se_fo env))) (h_clusters (fo_host st)) name of
        Inl (ClusterNotFound _) \<Rightarrow>
          (case vm_load (h_infos (fo_host st)) name of
             Inl (VMNotFound _) \<Rightarrow> Inl (SNotFound name)
           | Inl e \<Rightarrow> Inl (SLoad e)
           | Inr _ \<Rightarrow> Inr \<lparr>tg_name = name, tg_cluster = False, tg_exec = name, tg_nodes = [name]\<rparr>)
      | Inl e \<Rightarrow> Inl (SCluster e)
      | Inr c \<Rightarrow>
          res_bind (map_err SCluster (local_node c)) (\<lambda>local.
          res_bind (map_err SCluster (get_nodes c)) (\<lambda>nodes.
            Inr \<lparr>tg_name = name, tg_cluster = True, tg_exec = cn_name local, tg_nodes = map cn_name nodes\<rparr>)))"

definition suite_ssh :: "'g suite_env \<Rightarrow> string \<Rightarrow> guest_command \<Rightarrow> 'g fo_state \<Rightarrow> (suite_error, completed) result \<times> 'g fo_state" where
  "suite_ssh env node cmd st =
     (case vm_load (h_infos (fo_host st)) node of
        Inl e \<Rightarrow> (Inl (SLoad e), st)
      | Inr vm \<Rightarrow>
          (case se_ssh env vm cmd (fo_guest st) of
             (None, g) \<Rightarrow> (Inl (SUnreachable node), st\<lparr>fo_guest := g\<rparr>)
           | (Some r, g) \<Rightarrow> (Inr r, st\<lparr>fo_guest := g\<rparr>)))"

fun down_nodes :: "'g fo_state \<Rightarrow> string list \<Rightarrow> (suite_error, string list) result" where
  "down_nodes st [] = Inr []"
| "down_nodes st (n # ns) =
     res_bind (map_err SLoad (vm_load (h_infos (fo_host st)) n)) (\<lambda>vm.
     res_bind (down_nodes st ns) (\<lambda>down.
       Inr (if running (fo_host st) vm then down else n # down)))"

definition require_up :: "string list \<Rightarrow> 'g fo_state \<Rightarrow> (suite_error, unit) result" where
  "require_up nodes st = res_bind (down_nodes st nodes) (\<lambda>down. if down = [] then Inr () else Inl (SDown down))"

subsection \<open>The runs on a target\<close>

definition uptime_and_boot :: "'g suite_env \<Rightarrow> string \<Rightarrow> 'g fo_state \<Rightarrow> (suite_error, int option \<times> string option) result \<times> 'g fo_state" where
  "uptime_and_boot env node st =
     (case suite_ssh env node CmdUptimeBoot st of
        (Inl (SUnreachable _), st') \<Rightarrow> (Inr (None, None), st')
      | (Inl e, st') \<Rightarrow> (Inl e, st')
      | (Inr r, st') \<Rightarrow>
          if cp_rc r \<noteq> 0 then (Inr (None, None), st')
          else
            let ws = split_ws (cp_out r)
            in (Inr (case ws of [] \<Rightarrow> None | w # _ \<Rightarrow> parse_int w, if length ws > 1 then Some (ws ! 1) else None), st'))"

fun look_nodes :: "'g suite_env \<Rightarrow> string list \<Rightarrow> (string, int option) dict \<Rightarrow> (string, string option) dict \<Rightarrow> 'g fo_state
    \<Rightarrow> (suite_error, (string, int option) dict \<times> (string, string option) dict) result \<times> 'g fo_state" where
  "look_nodes env [] ups ids st = (Inr (ups, ids), st)"
| "look_nodes env (n # ns) ups ids st =
     (case uptime_and_boot env n st of
        (Inl e, st') \<Rightarrow> (Inl e, st')
      | (Inr (up, b), st') \<Rightarrow> look_nodes env ns (dict_set ups n up) (dict_set ids n b) st')"

definition query :: "'g suite_env \<Rightarrow> suite_target \<Rightarrow> string option \<Rightarrow> 'g fo_state \<Rightarrow> (suite_error, run_status list) result \<times> 'g fo_state" where
  "query env t run_id st =
     (case suite_ssh env (tg_exec t) (CmdProbe run_id) st of
        (Inl e, st1) \<Rightarrow> (Inl e, st1)
      | (Inr r, st1) \<Rightarrow>
          if cp_rc r \<noteq> 0 then (Inl (SUnreachable (tg_exec t)), st1)
          else
            (case parse_probe (cp_out r) of (now, up, runs) \<Rightarrow>
               case look_nodes env (if list_ex (\<lambda>run. qr_rc run = []) runs then filter (\<lambda>n. n \<noteq> tg_exec t) (tg_nodes t) else [])
                      [(tg_exec t, up)] [(tg_exec t, probe_boot_id (cp_out r))] st1 of
                 (Inl e, st2) \<Rightarrow> (Inl e, st2)
               | (Inr (ups, ids), st2) \<Rightarrow> (Inr (map (\<lambda>run. classify run now ups ids) runs), st2)))"

fun boot_ids :: "'g suite_env \<Rightarrow> string list \<Rightarrow> (string, string) dict \<Rightarrow> 'g fo_state \<Rightarrow> (suite_error, (string, string) dict) result \<times> 'g fo_state" where
  "boot_ids env [] out st = (Inr out, st)"
| "boot_ids env (n # ns) out st =
     (case suite_ssh env n CmdBootId st of
        (Inl (SUnreachable _), st') \<Rightarrow> boot_ids env ns out st'
      | (Inl e, st') \<Rightarrow> (Inl e, st')
      | (Inr r, st') \<Rightarrow>
          let b = strip (cp_out r)
          in boot_ids env ns (if cp_rc r = 0 \<and> b \<noteq> [] then dict_set out n b else out) st')"

subsection \<open>Starting a run\<close>

record suite_args =
  sa_target :: string
  sa_suite :: string
  sa_only :: "string list"
  sa_env :: "string list"
  sa_timeout :: "int option"
  sa_wait :: bool
  sa_results :: "string option"
  sa_debug :: bool
  sa_no_reformat :: bool
  sa_slow :: bool

definition suite_options :: "suite_args \<Rightarrow> (suite_error, unit) result" where
  "suite_options a =
     res_bind (map_err SArg (check_name ''suite'' (sa_suite a))) (\<lambda>_.
       if sa_timeout a \<noteq> None \<and> \<not> sa_wait a then Inl STimeoutNoWait
       else if get_or [] (sa_results a) \<noteq> [] \<and> \<not> sa_wait a then Inl SResultsNoWait
       else if sa_debug a \<and> \<not> sa_wait a then Inl SDebugNoWait
       else res_map (\<lambda>_. ()) (map_err SArg (env_assignments (sa_env a))))"

definition os_family_for_vm :: "'g suite_env \<Rightarrow> vminfo \<Rightarrow> string" where
  "os_family_for_vm env vm = (if vm_os_id vm = [] then ''rhel'' else get_or ''rhel'' (se_family env (vm_os_id vm)))"

definition ensure_layout :: "'g suite_env \<Rightarrow> suite_target \<Rightarrow> vminfo \<Rightarrow> string \<Rightarrow> 'g fo_state \<Rightarrow> (suite_error, unit) result \<times> 'g fo_state" where
  "ensure_layout env t vm family st =
     (if \<not> tg_cluster t then
        (case se_disks env vm family (fo_guest st) of
           (None, g) \<Rightarrow> (Inr (), st\<lparr>fo_guest := g\<rparr>)
         | (Some e, g) \<Rightarrow> (Inl (SDisks e), st\<lparr>fo_guest := g\<rparr>))
      else
        (case suite_ssh env (tg_exec t) (CmdHasBlock (lustre_libdir family @ ''/tests/cfg/local.sh'')) st of
           (Inl e, st') \<Rightarrow> (Inl e, st')
         | (Inr r, st') \<Rightarrow> (if cp_rc r \<noteq> 0 then Inl (SNoBlock (tg_exec t)) else Inr (), st')))"

definition facets_home :: "'g suite_env \<Rightarrow> suite_target \<Rightarrow> 'g fo_state \<Rightarrow> (suite_error, unit) result \<times> 'g fo_state" where
  "facets_home env t st =
     (if \<not> tg_cluster t then (Inr (), st)
      else
        case cluster_load (he_repr (fe_host (se_fo env))) (h_clusters (fo_host st)) (tg_name t) of
          Inl e \<Rightarrow> (Inl (SCluster e), st)
        | Inr c \<Rightarrow> (case require_no_moved_facets (se_fo env) c st of (r, st') \<Rightarrow> (map_err SFailover r, st')))"

text \<open>Everything before the script: the target and the exec node's VM.\<close>

definition suite_checks :: "'g suite_env \<Rightarrow> suite_args \<Rightarrow> 'g fo_state \<Rightarrow> (suite_error, suite_target \<times> vminfo) result \<times> 'g fo_state" where
  "suite_checks env a st =
     (case res_bind (suite_options a) (\<lambda>_.
           res_bind (resolve_target env (sa_target a) st) (\<lambda>t.
           res_bind (map_err SClaim (require_all (he_claim (fe_host (se_fo env))) (h_claims (fo_host st)) (tg_nodes t))) (\<lambda>_.
           res_bind (require_up (tg_nodes t) st) (\<lambda>_. Inr t)))) of
        Inl e \<Rightarrow> (Inl e, st)
      | Inr t \<Rightarrow>
          (case query env t None st of
             (Inl e, st1) \<Rightarrow> (Inl e, st1)
           | (Inr found, st1) \<Rightarrow>
               (case filter (\<lambda>s. rs_state s = RRunning) found of
                  s # _ \<Rightarrow> (Inl (SBusy (rs_id s)), st1)
                | [] \<Rightarrow>
                    (case vm_load (h_infos (fo_host st1)) (tg_exec t) of
                       Inl e \<Rightarrow> (Inl (SLoad e), st1)
                     | Inr vm \<Rightarrow>
                         (case ensure_layout env t vm (os_family_for_vm env vm) st1 of
                            (Inl e, st2) \<Rightarrow> (Inl e, st2)
                          | (Inr _, st2) \<Rightarrow>
                              (case facets_home env t st2 of
                                 (Inl e, st3) \<Rightarrow> (Inl e, st3)
                               | (Inr _, st3) \<Rightarrow>
                                   if get_or [] (sa_results a) = [] \<and> \<not> se_cwd env then (Inl SNoCwd, st3)
                                   else
                                     (case (if sa_wait a then se_dest env else None) of
                                        Some e \<Rightarrow> (Inl (SDest e), st3)
                                      | None \<Rightarrow> (Inr (t, vm), st3))))))))"

definition suite_launch :: "'g suite_env \<Rightarrow> suite_args \<Rightarrow> suite_target \<Rightarrow> vminfo \<Rightarrow> 'g fo_state \<Rightarrow> (suite_error, string) result \<times> 'g fo_state" where
  "suite_launch env a t vm st =
     (let run_id = sa_suite a @ ''-'' @ se_stamp env
      in case run_script run_id (lustre_libdir (os_family_for_vm env vm)) (sa_suite a)
                (if sa_only a = [] then None else Some (join '' '' (sa_only a))) (sa_env a) (\<not> sa_no_reformat a) (sa_slow a) of
           Inl e \<Rightarrow> (Inl (SArg e), st)
         | Inr script \<Rightarrow>
             (case boot_ids env (tg_nodes t) [] st of
                (Inl e, st1) \<Rightarrow> (Inl e, st1)
              | (Inr boots, st1) \<Rightarrow>
                  (case suite_ssh env (tg_exec t) (CmdLaunch run_id boots script) st1 of
                     (Inl e, st2) \<Rightarrow> (Inl e, st2)
                   | (Inr r, st2) \<Rightarrow> (if cp_rc r \<noteq> 0 then Inl (SNotStarted run_id) else Inr run_id, st2))))"

definition cmd_suite_start :: "'g suite_env \<Rightarrow> suite_args \<Rightarrow> 'g fo_state \<Rightarrow> (suite_error, suite_target \<times> string) result \<times> 'g fo_state" where
  "cmd_suite_start env a st =
     (case suite_checks env a st of
        (Inl e, st1) \<Rightarrow> (Inl e, st1)
      | (Inr (t, vm), st1) \<Rightarrow> (case suite_launch env a t vm st1 of (r, st2) \<Rightarrow> (res_map (\<lambda>run_id. (t, run_id)) r, st2)))"

subsection \<open>Waiting for a run\<close>

text \<open>
  The world changes while the command sleeps: \<open>world i\<close> is what poll \<open>i\<close> finds, \<open>now i\<close> the clock as it
  begins.  \<open>lost\<close> is \<^verbatim>\<open>lost_since\<close>, where \<^verbatim>\<open>lost_since or now\<close> takes a recorded time of zero for none.
\<close>

datatype wait_end = WLost | WTimeout | WError suite_error | WEnded run_status

definition POLL_SECONDS :: int where
  "POLL_SECONDS = 30"

definition LOST_SECONDS :: int where
  "LOST_SECONDS = 600"

definition lost_from :: "int option \<Rightarrow> int \<Rightarrow> int" where
  "lost_from lost now' = (case lost of None \<Rightarrow> now' | Some l \<Rightarrow> if l = 0 then now' else l)"

definition timed_out :: "int option \<Rightarrow> int \<Rightarrow> int \<Rightarrow> bool" where
  "timed_out timeout start now' = (case timeout of None \<Rightarrow> False | Some t \<Rightarrow> now' - start > t)"

partial_function (option) suite_wait :: "(nat \<Rightarrow> (suite_error, run_status list) result) \<Rightarrow> (nat \<Rightarrow> int) \<Rightarrow> int option \<Rightarrow> int \<Rightarrow> string
    \<Rightarrow> nat \<Rightarrow> int option \<Rightarrow> wait_end option" where
  [code]: "suite_wait poll now timeout start run_id i lost =
     (case poll i of
        Inl (SUnreachable n) \<Rightarrow>
          (let l = lost_from lost (now i)
           in if now i - l > LOST_SECONDS then Some WLost
              else if timed_out timeout start (now i) then Some WTimeout
              else suite_wait poll now timeout start run_id (Suc i) (Some l))
      | Inl e \<Rightarrow> Some (WError e)
      | Inr [] \<Rightarrow> Some (WError (SGone run_id))
      | Inr (st # _) \<Rightarrow>
          if rs_state st \<noteq> RRunning then Some (WEnded st)
          else if timed_out timeout start (now i) then Some WTimeout
          else suite_wait poll now timeout start run_id (Suc i) None)"

definition EXIT_OK :: int where "EXIT_OK = 0"

definition EXIT_ERROR :: int where "EXIT_ERROR = 1"

definition EXIT_TIMEOUT :: int where "EXIT_TIMEOUT = 3"

definition EXIT_UNREACHABLE :: int where "EXIT_UNREACHABLE = 4"

definition wait_poll :: "'g suite_env \<Rightarrow> suite_target \<Rightarrow> string \<Rightarrow> (nat \<Rightarrow> 'g fo_state) \<Rightarrow> nat \<Rightarrow> (suite_error, run_status list) result" where
  "wait_poll env t run_id world i = fst (query env t (Some run_id) (world i))"

text \<open>\<open>rsync\<close> is the exit status of the copy and \<open>texts\<close> the results files it brought.\<close>

definition wait_and_collect :: "'g suite_env \<Rightarrow> suite_target \<Rightarrow> string \<Rightarrow> int option \<Rightarrow> (nat \<Rightarrow> 'g fo_state) \<Rightarrow> (nat \<Rightarrow> int) \<Rightarrow> int
    \<Rightarrow> int \<Rightarrow> string list \<Rightarrow> (suite_error, int) result option" where
  "wait_and_collect env t run_id timeout world now start rsync texts =
     map_option (\<lambda>w. case w of
         WLost \<Rightarrow> Inr EXIT_UNREACHABLE
       | WTimeout \<Rightarrow> Inr EXIT_TIMEOUT
       | WError e \<Rightarrow> Inl e
       | WEnded st \<Rightarrow>
           if rsync \<noteq> 0 \<and> rsync \<noteq> 24 then Inl (SRsync rsync)
           else Inr (if failed st (summarize texts) then EXIT_ERROR else EXIT_OK))
       (suite_wait (wait_poll env t run_id world) now timeout start run_id 0 None)"

subsection \<open>Lemmas: what has to hold before a run starts\<close>

lemma suite_ssh_host: "suite_ssh env n cmd st = (r, st') \<Longrightarrow> fo_host st' = fo_host st"
  by (auto simp: suite_ssh_def split: sum.split_asm prod.split_asm option.split_asm)

lemma uptime_host: "uptime_and_boot env n st = (r, st') \<Longrightarrow> fo_host st' = fo_host st"
  by (cases "suite_ssh env n CmdUptimeBoot st")
    (auto simp: uptime_and_boot_def Let_def dest: suite_ssh_host split: sum.split_asm suite_error.split_asm if_split_asm)

lemma look_nodes_host: "look_nodes env ns ups ids st = (r, st') \<Longrightarrow> fo_host st' = fo_host st"
proof (induction ns arbitrary: ups ids st)
  case (Cons n ns)
  then show ?case by (cases "uptime_and_boot env n st") (auto dest: uptime_host split: sum.split_asm)
qed simp

lemma query_host:
  assumes "query env t run_id st = (r, st')"
  shows "fo_host st' = fo_host st"
proof -
  obtain a st1 where a: "suite_ssh env (tg_exec t) (CmdProbe run_id) st = (a, st1)" by fastforce
  show ?thesis
    using assms suite_ssh_host [OF a]
    by (auto simp: query_def a dest: look_nodes_host split: sum.split_asm if_split_asm prod.split_asm)
qed

lemma classify_state:
  "rs_state (classify run now ups ids) = (if qr_rc run \<noteq> [] then RDone else if qr_alive run then RRunning else RDied)"
  unfolding classify_def Let_def case_prod_beta run_status.simps by (simp only: if_distrib [of fst] fst_conv if_cancel)

lemma query_states:
  assumes "query env t run_id st = (Inr found, st')" "suite_ssh env (tg_exec t) (CmdProbe run_id) st = (Inr r, st1)"
  shows "map rs_state found = map (\<lambda>run. if qr_rc run \<noteq> [] then RDone else if qr_alive run then RRunning else RDied) (snd (snd (parse_probe (cp_out r))))"
proof -
  obtain now up runs where p: "parse_probe (cp_out r) = (now, up, runs)" by (metis prod.collapse)
  have "\<exists>ups ids. found = map (\<lambda>run. classify run now ups ids) runs"
    using assms by (auto simp: query_def p split: sum.split_asm if_split_asm prod.split_asm)
  then show ?thesis by (auto simp: p classify_state)
qed

lemma down_nodes_running:
  "down_nodes st ns = Inr [] \<Longrightarrow> n \<in> set ns \<Longrightarrow> \<exists>vm. vm_load (h_infos (fo_host st)) n = Inr vm \<and> running (fo_host st) vm"
  by (induction ns) (auto simp: res_bind_eq_Inr map_err_eq_Inr split: if_split_asm)

lemma suite_checks_done:
  assumes "suite_checks env a st = (Inr (t, vm), st')"
  shows "require_all (he_claim (fe_host (se_fo env))) (h_claims (fo_host st)) (tg_nodes t) = Inr ()"
    "down_nodes st (tg_nodes t) = Inr []" "vm_load (h_infos (fo_host st)) (tg_exec t) = Inr vm"
    "\<exists>found st1. query env t None st = (Inr found, st1) \<and> RRunning \<notin> set (map rs_state found)"
proof -
  let ?pre = "res_bind (suite_options a) (\<lambda>_.
           res_bind (resolve_target env (sa_target a) st) (\<lambda>t.
           res_bind (map_err SClaim (require_all (he_claim (fe_host (se_fo env))) (h_claims (fo_host st)) (tg_nodes t))) (\<lambda>_.
           res_bind (require_up (tg_nodes t) st) (\<lambda>_. Inr t))))"
  obtain t' where pre: "?pre = Inr t'" using assms by (cases ?pre) (auto simp: suite_checks_def)
  obtain found st1 where q: "query env t' None st = (Inr found, st1)"
    using assms pre by (cases "query env t' None st"; cases "fst (query env t' None st)") (auto simp: suite_checks_def)
  have idle: "filter (\<lambda>s. rs_state s = RRunning) found = []"
    using assms pre q by (auto simp: suite_checks_def split: list.split_asm)
  obtain vm' where vm': "vm_load (h_infos (fo_host st1)) (tg_exec t') = Inr vm'"
    using assms pre q idle by (cases "vm_load (h_infos (fo_host st1)) (tg_exec t')") (auto simp: suite_checks_def)
  have "t' = t" "vm' = vm"
    using assms pre q idle vm' by (auto simp: suite_checks_def split: prod.split_asm sum.split_asm if_split_asm option.split_asm)
  with pre q idle vm' query_host [OF q] show "require_all (he_claim (fe_host (se_fo env))) (h_claims (fo_host st)) (tg_nodes t) = Inr ()"
    "down_nodes st (tg_nodes t) = Inr []" "vm_load (h_infos (fo_host st)) (tg_exec t) = Inr vm"
    "\<exists>found st1. query env t None st = (Inr found, st1) \<and> RRunning \<notin> set (map rs_state found)"
    by (auto simp: res_bind_eq_Inr map_err_eq_Inr require_up_def filter_empty_conv split: if_split_asm)
qed

text \<open>
  C37.  A suite starts on an idle target of one's own: when the checks before a start pass, every live
  claim on a node of the target is the caller's, every node has its QEMU running, and no run that
  the guest reports is still alive without an exit status.
\<close>

theorem suite_starts_alone:
  assumes "suite_checks env a st = (Inr (t, vm), st')"
    "se_ssh env vm (CmdProbe None) (fo_guest st) = (Some r, g)" "cp_out r = probe_text now up boot events runs"
    "plain_field boot" "boot \<noteq> []" "list_all (\<lambda>(w, n). plain_field n) events" "list_all wf_run runs"
  shows "(n \<in> set (tg_nodes t) \<longrightarrow>
      (\<exists>v. vm_load (h_infos (fo_host st)) n = Inr v \<and> running (fo_host st) v) \<and>
      (holds (h_claims (fo_host st)) n c \<longrightarrow> live (he_claim (fe_host (se_fo env))) c = Inr True \<longrightarrow>
        current_owner (he_claim (fe_host (se_fo env))) None = Inr (cl_owner c))) \<and>
    (run \<in> set runs \<longrightarrow> gr_rc run = None \<longrightarrow> \<not> gr_alive run)"
proof -
  note ok = suite_checks_done [OF assms(1)]
  obtain found st1 where q: "query env t None st = (Inr found, st1)" "RRunning \<notin> set (map rs_state found)" using ok(4) by blast
  have "suite_ssh env (tg_exec t) (CmdProbe None) st = (Inr r, st\<lparr>fo_guest := g\<rparr>)" by (simp add: suite_ssh_def ok(3) assms(2))
  from query_states [OF q(1) this] q(2) have "RRunning \<notin> set (map (\<lambda>run. if qr_rc run \<noteq> [] then RDone else if qr_alive run then RRunning else RDied) (map (run_read events) runs))"
    by (simp add: assms(3) probe_read(1) [OF assms(4-7)])
  then have "run \<in> set runs \<longrightarrow> gr_rc run = None \<longrightarrow> \<not> gr_alive run"
    by (force simp: run_read_def rc_text_def split: if_split_asm)
  with down_nodes_running [OF ok(2)] require_all_only_holder [OF ok(1)] show ?thesis by blast
qed

definition suite_env_example :: "fo_guest_example suite_env" where
  "suite_env_example =
     \<lparr>se_fo = fo_env_example,
      se_ssh = (\<lambda>_ cmd g. (Some \<lparr>cp_rc = 0, cp_out = (case cmd of CmdProbe _ \<Rightarrow> probe_text 200 50 ''b'' [] [guest_run_example\<lparr>gr_rc := Some 1\<rparr>] | _ \<Rightarrow> []), cp_err = []\<rparr>, g)),
      se_disks = (\<lambda>_ _ g. (None, g)), se_family = (\<lambda>_. None), se_cwd = True, se_dest = None, se_stamp = ''1''\<rparr>"

definition suite_args_example :: suite_args where
  "suite_args_example = \<lparr>sa_target = ''o'', sa_suite = ''sanity'', sa_only = [], sa_env = [], sa_timeout = None, sa_wait = False,
     sa_results = None, sa_debug = False, sa_no_reformat = False, sa_slow = False\<rparr>"

theorem suite_starts_alone_witness:
  "\<exists>t vm st'. suite_checks suite_env_example suite_args_example fo_state_example = (Inr (t, vm), st') \<and>
     (\<exists>v. vm_load (h_infos fo_host_example) ''o'' = Inr v \<and> running fo_host_example v)"
proof -
  have "case suite_checks suite_env_example suite_args_example fo_state_example of (Inr (t, vm), _) \<Rightarrow> tg_nodes t = [''o''] | _ \<Rightarrow> False" by code_simp
  then obtain t vm st' where ok: "suite_checks suite_env_example suite_args_example fo_state_example = (Inr (t, vm), st')" "tg_nodes t = [''o'']"
    by (auto split: prod.split_asm sum.split_asm)
  have "plain_field ''b''" "list_all wf_run [guest_run_example\<lparr>gr_rc := Some 1\<rparr>]" by code_simp+
  moreover have "fo_host fo_state_example = fo_host_example" by (simp add: fo_state_example_def)
  ultimately show ?thesis
    using suite_starts_alone [OF ok(1), of "\<lparr>cp_rc = 0, cp_out = probe_text 200 50 ''b'' [] [guest_run_example\<lparr>gr_rc := Some 1\<rparr>], cp_err = []\<rparr>"
        "fo_guest fo_state_example" 200 50 "''b''" "[]" "[guest_run_example\<lparr>gr_rc := Some 1\<rparr>]" "''o''"] ok
    by (simp add: suite_env_example_def)
qed

subsection \<open>Lemmas: the wait ends\<close>

definition no_answer :: "(suite_error, run_status list) result \<Rightarrow> bool" where
  "no_answer p = (case p of Inl (SUnreachable _) \<Rightarrow> True | _ \<Rightarrow> False)"

definition still_running :: "(suite_error, run_status list) result \<Rightarrow> bool" where
  "still_running p = (case p of Inr (st # _) \<Rightarrow> rs_state st = RRunning | _ \<Rightarrow> False)"

text \<open>The answers that end a wait, and what poll \<open>j\<close> found when it ended with \<open>w\<close>.\<close>

definition wait_found :: "(nat \<Rightarrow> (suite_error, run_status list) result) \<Rightarrow> (nat \<Rightarrow> int) \<Rightarrow> int \<Rightarrow> int \<Rightarrow> nat \<Rightarrow> wait_end \<Rightarrow> bool" where
  "wait_found poll now t start j w =
     (case w of
        WEnded st \<Rightarrow> (\<exists>rest. poll j = Inr (st # rest)) \<and> rs_state st \<noteq> RRunning
      | WTimeout \<Rightarrow> (no_answer (poll j) \<or> still_running (poll j)) \<and> now j - start > t
      | WLost \<Rightarrow> \<exists>m \<le> j. now j - now m > LOST_SECONDS \<and> list_all (\<lambda>x. no_answer (poll x)) [m..<Suc j]
      | WError e \<Rightarrow> (poll j = Inl e \<and> \<not> no_answer (poll j)) \<or> poll j = Inr [])"

definition lost_ok :: "(nat \<Rightarrow> (suite_error, run_status list) result) \<Rightarrow> (nat \<Rightarrow> int) \<Rightarrow> nat \<Rightarrow> int option \<Rightarrow> bool" where
  "lost_ok poll now i lost =
     (case lost of None \<Rightarrow> True | Some l \<Rightarrow> \<exists>m < i. l = now m \<and> list_all (\<lambda>x. no_answer (poll x)) [m..<i])"

lemma lost_from_ok:
  assumes "lost_ok poll now i lost" "no_answer (poll i)"
  shows "\<exists>m \<le> i. lost_from lost (now i) = now m \<and> list_all (\<lambda>x. no_answer (poll x)) [m..<Suc i]"
proof (cases "lost = None \<or> lost = Some 0")
  case True
  with assms(2) show ?thesis by (intro exI [of _ i]) (auto simp: lost_from_def)
next
  case False
  then obtain l where l: "lost = Some l" "l \<noteq> 0" by auto
  with assms(1) obtain m where "m < i" "l = now m" "list_all (\<lambda>x. no_answer (poll x)) [m..<i]"
    by (auto simp: lost_ok_def)
  note this l
  then show ?thesis using assms(2) by (intro exI [of _ m]) (simp add: lost_from_def)
qed

text \<open>One poll: the wait ends there, or goes on with the next.\<close>

lemma suite_wait_step:
  assumes "lost_ok poll now i lost"
  shows "(\<exists>w. suite_wait poll now (Some t) start run_id i lost = Some w \<and> wait_found poll now t start i w) \<or>
    (now i - start \<le> t \<and> (no_answer (poll i) \<or> still_running (poll i)) \<and>
     (\<exists>lost'. lost_ok poll now (Suc i) lost' \<and>
        suite_wait poll now (Some t) start run_id i lost = suite_wait poll now (Some t) start run_id (Suc i) lost'))"
proof (cases "poll i")
  case (Inl e)
  show ?thesis
  proof (cases "no_answer (poll i)")
    case True
    then obtain n where e: "e = SUnreachable n" using Inl by (auto simp: no_answer_def split: suite_error.split_asm)
    obtain m where m: "m \<le> i" "lost_from lost (now i) = now m" "list_all (\<lambda>x. no_answer (poll x)) [m..<Suc i]"
      using lost_from_ok [OF assms True] by blast
    then have "lost_ok poll now (Suc i) (Some (now m))" by (auto simp: lost_ok_def)
    moreover have "suite_wait poll now (Some t) start run_id i lost =
        (if now i - now m > LOST_SECONDS then Some WLost else if now i - start > t then Some WTimeout
         else suite_wait poll now (Some t) start run_id (Suc i) (Some (now m)))"
      using suite_wait.simps [of poll now "Some t" start run_id i lost] by (simp add: Inl e m(2) timed_out_def Let_def)
    ultimately show ?thesis
      using m(1,3) True by (cases "now i - now m > LOST_SECONDS"; cases "now i - start > t") (auto simp: wait_found_def simp del: upt_Suc)
  next
    case False
    then show ?thesis
      unfolding suite_wait.simps [of poll now "Some t" start run_id i lost] using Inl
      by (cases e) (simp_all add: wait_found_def no_answer_def)
  qed
next
  case (Inr found)
  moreover have "lost_ok poll now (Suc i) None" by (simp add: lost_ok_def)
  ultimately show ?thesis
    unfolding suite_wait.simps [of poll now "Some t" start run_id i lost]
    by (cases found) (auto simp: wait_found_def still_running_def timed_out_def)
qed

lemma suite_wait_ends:
  assumes "\<And>i. now i + POLL_SECONDS \<le> now (Suc i)" "t < now i - start + int k * POLL_SECONDS" "lost_ok poll now i lost"
  shows "\<exists>j w. i \<le> j \<and> j \<le> i + k \<and> suite_wait poll now (Some t) start run_id i lost = Some w \<and> wait_found poll now t start j w \<and>
    list_all (\<lambda>x. no_answer (poll x) \<or> still_running (poll x)) [i..<j]"
  using assms(2,3)
proof (induction k arbitrary: i lost)
  case 0
  then show ?case using suite_wait_step [OF 0(2), of t start run_id] by fastforce
next
  case (Suc k)
  show ?case
  proof (cases "\<exists>w. suite_wait poll now (Some t) start run_id i lost = Some w \<and> wait_found poll now t start i w")
    case True
    then show ?thesis by fastforce
  next
    case False
    then obtain lost' where l: "lost_ok poll now (Suc i) lost'" "no_answer (poll i) \<or> still_running (poll i)"
      "suite_wait poll now (Some t) start run_id i lost = suite_wait poll now (Some t) start run_id (Suc i) lost'"
      using suite_wait_step [OF Suc.prems(2), of t start run_id] by blast
    have "t < now (Suc i) - start + int k * POLL_SECONDS" using Suc.prems(1) assms(1) [of i] by (simp add: algebra_simps)
    from Suc.IH [OF this l(1)] obtain j w where j: "Suc i \<le> j" "j \<le> Suc i + k"
      "suite_wait poll now (Some t) start run_id (Suc i) lost' = Some w" "wait_found poll now t start j w"
      "list_all (\<lambda>x. no_answer (poll x) \<or> still_running (poll x)) [Suc i..<j]" by blast
    have "[i..<j] = i # [Suc i..<j]" using j(1) by (simp add: upt_conv_Cons)
    with j l show ?thesis by (intro exI [of _ j] exI [of _ w]) auto
  qed
qed

text \<open>
  C23.  Waiting for a run with a timeout ends, after at most one poll per interval of the time allowed
  and one more, and its exit status can be trusted: it is 0 only if the run was reported to have
  ended with status 0, the results were copied, no test was cut off and every test at every depth
  passed or was skipped; it is the one for an unreachable node only if no poll got an answer
  for longer than the limit.
\<close>

theorem suite_wait_trusted:
  assumes "\<And>i. now i + POLL_SECONDS \<le> now (Suc i)" "start \<le> now 0" "t < int k * POLL_SECONDS" "files_of logss texts"
  shows "\<exists>res j. wait_and_collect env tg run_id (Some t) world now start rsync texts = Some res \<and> j \<le> k \<and>
    list_all (\<lambda>x. no_answer (wait_poll env tg run_id world x) \<or> still_running (wait_poll env tg run_id world x)) [0..<j] \<and>
    (res = Inr EXIT_OK \<longrightarrow> (\<exists>st rest. wait_poll env tg run_id world j = Inr (st # rest) \<and> rs_state st = RDone \<and> rs_rc st = Some 0) \<and>
      (rsync = 0 \<or> rsync = 24) \<and> list_all (list_all all_good) logss) \<and>
    (res = Inr EXIT_UNREACHABLE \<longrightarrow>
      (\<exists>m \<le> j. now j - now m > LOST_SECONDS \<and> list_all (\<lambda>x. no_answer (wait_poll env tg run_id world x)) [m..<Suc j]))"
proof -
  let ?poll = "wait_poll env tg run_id world"
  have "t < now 0 - start + int k * POLL_SECONDS" using assms(2,3) by simp
  moreover have "lost_ok ?poll now 0 None" by (simp add: lost_ok_def)
  ultimately obtain j w where j: "j \<le> k" "suite_wait ?poll now (Some t) start run_id 0 None = Some w" "wait_found ?poll now t start j w"
    "list_all (\<lambda>x. no_answer (?poll x) \<or> still_running (?poll x)) [0..<j]"
    using suite_wait_ends [of now t 0 start k ?poll None run_id] assms(1) by auto
  let ?res = "case w of WLost \<Rightarrow> Inr EXIT_UNREACHABLE | WTimeout \<Rightarrow> Inr EXIT_TIMEOUT | WError e \<Rightarrow> Inl e
       | WEnded st \<Rightarrow> if rsync \<noteq> 0 \<and> rsync \<noteq> 24 then Inl (SRsync rsync) else Inr (if failed st (summarize texts) then EXIT_ERROR else EXIT_OK)"
  have res: "wait_and_collect env tg run_id (Some t) world now start rsync texts = Some ?res"
    using j(2) by (simp add: wait_and_collect_def)
  have codes: "EXIT_OK \<noteq> EXIT_UNREACHABLE" "EXIT_OK \<noteq> EXIT_TIMEOUT" "EXIT_ERROR \<noteq> EXIT_UNREACHABLE" "EXIT_TIMEOUT \<noteq> EXIT_UNREACHABLE" "EXIT_OK \<noteq> EXIT_ERROR"
    by (simp_all add: EXIT_OK_def EXIT_UNREACHABLE_def EXIT_TIMEOUT_def EXIT_ERROR_def)
  note pass = failed_good [OF assms(4)]
  show ?thesis
  proof (intro exI [of _ ?res] exI [of _ j] conjI)
    show "?res = Inr EXIT_OK \<longrightarrow> (\<exists>st rest. ?poll j = Inr (st # rest) \<and> rs_state st = RDone \<and> rs_rc st = Some 0) \<and>
        (rsync = 0 \<or> rsync = 24) \<and> list_all (list_all all_good) logss"
      using j(3) codes pass by (cases w) (auto simp: wait_found_def split: if_split_asm)
    show "?res = Inr EXIT_UNREACHABLE \<longrightarrow> (\<exists>m \<le> j. now j - now m > LOST_SECONDS \<and> list_all (\<lambda>x. no_answer (?poll x)) [m..<Suc j])"
      using j(3) codes by (cases w) (auto simp: wait_found_def split: if_split_asm)
  qed (use res j in auto)
qed

theorem suite_wait_trusted_witness:
  "\<exists>res. wait_and_collect suite_env_example \<lparr>tg_name = ''o'', tg_cluster = False, tg_exec = ''o'', tg_nodes = [''o'']\<rparr> ''sanity-1'' (Some 100)
      (\<lambda>_. fo_state_example) (\<lambda>i. int i * 30) 0 0 [file_example] = Some res \<and> res \<noteq> Inr EXIT_OK"
proof -
  have clock: "int i * 30 + POLL_SECONDS \<le> int (Suc i) * 30" for i by (simp add: POLL_SECONDS_def)
  have "universal_newlines file_example = file_example" by code_simp
  then have files: "files_of [[log_example]] [file_example]" using log_example_file by (simp add: files_of_def)
  have "\<not> all_good log_example" by code_simp
  with suite_wait_trusted [of "\<lambda>i. int i * 30" 0 100 4 "[[log_example]]" "[file_example]" suite_env_example
      "\<lparr>tg_name = ''o'', tg_cluster = False, tg_exec = ''o'', tg_nodes = [''o'']\<rparr>" "''sanity-1''" "\<lambda>_. fo_state_example" 0, OF clock _ _ files]
  show ?thesis by (auto simp: POLL_SECONDS_def)
qed

end
