(* ===== verification/HostCleanup.thy ===== *)
theory HostCleanup
  imports HostInvariants
begin

text \<open>
  What commands leave behind: a create that fails takes its files, its record and its
  devices back; a destroy removes what belongs to the VM, and what else it can hit.
\<close>

subsection \<open>Failed disk creation\<close>

text \<open>The image tools touch no file but those named by absolute path on their command line,
  and leave the backing image in place.\<close>

definition tool_local :: "host_env \<Rightarrow> string \<Rightarrow> bool" where
  "tool_local env img \<longleftrightarrow>
     (\<forall>sudo argv fs f. (f \<in> set argv \<and> startswith f ''/'' \<and> f \<noteq> img) \<or>
        (f \<in> snd (he_tool env sudo argv fs) \<longleftrightarrow> f \<in> fs))"

definition agree_off :: "string set \<Rightarrow> string set \<Rightarrow> string set \<Rightarrow> bool" where
  "agree_off own fs fs' \<longleftrightarrow> (\<forall>f. f \<notin> own \<longrightarrow> (f \<in> fs' \<longleftrightarrow> f \<in> fs))"

lemma agree_off_trans [trans]: "agree_off own a b \<Longrightarrow> agree_off own b c \<Longrightarrow> agree_off own a c"
  by (simp add: agree_off_def)

lemma agree_off_refl [simp]: "agree_off own fs fs"
  by (simp add: agree_off_def)

lemma agree_off_diff: "agree_off own fs fs' \<Longrightarrow> agree_off own fs (fs' - own)"
  by (simp add: agree_off_def)

lemma make_image_off:
  assumes "tool_local env img" "make_image env sudo argv fs = (r, fs')"
    "\<And>f. f \<in> set argv \<Longrightarrow> startswith f ''/'' \<Longrightarrow> f = img \<or> f \<in> own"
  shows "agree_off own fs fs'"
proof -
  have "fs' = snd (he_tool env sudo argv fs)"
    using assms(2) by (auto simp: make_image_def split: prod.split_asm sum.split_asm)
  then show ?thesis using assms(1,3) unfolding tool_local_def agree_off_def by metis
qed

lemma str_int_not_path: "\<not> startswith (str_int n) ''/''"
  using str_int_chars [of "hd (str_int n)" n] str_int_nonempty [of n]
  by (cases "str_int n") (auto simp: startswith_def char_class_defs)

lemma startswith_slash: "startswith (c # s) ''/'' \<longleftrightarrow> c = CHR ''/''" "\<not> startswith [] ''/''"
  by (simp_all add: startswith_def)

lemma command_paths:
  assumes "startswith f ''/''"
  shows "f \<in> set (prealloc_cmd v mode disk) \<Longrightarrow> f = disk"
    "f \<in> set [''truncate'', ''-s'', str_int n, disk] \<Longrightarrow> f = disk"
    "f \<in> set [''qemu-img'', ''resize'', disk, str_int n] \<Longrightarrow> f = disk"
    "f \<in> set [''qemu-img'', ''create'', ''-f'', ''qcow2'', ''-b'', img, ''-F'', ''raw'', disk] \<Longrightarrow> f = img \<or> f = disk"
  using assms by (auto simp: prealloc_cmd_def startswith_slash str_int_not_path)

lemma preallocated_off:
  assumes "tool_local env img" "create_preallocated_disk env sudo vm disk fs = (r, fs', vm')" "disk \<in> own"
  shows "agree_off own fs fs'"
proof -
  have cmd: "agree_off own a b" if "make_image env sudo (prealloc_cmd v mode disk) a = (q, b)" for v mode a b q
    using make_image_off [OF assms(1) that] assms(3) command_paths(1) by blast
  obtain q fs1 where one: "make_image env sudo (prealloc_cmd vm (vm_disk_prealloc vm) disk) fs = (q, fs1)" by fastforce
  obtain q2 fs2 where two: "make_image env sudo (prealloc_cmd (vm\<lparr>vm_disk_prealloc := ''full''\<rparr>) ''full'' disk) fs1 = (q2, fs2)"
    by fastforce
  have "fs' = fs1 \<or> fs' = fs2"
    using assms(2) one two by (cases q) (auto simp: create_preallocated_disk_def Let_def split: if_splits)
  then show ?thesis using cmd [OF one] cmd [OF two] agree_off_trans by blast
qed

lemma data_disks_off:
  assumes "tool_local env img" "create_data_disks env sudo disks vm fs = (r, fs', vm')" "set disks \<subseteq> own"
  shows "agree_off own fs fs'"
  using assms(2,3)
proof (induction disks arbitrary: vm fs)
  case (Cons d disks)
  have cmd: "agree_off own a b" if "make_image env sudo [''truncate'', ''-s'', str_int n, d] a = (q, b)" for n a b q
  proof (rule make_image_off [OF assms(1) that])
    fix f assume "f \<in> set [''truncate'', ''-s'', str_int n, d]" "startswith f ''/''"
    then have "f = d" by (rule command_paths(2) [rotated])
    then show "f = img \<or> f \<in> own" using Cons.prems(2) by simp
  qed
  show ?case
  proof (cases "vm_disk_prealloc vm = []")
    case True
    obtain q fs1 where made: "make_image env sudo [''truncate'', ''-s'', str_int (vm_disk_size vm), d] fs = (q, fs1)"
      by fastforce
    then have "fs' = fs1 \<or> create_data_disks env sudo disks vm fs1 = (r, fs', vm')"
      using Cons.prems(1) True by (cases q) simp_all
    then show ?thesis using Cons.IH Cons.prems(2) agree_off_trans [of own fs fs1 fs'] cmd [OF made] by auto
  next
    case False
    obtain q fs1 v where made: "create_preallocated_disk env sudo vm d fs = (q, fs1, v)" by (metis prod_cases3)
    then have "fs' = fs1 \<or> create_data_disks env sudo disks v fs1 = (r, fs', vm')"
      using Cons.prems(1) False by (cases q) simp_all
    moreover have "agree_off own fs fs1" using preallocated_off [OF assms(1) made] Cons.prems(2) by simp
    ultimately show ?thesis using Cons.IH Cons.prems(2) agree_off_trans [of own fs fs1 fs'] by auto
  qed
qed simp

lemma own_images_prealloc: "same_but_prealloc vm vm' \<Longrightarrow> own_images env vm' = own_images env vm"
  by (auto simp: same_but_prealloc_def own_images_def disk_paths_def disk_path_def disk_dir_path_def fun_eq_iff)

lemma create_disks_clean:
  assumes "tool_local env (vm_image vm)" "create_disks env vm fs = (r, fs')"
  shows "agree_off (set (own_images env vm)) fs fs'"
    "r = Inl e \<Longrightarrow> fs' = fs \<or> set (own_images env vm) \<inter> fs' = {}"
proof -
  let ?own = "set (own_images env vm)" and ?o = "overlay_path env (vm_name vm)"
  define run where "run = then_run
     (make_image env (\<not> he_overlays_writable env)
        [''qemu-img'', ''create'', ''-f'', ''qcow2'', ''-b'', vm_image vm, ''-F'', ''raw'', ?o] fs)
     (make_image env (\<not> he_overlays_writable env) [''qemu-img'', ''resize'', ?o, str_int (vm_root_size vm)])"
  obtain r1 fs1 where run1: "run = (r1, fs1)" by fastforce
  have first: "agree_off ?own a b"
    if "make_image env s [''qemu-img'', ''create'', ''-f'', ''qcow2'', ''-b'', vm_image vm, ''-F'', ''raw'', ?o] a = (q, b)" for s a b q
  proof (rule make_image_off [OF assms(1) that])
    fix f assume "f \<in> set [''qemu-img'', ''create'', ''-f'', ''qcow2'', ''-b'', vm_image vm, ''-F'', ''raw'', ?o]" "startswith f ''/''"
    then have "f = vm_image vm \<or> f = ?o" by (rule command_paths(4) [rotated])
    then show "f = vm_image vm \<or> f \<in> ?own" by (auto simp: own_images_def)
  qed
  have second: "agree_off ?own a b"
    if "make_image env s [''qemu-img'', ''resize'', ?o, str_int n] a = (q, b)" for s a b q n
  proof (rule make_image_off [OF assms(1) that])
    fix f assume "f \<in> set [''qemu-img'', ''resize'', ?o, str_int n]" "startswith f ''/''"
    then have "f = ?o" by (rule command_paths(3) [rotated])
    then show "f = vm_image vm \<or> f \<in> ?own" by (simp add: own_images_def)
  qed
  have off1: "agree_off ?own fs fs1"
  proof -
    obtain q a where m1: "make_image env (\<not> he_overlays_writable env)
        [''qemu-img'', ''create'', ''-f'', ''qcow2'', ''-b'', vm_image vm, ''-F'', ''raw'', ?o] fs = (q, a)"
      by fastforce
    obtain q2 b where m2: "make_image env (\<not> he_overlays_writable env) [''qemu-img'', ''resize'', ?o, str_int (vm_root_size vm)] a = (q2, b)"
      by fastforce
    have "fs1 = a \<or> fs1 = b" using run1 m1 m2 unfolding run_def then_run_def by (cases q) simp_all
    then show ?thesis using first [OF m1] agree_off_trans [OF first [OF m1] second [OF m2]] by blast
  qed
  obtain q fs2 vm2 where disks: "create_data_disks env
      (\<not> (if vm_disk_dir vm \<noteq> [] then he_dir_writable env (vm_disk_dir vm) else he_overlays_writable env))
      (disk_paths (he_overlays env) vm) vm fs1 = (q, fs2, vm2)"
    by (metis prod_cases3)
  have own2: "set (own_images env vm2) = ?own"
    using own_images_prealloc [OF data_disks_vm [OF disks], of env] by simp
  have "agree_off ?own fs1 fs2"
    by (rule data_disks_off [OF assms(1) disks]) (auto simp: own_images_def)
  then have off2: "agree_off ?own fs fs2" using off1 agree_off_trans by blast
  consider (same) "fs' = fs" | (first) "fs' = fs1 - ?own" | (last) "fs' = fs2 - ?own" | (ended) "\<exists>v. r = Inr v" "fs' = fs2"
    using assms(2) run1 disks own2 unfolding create_disks_def Let_def run_def [symmetric]
    by (cases r1; cases q) (auto split: if_splits)
  then show "agree_off ?own fs fs'" "r = Inl e \<Longrightarrow> fs' = fs \<or> ?own \<inter> fs' = {}"
    using off1 off2 agree_off_diff by (cases, auto)+
qed

subsection \<open>The files of a VM\<close>

lemma lookup_no_slash: "validate_vm_name_for_lookup n = Inr () \<Longrightarrow> CHR ''/'' \<notin> set n"
  by (auto simp: validate_vm_name_for_lookup_def VM_NAME_UNSAFE_def list_ex_iff split: if_splits)

lemma startswith_iff: "startswith s p \<longleftrightarrow> (\<exists>r. s = p @ r)"
  unfolding startswith_def by (metis append_eq_conv_conj append_take_drop_id)

lemma startswith_drop_iff: "startswith s p \<and> P (drop (length p) s) \<longleftrightarrow> (\<exists>r. s = p @ r \<and> P r)"
  by (auto simp: startswith_iff)

lemma affix_iff:
  "startswith path pre \<and> c \<notin> set (drop (length pre) path) \<and> startswith (drop (length pre) path) stem \<and>
     endswith (drop (length stem) (drop (length pre) path)) suf \<longleftrightarrow>
   (\<exists>x. path = pre @ stem @ x @ suf \<and> c \<notin> set (stem @ x @ suf))"
  by (auto simp: startswith_iff endswith_iff)

lemma overlay_glob_iff:
  "overlay_glob env n path \<longleftrightarrow>
     (\<exists>x. path = (he_overlays env @ ''/'') @ (n @ ''-disk'') @ x @ ''.img'' \<and> CHR ''/'' \<notin> set ((n @ ''-disk'') @ x @ ''.img''))"
  unfolding overlay_glob_def Let_def by (rule affix_iff)

lemma disk_dir_file_iff:
  "disk_dir_file d n path \<longleftrightarrow>
     (\<exists>ds. path = (d @ ''/'' @ n @ ''-disk'') @ ds @ ''.img'' \<and> ds \<noteq> [] \<and> list_all isdecimal ds)"
proof -
  have img: "takeWhile isdecimal ''.img'' = []" "dropWhile isdecimal ''.img'' = ''.img''" by (simp_all add: isdecimal_def)
  have parts: "(takeWhile isdecimal r \<noteq> [] \<and> dropWhile isdecimal r = ''.img'') \<longleftrightarrow>
      (\<exists>ds. r = ds @ ''.img'' \<and> ds \<noteq> [] \<and> list_all isdecimal ds)" for r
  proof
    assume "takeWhile isdecimal r \<noteq> [] \<and> dropWhile isdecimal r = ''.img''"
    then show "\<exists>ds. r = ds @ ''.img'' \<and> ds \<noteq> [] \<and> list_all isdecimal ds"
      by (metis list_all_iff set_takeWhileD takeWhile_dropWhile_id)
  next
    assume "\<exists>ds. r = ds @ ''.img'' \<and> ds \<noteq> [] \<and> list_all isdecimal ds"
    then obtain ds where "r = ds @ ''.img''" "ds \<noteq> []" "\<And>c. c \<in> set ds \<Longrightarrow> isdecimal c"
      by (auto simp: list_all_iff)
    then show "takeWhile isdecimal r \<noteq> [] \<and> dropWhile isdecimal r = ''.img''"
      using img by (simp add: takeWhile_append2 dropWhile_append2)
  qed
  let ?pre = "d @ ''/'' @ n @ ''-disk''"
  have "disk_dir_file d n path \<longleftrightarrow> startswith path ?pre \<and>
      (\<lambda>r. takeWhile isdecimal r \<noteq> [] \<and> dropWhile isdecimal r = ''.img'') (drop (length ?pre) path)"
    unfolding disk_dir_file_def Let_def by (rule refl)
  also have "\<dots> \<longleftrightarrow> (\<exists>r. path = ?pre @ r \<and> (\<lambda>r. takeWhile isdecimal r \<noteq> [] \<and> dropWhile isdecimal r = ''.img'') r)"
    by (rule startswith_drop_iff)
  finally show ?thesis unfolding parts by blast
qed

lemma no_slash_disk: "CHR ''/'' \<notin> set n \<Longrightarrow> CHR ''/'' \<notin> set ((n @ ''-disk'') @ str_nat k @ ''.img'')"
  using str_nat_decimal [of _ k] by (auto simp: isdecimal_def)

lemma disk_path_shape:
  "disk_path ov vm k = (disk_dir_path ov vm @ ''/'') @ (vm_name vm @ ''-disk'') @ str_nat k @ ''.img''"
  by (simp add: disk_path_def)

lemma overlay_glob_disk:
  "CHR ''/'' \<notin> set (vm_name vm) \<Longrightarrow> vm_disk_dir vm = [] \<Longrightarrow> overlay_glob env (vm_name vm) (disk_path (he_overlays env) vm k)"
  unfolding overlay_glob_iff disk_path_shape disk_dir_path_def using no_slash_disk by auto

lemma disk_dir_file_disk:
  "vm_disk_dir vm \<noteq> [] \<Longrightarrow> disk_dir_file (vm_disk_dir vm) (vm_name vm) (disk_path ov vm k)"
  unfolding disk_dir_file_iff disk_path_shape disk_dir_path_def
  using str_nat_decimal [of _ k] str_nat_nonempty [of k] by (auto simp: list_all_iff)

lemma own_images_targets:
  assumes "CHR ''/'' \<notin> set n" "vm_load (h_infos h) n = Inr u" "vm_disk_dir u = vm_disk_dir vm" "vm_name vm = n"
  shows "set (own_images env vm) \<inter> h_files h \<subseteq> vm_targets env h n"
proof
  fix f assume f: "f \<in> set (own_images env vm) \<inter> h_files h"
  then consider (overlay) "f = overlay_path env n" | (disk) k where "f = disk_path (he_overlays env) vm k"
    using assms(4) by (auto simp: own_images_def disk_paths_def)
  then show "f \<in> vm_targets env h n"
  proof cases
    case overlay
    then show ?thesis by (simp add: vm_targets_def)
  next
    case (disk k)
    then show ?thesis
      using f assms overlay_glob_disk [of vm env k] disk_dir_file_disk [of vm "he_overlays env" k]
      by (cases "vm_disk_dir vm = []") (simp_all add: vm_targets_def)
  qed
qed

subsection \<open>A failed create leaves nothing\<close>

lemma is_running_disks [simp]: "vm_disk_dir (snd (is_running procs pf vm)) = vm_disk_dir vm"
  by (simp add: is_running_def Let_def)

lemma kill_qemu_rest:
  assumes "kill_qemu env vm h = (r, h')"
  shows "h_files h' = h_files h" "h_rebinds h' = h_rebinds h" "h_claims h' = h_claims h" "h_hosts h' = h_hosts h" "h_ssh h' = h_ssh h"
    "h_pidfiles h' = h_pidfiles h"
  using assms by (auto simp: kill_qemu_def drop_taps_def Let_def split: prod.split_asm if_splits sum.split_asm)

lemma update_pid_other: "update_pid vm p dir = Inr (vm', dir') \<Longrightarrow> n \<noteq> vm_name vm \<Longrightarrow> dir' n = dir n"
  by (auto simp: update_pid_def vm_update_fields_def res_map_eq_Inr split: option.split_asm)

lemma kill_qemu_record:
  assumes "kill_qemu env vm h = (r, h')"
  shows "n \<noteq> vm_name vm \<Longrightarrow> h_infos h' n = h_infos h n"
    "h_infos h (vm_name vm) = Some (info_text d) \<Longrightarrow> wf_vminfo d \<Longrightarrow> \<exists>p. vm_load (h_infos h') (vm_name vm) = Inr (d\<lparr>vm_pid := p\<rparr>)"
proof -
  from kill_qemu_infos [OF assms] consider "h_infos h' = h_infos h"
    | vm1 vm2 where "vm_name vm1 = vm_name vm" "update_pid vm1 0 (h_infos h) = Inr (vm2, h_infos h')" by blast
  note cases = this
  show "n \<noteq> vm_name vm \<Longrightarrow> h_infos h' n = h_infos h n"
    using cases by cases (auto dest: update_pid_other)
  assume d: "h_infos h (vm_name vm) = Some (info_text d)" "wf_vminfo d"
  show "\<exists>p. vm_load (h_infos h') (vm_name vm) = Inr (d\<lparr>vm_pid := p\<rparr>)"
    using cases
  proof cases
    case 1
    then show ?thesis using d by (intro exI [of _ "vm_pid d"]) (simp add: vm_load_read info_read_text)
  next
    case (2 vm1 vm2)
    have "h_infos h' = (h_infos h)(vm_name vm \<mapsto> info_text (d\<lparr>vm_pid := 0\<rparr>))"
      using op_run_disk [of d "SetPid 0" "h_infos h" vm1] d 2 by simp
    then show ?thesis using d(2) by (intro exI [of _ 0]) (simp add: vm_load_read info_read_text ltvm_wf)
  qed
qed

text \<open>The rollback, for a VM with a record on disk that names the same disk directory.\<close>

lemma rollback_effect:
  assumes "validate_vm_name_for_lookup (vm_name vm) = Inr ()" "h_infos h (vm_name vm) = Some (info_text d)" "wf_vminfo d"
    "vm_disk_dir d = vm_disk_dir vm"
  shows "h_infos (rollback_launch_failure env vm h) = (h_infos h)(vm_name vm := None)"
    "set (own_images env vm) \<inter> h_files (rollback_launch_failure env vm h) = {}"
proof -
  let ?n = "vm_name vm"
  obtain r h2 where kill: "kill_qemu env vm (keep_log env ?n h) = (r, h2)" by fastforce
  have infos2: "h_infos h2 m = h_infos h m" if "m \<noteq> ?n" for m
    using kill_qemu_record(1) [OF kill that] by simp
  have roll: "rollback_launch_failure env vm h = rebind_all (vm_passthrough_drivers vm)
      (unregister_ssh_name ?n (h2\<lparr>h_files := h_files h2 - vm_targets env h2 ?n, h_infos := (h_infos h2)(?n := None),
        h_pidfiles := (h_pidfiles h2)(?n := None)\<rparr>))"
    using kill assms(1) by (simp add: rollback_launch_failure_def Let_def destroy_vm_artifacts_def)
  show "h_infos (rollback_launch_failure env vm h) = (h_infos h)(?n := None)"
    using infos2 by (auto simp: roll fun_eq_iff)
  obtain p where "vm_load (h_infos h2) ?n = Inr (d\<lparr>vm_pid := p\<rparr>)"
    using kill_qemu_record(2) [OF kill] assms(2,3) by auto
  from own_images_targets [OF lookup_no_slash [OF assms(1)] this, of vm env] assms(4)
  show "set (own_images env vm) \<inter> h_files (rollback_launch_failure env vm h) = {}"
    unfolding roll by (auto simp: rebind_all_def unregister_ssh_name_def)
qed

text \<open>What the images of a VM depend on.\<close>

definition disk_key :: "vminfo \<Rightarrow> string \<times> string \<times> int \<times> int" where
  "disk_key vm = (vm_name vm, vm_disk_dir vm, vm_mdt_disks vm, vm_ost_disks vm)"

lemma own_images_record: "disk_key u = disk_key v \<Longrightarrow> own_images env u = own_images env v"
  by (simp add: disk_key_def own_images_def disk_paths_def disk_path_def disk_dir_path_def fun_eq_iff)

lemma disk_key_op [simp]: "disk_key (op_record op vm) = disk_key vm"
  by (cases op) (simp_all add: disk_key_def)

lemma disk_key_sets [simp]: "disk_key (vm\<lparr>vm_pid := p\<rparr>) = disk_key vm" "disk_key (vm\<lparr>vm_last_boot := t\<rparr>) = disk_key vm"
  "disk_key (vm\<lparr>vm_image_id := s\<rparr>) = disk_key vm" "disk_key (vm\<lparr>vm_passthrough_drivers := d\<rparr>) = disk_key vm"
  by (simp_all add: disk_key_def)

lemma disk_key_name: "disk_key u = disk_key v \<Longrightarrow> vm_name u = vm_name v \<and> vm_disk_dir u = vm_disk_dir v"
  by (simp add: disk_key_def)

text \<open>A record on disk that is the VM's up to what launching changes.\<close>

definition on_disk :: "vminfo \<Rightarrow> sockets \<Rightarrow> bool" where
  "on_disk vm dir \<longleftrightarrow> (\<exists>d. dir (vm_name vm) = Some (info_text d) \<and> wf_vminfo d \<and> disk_key d = disk_key vm)"

text \<open>A step of a launch: other records stay, and the VM's stays the VM's.\<close>

definition keeps_record :: "vminfo \<Rightarrow> sockets \<Rightarrow> vminfo \<Rightarrow> sockets \<Rightarrow> bool" where
  "keeps_record vm dir vm' dir' \<longleftrightarrow>
     disk_key vm' = disk_key vm \<and> on_disk vm' dir' \<and> (\<forall>n. n \<noteq> vm_name vm \<longrightarrow> dir' n = dir n)"

lemma keeps_refl: "on_disk vm dir \<Longrightarrow> keeps_record vm dir vm dir"
  by (simp add: keeps_record_def)

lemma keeps_trans: "keeps_record u d v e \<Longrightarrow> keeps_record v e w f \<Longrightarrow> keeps_record u d w f"
  by (auto simp: keeps_record_def dest: disk_key_name)

lemma keeps_on_disk: "keeps_record u d v e \<Longrightarrow> on_disk v e"
  by (simp add: keeps_record_def)

lemma op_keeps:
  assumes "op_run op vm dir = Inr (vm', dir')" "op_ok op" "on_disk vm dir"
  shows "keeps_record vm dir vm' dir'"
proof -
  from assms(3) obtain d where d: "dir (vm_name vm) = Some (info_text d)" "wf_vminfo d" "disk_key d = disk_key vm"
    by (auto simp: on_disk_def)
  have "vm' = op_record op vm" "dir' = dir(vm_name vm \<mapsto> info_text (op_record op d))"
    using op_run_disk [OF d(2) assms(2), of dir vm] d(1) assms(1) by auto
  then show ?thesis using op_wf [OF d(2) assms(2)] d(3) by (auto simp: keeps_record_def on_disk_def)
qed

lemma put_keeps: "wf_vminfo vm \<Longrightarrow> keeps_record vm dir vm (put_info vm dir)"
  by (auto simp: keeps_record_def on_disk_def put_info_def)

lemma is_running_keeps: "on_disk vm dir \<Longrightarrow> keeps_record vm dir (snd (is_running procs pf vm)) dir"
  by (auto simp: keeps_record_def on_disk_def is_running_def disk_key_def Let_def)

lemma backing_keeps:
  assumes "check_backing fs stat ov vm dir = (r, vm', dir')" "on_disk vm dir"
  shows "keeps_record vm dir vm' dir'"
proof -
  consider "dir' = dir" "vm' = vm"
    | n m where "adopt_image_id vm (str_int n @ '':'' @ str_int m) dir = Inr (vm', dir')"
    using assms(1) by (auto simp: check_backing_def Let_def split: option.split_asm stat_result.split_asm if_splits sum.split_asm prod.split_asm)
  then show ?thesis
    using op_keeps [of "SetImageId (str_int n @ '':'' @ str_int m)" vm dir vm' dir' for n m] image_id_unbroken assms(2) keeps_refl
    by cases simp_all
qed

lemma mark_keeps:
  assumes "mark_started env pid vm h = (r, vm', h')" "on_disk vm (h_infos h)"
  shows "keeps_record vm (h_infos h) vm' (h_infos h') \<and> h_files h' = h_files h"
proof (cases "update_pid vm pid (h_infos h)")
  case (Inl e)
  then show ?thesis using assms by (auto simp: mark_started_def keeps_refl)
next
  case (Inr x)
  obtain vm1 infos1 where x: "x = (vm1, infos1)" by fastforce
  have 1: "keeps_record vm (h_infos h) vm1 infos1" using op_keeps [of "SetPid pid"] Inr x assms(2) by simp
  have "keeps_record vm (h_infos h) vm2 infos2" if "update_last_boot vm1 (he_now env) infos1 = Inr (vm2, infos2)" for vm2 infos2
    using op_keeps [of "SetLastBoot (he_now env)" vm1 infos1] keeps_on_disk [OF 1] keeps_trans [OF 1] that by simp
  then show ?thesis using assms(1) 1 Inr x by (auto simp: mark_started_def split: sum.split_asm)
qed

lemma start_keeps:
  assumes "start_qemu env vm h = (r, vm', h')" "on_disk vm (h_infos h)"
  shows "keeps_record vm (h_infos h) vm' (h_infos h')"
proof -
  have "h_infos h' = h_infos h \<and> vm' = vm \<or> (\<exists>pid h1. h_infos h1 = h_infos h \<and> mark_started env pid vm h1 = (r, vm', h'))"
    using assms(1) unfolding start_qemu_def Let_def
    by (auto split: sum.split_asm if_splits prod.split_asm option.split_asm)
  then show ?thesis using assms(2) mark_keeps keeps_refl by metis
qed

lemma launch_qemu_keeps:
  assumes "launch_qemu env peers vm h = (r, vm', h')" "on_disk vm (h_infos h)"
  shows "keeps_record vm (h_infos h) vm' (h_infos h')"
proof -
  obtain p vm1 infos where chk: "check_backing (he_store env) (he_stat env) (he_overlays env) vm (h_infos h) = (p, vm1, infos)"
    by (metis prod_cases3)
  have 1: "keeps_record vm (h_infos h) vm1 infos" by (rule backing_keeps [OF chk assms(2)])
  have "keeps_record vm (h_infos h) vm' (h_infos h')" if "start_qemu env vm1 (h\<lparr>h_infos := infos\<rparr>) = (r, vm', h')"
    using start_keeps [OF that] keeps_on_disk [OF 1] keeps_trans [OF 1] by simp
  then show ?thesis
    using assms 1 chk keeps_refl [OF assms(2)] is_running_keeps [OF assms(2)]
    by (auto simp: launch_qemu_def Let_def split: if_splits option.split_asm)
qed

lemma bind_devices_fields:
  "bind_devices env bdfs vm = (r, vm') \<Longrightarrow> \<exists>d. vm' = vm\<lparr>vm_passthrough_drivers := d\<rparr>"
proof (induction bdfs arbitrary: vm)
  case (Cons b bdfs)
  then show ?case
  proof (cases "he_bind env b")
    case (Inl e)
    then show ?thesis using Cons.prems by (intro exI [of _ "vm_passthrough_drivers vm"]) simp
  next
    case (Inr drv)
    with Cons.prems have "bind_devices env bdfs
        (vm\<lparr>vm_passthrough_drivers := dict_set (vm_passthrough_drivers vm) b (get_or [] drv)\<rparr>) = (r, vm')" by simp
    from Cons.IH [OF this] show ?thesis by auto
  qed
next
  case Nil
  then show ?case by (intro exI [of _ "vm_passthrough_drivers vm"]) simp
qed

lemma launch_guest_keeps:
  assumes "launch_guest env before peers vm h = (r, vm', h')" "on_disk vm (h_infos h)"
  shows "keeps_record vm (h_infos h) vm' (h_infos h')"
proof -
  obtain r1 vm1 h1 where launch: "launch_qemu env peers vm h = (r1, vm1, h1)" by (metis prod_cases3)
  then have "vm' = vm1 \<and> h_infos h' = h_infos h1"
    using assms(1) by (auto simp: launch_guest_def Let_def split: sum.split_asm guest_outcome.split_asm if_splits)
  then show ?thesis using launch_qemu_keeps [OF launch assms(2)] by simp
qed

text \<open>What launching leaves on disk.\<close>

lemma launch_keeps:
  assumes "launch_and_wait env peers bdfs vm h = (r, vm', h')" "wf_vminfo vm" "on_disk vm (h_infos h)"
    "\<And>b drv. b \<in> set bdfs \<Longrightarrow> he_bind env b = Inr drv \<Longrightarrow> wf_driver (b, get_or [] drv)"
  shows "keeps_record vm (h_infos h) vm' (h_infos h')"
proof -
  obtain r1 vm1 where bind: "bind_devices env bdfs vm = (r1, vm1)" by fastforce
  note vm1 = bind_devices_vm [OF bind assms(4,2)]
  obtain drv where drv: "vm1 = vm\<lparr>vm_passthrough_drivers := drv\<rparr>" using bind_devices_fields [OF bind] by blast
  have mem: "keeps_record vm (h_infos h) vm1 (h_infos h)" using assms(3) by (auto simp: keeps_record_def on_disk_def drv)
  have put: "keeps_record vm (h_infos h) vm1 (put_info vm1 (h_infos h))" using mem put_keeps keeps_trans vm1 by blast
  have "h' = h \<and> vm' = vm1 \<or> (\<exists>infos. (infos = h_infos h \<or> infos = put_info vm1 (h_infos h)) \<and>
      launch_guest env False peers vm1 (h\<lparr>h_infos := infos\<rparr>) = (r, vm', h'))"
    using assms(1) bind
    by (auto simp: launch_and_wait_def split: sum.split_asm if_splits dest: vm_save_put)
  then consider "h' = h" "vm' = vm1" | infos where "keeps_record vm (h_infos h) vm1 infos"
      "launch_guest env False peers vm1 (h\<lparr>h_infos := infos\<rparr>) = (r, vm', h')"
    using mem put by blast
  then show ?thesis
  proof cases
    case (2 infos)
    from keeps_trans [OF 2(1)] launch_guest_keeps [OF 2(2)] keeps_on_disk [OF 2(1)] show ?thesis by simp
  qed (use mem in simp)
qed

lemma planned_images: "own_images env (planned_vm env p ips ip6s) = own_images env (planned_vm env p [] [])"
  by (rule own_images_record) (simp add: planned_vm_def disk_key_def Let_def)

lemma planned_image: "vm_image (planned_vm env p ips ip6s) = ar_image (pl_art p)"
  by (simp add: planned_vm_def Let_def)

lemma allocate_failed_files:
  assumes "allocate_and_persist_vm env peers p h = (Inl e, h')" "plan_wf env peers p h" "tool_local env (ar_image (pl_art p))"
  shows "h_files h' = h_files h \<or> set (own_images env (planned_vm env p [] [])) \<inter> h_files h' = {}"
proof (cases "create_addresses (he_md5 env) (he_nets env) (h_infos h) peers (ca_name (pl_args p)) (pl_nics p) (pl_ip p)")
  case (Inl e1)
  then show ?thesis using assms(1) by (simp add: allocate_and_persist_vm_def)
next
  case addr: (Inr a)
  obtain ips ip6s where a: "a = (ips, ip6s)" by fastforce
  obtain r fs where disks: "create_disks env (planned_vm env p ips ip6s) (h_files h) = (r, fs)" by fastforce
  have wf: "wf_vminfo (planned_vm env p ips ip6s)" using assms(2) addr by (simp add: plan_wf_def a)
  show ?thesis
  proof (cases r)
    case (Inl e1)
    then have "h_files h' = h_files h \<or> h_files h' = fs"
      using assms(1) addr disks by (simp add: allocate_and_persist_vm_def Let_def a split: if_splits) auto
    moreover have "fs = h_files h \<or> set (own_images env (planned_vm env p ips ip6s)) \<inter> fs = {}"
      using assms(3) by (intro create_disks_clean(2) [OF _ disks Inl]) (simp only: planned_image)
    ultimately show ?thesis unfolding planned_images [of env p ips ip6s] by blast
  next
    case (Inr vm)
    have "vm_save vm (h_infos h) = Inr (put_info vm (h_infos h))"
      using same_but_prealloc_facts(3) [OF create_disks_vm [OF disks [unfolded Inr]] wf] by (rule wf_saved)
    then show ?thesis
      using assms(1) addr disks Inr by (simp add: allocate_and_persist_vm_def Let_def a split: if_splits)
  qed
qed


subsection \<open>Destroy\<close>

text \<open>A name before \<^verbatim>\<open>-disk\<close> is found again from a disk file's name, up to names that go on with
  \<^verbatim>\<open>-disk\<close> themselves.\<close>

lemma disk_name_prefix:
  assumes eq: "m @ ''-disk'' @ ks @ ''.img'' = n @ ''-disk'' @ x" and digits: "\<And>c. c \<in> set ks \<Longrightarrow> isdecimal c"
  shows "m = n \<or> startswith m (n @ ''-disk'')"
proof -
  consider (longer) r where "m = n @ r" "r @ ''-disk'' @ ks @ ''.img'' = ''-disk'' @ x"
    | (shorter) r where "n = m @ r" "''-disk'' @ ks @ ''.img'' = r @ ''-disk'' @ x"
    using append_eq_append_conv2 [THEN iffD1, OF eq] by auto
  then show ?thesis
  proof cases
    case longer
    show ?thesis
    proof (cases "length r < 5")
      case True
      have "CHR ''-'' = (''-disk'' @ x) ! length r" using arg_cong [OF longer(2), of "\<lambda>l. l ! length r"] by (simp add: nth_append)
      moreover have "length r = 0 \<or> length r = 1 \<or> length r = 2 \<or> length r = 3 \<or> length r = 4" using True by arith
      ultimately have "length r = 0" by (elim disjE) simp_all
      then show ?thesis using longer(1) by simp
    next
      case False
      have "take 5 r = ''-disk''" using arg_cong [OF longer(2), of "take 5"] False by simp
      then have "r = ''-disk'' @ drop 5 r" by (metis append_take_drop_id)
      then show ?thesis using longer(1) by (metis append.assoc startswith_iff)
    qed
  next
    case shorter
    show ?thesis
    proof (cases r)
      case (Cons c q)
      then have "CHR ''-'' \<in> set (''disk'' @ ks @ ''.img'')" using shorter(2) by auto
      then show ?thesis using digits [of "CHR ''-''"] by (auto simp: isdecimal_def)
    qed (use shorter in simp)
  qed
qed

lemma disk_file_name:
  assumes "m @ ''-disk'' @ ks @ ''.img'' = n @ ''-disk'' @ ds @ ''.img''"
    "\<And>c. c \<in> set ks \<Longrightarrow> isdecimal c" "\<And>c. c \<in> set ds \<Longrightarrow> isdecimal c"
  shows "m = n"
proof -
  have no_dash: "CHR ''-'' \<notin> set (''disk'' @ l @ ''.img'')" if "\<And>c. c \<in> set l \<Longrightarrow> isdecimal c" for l
    using that [of "CHR ''-''"] by (auto simp: isdecimal_def)
  have "m @ CHR ''-'' # (''disk'' @ ks @ ''.img'') = n @ CHR ''-'' # (''disk'' @ ds @ ''.img'')" using assms(1) by simp
  then show ?thesis by (rule last_part_unique(1)) (use no_dash assms(2,3) in blast)+
qed

text \<open>The files a destroy removes are not those of a VM whose name does not start like one of
  its disks.\<close>

lemma targets_spare:
  assumes "CHR ''/'' \<notin> set (vm_name w)" "vm_name w \<noteq> n" "CHR ''/'' \<notin> set n" "\<not> startswith (vm_name w) (n @ ''-disk'')"
  shows "set (own_images env w) \<inter> vm_targets env h n = {}"
proof -
  have "f \<notin> vm_targets env h n" if f: "f \<in> set (own_images env w)" for f
  proof -
    consider (overlay) "f = overlay_path env (vm_name w)" | (disk) k where "f = disk_path (he_overlays env) w k"
      using f by (auto simp: own_images_def disk_paths_def)
    then show ?thesis
    proof cases
      case overlay
      then have "f \<noteq> overlay_path env n" using assms(2) by (simp add: overlay_path_def)
      moreover have "last f = CHR ''2''" by (simp add: overlay overlay_path_def)
      ultimately show ?thesis
        by (auto simp: vm_targets_def socket_path_def overlay_glob_iff disk_dir_file_iff split: sum.splits)
    next
      case (disk k)
      let ?file = "(vm_name w @ ''-disk'') @ str_nat k @ ''.img''"
      have f_eq: "f = disk_dir_path (he_overlays env) w @ CHR ''/'' # ?file" by (simp add: disk disk_path_shape)
      have ends: "last f = CHR ''g''" "last (butlast f) = CHR ''m''" by (simp_all add: f_eq butlast_append)
      have "\<not> overlay_glob env n f"
      proof
        assume "overlay_glob env n f"
        then obtain x where x: "f = he_overlays env @ CHR ''/'' # ((n @ ''-disk'') @ x @ ''.img'')" "CHR ''/'' \<notin> set ((n @ ''-disk'') @ x @ ''.img'')"
          unfolding overlay_glob_iff by auto
        have "?file = (n @ ''-disk'') @ x @ ''.img''"
          by (rule last_part_unique(2) [OF x(1) [unfolded f_eq] no_slash_disk [OF assms(1)] x(2)])
        then show False using disk_name_prefix [of "vm_name w" "str_nat k" n "x @ ''.img''"] str_nat_decimal assms(2,4) by auto
      qed
      moreover have "\<not> disk_dir_file d n f" for d
      proof
        assume "disk_dir_file d n f"
        then obtain ds where ds: "f = d @ CHR ''/'' # ((n @ ''-disk'') @ ds @ ''.img'')" "list_all isdecimal ds"
          unfolding disk_dir_file_iff by auto
        have "CHR ''/'' \<notin> set ((n @ ''-disk'') @ ds @ ''.img'')" using assms(3) ds(2) by (auto simp: list_all_iff isdecimal_def)
        then have "?file = (n @ ''-disk'') @ ds @ ''.img''"
          by (rule last_part_unique(2) [OF ds(1) [unfolded f_eq] no_slash_disk [OF assms(1)]])
        then show False using disk_file_name [of "vm_name w" "str_nat k" n ds] str_nat_decimal ds(2) assms(2) by (auto simp: list_all_iff)
      qed
      moreover have "f \<notin> {overlay_path env n, socket_path env n ''qmp'', socket_path env n ''log'',
          he_sockets env @ ''/.'' @ n @ ''.info.lock''}"
        using ends by (auto simp: overlay_path_def socket_path_def butlast_append)
      ultimately show ?thesis by (auto simp: vm_targets_def split: sum.splits)
    qed
  qed
  then show ?thesis by blast
qed


subsection \<open>Concrete hosts\<close>

definition env_dead :: host_env where
  "env_dead = env_example\<lparr>he_qemu := (\<lambda>_. None)\<rparr>"

lemma dead_planned: "planned_vm env_dead = planned_vm env_example"
  by (simp add: planned_vm_def env_dead_def fun_eq_iff)

lemma dead_images: "make_image env_dead = make_image env_example" "overlay_path env_dead = overlay_path env_example"
  "own_images env_dead = own_images env_example" "he_overlays env_dead = he_overlays env_example"
  "he_overlays_writable env_dead = he_overlays_writable env_example" "he_dir_writable env_dead = he_dir_writable env_example"
  "he_md5 env_dead = he_md5 env_example" "he_nets env_dead = he_nets env_example"
  "he_image_readable env_dead = he_image_readable env_example"
  by (simp_all add: make_image_def overlay_path_def own_images_def env_dead_def fun_eq_iff)

lemma dead_launch:
  assumes "''/vm/o/a.qcow2'' \<in> h_files h" "set (disk_paths ''/vm/o'' vm_a) \<subseteq> h_files h" "h_pidfiles h ''a'' = None"
  shows "fst (launch_and_wait env_dead [] [] vm_a h) = Inl (LQemu ''a'')"
proof -
  obtain boot where boot: "boot_args host_example vm_a = Inr boot" "utf8_length boot < 2048" using example_boot(1) by blast
  obtain disks where disks: "data_disk_args ''/vm/o'' (h_files h) (\<lambda>_. True) (h_infos h) vm_a ''virtio-blk-pci'' = Inr disks"
    using data_disk_args_ok [of vm_a vm_a "h_infos h" "''/vm/o''" "h_files h"] assms(2) by auto
  have idle: "\<not> running h vm_a" using assms(3) by (simp add: running_def is_running_def pidfile_pid_def)
  have chk: "check_backing (he_store env_dead) (he_stat env_dead) (he_overlays env_dead) vm_a (h_infos h) = (None, vm_a, h_infos h)"
    by (simp add: check_backing_def overlay_backing_file_def env_dead_def env_example_def)
  have mode: "pick_net_mode env_dead vm_a = NetHelper ''/helper''" by (simp add: pick_net_mode_def env_dead_def env_example_def)
  have taps: "setup_taps env_dead (NetHelper ''/helper'') vm_a (h_taps h) = (Inr (), h_taps h)" by (simp add: setup_taps_def extra_nics_def)
  have env: "he_budget env_dead vm_a = None" "he_nets env_dead = host_example" "he_overlays env_dead = ''/vm/o''"
    "fs_isdir (he_fs env_dead) = (\<lambda>_. True)" "he_qemu env_dead = (\<lambda>_. None)"
    by (simp_all add: env_dead_def env_example_def)
  have "fst (launch_qemu env_dead [] vm_a h) = Inl (LQemu ''a'')"
    using launch_to_qemu [OF idle _ chk, of boot "h_taps h" disks _ "[]"] assms(1) boot disks mode taps env
    by (simp add: overlay_path_def)
  then show ?thesis by (cases "launch_qemu env_dead [] vm_a h") (auto simp: launch_and_wait_def launch_guest_def)
qed

lemma dead_data_disks: "create_data_disks env_dead s ds vm fs = create_data_disks env_example s ds vm fs"
  by (induction ds arbitrary: vm fs)
    (auto simp: create_preallocated_disk_def dead_images split: prod.splits sum.splits)

lemma dead_allocate: "allocate_and_persist_vm env_dead = allocate_and_persist_vm env_example"
proof -
  have "create_disks env_dead = create_disks env_example"
    by (intro ext) (unfold create_disks_def dead_images dead_data_disks, rule refl)
  then show ?thesis by (intro ext) (simp only: allocate_and_persist_vm_def dead_planned dead_images)
qed

lemma plan_dead_wf: "plan_wf env_dead [] (plan_for ''a'' []) host_empty"
  using example_plan_wf [OF addr_a vm_ab_wf(1)] by (simp add: plan_wf_def dead_planned) (simp add: env_dead_def)

lemma tool_local_dead: "tool_local env_dead ''/img''"
proof -
  have "startswith f ''/'' \<and> f \<noteq> ''/img''" if "startswith f ''/vm/''" for f
    using that by (auto simp: startswith_iff)
  then show ?thesis unfolding tool_local_def by (auto simp: env_dead_def env_example_def tool_example_def)
qed


definition host_two :: host where
  "host_two = host_empty\<lparr>
     h_infos := [''a'' \<mapsto> info_text (vm_for ''a'' [] ''192.168.100.10''), ''b'' \<mapsto> info_text (vm_for ''b'' [] ''192.168.100.11'')],
     h_files := {''/vm/o/a.qcow2'', ''/vm/o/a-disk1.img'', ''/vm/o/b.qcow2'', ''/vm/o/b-disk1.img''}\<rparr>"

lemma vm_for_images: "own_images env_example (vm_for n [] ip) = [''/vm/o/'' @ n @ ''.qcow2'', ''/vm/o/'' @ n @ ''-disk1.img'']"
proof -
  have "[Suc 0..<2] = [1]" "str_nat 1 = ''1''" by code_simp+
  moreover have "he_overlays env_example = ''/vm/o''" by (simp add: env_example_def)
  ultimately show ?thesis by (simp add: own_images_def overlay_path_def disk_paths_def disk_path_def disk_dir_path_def)
qed

lemma vm_a_wf: "wf_vminfo vm_a"
  by (rule vm_for_wf [OF vm_ab_wf(1)])

lemma destroy_a: "fst (destroy_one env_example ''a'' host_two) = Inr ()"
proof -
  have "vm_load (h_infos host_two) ''a'' = Inr (vm_for ''a'' [] ''192.168.100.10'')"
    using vm_a_wf by (simp add: host_two_def vm_load_read info_read_text)
  moreover have "check (he_claim env_example) (h_claims host_two) ''a'' = Inr ()"
    unfolding host_two_def host_empty_def by code_simp
  moreover have "validate_vm_name_for_lookup ''a'' = Inr ()" by code_simp
  moreover have "he_manageable env_example = (\<lambda>_ _. True)" "he_signalable env_example = (\<lambda>_. True)" "he_kill env_example = (\<lambda>_. True)"
    by (simp_all add: env_example_def)
  ultimately show ?thesis
    by (simp add: destroy_one_def destroy_kill_def require_manageable_def require_signalable_def kill_qemu_def Let_def split: prod.split)
qed


text \<open>
  The overlay glob takes the disks of a VM whose name goes on with \<^verbatim>\<open>-disk\<close>: destroying
  \<^verbatim>\<open>a\<close> deletes the data disk of \<^verbatim>\<open>a-disk2\<close>, a valid name of another, untouched VM.
\<close>

theorem destroy_takes_other_disk:
  "validate_vm_name ''a-disk2'' = Inr () \<and>
   disk_paths ''/vm/o'' (vm_for ''a-disk2'' [] ''192.168.100.11'') = [''/vm/o/a-disk2-disk1.img''] \<and>
   (let h = host_empty\<lparr>h_infos := [''a'' \<mapsto> ''IP=192.168.100.10'', ''a-disk2'' \<mapsto> ''IP=192.168.100.11''],
          h_files := {''/vm/o/a-disk1.img'', ''/vm/o/a-disk2-disk1.img''}\<rparr>;
        run = destroy_one env_example ''a'' h
    in fst run = Inr () \<and> h_infos (snd run) ''a-disk2'' = h_infos h ''a-disk2'' \<and> h_files (snd run) = {})"
  by code_simp

text \<open>
  Naming an owner and its failover partner together passes the check that protects the
  partner, but the VMs are then destroyed one by one: when the partner is held by another
  session the command stops after the owner's disks are gone, and the partner stays with a
  record that attaches them.
\<close>

theorem destroy_leaves_orphan:
  "let h = host_empty\<lparr>h_infos := [''a'' \<mapsto> ''SHARE_DISKS=1'', ''v'' \<mapsto> ''DISKS_FROM=a''],
         h_files := {''/vm/o/a-disk1.img''}, h_claims := claim_store_held\<rparr>;
       run = cmd_destroy env_example [''a'', ''v''] [] [''a'', ''v''] h
   in fst run = Inl (LClaim (ClaimHeld claim_example)) \<and>
      h_infos (snd run) ''a'' = None \<and> h_files (snd run) = {} \<and>
      res_map vm_disks_from (vm_load (h_infos (snd run)) ''v'') = Inr ''a''"
  by code_simp

end
