(* ===== verification/Snapshots.thy ===== *)
theory Snapshots
  imports HostCleanup
begin

text \<open>
  Snapshots of a VM's disk (\<^verbatim>\<open>vm_commands.py\<close>): taking, deleting and restoring one stops the VM for the
  time of the change and starts it again.  \<^verbatim>\<open>qemu-img\<close> is the parameter \<open>sv_img\<close>, over the contents of
  the images and with the processes that may hold one open; \<open>sv_sync\<close> is what flushing a guest
  writes, \<open>sv_boot\<close> what a guest writes when it is started.
\<close>

subsection \<open>State and parameters\<close>

datatype img_cmd = SnapCreate string | SnapApply string | SnapDelete string | SnapList

record img_result =
  ir_rc :: int
  ir_out :: string
  ir_err :: string

record 'd snap_env =
  sv_host :: host_env
  sv_peers :: "string list"
  sv_img :: "procs \<Rightarrow> img_cmd \<Rightarrow> string \<Rightarrow> 'd \<Rightarrow> img_result \<times> 'd"
  sv_sync :: "vminfo \<Rightarrow> 'd \<Rightarrow> 'd"
  sv_boot :: "vminfo \<Rightarrow> 'd \<Rightarrow> 'd"
  sv_stamp :: string

record 'd snap_state =
  sn_host :: host
  sn_disk :: 'd

datatype snap_error =
    NClaim claim_error
  | NLoad load_error
  | NLife life_error
  | NDelete string
  | NSnapshot string
  | NRestore string
  | NNoTag string

subsection \<open>Stopping a VM for a change\<close>

definition restart_vm :: "'d snap_env \<Rightarrow> bool \<Rightarrow> vminfo \<Rightarrow> 'd snap_state \<Rightarrow> (snap_error, unit) result \<times> 'd snap_state" where
  "restart_vm env before vm st =
     (case launch_guest (sv_host env) before (sv_peers env) vm (sn_host st) of (r, vm', h) \<Rightarrow>
        (map_err NLife r, \<lparr>sn_host = h, sn_disk = (if running h vm' then sv_boot env vm' (sn_disk st) else sn_disk st)\<rparr>))"

text \<open>\<^verbatim>\<open>_with_vm_stopped\<close>: the body returns a value; one that dies ends after the restart, which runs
  in a \<^verbatim>\<open>finally\<close>, so its caller decides what the value means.  A stopped VM has its pid cleared.\<close>

definition with_vm_stopped :: "'d snap_env \<Rightarrow> bool \<Rightarrow> vminfo \<Rightarrow> ('d snap_state \<Rightarrow> 'a \<times> 'd snap_state) \<Rightarrow> 'd snap_state
    \<Rightarrow> (snap_error, 'a) result \<times> 'd snap_state" where
  "with_vm_stopped env before vm body st =
     (case is_running (h_procs (sn_host st)) (h_pidfiles (sn_host st)) vm of (run, vm1) \<Rightarrow>
        if \<not> run then (case body st of (a, st') \<Rightarrow> (Inr a, st'))
        else
          (case kill_qemu (sv_host env) vm (sn_host st) of
             (Inl e, h1) \<Rightarrow> (Inl (NLife e), \<lparr>sn_host = h1, sn_disk = sv_sync env vm1 (sn_disk st)\<rparr>)
           | (Inr _, h1) \<Rightarrow>
               (case body \<lparr>sn_host = h1, sn_disk = sv_sync env vm1 (sn_disk st)\<rparr> of (a, st2) \<Rightarrow>
                  case restart_vm env before (vm1\<lparr>vm_pid := 0\<rparr>) st2 of (r, st3) \<Rightarrow> (res_map (\<lambda>_. a) r, st3))))"

definition run_img :: "'d snap_env \<Rightarrow> vminfo \<Rightarrow> img_cmd \<Rightarrow> 'd snap_state \<Rightarrow> img_result \<times> 'd snap_state" where
  "run_img env vm cmd st =
     (case sv_img env (h_procs (sn_host st)) cmd (overlay_path (sv_host env) (vm_name vm)) (sn_disk st) of (r, d) \<Rightarrow> (r, st\<lparr>sn_disk := d\<rparr>))"

definition snap_vm :: "'d snap_env \<Rightarrow> string \<Rightarrow> 'd snap_state \<Rightarrow> (snap_error, vminfo) result" where
  "snap_vm env name st =
     res_bind (map_err NClaim (check (he_claim (sv_host env)) (h_claims (sn_host st)) name)) (\<lambda>_.
       map_err NLoad (vm_load (h_infos (sn_host st)) name))"

definition img_failed :: "(string \<Rightarrow> snap_error) \<Rightarrow> img_result \<Rightarrow> (snap_error, unit) result" where
  "img_failed err r = (if ir_rc r \<noteq> 0 then Inl (err (ir_err r)) else Inr ())"

text \<open>A failed delete whose message is blank counts as done.\<close>

definition delete_failed :: "img_result \<Rightarrow> (snap_error, unit) result" where
  "delete_failed r =
     (let e = strip (if ir_err r = [] then ''qemu-img failed'' else ir_err r)
      in if ir_rc r \<noteq> 0 \<and> e \<noteq> [] then Inl (NDelete e) else Inr ())"

subsection \<open>The commands\<close>

definition cmd_snapshot :: "'d snap_env \<Rightarrow> string \<Rightarrow> string option \<Rightarrow> string option \<Rightarrow> 'd snap_state
    \<Rightarrow> (snap_error, unit) result \<times> 'd snap_state" where
  "cmd_snapshot env name delete tag st =
     (case snap_vm env name st of
        Inl e \<Rightarrow> (Inl e, st)
      | Inr vm \<Rightarrow>
          let dtag = get_or [] delete
          in if dtag \<noteq> [] then
               (case with_vm_stopped env True vm (run_img env vm (SnapDelete dtag)) st of (r, st') \<Rightarrow>
                  (res_bind r delete_failed, st'))
             else
               let t = (if get_or [] tag = [] then ''snap-'' @ sv_stamp env else get_or [] tag)
               in (case with_vm_stopped env False vm (run_img env vm (SnapCreate t)) st of (r, st') \<Rightarrow>
                     (res_bind r (img_failed (\<lambda>e. NSnapshot (if e = [] then ''snapshot failed'' else e))), st')))"

definition tag_rows :: "string list \<Rightarrow> string list" where
  "tag_rows lines = drop 1 (dropWhile (\<lambda>l. \<not> (contains ''TAG'' l \<and> contains ''ID'' l)) lines)"

definition parse_snapshot_tags :: "string \<Rightarrow> string list" where
  "parse_snapshot_tags out =
     List.map_filter (\<lambda>l. let parts = split_ws l in if length parts \<ge> 2 then Some (parts ! 1) else None) (tag_rows (splitlines out))"

definition cmd_restore :: "'d snap_env \<Rightarrow> string \<Rightarrow> string option \<Rightarrow> 'd snap_state \<Rightarrow> (snap_error, unit) result \<times> 'd snap_state" where
  "cmd_restore env name tag st =
     (case snap_vm env name st of
        Inl e \<Rightarrow> (Inl e, st)
      | Inr vm \<Rightarrow>
          (case run_img env vm SnapList st of (found, st1) \<Rightarrow>
             let t = get_or [] tag
             in if t = [] then (Inr (), st1)
                else if t \<notin> set (parse_snapshot_tags (ir_out found)) then (Inl (NNoTag t), st1)
                else
                  (case with_vm_stopped env False vm (run_img env vm (SnapApply t)) st1 of (r, st') \<Rightarrow>
                     (res_bind r (img_failed NRestore), st'))))"

subsection \<open>Lemmas: no process holds the image\<close>

text \<open>
  The processes of a VM are the one its record, or without a pid there its pid file, names.
\<close>

definition recorded_pid :: "host \<Rightarrow> vminfo \<Rightarrow> int" where
  "recorded_pid h vm = (if vm_pid vm > 0 then vm_pid vm else pidfile_pid (h_pidfiles h) (vm_name vm))"

definition tracked :: "host \<Rightarrow> vminfo \<Rightarrow> bool" where
  "tracked h vm \<longleftrightarrow> (\<forall>p. qemu_pid_is (h_procs h) p (vm_name vm) \<longrightarrow> p = recorded_pid h vm \<and> p > 0)"

definition image_free :: "procs \<Rightarrow> string \<Rightarrow> bool" where
  "image_free procs name \<longleftrightarrow> \<not> (\<exists>p. qemu_pid_is procs p name)"

lemma is_running_recorded: "is_running (h_procs h) (h_pidfiles h) vm = (True, vm1) \<Longrightarrow> vm_pid vm1 = recorded_pid h vm"
  by (auto simp: is_running_def recorded_pid_def Let_def split: if_split_asm)

lemma running_recorded:
  "fst (is_running (h_procs h) (h_pidfiles h) vm) \<longleftrightarrow> recorded_pid h vm > 0 \<and> qemu_pid_is (h_procs h) (recorded_pid h vm) (vm_name vm)"
  by (simp add: is_running_def recorded_pid_def Let_def)

lemma not_running_free:
  assumes "tracked h vm" "\<not> fst (is_running (h_procs h) (h_pidfiles h) vm)"
  shows "image_free (h_procs h) (vm_name vm)"
proof -
  have "\<not> qemu_pid_is (h_procs h) p (vm_name vm)" for p
    using assms(1) [unfolded tracked_def, rule_format, of p] assms(2) [unfolded running_recorded] by blast
  then show ?thesis by (simp add: image_free_def)
qed

lemma drop_taps_procs [simp]: "h_procs (drop_taps env vm h) = h_procs h"
  by (simp add: drop_taps_def Let_def)

lemma killed_procs:
  assumes "kill_qemu env vm h = (Inr u, h1)" "is_running (h_procs h) (h_pidfiles h) vm = (run, vm1)"
  shows "h_procs h1 = (if run then (h_procs h)(vm_pid vm1 := None) else h_procs h)"
  using assms by (cases run; cases "update_pid vm1 0 (h_infos h)") (auto simp: kill_qemu_def Let_def split: if_split_asm)

lemma killed_free:
  assumes "tracked h vm" "kill_qemu env vm h = (Inr u, h1)"
  shows "image_free (h_procs h1) (vm_name vm)"
proof -
  obtain run vm1 where run: "is_running (h_procs h) (h_pidfiles h) vm = (run, vm1)" by fastforce
  have procs: "h_procs h1 = (if run then (h_procs h)(vm_pid vm1 := None) else h_procs h)"
    by (rule killed_procs [OF assms(2) run])
  show ?thesis
  proof (cases run)
    case True
    then have pid: "vm_pid vm1 = recorded_pid h vm" using run is_running_recorded by simp
    have "qemu_pid_is (h_procs h1) p (vm_name vm) \<Longrightarrow> p \<noteq> vm_pid vm1 \<and> qemu_pid_is (h_procs h) p (vm_name vm)" for p
      using True by (auto simp: procs qemu_pid_is_def split: if_split_asm)
    then show ?thesis using assms(1) pid by (auto simp: image_free_def tracked_def)
  next
    case False
    then show ?thesis using not_running_free [OF assms(1)] run procs by simp
  qed
qed

text \<open>What a body did, and on which state: with the image free, on the disk as the guest left it.\<close>

definition disk_before :: "'d snap_env \<Rightarrow> vminfo \<Rightarrow> 'd snap_state \<Rightarrow> 'd" where
  "disk_before env vm st =
     (case is_running (h_procs (sn_host st)) (h_pidfiles (sn_host st)) vm of (run, vm1) \<Rightarrow> if run then sv_sync env vm1 (sn_disk st) else sn_disk st)"

lemma stopped_img:
  assumes "tracked (sn_host st) vm" "with_vm_stopped env before vm (run_img env vm cmd) st = (Inr r, st')"
  shows "\<exists>procs d vm'. image_free procs (vm_name vm) \<and>
    sv_img env procs cmd (overlay_path (sv_host env) (vm_name vm)) (disk_before env vm st) = (r, d) \<and>
    (sn_disk st' = d \<or> sn_disk st' = sv_boot env vm' d)"
proof -
  obtain run vm1 where run: "is_running (h_procs (sn_host st)) (h_pidfiles (sn_host st)) vm = (run, vm1)" by fastforce
  show ?thesis
  proof (cases run)
    case False
    with run assms not_running_free [OF assms(1)] show ?thesis
      by (auto simp: with_vm_stopped_def run_img_def disk_before_def split: prod.split_asm)
  next
    case True
    with run assms(2) obtain u h1 where kill: "kill_qemu (sv_host env) vm (sn_host st) = (Inr u, h1)"
      by (auto simp: with_vm_stopped_def split: prod.split_asm sum.split_asm)
    with True run assms(2) killed_free [OF assms(1) kill] show ?thesis
      by (fastforce simp: with_vm_stopped_def run_img_def disk_before_def restart_vm_def res_map_eq_Inr split: prod.split_asm sum.split_asm if_split_asm)
  qed
qed

subsection \<open>Lemmas: a restore undoes what came after the snapshot\<close>

text \<open>
  What \<^verbatim>\<open>qemu-img\<close> promises of an image that no process holds open: a new snapshot has the contents of
  the image, applying one puts them back, listing changes nothing.  \<open>current\<close> is what a guest reads
  from the image and \<open>saved\<close> its snapshots.  A guest does not change the snapshots.
\<close>

definition img_laws :: "'d snap_env \<Rightarrow> string \<Rightarrow> ('d \<Rightarrow> 'c) \<Rightarrow> ('d \<Rightarrow> string \<Rightarrow> 'c option) \<Rightarrow> bool" where
  "img_laws env name current saved \<longleftrightarrow>
     (let img = (\<lambda>procs cmd. sv_img env procs cmd (overlay_path (sv_host env) name))
      in (\<forall>procs tag d r d'. image_free procs name \<longrightarrow> img procs (SnapCreate tag) d = (r, d') \<longrightarrow> ir_rc r = 0 \<longrightarrow> saved d tag = None
            \<longrightarrow> saved d' tag = Some (current d)) \<and>
         (\<forall>procs tag d r d' c. image_free procs name \<longrightarrow> img procs (SnapApply tag) d = (r, d') \<longrightarrow> ir_rc r = 0 \<longrightarrow> saved d tag = Some c
            \<longrightarrow> current d' = c) \<and>
         (\<forall>procs d r d'. img procs SnapList d = (r, d') \<longrightarrow> d' = d) \<and>
         (\<forall>vm d. saved (sv_sync env vm d) = saved d \<and> saved (sv_boot env vm d) = saved d))"

lemma img_failed_Inr: "res_bind r (img_failed err) = Inr u \<longleftrightarrow> (\<exists>i. r = Inr i \<and> ir_rc i = 0)"
  by (cases r) (auto simp: img_failed_def)

lemma snap_vm_load: "snap_vm env name st = Inr vm \<Longrightarrow> vm_load (h_infos (sn_host st)) name = Inr vm"
  by (auto simp: snap_vm_def res_bind_eq_Inr map_err_eq_Inr)

lemma disk_before_saved: "img_laws env name current saved \<Longrightarrow> saved (disk_before env vm st) = saved (sn_disk st)"
  by (simp add: disk_before_def img_laws_def Let_def split: prod.split)

lemma snapshot_saves:
  assumes "img_laws env name current saved" "vm_load (h_infos (sn_host st)) name = Inr vm" "vm_name vm = name" "tracked (sn_host st) vm"
    "tag \<noteq> []" "saved (sn_disk st) tag = None" "cmd_snapshot env name None (Some tag) st = (Inr (), st')"
  shows "saved (sn_disk st') tag = Some (current (disk_before env vm st))"
proof -
  have vm: "snap_vm env name st = Inr vm"
    using assms(2,7) snap_vm_load [of env name st] by (cases "snap_vm env name st") (auto simp: cmd_snapshot_def)
  obtain i where with_img: "with_vm_stopped env False vm (run_img env vm (SnapCreate tag)) st = (Inr i, st')" "ir_rc i = 0"
    using assms(5,7) vm by (auto simp: cmd_snapshot_def Let_def img_failed_Inr split: prod.split_asm)
  obtain procs d vm' where img: "image_free procs name" "sv_img env procs (SnapCreate tag) (overlay_path (sv_host env) name) (disk_before env vm st) = (i, d)"
    "sn_disk st' = d \<or> sn_disk st' = sv_boot env vm' d"
    using stopped_img [OF assms(4) with_img(1)] assms(3) by auto
  have "saved (disk_before env vm st) tag = None" using disk_before_saved [OF assms(1), of vm st] assms(6) by simp
  with assms(1) img(1,2) with_img(2) have "saved d tag = Some (current (disk_before env vm st))" by (auto simp: img_laws_def Let_def)
  with img(3) assms(1) show ?thesis by (auto simp: img_laws_def Let_def)
qed

lemma restore_puts_back:
  assumes "img_laws env name current saved" "vm_load (h_infos (sn_host st)) name = Inr vm" "vm_name vm = name" "tracked (sn_host st) vm"
    "tag \<noteq> []" "saved (sn_disk st) tag = Some c" "cmd_restore env name (Some tag) st = (Inr (), st')"
  shows "\<exists>d vm'. current d = c \<and> (sn_disk st' = d \<or> sn_disk st' = sv_boot env vm' d)"
proof -
  have vm: "snap_vm env name st = Inr vm"
    using assms(2,7) snap_vm_load [of env name st] by (cases "snap_vm env name st") (auto simp: cmd_restore_def)
  obtain found where list: "run_img env vm SnapList st = (found, st)"
    using assms(1,3) by (cases "sv_img env (h_procs (sn_host st)) SnapList (overlay_path (sv_host env) name) (sn_disk st)") (auto simp: run_img_def img_laws_def Let_def)
  obtain i where with_img: "with_vm_stopped env False vm (run_img env vm (SnapApply tag)) st = (Inr i, st')" "ir_rc i = 0"
    using assms(5,7) vm list by (auto simp: cmd_restore_def Let_def img_failed_Inr split: prod.split_asm if_split_asm)
  obtain procs d vm' where img: "image_free procs name" "sv_img env procs (SnapApply tag) (overlay_path (sv_host env) name) (disk_before env vm st) = (i, d)"
    "sn_disk st' = d \<or> sn_disk st' = sv_boot env vm' d"
    using stopped_img [OF assms(4) with_img(1)] assms(3) by auto
  have "saved (disk_before env vm st) tag = Some c" using disk_before_saved [OF assms(1), of vm st] assms(6) by simp
  with assms(1) img(1,2) with_img(2) have "current d = c" by (auto simp: img_laws_def Let_def)
  with img(3) show ?thesis by blast
qed

text \<open>
  C27.  A restore brings back the disk the snapshot was taken of: after a snapshot that succeeded, anything
  that happened on the host and in the guest as long as the snapshot was kept, and a restore that
  succeeded, the image has the contents it had when the guest was flushed for the snapshot, or a
  guest was started on them.  \<^verbatim>\<open>qemu-img\<close> need keep its promises only for images no process holds
  open: the commands never use it on others.
\<close>

theorem snapshot_roundtrip:
  assumes "img_laws env name current saved" "tag \<noteq> []"
    "vm_load (h_infos (sn_host st)) name = Inr vm" "vm_name vm = name" "tracked (sn_host st) vm" "saved (sn_disk st) tag = None"
    "cmd_snapshot env name None (Some tag) st = (Inr (), st1)"
    "saved (sn_disk st2) tag = saved (sn_disk st1) tag"
    "vm_load (h_infos (sn_host st2)) name = Inr vm2" "vm_name vm2 = name" "tracked (sn_host st2) vm2"
    "cmd_restore env name (Some tag) st2 = (Inr (), st3)"
  shows "\<exists>d vm'. current d = current (disk_before env vm st) \<and> (sn_disk st3 = d \<or> sn_disk st3 = sv_boot env vm' d)"
  using restore_puts_back [OF assms(1,9-11,2) _ assms(12)] snapshot_saves [OF assms(1,3-5,2,6,7)] assms(8) by simp

text \<open>A model of \<^verbatim>\<open>qemu-img\<close> for the examples: the contents and the snapshots, in the table it prints.\<close>

definition snapshot_row :: "string \<Rightarrow> string" where
  "snapshot_row tag = ''1         '' @ tag @ ''      0 B 2026-01-01 00:00:00  00:00:00.000          0''"

definition snapshot_header :: "string list" where
  "snapshot_header = [''Snapshot list:'', ''ID        TAG               VM SIZE                DATE        VM CLOCK     ICOUNT'']"

definition img_example :: "procs \<Rightarrow> img_cmd \<Rightarrow> string \<Rightarrow> string \<times> (string \<times> string) list \<Rightarrow> img_result \<times> string \<times> (string \<times> string) list" where
  "img_example procs cmd path d =
     (case cmd of
        SnapCreate t \<Rightarrow> (\<lparr>ir_rc = 0, ir_out = [], ir_err = []\<rparr>, fst d, snd d @ [(t, fst d)])
      | SnapApply t \<Rightarrow>
          (case map_of (snd d) t of
             None \<Rightarrow> (\<lparr>ir_rc = 1, ir_out = [], ir_err = ''no such snapshot''\<rparr>, d)
           | Some c \<Rightarrow> (\<lparr>ir_rc = 0, ir_out = [], ir_err = []\<rparr>, c, snd d))
      | SnapDelete t \<Rightarrow> (\<lparr>ir_rc = 0, ir_out = [], ir_err = []\<rparr>, fst d, filter (\<lambda>s. fst s \<noteq> t) (snd d))
      | SnapList \<Rightarrow> (\<lparr>ir_rc = 0, ir_out = unlines (snapshot_header @ map (snapshot_row \<circ> fst) (snd d)), ir_err = []\<rparr>, d))"

definition snap_env_example :: "(string \<times> (string \<times> string) list) snap_env" where
  "snap_env_example =
     \<lparr>sv_host = env_example\<lparr>he_qemu := (\<lambda>_. Some 97)\<rparr>, sv_peers = [], sv_img = img_example, sv_sync = (\<lambda>_ d. d), sv_boot = (\<lambda>_ d. (''booted'', snd d)), sv_stamp = ''1''\<rparr>"

definition snap_state_example :: "string \<Rightarrow> (string \<times> string) list \<Rightarrow> (string \<times> (string \<times> string) list) snap_state" where
  "snap_state_example c saved = \<lparr>sn_host = host_empty\<lparr>h_infos := [''a'' \<mapsto> ''PID=0'']\<rparr>, sn_disk = (c, saved)\<rparr>"

lemma snap_example_laws: "img_laws snap_env_example ''a'' fst (\<lambda>d. map_of (snd d))"
  by (auto simp: img_laws_def snap_env_example_def img_example_def map_add_def split: option.split_asm)

theorem snapshot_roundtrip_witness:
  "\<exists>d. fst d = ''before'' \<and> sn_disk (snd (cmd_restore snap_env_example ''a'' (Some ''t'') (snap_state_example ''after'' [(''t'', ''before'')]))) \<in> {d, (''booted'', snd d)}"
proof -
  let ?st = "snap_state_example ''before'' []" and ?st2 = "snap_state_example ''after'' [(''t'', ''before'')]"
  have "case vm_load (h_infos (sn_host ?st)) ''a'' of Inr vm \<Rightarrow> vm_name vm = ''a'' \<and> \<not> running (sn_host ?st) vm | _ \<Rightarrow> False" by code_simp
  then obtain vm where vm: "vm_load (h_infos (sn_host ?st)) ''a'' = Inr vm" "vm_name vm = ''a''" "\<not> running (sn_host ?st) vm" by (auto split: sum.split_asm)
  have same: "sn_host ?st2 = sn_host ?st" by (simp add: snap_state_example_def)
  have tracked: "tracked (sn_host ?st) vm" by (simp add: tracked_def snap_state_example_def host_empty_def qemu_pid_is_def)
  have "fst (cmd_snapshot snap_env_example ''a'' None (Some ''t'') ?st) = Inr ()" "fst (cmd_restore snap_env_example ''a'' (Some ''t'') ?st2) = Inr ()"
    "sn_disk (snd (cmd_snapshot snap_env_example ''a'' None (Some ''t'') ?st)) = (''before'', [(''t'', ''before'')])" by code_simp+
  then obtain st1 st3 where run: "cmd_snapshot snap_env_example ''a'' None (Some ''t'') ?st = (Inr (), st1)" "sn_disk st1 = (''before'', [(''t'', ''before'')])"
    "cmd_restore snap_env_example ''a'' (Some ''t'') ?st2 = (Inr (), st3)" by (metis prod.collapse)
  have "disk_before snap_env_example vm ?st = (''before'', [])"
    using vm(3) by (auto simp: disk_before_def running_def snap_state_example_def split: prod.split)
  then show ?thesis
    using snapshot_roundtrip [OF snap_example_laws _ vm(1,2) tracked _ run(1) _ _ vm(2) _ run(3)] run vm(1) tracked same
    by (fastforce simp: snap_state_example_def snap_env_example_def)
qed

subsection \<open>Lemmas: the list of snapshots\<close>

text \<open>A row of the table: the id, blanks, the tag, a blank and the rest.\<close>

definition table_row :: "string \<times> nat \<times> string \<times> string \<Rightarrow> string" where
  "table_row r = (case r of (i, n, tag, rest) \<Rightarrow> i @ replicate (Suc n) CHR 0x20 @ tag @ CHR 0x20 # rest)"

definition row_ok :: "string \<times> nat \<times> string \<times> string \<Rightarrow> bool" where
  "row_ok r = (case r of (i, n, tag, rest) \<Rightarrow>
     i \<noteq> [] \<and> list_all (\<lambda>c. \<not> isspace c) i \<and> tag \<noteq> [] \<and> list_all (\<lambda>c. \<not> isspace c) tag \<and> unbroken rest)"

lemma split_ws_word: "w \<noteq> [] \<Longrightarrow> list_all (\<lambda>c. \<not> isspace c) w \<Longrightarrow> isspace d \<Longrightarrow> split_ws (w @ d # s) = w # split_ws s"
  using words_aux_head [of w d "[]" s] by (simp add: split_ws_def)

lemma split_ws_blanks: "split_ws (replicate n CHR 0x20 @ s) = split_ws s"
  by (induction n) (simp_all add: split_ws_def isspace_def ascii_space_def)

lemma row_words:
  assumes "row_ok (i, n, tag, rest)"
  shows "split_ws (table_row (i, n, tag, rest)) = i # tag # split_ws rest"
proof -
  have blank: "isspace CHR 0x20" by (simp add: isspace_def ascii_space_def)
  have "split_ws (table_row (i, n, tag, rest)) = i # split_ws (replicate n CHR 0x20 @ tag @ CHR 0x20 # rest)"
    using assms blank split_ws_word [of i "CHR 0x20" "replicate n CHR 0x20 @ tag @ CHR 0x20 # rest"] by (simp add: row_ok_def table_row_def)
  also have "\<dots> = i # tag # split_ws rest"
    using assms blank split_ws_word [of tag "CHR 0x20" rest] by (simp add: row_ok_def split_ws_blanks)
  finally show ?thesis .
qed

lemma row_unbroken: "row_ok r \<Longrightarrow> unbroken (table_row r)"
proof -
  have "islinebreak c \<Longrightarrow> isspace c" for c by (auto simp: char_class_defs)
  moreover have "\<not> islinebreak CHR 0x20" by (simp add: islinebreak_def)
  ultimately show "row_ok r \<Longrightarrow> unbroken (table_row r)"
    by (auto simp: row_ok_def table_row_def unbroken_def list_all_iff)
qed

text \<open>
  The tags of a table are read exactly, as long as no tag has blanks.
\<close>

theorem snapshot_tags_exact:
  assumes "list_all row_ok rows"
  shows "parse_snapshot_tags (unlines (snapshot_header @ map table_row rows)) = map (\<lambda>(_, _, tag, _). tag) rows"
proof -
  have head: "list_all unbroken snapshot_header" "tag_rows (snapshot_header @ ls) = ls" for ls
  proof -
    show "list_all unbroken snapshot_header" by code_simp
    have "contains ''TAG'' (snapshot_header ! 0) = False" "contains ''TAG'' (snapshot_header ! 1)" "contains ''ID'' (snapshot_header ! 1)" by code_simp+
    then show "tag_rows (snapshot_header @ ls) = ls" by (simp add: tag_rows_def snapshot_header_def)
  qed
  have "list_all unbroken (snapshot_header @ map table_row rows)" using head(1) row_unbroken assms by (auto simp: list_all_iff)
  then have "splitlines (unlines (snapshot_header @ map table_row rows)) = snapshot_header @ map table_row rows"
    unfolding unlines_def by (intro splitlines_concat) (auto simp: unbroken_def list_all_iff)
  moreover have "List.map_filter (\<lambda>l. let parts = split_ws l in if length parts \<ge> 2 then Some (parts ! 1) else None) (map table_row rows) =
      map (\<lambda>(_, _, tag, _). tag) rows"
    using assms by (induction rows) (auto simp: List.map_filter_simps row_words)
  ultimately show ?thesis by (simp add: parse_snapshot_tags_def head(2))
qed

theorem snapshot_tags_exact_witness:
  "parse_snapshot_tags (unlines (snapshot_header @ map table_row [(''1'', 9, ''clean'', ''0 B''), (''2'', 9, ''ID'', [])])) = [''clean'', ''ID'']"
proof -
  have "list_all row_ok [(''1'', 9, ''clean'', ''0 B''), (''2'', 9, ''ID'', [])]" by code_simp
  from snapshot_tags_exact [OF this] show ?thesis by simp
qed

text \<open>
  A snapshot whose tag has a blank can be taken and not restored: the table lists it, and the
  restore looks for its first word only.
\<close>

theorem snapshot_tag_blank:
  "fst (cmd_snapshot snap_env_example ''a'' None (Some ''my tag'') (snap_state_example ''before'' [])) = Inr ()"
  "fst (cmd_restore snap_env_example ''a'' (Some ''my tag'')
     (snd (cmd_snapshot snap_env_example ''a'' None (Some ''my tag'') (snap_state_example ''before'' [])))) = Inl (NNoTag ''my tag'')"
  by code_simp+

subsection \<open>Lemmas: the VM comes back\<close>

lemma startswith_strip: "p \<noteq> [] \<Longrightarrow> list_all (\<lambda>c. \<not> isspace c) p \<Longrightarrow> startswith (strip (p @ s)) p"
proof -
  assume p: "p \<noteq> []" "list_all (\<lambda>c. \<not> isspace c) p"
  then have "lstrip (p @ s) = p @ s" by (cases p) (simp_all add: lstrip_def)
  moreover have "rstrip (p @ s) = p @ rev (dropWhile isspace (rev s))"
  proof (cases "dropWhile isspace (rev s) = []")
    case True
    have "dropWhile isspace (rev p) = rev p" using p by (intro dropWhile_none) (auto simp: list_all_iff hd_rev)
    moreover have "\<forall>x \<in> set (rev s). isspace x" using True by (simp add: dropWhile_eq_Nil_conv)
    ultimately have "dropWhile isspace (rev s @ rev p) = rev p" by (simp only: dropWhile_append2)
    then show ?thesis using True by (simp add: rstrip_def)
  next
    case False
    then obtain x where "x \<in> set (rev s)" "\<not> isspace x" by (auto simp: dropWhile_eq_Nil_conv)
    then show ?thesis by (simp add: rstrip_def dropWhile_append1)
  qed
  ultimately show ?thesis by (simp add: strip_def startswith_append)
qed

lemma qemu_comm: "startswith (strip (take 15 (''qemu-system-'' @ arch))) ''qemu-system''"
proof -
  have "take 15 (''qemu-system-'' @ arch) = ''qemu-system'' @ ''-'' @ take 3 arch" by simp
  moreover have "list_all (\<lambda>c. \<not> isspace c) ''qemu-system''" by code_simp
  ultimately show ?thesis using startswith_strip [of "''qemu-system''"] by simp
qed

text \<open>What is assumed of the host: QEMU has a positive pid and is found by an absolute path.\<close>

definition qemu_sane :: "host_env \<Rightarrow> bool" where
  "qemu_sane env \<longleftrightarrow> (\<forall>argv pid. he_qemu env argv = Some pid \<longrightarrow> pid > 0) \<and> (\<forall>a. startswith (qemu_binary_for_arch (he_machine env) a) ''/'')"

lemma started_running:
  assumes "qemu_sane env" "start_qemu env vm h = (Inr u, vm', h')"
  shows "running h' vm' \<and> vm_name vm' = vm_name vm"
proof -
  obtain mode boot disks pid h1 where start: "mark_started env pid vm
      (qemu_started env (qemu_argv (he_machine env) (he_md5 env) (he_overlays env) (he_sockets env) mode boot disks vm) pid vm h1) = (Inr u, vm', h')"
    "he_qemu env (qemu_argv (he_machine env) (he_md5 env) (he_overlays env) (he_sockets env) mode boot disks vm) = Some pid"
    using assms(2) unfolding start_qemu_def Let_def by (auto split: sum.split_asm if_split_asm prod.split_asm option.split_asm)
  let ?argv = "qemu_argv (he_machine env) (he_md5 env) (he_overlays env) (he_sockets env) mode boot disks vm"
  have vm': "vm_pid vm' = pid" "vm_name vm' = vm_name vm" "h_procs h' = h_procs (qemu_started env ?argv pid vm h1)"
    using start(1) by (auto simp: mark_started_def update_pid_def update_last_boot_def res_map_eq_Inr split: sum.split_asm prod.split_asm)
  have "cmdline_names_vm ?argv (vm_name vm) True" using qemu_argv_identity assms(1) by (simp add: qemu_sane_def)
  then have "qemu_pid_is (h_procs h') pid (vm_name vm)"
    using qemu_comm [of "vm_arch vm"] by (simp add: vm'(3) qemu_started_def qemu_pid_is_def)
  moreover have "pid > 0" using assms(1) start(2) by (auto simp: qemu_sane_def)
  ultimately show ?thesis by (simp add: running_def is_running_def vm')
qed

lemma launched_running:
  assumes "qemu_sane env" "launch_guest env before peers vm h = (Inr u, vm', h')"
  shows "running h' vm' \<and> vm_name vm' = vm_name vm"
proof -
  obtain h1 where launch: "launch_qemu env peers vm h = (Inr (), vm', h1)" "h_procs h' = h_procs h1" "h_pidfiles h' = h_pidfiles h1"
    using assms(2) by (cases "launch_qemu env peers vm h")
      (auto simp: launch_guest_def register_ssh_name_def Let_def split: sum.split_asm guest_outcome.split_asm if_split_asm)
  have "running h1 vm' \<and> vm_name vm' = vm_name vm"
  proof (cases "running h vm")
    case True
    then have "snd (is_running (h_procs h) (h_pidfiles h) vm) = vm'" "h1 = h" using launch(1) by (auto simp: launch_qemu_def)
    with True show ?thesis by (auto simp: running_def is_running_def Let_def split: if_split_asm)
  next
    case False
    then obtain p vm1 infos where chk: "check_backing (he_store env) (he_stat env) (he_overlays env) vm (h_infos h) = (p, vm1, infos)"
        "start_qemu env vm1 (h\<lparr>h_infos := infos\<rparr>) = (Inr (), vm', h1)"
      using launch(1) by (auto simp: launch_qemu_def Let_def split: prod.split_asm if_split_asm option.split_asm)
    have "vm_name vm1 = vm_name vm"
      using chk(1) by (auto simp: check_backing_def adopt_image_id_def res_map_eq_Inr Let_def split: option.split_asm stat_result.split_asm if_split_asm sum.split_asm prod.split_asm)
    with started_running [OF assms(1) chk(2)] show ?thesis by simp
  qed
  with launch(2,3) show ?thesis by (simp add: running_def)
qed

text \<open>Errors of the stop and of the restart, as opposed to those of the change.\<close>

definition comes_back :: "snap_error \<Rightarrow> bool" where
  "comes_back e = (case e of NLife _ \<Rightarrow> False | _ \<Rightarrow> True)"

lemma stopped_back:
  assumes "qemu_sane (sv_host env)" "running (sn_host st) vm" "with_vm_stopped env before vm body st = (Inr a, st')"
  shows "\<exists>vm'. vm_name vm' = vm_name vm \<and> running (sn_host st') vm'"
proof -
  obtain vm1 where run: "is_running (h_procs (sn_host st)) (h_pidfiles (sn_host st)) vm = (True, vm1)"
    using assms(2) by (cases "is_running (h_procs (sn_host st)) (h_pidfiles (sn_host st)) vm") (auto simp: running_def)
  then have name: "vm_name vm1 = vm_name vm" using is_running_name [of "h_procs (sn_host st)" "h_pidfiles (sn_host st)" vm] by simp
  have "\<exists>h2 vm'. launch_guest (sv_host env) before (sv_peers env) (vm1\<lparr>vm_pid := 0\<rparr>) h2 = (Inr (), vm', sn_host st')"
    using assms(3) run by (fastforce simp: with_vm_stopped_def restart_vm_def res_map_eq_Inr map_err_eq_Inr split: prod.split_asm sum.split_asm)
  then obtain h2 vm' where "launch_guest (sv_host env) before (sv_peers env) (vm1\<lparr>vm_pid := 0\<rparr>) h2 = (Inr (), vm', sn_host st')" by blast
  from launched_running [OF assms(1) this] name show ?thesis by auto
qed

text \<open>
  C26.  A VM that ran comes back: a snapshot, its deletion and a restore that succeed, or that fail in
  \<^verbatim>\<open>qemu-img\<close> or for want of the snapshot, leave the VM running if it ran before; only a stop or a
  restart that fails itself ends with the VM down.
\<close>

theorem snapshot_comes_back:
  assumes "qemu_sane (sv_host env)" "vm_load (h_infos (sn_host st)) name = Inr vm" "running (sn_host st) vm"
    "(r, st') \<in> {cmd_snapshot env name delete tag st, cmd_restore env name tag st}" "case r of Inl e \<Rightarrow> comes_back e | Inr _ \<Rightarrow> True"
  shows "\<exists>vm'. vm_name vm' = vm_name vm \<and> running (sn_host st') vm'"
proof (cases "snap_vm env name st")
  case (Inl e)
  with assms(3,4) show ?thesis by (auto simp: cmd_snapshot_def cmd_restore_def)
next
  case (Inr vm0)
  then have vm: "snap_vm env name st = Inr vm" using assms(2) snap_vm_load [of env name st] by simp
  have img: "sn_host (snd (run_img env vm cmd st)) = sn_host st" for cmd by (simp add: run_img_def split: prod.split)
  have again: "\<exists>vm'. vm_name vm' = vm_name vm \<and> running (sn_host st') vm'"
    if "with_vm_stopped env b vm body st0 = (r0, st')" and "r = res_bind r0 f" "sn_host st0 = sn_host st" "\<And>e. r0 \<noteq> Inl e \<or> \<not> comes_back e" for b body st0 r0 f
    using stopped_back [OF assms(1), of st0 vm b body _ st'] that assms(3,5) by (cases r0) auto
  have fails: "r0 \<noteq> Inl e \<or> \<not> comes_back e" if "with_vm_stopped env b vm body st0 = (r0, st')" for b body st0 r0 e
    using that by (auto simp: with_vm_stopped_def restart_vm_def comes_back_def map_err_def res_map_def split: prod.split_asm if_split_asm sum.split_asm)
  show ?thesis
    using assms(3,4) vm img [of SnapList] again fails
    by (fastforce simp: cmd_snapshot_def cmd_restore_def Let_def split: prod.split_asm if_split_asm)
qed

definition snap_running_example :: "(string \<times> (string \<times> string) list) snap_state" where
  "snap_running_example =
     \<lparr>sn_host = host_empty\<lparr>h_infos := [''a'' \<mapsto> join [CHR 0x0A] [''PID=3'', ''IP=192.168.100.10'', ''KERNEL=/k'', ''ARCH=x86_64'']],
        h_files := {''/vm/o/a.qcow2''},
        h_procs := [3 \<mapsto> \<lparr>qp_comm = ''qemu-system-x86'', qp_argv = None\<rparr>]\<rparr>, sn_disk = (''c'', [])\<rparr>"

theorem snapshot_comes_back_witness:
  "\<exists>vm'. running (sn_host (snd (cmd_snapshot snap_env_example ''a'' None (Some ''t'') snap_running_example))) vm' \<and>
     fst (cmd_snapshot snap_env_example ''a'' None (Some ''t'') snap_running_example) = Inr ()"
proof -
  have "case vm_load (h_infos (sn_host snap_running_example)) ''a'' of Inr vm \<Rightarrow> running (sn_host snap_running_example) vm | _ \<Rightarrow> False" by code_simp
  then obtain vm where vm: "vm_load (h_infos (sn_host snap_running_example)) ''a'' = Inr vm" "running (sn_host snap_running_example) vm"
    by (auto split: sum.split_asm)
  have sane: "qemu_sane (sv_host snap_env_example)"
    by (auto simp: qemu_sane_def snap_env_example_def env_example_def machine_example_def qemu_binary_for_arch_def Let_def startswith_def)
  have ok: "fst (cmd_snapshot snap_env_example ''a'' None (Some ''t'') snap_running_example) = Inr ()" by code_simp
  obtain st' where run: "cmd_snapshot snap_env_example ''a'' None (Some ''t'') snap_running_example = (Inr (), st')" using ok by (metis prod.collapse)
  show ?thesis
    using snapshot_comes_back [OF sane vm, of "Inr ()" st' None "Some ''t''"] run by auto
qed

end
