(* ===== verification/ConsoleLog.thy ===== *)
theory ConsoleLog
  imports AddrAlloc "HOL-Library.Sublist"
begin

text \<open>
  Following the console log of a VM (\<^verbatim>\<open>cmd_console_log\<close> of \<^verbatim>\<open>vm_commands.py\<close>): the log grows, is
  truncated by a reboot or replaced by another file, and the follower polls it.  Between two polls
  the file system may change in any way; during one it does not.
\<close>

subsection \<open>The file and the follower\<close>

text \<open>The file the path names, if any, and the contents of every file, the unlinked ones included.\<close>

record log_fs =
  lf_path :: "nat option"
  lf_data :: "nat \<Rightarrow> string"

text \<open>The open file with the position in it, the remembered head, the lines to show at the first open
  (negative after it), and what was written.\<close>

record follower =
  fl_fh :: "(nat \<times> nat) option"
  fl_anchor :: string
  fl_lines :: int
  fl_out :: string

text \<open>\<^verbatim>\<open>bytes.splitlines\<close> breaks at newlines and carriage returns only.\<close>

fun byte_lines :: "string \<Rightarrow> string \<Rightarrow> string list" where
  "byte_lines acc [] = (if acc = [] then [] else [rev acc])"
| "byte_lines acc [c] = (if c = CHR 0x0A \<or> c = CHR 0x0D then [rev acc] else [rev (c # acc)])"
| "byte_lines acc (c # d # cs) =
     (if c = CHR 0x0D \<and> d = CHR 0x0A then rev acc # byte_lines [] cs
      else if c = CHR 0x0A \<or> c = CHR 0x0D then rev acc # byte_lines [] (d # cs)
      else byte_lines (c # acc) (d # cs))"

definition log_tail_lines :: "string \<Rightarrow> int \<Rightarrow> string list" where
  "log_tail_lines raw n =
     (if n \<le> 0 then [] else let ls = byte_lines [] raw in drop (length ls - nat n) ls)"

definition ANCHOR_BYTES :: nat where
  "ANCHOR_BYTES = 256"

definition read_anchor :: "log_fs \<Rightarrow> nat \<Rightarrow> string" where
  "read_anchor fs i = take ANCHOR_BYTES (lf_data fs i)"

definition rotated :: "log_fs \<Rightarrow> nat \<Rightarrow> nat \<Rightarrow> string \<Rightarrow> bool" where
  "rotated fs i pos anchor =
     (case lf_path fs of
        None \<Rightarrow> False
      | Some j \<Rightarrow>
          if j \<noteq> i then True
          else if length (lf_data fs j) < pos then True
          else if anchor = [] then False
          else take (length anchor) (read_anchor fs i) \<noteq> anchor)"

definition open_log :: "log_fs \<Rightarrow> nat \<Rightarrow> follower \<Rightarrow> follower" where
  "open_log fs i f =
     (if fl_lines f \<ge> 0 then
        f\<lparr>fl_fh := Some (i, length (lf_data fs i)), fl_anchor := read_anchor fs i, fl_lines := -1,
          fl_out := fl_out f @ concat (map (\<lambda>l. l @ [CHR 0x0A]) (log_tail_lines (lf_data fs i) (fl_lines f)))\<rparr>
      else f\<lparr>fl_fh := Some (i, 0), fl_anchor := read_anchor fs i\<rparr>)"

text \<open>One pass of the loop; the flag says that it ends in the sleep.\<close>

definition follow_pass :: "log_fs \<Rightarrow> follower \<Rightarrow> bool \<times> follower" where
  "follow_pass fs f =
     (let f1 = (case (fl_fh f, lf_path fs) of (None, Some i) \<Rightarrow> open_log fs i f | _ \<Rightarrow> f)
      in case fl_fh f1 of
           None \<Rightarrow> (True, f1)
         | Some (i, pos) \<Rightarrow>
             if rotated fs i pos (fl_anchor f1) then (False, f1\<lparr>fl_fh := None\<rparr>)
             else
               let chunk = drop pos (lf_data fs i)
               in if chunk \<noteq> [] then
                    (False, f1\<lparr>fl_fh := Some (i, length (lf_data fs i)), fl_out := fl_out f1 @ chunk,
                        fl_anchor := (if fl_anchor f1 = [] then read_anchor fs i else fl_anchor f1)\<rparr>)
                  else (True, f1))"

partial_function (option) follow_poll :: "log_fs \<Rightarrow> follower \<Rightarrow> follower option" where
  [code]: "follow_poll fs f = (case follow_pass fs f of (slept, f') \<Rightarrow> if slept then Some f' else follow_poll fs f')"

fun follow_polls :: "log_fs list \<Rightarrow> follower \<Rightarrow> follower option" where
  "follow_polls [] f = Some f"
| "follow_polls (fs # fss) f = (case follow_poll fs f of None \<Rightarrow> None | Some f' \<Rightarrow> follow_polls fss f')"

definition follow_start :: "int \<Rightarrow> follower" where
  "follow_start lines = \<lparr>fl_fh = None, fl_anchor = [], fl_lines = lines, fl_out = []\<rparr>"

subsection \<open>The command\<close>

definition BOOT_BANNER :: string where
  "BOOT_BANNER = ''Linux version ''"

definition PANIC_MARKERS :: "string list" where
  "PANIC_MARKERS = [''Kernel panic'', ''LBUG'', ''BUG: '', ''Oops: '']"

text \<open>What the note on earlier boots says: how many there are, the line the last begins at, the number of
  lines, and the first line of an earlier one that tells of a crash.\<close>

record boots_note =
  bn_boots :: nat
  bn_last :: nat
  bn_lines :: nat
  bn_hit :: "(nat \<times> string) option"

definition boot_starts :: "string list \<Rightarrow> nat list" where
  "boot_starts ls = filter (\<lambda>i. contains BOOT_BANNER (ls ! i)) [0..<length ls]"

definition earlier_boots_note :: "string \<Rightarrow> int \<Rightarrow> boots_note option" where
  "earlier_boots_note raw shown =
     (let ls = byte_lines [] raw; starts = boot_starts ls; first_shown = nat (max 0 (int (length ls) - shown))
      in if length starts < 2 \<or> List.last starts \<le> 0 \<or> first_shown \<le> hd starts then None
         else
           let hit = List.find (\<lambda>i. list_ex (\<lambda>m. contains m (ls ! i)) PANIC_MARKERS) [0..<List.last starts]
           in Some \<lparr>bn_boots = length starts, bn_last = List.last starts + 1, bn_lines = length ls,
                    bn_hit = map_option (\<lambda>i. (i + 1, ls ! i)) hit\<rparr>)"

datatype console_error = CLoad load_error | CNegative int | CNoLog string

text \<open>What was written, and the note; of a follow, the follower after the polls seen before Ctrl-C.\<close>

datatype console_output = Shown string "boots_note option" | Followed "follower option"

definition cmd_console_log :: "sockets \<Rightarrow> string \<Rightarrow> int \<Rightarrow> bool \<Rightarrow> log_fs \<Rightarrow> log_fs list
    \<Rightarrow> (console_error, console_output) result" where
  "cmd_console_log infos name lines fol fs polls =
     res_bind (map_err CLoad (vm_load infos name)) (\<lambda>vm.
       if lines < 0 then Inl (CNegative lines)
       else if lf_path fs = None \<and> \<not> fol then Inl (CNoLog name)
       else if \<not> fol then
         let raw = lf_data fs (the (lf_path fs))
         in Inr (Shown (concat (map (\<lambda>l. l @ [CHR 0x0A]) (log_tail_lines raw lines))) (earlier_boots_note raw lines))
       else Inr (Followed (follow_polls polls (follow_start lines))))"

subsection \<open>Lemmas: one poll\<close>

text \<open>After a poll: the follower is at the end of contents \<open>d\<close> of file \<open>i\<close>, whose head it knows unless they
  are empty.\<close>

definition at_end :: "nat \<Rightarrow> string \<Rightarrow> follower \<Rightarrow> bool" where
  "at_end i d f \<longleftrightarrow> fl_fh f = Some (i, length d) \<and> prefix (fl_anchor f) (take ANCHOR_BYTES d) \<and> (fl_anchor f = [] \<longleftrightarrow> d = []) \<and> fl_lines f < 0"

lemma anchor_pos [simp]: "0 < ANCHOR_BYTES" "ANCHOR_BYTES \<noteq> 0"
  by (simp_all add: ANCHOR_BYTES_def)

lemma anchor_empty: "take ANCHOR_BYTES d = [] \<longleftrightarrow> d = []"
  by (simp add: ANCHOR_BYTES_def)

lemma prefix_take_mono: "prefix a (take n d) \<Longrightarrow> prefix d e \<Longrightarrow> prefix a (take n e)"
  by (auto simp: prefix_def)

lemma grown_not_rotated:
  assumes "at_end i d f" "prefix d (lf_data fs i)" "lf_path fs = None \<or> lf_path fs = Some i"
  shows "\<not> rotated fs i (length d) (fl_anchor f)"
proof -
  have "prefix (fl_anchor f) (read_anchor fs i)"
    using prefix_take_mono [OF _ assms(2)] assms(1) by (simp add: at_end_def read_anchor_def)
  then have "take (length (fl_anchor f)) (read_anchor fs i) = fl_anchor f" by (auto simp: prefix_def)
  with assms(2,3) prefix_length_le [OF assms(2)] show ?thesis by (auto simp: rotated_def)
qed

lemma poll_pass: "follow_poll fs f = (case follow_pass fs f of (slept, f') \<Rightarrow> if slept then Some f' else follow_poll fs f')"
  by (rule follow_poll.simps)

lemma poll_settled:
  assumes "at_end i (lf_data fs i) f" "lf_path fs = None \<or> lf_path fs = Some i"
  shows "follow_poll fs f = Some f"
proof -
  have "\<not> rotated fs i (length (lf_data fs i)) (fl_anchor f)" by (rule grown_not_rotated [OF assms(1) _ assms(2)]) simp
  then have "follow_pass fs f = (True, f)" using assms(1) by (simp add: follow_pass_def at_end_def)
  then show ?thesis by (subst poll_pass) simp
qed

lemma poll_grown:
  assumes "at_end i d f" "prefix d (lf_data fs i)" "lf_path fs = None \<or> lf_path fs = Some i"
  shows "\<exists>f'. follow_poll fs f = Some f' \<and> at_end i (lf_data fs i) f' \<and> fl_out f' = fl_out f @ drop (length d) (lf_data fs i)
    \<and> fl_anchor f' = (if fl_anchor f = [] then read_anchor fs i else fl_anchor f)"
proof (cases "lf_data fs i = d")
  case True
  with poll_settled [of i fs f] assms(1,3) show ?thesis by (auto simp: at_end_def read_anchor_def)
next
  case False
  let ?e = "lf_data fs i"
  have more: "drop (length d) ?e \<noteq> []" using assms(2) False by (auto simp: prefix_def)
  then have ne: "?e \<noteq> []" by auto
  define f' where "f' = f\<lparr>fl_fh := Some (i, length ?e), fl_out := fl_out f @ drop (length d) ?e,
      fl_anchor := (if fl_anchor f = [] then read_anchor fs i else fl_anchor f)\<rparr>"
  have "follow_pass fs f = (False, f')"
    using grown_not_rotated [OF assms] assms(1) more by (simp add: follow_pass_def at_end_def f'_def Let_def)
  moreover have "at_end i ?e f'"
    using assms(1) ne prefix_take_mono [OF _ assms(2)] by (auto simp: at_end_def f'_def read_anchor_def anchor_empty)
  ultimately show ?thesis
    using poll_settled [of i fs f'] assms(3) by (subst poll_pass) (simp add: f'_def)
qed

lemma poll_reopen:
  assumes "fl_fh f = None" "fl_lines f < 0" "lf_path fs = Some i"
  shows "\<exists>f'. follow_poll fs f = Some f' \<and> at_end i (lf_data fs i) f' \<and> fl_out f' = fl_out f @ lf_data fs i
    \<and> fl_anchor f' = read_anchor fs i"
proof -
  let ?e = "lf_data fs i"
  define f1 where "f1 = f\<lparr>fl_fh := Some (i, 0), fl_anchor := read_anchor fs i\<rparr>"
  have open1: "open_log fs i f = f1" using assms(2) by (simp add: open_log_def f1_def)
  have keep: "\<not> rotated fs i 0 (read_anchor fs i)" using assms(3) by (simp add: rotated_def)
  show ?thesis
  proof (cases "?e = []")
    case True
    then have "follow_pass fs f = (True, f1)" "at_end i ?e f1"
      using assms open1 keep by (simp_all add: follow_pass_def f1_def at_end_def read_anchor_def Let_def)
    then show ?thesis using True by (subst poll_pass) (simp add: f1_def)
  next
    case False
    define f' where "f' = f1\<lparr>fl_fh := Some (i, length ?e), fl_out := fl_out f1 @ ?e,
        fl_anchor := (if fl_anchor f1 = [] then read_anchor fs i else fl_anchor f1)\<rparr>"
    have "follow_pass fs f = (False, f')"
      using assms open1 keep False by (simp add: follow_pass_def f1_def f'_def Let_def)
    moreover have "at_end i ?e f'" using False assms(2) by (auto simp: at_end_def f'_def f1_def read_anchor_def anchor_empty)
    ultimately show ?thesis using poll_settled [of i fs f'] assms(3) by (subst poll_pass) (simp add: f'_def f1_def)
  qed
qed

lemma poll_rotated:
  assumes "at_end i d f" "rotated fs i (length d) (fl_anchor f)" "lf_path fs = Some j"
  shows "\<exists>f'. follow_poll fs f = Some f' \<and> at_end j (lf_data fs j) f' \<and> fl_out f' = fl_out f @ lf_data fs j
    \<and> fl_anchor f' = read_anchor fs j"
proof -
  have "follow_pass fs f = (False, f\<lparr>fl_fh := None\<rparr>)" using assms(1,2) by (simp add: follow_pass_def at_end_def)
  moreover obtain f' where "follow_poll fs (f\<lparr>fl_fh := None\<rparr>) = Some f'" "at_end j (lf_data fs j) f'"
      "fl_out f' = fl_out f @ lf_data fs j" "fl_anchor f' = read_anchor fs j"
    using poll_reopen [of "f\<lparr>fl_fh := None\<rparr>" fs j] assms(1,3) by (auto simp: at_end_def)
  ultimately show ?thesis by (subst poll_pass) simp
qed

lemma poll_first:
  assumes "lines \<ge> 0" "lf_path fs = Some i"
  shows "\<exists>f'. follow_poll fs (follow_start lines) = Some f' \<and> at_end i (lf_data fs i) f' \<and>
    fl_out f' = concat (map (\<lambda>l. l @ [CHR 0x0A]) (log_tail_lines (lf_data fs i) lines)) \<and> fl_anchor f' = read_anchor fs i"
proof -
  define f' where "f' = open_log fs i (follow_start lines)"
  have f': "at_end i (lf_data fs i) f'" "fl_out f' = concat (map (\<lambda>l. l @ [CHR 0x0A]) (log_tail_lines (lf_data fs i) lines))" "fl_anchor f' = read_anchor fs i"
    using assms(1) by (auto simp: f'_def open_log_def follow_start_def at_end_def read_anchor_def anchor_empty)
  have "\<not> rotated fs i (length (lf_data fs i)) (fl_anchor f')" by (rule grown_not_rotated [OF f'(1)]) (simp_all add: assms(2))
  then have "follow_pass fs (follow_start lines) = (True, f')"
    using assms f'(1) by (simp add: follow_pass_def follow_start_def f'_def [symmetric, unfolded follow_start_def] at_end_def)
  then show ?thesis using f' by (subst poll_pass) simp
qed


subsection \<open>A log over time\<close>

text \<open>
  What happens to a log between polls, from file \<open>i\<close> with contents \<open>d\<close> and the head \<open>a\<close> of when it was
  first seen with any: it grows, it is truncated and written anew, visibly if it is shorter or its head
  differs, or it is replaced.  The last argument is what was written to the logs meanwhile.
\<close>

inductive log_run :: "nat \<Rightarrow> string \<Rightarrow> string \<Rightarrow> log_fs list \<Rightarrow> string \<Rightarrow> bool" where
  log_ends: "log_run i a d [] []"
| log_grows: "lf_path fs = None \<or> lf_path fs = Some i \<Longrightarrow> lf_data fs i = d @ x \<Longrightarrow>
    log_run i (if a = [] then take ANCHOR_BYTES (d @ x) else a) (d @ x) fss out \<Longrightarrow> log_run i a d (fs # fss) (x @ out)"
| log_truncated: "lf_path fs = Some i \<Longrightarrow> lf_data fs i = e \<Longrightarrow> length e < length d \<or> \<not> prefix a e \<Longrightarrow>
    log_run i (take ANCHOR_BYTES e) e fss out \<Longrightarrow> log_run i a d (fs # fss) (e @ out)"
| log_replaced: "lf_path fs = Some j \<Longrightarrow> j \<noteq> i \<Longrightarrow> lf_data fs j = e \<Longrightarrow>
    log_run j (take ANCHOR_BYTES e) e fss out \<Longrightarrow> log_run i a d (fs # fss) (e @ out)"

lemma head_differs: "\<not> prefix a e \<Longrightarrow> length a \<le> ANCHOR_BYTES \<Longrightarrow> take (length a) (take ANCHOR_BYTES e) \<noteq> a"
  by (metis min.absorb1 take_is_prefix take_take)

lemma truncated_rotated:
  assumes "at_end i d f" "lf_path fs = Some i" "length (lf_data fs i) < length d \<or> \<not> prefix (fl_anchor f) (lf_data fs i)"
  shows "rotated fs i (length d) (fl_anchor f)"
proof -
  have "length (fl_anchor f) \<le> ANCHOR_BYTES"
    using assms(1) by (auto simp: at_end_def dest: prefix_length_le)
  then show ?thesis using assms(2,3) head_differs [of "fl_anchor f"] by (auto simp: rotated_def read_anchor_def)
qed

lemma polls_follow:
  assumes "log_run i a d fss out" "at_end i d f" "fl_anchor f = a"
  shows "\<exists>f'. follow_polls fss f = Some f' \<and> fl_out f' = fl_out f @ out"
  using assms
proof (induction arbitrary: f rule: log_run.induct)
  case (log_grows fs i d x a fss out)
  obtain f' where "follow_poll fs f = Some f'" "at_end i (d @ x) f'" "fl_out f' = fl_out f @ x"
    "fl_anchor f' = (if a = [] then take ANCHOR_BYTES (d @ x) else a)"
    using poll_grown [OF log_grows.prems(1), of fs] log_grows.hyps(1,2) log_grows.prems(2) by (auto simp: read_anchor_def)
  with log_grows.IH [of f'] show ?case by auto
next
  case (log_truncated fs i e d a fss out)
  have "rotated fs i (length d) (fl_anchor f)"
    using truncated_rotated [OF log_truncated.prems(1), of fs] log_truncated.hyps(1-3) log_truncated.prems(2) by simp
  from poll_rotated [OF log_truncated.prems(1) this log_truncated.hyps(1)] log_truncated.hyps(2)
  obtain f' where "follow_poll fs f = Some f'" "at_end i e f'" "fl_out f' = fl_out f @ e" "fl_anchor f' = take ANCHOR_BYTES e"
    by (auto simp: read_anchor_def)
  with log_truncated.IH [of f'] show ?case by auto
next
  case (log_replaced fs j i e fss out a d)
  have "rotated fs i (length d) (fl_anchor f)" using log_replaced.hyps(1,2) by (simp add: rotated_def)
  from poll_rotated [OF log_replaced.prems(1) this log_replaced.hyps(1)] log_replaced.hyps(3)
  obtain f' where "follow_poll fs f = Some f'" "at_end j e f'" "fl_out f' = fl_out f @ e" "fl_anchor f' = take ANCHOR_BYTES e"
    by (auto simp: read_anchor_def)
  with log_replaced.IH [of f'] show ?case by auto
qed simp

lemma poll_absent: "lf_path fs = None \<Longrightarrow> follow_poll fs (follow_start lines) = Some (follow_start lines)"
  by (subst poll_pass) (simp add: follow_pass_def follow_start_def)

lemma polls_absent:
  "list_all (\<lambda>fs. lf_path fs = None) fss \<Longrightarrow> follow_polls (fss @ rest) (follow_start lines) = follow_polls rest (follow_start lines)"
  by (induction fss) (simp_all add: poll_absent)

subsection \<open>Properties\<close>


text \<open>A log of one line, which grows, and outgrows the old position after a reboot with another head.\<close>

definition log_now :: "string \<Rightarrow> log_fs" where
  "log_now d = \<lparr>lf_path = Some 7, lf_data = (\<lambda>_. d)\<rparr>"

definition log_gone :: log_fs where
  "log_gone = \<lparr>lf_path = None, lf_data = (\<lambda>_. [])\<rparr>"

lemma log_now_run:
  "log_run 7 (take ANCHOR_BYTES ''boot'') ''boot'' [log_now ''boot ok'', log_now ''panic: no disk''] ('' ok'' @ ''panic: no disk'' @ [])"
  by (rule log_grows, simp add: log_now_def, simp add: log_now_def, rule log_truncated) (simp_all add: log_now_def ANCHOR_BYTES_def log_ends)


text \<open>
  A truncation within one poll that repeats the head and outgrows the old position is not noticed, as
  the comment in the code says: the output goes on in the middle of the new log.
\<close>

theorem follow_misses_same_head:
  "map_option fl_out (follow_polls [log_now ''boot'', log_now ''boot: second''] (follow_start 0)) = Some '': second''"
  by code_simp

text \<open>
  The tail of the first open ends its last line even when the log has not: the line then shows up broken
  in two.  Reading on from a start without a tail does not.
\<close>

theorem follow_breaks_line:
  "map_option fl_out (follow_polls [log_now ''boot'', log_now ''boot ok''] (follow_start 10)) = Some (''boot'' @ CHR 0x0A # '' ok'')"
  by code_simp

subsection \<open>The note on earlier boots\<close>

lemma boot_starts_mem: "i \<in> set (boot_starts ls) \<longleftrightarrow> i < length ls \<and> contains BOOT_BANNER (ls ! i)"
  by (auto simp: boot_starts_def)

lemma boot_starts_sorted: "sorted_wrt (<) (boot_starts ls)"
  unfolding boot_starts_def by (intro sorted_wrt_filter sorted_wrt_upt)

lemma sorted_two:
  fixes xs :: "nat list"
  assumes "sorted_wrt (<) xs"
  shows "2 \<le> length xs \<and> hd xs < n \<longleftrightarrow> (\<exists>i j. i < j \<and> i \<in> set xs \<and> j \<in> set xs \<and> i < n)"
  using assms by (cases xs; cases "tl xs") auto

lemma sorted_last_pos: "sorted_wrt (<) xs \<Longrightarrow> 2 \<le> length xs \<Longrightarrow> List.last xs > (0 :: nat)"
  by (cases xs rule: rev_cases; cases "butlast xs") (auto simp: sorted_wrt_append)

text \<open>
  The command says that there are earlier boots exactly when the log holds two starts of a kernel, one of
  them above the lines shown; the third of its conditions never decides.
\<close>

theorem earlier_boots_note_exact:
  "earlier_boots_note raw (int n) \<noteq> None \<longleftrightarrow>
     (let ls = byte_lines [] raw in \<exists>i j. i < j \<and> j < length ls \<and> contains BOOT_BANNER (ls ! i) \<and> contains BOOT_BANNER (ls ! j)
        \<and> i < length ls - n)"
proof -
  let ?ls = "byte_lines [] raw" and ?xs = "boot_starts (byte_lines [] raw)"
  have shown: "nat (max 0 (int (length ?ls) - int n)) = length ?ls - n" by simp
  have "earlier_boots_note raw (int n) \<noteq> None \<longleftrightarrow> 2 \<le> length ?xs \<and> hd ?xs < length ?ls - n"
    using sorted_last_pos [OF boot_starts_sorted, of ?ls] by (auto simp: earlier_boots_note_def Let_def shown)
  also have "\<dots> \<longleftrightarrow> (\<exists>i j. i < j \<and> i \<in> set ?xs \<and> j \<in> set ?xs \<and> i < length ?ls - n)"
    by (rule sorted_two [OF boot_starts_sorted])
  finally show ?thesis by (auto simp: Let_def boot_starts_mem)
qed

definition one_line :: "string \<Rightarrow> bool" where
  "one_line l \<longleftrightarrow> CHR 0x0A \<notin> set l \<and> CHR 0x0D \<notin> set l"

definition log_text :: "string list \<Rightarrow> string" where
  "log_text ls = concat (map (\<lambda>l. l @ [CHR 0x0A]) ls)"

lemma byte_lines_one: "one_line l \<Longrightarrow> byte_lines acc (l @ CHR 0x0A # cs) = (rev acc @ l) # byte_lines [] cs"
proof (induction l arbitrary: acc)
  case Nil
  show ?case by (cases cs) simp_all
next
  case (Cons c l)
  then have c: "c \<noteq> CHR 0x0A" "c \<noteq> CHR 0x0D" "one_line l" by (auto simp: one_line_def)
  then show ?case using Cons.IH [of "c # acc"] by (cases "l @ CHR 0x0A # cs") auto
qed

lemma byte_lines_text: "list_all one_line ls \<Longrightarrow> byte_lines [] (log_text ls) = ls"
  by (induction ls) (simp_all add: log_text_def byte_lines_one)

text \<open>
  Without following, a log of whole lines is shown as its last lines, all of them when it has no more, and
  none for 0; nothing is shown, and nothing read, when the number is negative or the log is missing.
\<close>

theorem console_log_shows_tail:
  assumes "vm_load infos name = Inr vm" "list_all one_line (old @ new)"
    "lf_path fs = Some i" "lf_data fs i = log_text (old @ new)"
  shows "\<exists>note. cmd_console_log infos name (int (length new)) False fs polls = Inr (Shown (log_text new) note)"
    and "lines < 0 \<Longrightarrow> cmd_console_log infos name lines fol fs polls = Inl (CNegative lines)"
    and "lines \<ge> 0 \<Longrightarrow> cmd_console_log infos name lines False (fs\<lparr>lf_path := None\<rparr>) polls = Inl (CNoLog name)"
  using assms byte_lines_text [OF assms(2)]
  by (auto simp: cmd_console_log_def log_tail_lines_def Let_def map_err_def log_text_def)

end
