(* ===== verification/KernelVersions.thy ===== *)
theory KernelVersions
  imports PyStr "HOL-Library.List_Lexorder" "HOL-Library.Product_Lexorder" "HOL-Library.Char_ord"
begin

text \<open>
  Versions of kernels: the names of built kernels and the choice among them (\<^verbatim>\<open>target_config.py\<close>), and
  the ldiskfs series of a kernel version (\<^verbatim>\<open>lustre_compat.py\<close>).  Tuples compare as in Python, and
  \<open>None\<close> for a function that returns a number is a \<^verbatim>\<open>ValueError\<close>.
\<close>

subsection \<open>Names of built kernels\<close>

text \<open>\<^verbatim>\<open>re.split(r"(\d+)", name)\<close>: the runs of digits and, before, between and after them, what is not
  digits, the empty string included.  \<open>dig\<close> tells which kind is collected.\<close>

fun digit_runs :: "bool \<Rightarrow> string \<Rightarrow> string \<Rightarrow> string list" where
  "digit_runs dig acc [] = (if dig then [rev acc, []] else [rev acc])"
| "digit_runs dig acc (c # cs) =
     (if isdecimal c = dig then digit_runs dig (c # acc) cs else rev acc # digit_runs (\<not> dig) [c] cs)"

definition key_part :: "string \<Rightarrow> (nat \<times> nat \<times> string) option" where
  "key_part part = (if str_isdigit part then map_option (\<lambda>i. (0, nat i, [])) (py_int part) else Some (1, 0, part))"

definition kernel_dir_version_key :: "string \<Rightarrow> (nat \<times> nat \<times> string) list option" where
  "kernel_dir_version_key name = those (map key_part (digit_runs False [] name))"

text \<open>The directories of \<open>kernels_dir\<close>, \<open>None\<close> when it is not one, in the order the file system lists
  them.\<close>

definition matching_kernel_dirs :: "string list option \<Rightarrow> string \<Rightarrow> string list option" where
  "matching_kernel_dirs dirs name =
     (case dirs of
        None \<Rightarrow> Some []
      | Some ds \<Rightarrow>
          let found = filter (\<lambda>d. startswith d (name @ ''-'')) ds
          in if list_all (\<lambda>d. kernel_dir_version_key d \<noteq> None) found
             then Some (rev (sort_key (\<lambda>d. get_or [] (kernel_dir_version_key d)) (rev found))) else None)"

definition resolve_kernel_dir :: "string list option \<Rightarrow> string \<Rightarrow> string option" where
  "resolve_kernel_dir dirs name =
     (case dirs of
        None \<Rightarrow> Some name
      | Some ds \<Rightarrow>
          if name \<in> set ds then Some name
          else map_option (\<lambda>cs. if cs \<noteq> [] then hd cs else name) (matching_kernel_dirs dirs name))"

text \<open>A dotted version of three parts between dashes, and where the first begins.\<close>

definition number_then :: "char \<Rightarrow> string \<Rightarrow> string option" where
  "number_then c s =
     (let rest = dropWhile isdecimal s
      in if takeWhile isdecimal s \<noteq> [] \<and> rest \<noteq> [] \<and> hd rest = c then Some (tl rest) else None)"

definition full_tail_here :: "string \<Rightarrow> bool" where
  "full_tail_here s \<longleftrightarrow>
     (case s of
        [] \<Rightarrow> False
      | c # cs \<Rightarrow> c = CHR ''-'' \<and>
          Option.bind (Option.bind (number_then CHR ''.'' cs) (number_then CHR ''.'')) (number_then CHR ''-'') \<noteq> None)"

fun full_kernel_tail :: "string \<Rightarrow> nat option" where
  "full_kernel_tail [] = None"
| "full_kernel_tail (c # cs) = (if full_tail_here (c # cs) then Some 0 else map_option Suc (full_kernel_tail cs))"

definition short_kernel_name :: "string list \<Rightarrow> string \<Rightarrow> string" where
  "short_kernel_name entries name =
     (case List.find (\<lambda>short. name = short \<or> startswith name (short @ ''-'')) entries of
        Some short \<Rightarrow> short
      | None \<Rightarrow> (case full_kernel_tail name of Some i \<Rightarrow> take i name | None \<Rightarrow> name))"

subsection \<open>Kernel versions\<close>

fun before_rc :: "string \<Rightarrow> string" where
  "before_rc [] = []"
| "before_rc (c # cs) = (if startswith (c # cs) ''-rc'' then [] else c # before_rc cs)"

definition version_part :: "string \<Rightarrow> nat option" where
  "version_part chunk =
     (let digits = takeWhile isdigit chunk in if digits = [] then Some 0 else map_option nat (py_int digits))"

definition version_tuple :: "string \<Rightarrow> (nat \<times> nat \<times> nat) option" where
  "version_tuple version =
     map_option (\<lambda>ns. case ns @ [0, 0, 0] of a # b # c # _ \<Rightarrow> (a, b, c) | _ \<Rightarrow> (0, 0, 0))
       (those (map version_part (split_on CHR ''.'' (before_rc version))))"

definition VANILLA_LDISKFS_LADDER :: "(string \<times> string) list" where
  "VANILLA_LDISKFS_LADDER =
     [(''5.4.0'', ''ldiskfs-5.4.0-ml''), (''5.4.21'', ''ldiskfs-5.4.21-ml''), (''5.4.22'', ''ldiskfs-5.4.136-ml''),
      (''5.10.0'', ''ldiskfs-5.10.0-ml''), (''6.1.0'', ''ldiskfs-6.1.38-ml''), (''6.6.0'', ''ldiskfs-6.6-ml''),
      (''6.12.0'', ''ldiskfs-6.12-ml''), (''6.18.0'', ''ldiskfs-6.18-ml''), (''6.19.0'', ''ldiskfs-7.0-ml'')]"

text \<open>The floors of the ladders are literals that parse.\<close>

definition floor_tuple :: "string \<Rightarrow> nat \<times> nat \<times> nat" where
  "floor_tuple s = get_or (0, 0, 0) (version_tuple s)"

fun climb_ladder :: "nat \<times> nat \<times> nat \<Rightarrow> string option \<Rightarrow> (string \<times> string) list \<Rightarrow> string option" where
  "climb_ladder v chosen [] = chosen"
| "climb_ladder v chosen ((fl, stem) # rest) = (if floor_tuple fl \<le> v then climb_ladder v (Some stem) rest else chosen)"

definition vanilla_ldiskfs_series :: "string \<Rightarrow> string option option" where
  "vanilla_ldiskfs_series version = map_option (\<lambda>v. climb_ladder v None VANILLA_LDISKFS_LADDER) (version_tuple version)"

definition UBUNTU_LDISKFS_LADDER :: "(string \<times> (nat \<times> string) list \<times> string) list" where
  "UBUNTU_LDISKFS_LADDER =
     [(''4.15.0'', [(24, ''4.15.0-24-ubuntu18''), (20, ''4.15.0-20-ubuntu18'')], ''4.15.0-24-ubuntu18''),
      (''5.0.0'', [(0, ''5.0.0-13-ubuntu19'')], ''5.0.0-13-ubuntu19''),
      (''5.4.0'', [(90, ''5.4.0-90-ubuntu20''), (80, ''5.4.0-80-ubuntu20''), (66, ''5.4.0-66-ubuntu20''), (0, ''5.4.0-42-ubuntu20'')],
         ''5.4.0-ml''),
      (''5.8.0'', [(63, ''5.8.0-63-ubuntu20''), (0, ''5.8.0-53-ubuntu20'')], ''5.8.0-ml''),
      (''5.11.0'', [(0, ''5.11.0-40-ubuntu20'')], ''5.11.0-40-ubuntu20''),
      (''5.15.0'', [(106, ''5.15.0-106-ubuntu20''), (0, ''5.15.0-83-ubuntu20'')], ''5.15.0-83-ubuntu20''),
      (''5.19.0'', [(0, ''5.19.0-35-ubuntu'')], ''5.19.0-35-ubuntu''),
      (''6.8.0'', [(106, ''6.8.0-106-ubuntu24''), (100, ''6.8.0-100-ubuntu24''), (90, ''6.8.0-90-ubuntu24''), (44, ''6.8.0-45-ubuntu24''),
         (0, ''6.7-ml'')], ''6.7-ml''),
      (''6.10.0'', [(0, ''6.10-ml'')], ''6.10-ml''),
      (''6.11.0'', [(0, ''6.11-ml'')], ''6.11-ml''),
      (''6.15.0'', [(0, ''7.0.0-14-ubuntu26'')], ''7.0.0-14-ubuntu26''),
      (''7.0.0'', [(14, ''7.0.0-14-ubuntu26''), (0, ''7.0-ml'')], ''7.0-ml'')]"

definition UBUNTU_NO_ABI :: "(string, string) dict" where
  "UBUNTU_NO_ABI =
     [(''4.15.0'', ''4.15.0-24-ubuntu18''), (''5.4.0'', ''5.4.0-90-ubuntu20''), (''5.8.0'', ''5.8.0-63-ubuntu20''),
      (''5.15.0'', ''5.15.0-106-ubuntu20''), (''6.8.0'', ''6.8.0-106-ubuntu24''), (''7.0.0'', ''7.0.0-14-ubuntu26'')]"

text \<open>The series of a base version that is a floor itself.\<close>

definition band_series :: "string \<Rightarrow> (nat \<times> string) list \<Rightarrow> nat option \<Rightarrow> string option" where
  "band_series fl by_abi abi =
     (case abi of
        None \<Rightarrow> Some (get_or (snd (hd by_abi)) (dict_get UBUNTU_NO_ABI fl))
      | Some n \<Rightarrow>
          if fl = ''5.4.0'' \<and> n = 1007 then Some ''5.4.0-42-ubuntu20''
          else map_option snd (List.find (\<lambda>(m, _). m \<le> n) by_abi))"

fun ubuntu_climb :: "nat \<times> nat \<times> nat \<Rightarrow> nat option \<Rightarrow> (string \<times> (nat \<times> string) list \<times> string) list \<Rightarrow> string option" where
  "ubuntu_climb v abi [] = None"
| "ubuntu_climb v abi ((fl, by_abi, later) # rest) =
     (if v < floor_tuple fl then None
      else if rest \<noteq> [] \<and> floor_tuple (fst (hd rest)) \<le> v then ubuntu_climb v abi rest
      else if floor_tuple fl < v then Some (''ldiskfs-'' @ later)
      else map_option (\<lambda>stem. ''ldiskfs-'' @ stem) (band_series fl by_abi abi))"

definition ubuntu_ldiskfs_series :: "string \<Rightarrow> string option option" where
  "ubuntu_ldiskfs_series release =
     (let parts = split_on CHR ''-'' release; abi_s = (if length parts > 1 then parts ! 1 else [])
      in if str_isdigit abi_s \<and> py_int abi_s = None then None
         else map_option (\<lambda>v. ubuntu_climb v (if str_isdigit abi_s then map_option nat (py_int abi_s) else None) UBUNTU_LDISKFS_LADDER)
                (version_tuple (hd parts)))"

subsection \<open>Comparing versions\<close>

text \<open>One trailing \<^verbatim>\<open>_N\<close> is dropped.\<close>

definition drop_suffix_number :: "string \<Rightarrow> string" where
  "drop_suffix_number s =
     (let digits = takeWhile isdecimal (rev s); rest = dropWhile isdecimal (rev s)
      in if digits \<noteq> [] \<and> rest \<noteq> [] \<and> hd rest = CHR ''_'' then rev (tl rest) else s)"

definition normalize_kver :: "string \<Rightarrow> string" where
  "normalize_kver ver = drop_suffix_number (strip ver)"

definition kver_matches :: "string \<Rightarrow> string \<Rightarrow> bool" where
  "kver_matches declared target_kver \<longleftrightarrow> normalize_kver declared = normalize_kver target_kver"

text \<open>The groups of \<^verbatim>\<open>_RHEL_KVER_RE\<close>: the version of three parts, the build number and the release after
  any update numbers.\<close>

definition rhel_release :: "string \<Rightarrow> string option" where
  "rhel_release s =
     (if startswith s ''el'' \<and> drop 2 s \<noteq> [] \<and> list_all isdecimal (drop 2 s) then Some s else None)"

definition rhel_update :: "string \<Rightarrow> string option" where
  "rhel_update s =
     (case rhel_release s of
        Some r \<Rightarrow> Some r
      | None \<Rightarrow>
          let upd = takeWhile (\<lambda>c. isdecimal c \<or> c = CHR ''.'') s; rest = dropWhile (\<lambda>c. isdecimal c \<or> c = CHR ''.'') s
          in if length upd \<ge> 2 \<and> List.last upd = CHR ''.'' then rhel_release rest else None)"

definition rhel_kver :: "string \<Rightarrow> (string \<times> string \<times> string) option" where
  "rhel_kver s =
     Option.bind (Option.bind (Option.bind (number_then CHR ''.'' s) (number_then CHR ''.'')) (number_then CHR ''-''))
       (\<lambda>after. Option.bind (number_then CHR ''.'' after) (\<lambda>rest.
          map_option (\<lambda>el. (take (length s - length after - 1) s, takeWhile isdecimal after, el)) (rhel_update rest)))"

definition same_rhel_minor :: "string \<Rightarrow> string \<Rightarrow> bool" where
  "same_rhel_minor declared target_kver \<longleftrightarrow>
     rhel_kver (normalize_kver declared) \<noteq> None \<and> rhel_kver (normalize_kver declared) = rhel_kver (normalize_kver target_kver)"

definition kver_majmin :: "string \<Rightarrow> string option" where
  "kver_majmin s =
     Option.bind (number_then CHR ''.'' s) (\<lambda>rest.
       let minor = takeWhile isdecimal rest
       in if minor = [] then None else Some (takeWhile isdecimal s @ ''.'' @ minor))"

subsection \<open>Lemmas: the key of a kernel name\<close>

lemma digit_runs_switch:
  "\<not> isdecimal x \<Longrightarrow> isdecimal c \<Longrightarrow> digit_runs dig acc (s @ x # c # cs) = digit_runs dig acc (s @ [x]) @ digit_runs True [c] cs"
  by (induction s arbitrary: dig acc) auto

lemma digit_runs_number:
  "list_all isdecimal ds \<Longrightarrow> (r \<noteq> [] \<Longrightarrow> \<not> isdecimal (hd r)) \<Longrightarrow>
   digit_runs True acc (ds @ r) = (rev acc @ ds) # (if r = [] then [[]] else digit_runs False [hd r] (tl r))"
  by (induction ds arbitrary: acc; cases r) auto

lemma those_append: "those (xs @ ys) = Option.bind (those xs) (\<lambda>a. map_option ((@) a) (those ys))"
proof (induction xs)
  case Nil
  show ?case by (cases "those ys") simp_all
next
  case (Cons x xs)
  then show ?case by (cases x; cases "those xs"; cases "those ys") simp_all
qed

lemma those_Cons: "those (x # xs) = Option.bind x (\<lambda>a. map_option ((#) a) (those xs))"
  by (cases x) simp_all

lemma key_part_number: "key_part (str_nat n) = Some (0, n, [])"
proof -
  have "str_isdigit (str_nat n)" using str_nat_decimal [of _ n] by (auto simp: str_isdigit_def list_all_iff isdecimal_isdigit)
  then show ?thesis by (simp add: key_part_def)
qed

lemma key_number:
  assumes "\<not> isdecimal x" "r = [] \<or> \<not> isdecimal (hd r)"
  shows "kernel_dir_version_key (s @ x # str_nat n @ r) =
    Option.bind (those (map key_part (digit_runs False [] (s @ [x])))) (\<lambda>k.
      map_option (\<lambda>k'. k @ (0, n, []) # k') (those (map key_part (if r = [] then [[]] else digit_runs False [hd r] (tl r)))))"
proof -
  obtain c cs where c: "str_nat n = c # cs" by (cases "str_nat n") auto
  then have dec: "isdecimal c" "list_all isdecimal cs" using str_nat_decimal [of _ n] by (auto simp: list_all_iff)
  have "digit_runs False [] (s @ x # str_nat n @ r) = digit_runs False [] (s @ [x]) @ digit_runs True [c] (cs @ r)"
    using digit_runs_switch [OF assms(1) dec(1), of False "[]" s "cs @ r"] c by simp
  also have "digit_runs True [c] (cs @ r) = str_nat n # (if r = [] then [[]] else digit_runs False [hd r] (tl r))"
    using digit_runs_number [OF dec(2), of r "[c]"] assms(2) c by auto
  finally show ?thesis
    by (simp add: kernel_dir_version_key_def those_append those_Cons key_part_number option.map_comp comp_def
        split: option.split del: those.simps)
qed

text \<open>The first number that differs decides.\<close>

lemma key_less:
  assumes "\<not> isdecimal x" "r1 = [] \<or> \<not> isdecimal (hd r1)" "r2 = [] \<or> \<not> isdecimal (hd r2)" "m < n"
    "kernel_dir_version_key (s @ x # str_nat m @ r1) = Some k1" "kernel_dir_version_key (s @ x # str_nat n @ r2) = Some k2"
  shows "k1 < k2"
proof -
  let ?k = "those (map key_part (digit_runs False [] (s @ [x])))"
  have "\<exists>k t1. ?k = Some k \<and> k1 = k @ (0, m, []) # t1" "\<exists>k t2. ?k = Some k \<and> k2 = k @ (0, n, []) # t2"
    using assms(5,6) unfolding key_number [OF assms(1,2)] key_number [OF assms(1,3)] by (auto simp: bind_eq_Some_conv)
  then obtain k t1 t2 where "k1 = k @ (0, m, []) # t1" "k2 = k @ (0, n, []) # t2" by auto
  moreover have "(0 :: nat, m, [] :: string) < (0, n, [])" using assms(4) by simp
  ultimately show ?thesis by (auto simp: list_less_def intro: lexord_append_leftI)
qed

lemma sorted_by_last:
  fixes f :: "'a \<Rightarrow> 'b :: linorder"
  assumes "sorted (map f xs)" "x \<in> set xs"
  shows "f x \<le> f (List.last xs)"
  using assms by (induction xs) auto

lemma newest_max:
  fixes f :: "'a \<Rightarrow> 'b :: linorder"
  assumes "found \<noteq> []"
  shows "hd (rev (sort_key f (rev found))) \<in> set found"
    and "d' \<in> set found \<Longrightarrow> f d' \<le> f (hd (rev (sort_key f (rev found))))"
proof -
  have "sort_key f (rev found) \<noteq> []" using assms by (metis length_sort length_0_conv length_rev)
  from last_in_set [OF this] show "hd (rev (sort_key f (rev found))) \<in> set found" by (simp add: hd_rev)
  assume "d' \<in> set found"
  then show "f d' \<le> f (hd (rev (sort_key f (rev found))))"
    using sorted_by_last [of f "sort_key f (rev found)" d'] by (simp add: hd_rev)
qed

lemma sort_key_empty [simp]: "sort_key f xs = [] \<longleftrightarrow> xs = []"
  by (metis length_sort length_0_conv)

definition kernel_newer :: "string \<Rightarrow> string \<Rightarrow> bool" where
  "kernel_newer d d' \<longleftrightarrow> (case (kernel_dir_version_key d, kernel_dir_version_key d') of (Some k, Some k') \<Rightarrow> k' \<le> k | _ \<Rightarrow> False)"

lemma resolve_cases:
  assumes "resolve_kernel_dir (Some ds) name = Some d" "name \<notin> set ds"
    "filter (\<lambda>d. startswith d (name @ ''-'')) ds = found" "found \<noteq> []"
  shows "d \<in> set found" "list_all (kernel_newer d) found"
proof -
  let ?key = "\<lambda>d. get_or [] (kernel_dir_version_key d)"
  have keys: "list_all (\<lambda>d. kernel_dir_version_key d \<noteq> None) found" and d: "d = hd (rev (sort_key ?key (rev found)))"
    using assms by (auto simp: resolve_kernel_dir_def matching_kernel_dirs_def Let_def split: if_split_asm)
  show mem: "d \<in> set found" using newest_max(1) [OF assms(4)] d by blast
  have "kernel_newer d d'" if m: "d' \<in> set found" for d'
  proof -
    obtain k k' where "kernel_dir_version_key d = Some k" "kernel_dir_version_key d' = Some k'"
      using keys mem m by (fastforce simp: list_all_iff)
    then show ?thesis using newest_max(2) [OF assms(4) m, of ?key] d by (simp add: kernel_newer_def)
  qed
  then show "list_all (kernel_newer d) found" by (simp add: list_all_iff)
qed

subsection \<open>Lemmas: printed versions\<close>

definition dot3 :: "nat \<Rightarrow> nat \<Rightarrow> nat \<Rightarrow> string" where
  "dot3 a b c = join ''.'' (map str_nat [a, b, c])"

lemma str_nat_plain: "x \<in> set (str_nat n) \<Longrightarrow> x \<noteq> CHR ''.'' \<and> x \<noteq> CHR ''-'' \<and> isdigit x"
  using str_nat_decimal [of x n] by (auto simp: isdecimal_isdigit isdecimal_def)

lemma version_part_number:
  assumes "t = [] \<or> \<not> isdigit (hd t)"
  shows "version_part (str_nat n @ t) = Some n"
proof -
  have "takeWhile isdigit (str_nat n @ t) = str_nat n"
    using assms str_nat_plain [of _ n] by (cases t) (auto simp: takeWhile_append)
  then show ?thesis by (simp add: version_part_def)
qed

lemma before_rc_none: "CHR ''-'' \<notin> set s \<Longrightarrow> before_rc (s @ t) = s @ before_rc t"
  by (induction s) (auto simp: startswith_def)

lemma dot3_plain: "x \<in> set (dot3 a b c) \<Longrightarrow> x = CHR ''.'' \<or> isdigit x \<and> x \<noteq> CHR ''-''"
  using str_nat_plain by (auto simp: dot3_def)

lemma dot3_no_dash: "CHR ''-'' \<notin> set (dot3 a b c)"
  using dot3_plain [of "CHR ''-''" a b c] by auto

text \<open>What follows a version: nothing, or a release candidate.\<close>

definition rc_suffix :: "string \<Rightarrow> bool" where
  "rc_suffix t \<longleftrightarrow> t = [] \<or> startswith t ''-rc''"

lemma before_rc_suffix: "rc_suffix t \<Longrightarrow> before_rc t = []"
  by (cases t) (auto simp: rc_suffix_def)

lemma version_tuple_dot3:
  assumes "rc_suffix t"
  shows "version_tuple (dot3 a b c @ t) = Some (a, b, c)"
proof -
  have "before_rc (dot3 a b c @ t) = dot3 a b c"
    using before_rc_none [OF dot3_no_dash] before_rc_suffix [OF assms] by simp
  moreover have "split_on CHR ''.'' (dot3 a b c) = map str_nat [a, b, c]"
    unfolding dot3_def using str_nat_plain by (intro split_on_join) auto
  ultimately show ?thesis using version_part_number [of "[]"] by (simp add: version_tuple_def)
qed

text \<open>The rungs of the two ladders, as numbers.\<close>

lemma ladder_floors:
  "floor_tuple ''5.4.0'' = (5, 4, 0)" "floor_tuple ''5.4.21'' = (5, 4, 21)" "floor_tuple ''5.4.22'' = (5, 4, 22)"
  "floor_tuple ''5.10.0'' = (5, 10, 0)" "floor_tuple ''6.1.0'' = (6, 1, 0)" "floor_tuple ''6.6.0'' = (6, 6, 0)"
  "floor_tuple ''6.12.0'' = (6, 12, 0)" "floor_tuple ''6.18.0'' = (6, 18, 0)" "floor_tuple ''6.19.0'' = (6, 19, 0)"
  by code_simp+

lemma ubuntu_floors:
  "floor_tuple ''4.15.0'' = (4, 15, 0)" "floor_tuple ''5.0.0'' = (5, 0, 0)" "floor_tuple ''5.8.0'' = (5, 8, 0)"
  "floor_tuple ''5.11.0'' = (5, 11, 0)" "floor_tuple ''5.15.0'' = (5, 15, 0)" "floor_tuple ''5.19.0'' = (5, 19, 0)"
  "floor_tuple ''6.8.0'' = (6, 8, 0)" "floor_tuple ''6.10.0'' = (6, 10, 0)" "floor_tuple ''6.11.0'' = (6, 11, 0)"
  "floor_tuple ''6.15.0'' = (6, 15, 0)" "floor_tuple ''7.0.0'' = (7, 0, 0)"
  by code_simp+

text \<open>The last rung not above the version.\<close>

definition last_rung :: "nat \<times> nat \<times> nat \<Rightarrow> (string \<times> string) list \<Rightarrow> string option" where
  "last_rung v rungs =
     (let below = filter (\<lambda>(fl, _). floor_tuple fl \<le> v) rungs in if below = [] then None else Some (snd (List.last below)))"

lemma climb_sorted:
  "sorted (map (floor_tuple \<circ> fst) rungs) \<Longrightarrow>
   climb_ladder v chosen rungs = (case last_rung v rungs of None \<Rightarrow> chosen | Some s \<Rightarrow> Some s)"
proof (induction rungs arbitrary: chosen)
  case Nil
  then show ?case by (simp add: last_rung_def)
next
  case (Cons r rs)
  obtain fl stem where r: "r = (fl, stem)" by fastforce
  show ?case
  proof (cases "floor_tuple fl \<le> v")
    case True
    have "last_rung v (r # rs) = Some (get_or stem (last_rung v rs))"
      using True r by (auto simp: last_rung_def Let_def)
    then show ?thesis using Cons True r by (auto simp: get_or_def split: option.split)
  next
    case False
    then have "filter (\<lambda>(fl, _). floor_tuple fl \<le> v) rs = []"
      using Cons.prems r by (fastforce simp: filter_empty_conv)
    then show ?thesis using False r by (simp add: last_rung_def)
  qed
qed

subsection \<open>Properties\<close>



text \<open>
  An Ubuntu kernel has a series from 4.15.0 on, except 4.15.0 itself below ABI 20.
\<close>

definition has_fallback :: "string \<times> (nat \<times> string) list \<times> string \<Rightarrow> bool" where
  "has_fallback band \<longleftrightarrow> 0 \<in> fst ` set (fst (snd band))"

lemma ubuntu_climb_some:
  "lad \<noteq> [] \<Longrightarrow> list_all has_fallback lad \<Longrightarrow> \<not> v < floor_tuple (fst (hd lad)) \<Longrightarrow> ubuntu_climb v (Some n) lad \<noteq> None"
proof (induction lad rule: list.induct)
  case (Cons band rest)
  obtain fl by_abi later where band: "band = (fl, by_abi, later)" by (cases band) auto
  obtain stem where "(0, stem) \<in> set by_abi" using Cons.prems(2) band by (auto simp: has_fallback_def)
  then have "List.find (\<lambda>(m, _). m \<le> n) by_abi \<noteq> None" unfolding find_None_iff by force
  then have "band_series fl by_abi (Some n) \<noteq> None" by (auto simp: band_series_def)
  then show ?case using Cons band by (auto simp: not_less)
qed simp

lemma ubuntu_climb_none:
  "ubuntu_climb (a, b, c) (Some n) UBUNTU_LDISKFS_LADDER = None \<longleftrightarrow> a < 4 \<or> a = 4 \<and> b < 15 \<or> (a, b, c) = (4, 15, 0) \<and> n < 20"
proof -
  obtain rest where lad: "UBUNTU_LDISKFS_LADDER =
      (''4.15.0'', [(24, ''4.15.0-24-ubuntu18''), (20, ''4.15.0-20-ubuntu18'')], ''4.15.0-24-ubuntu18'') # rest"
    and rest: "rest \<noteq> []" "fst (hd rest) = ''5.0.0''"
    unfolding UBUNTU_LDISKFS_LADDER_def by simp
  have "list_all has_fallback (tl UBUNTU_LDISKFS_LADDER)" by code_simp
  then have "list_all has_fallback rest" unfolding lad list.sel .
  then have up: "ubuntu_climb (a, b, c) (Some n) rest \<noteq> None" if "(5, 0, 0) \<le> (a, b, c)"
    using ubuntu_climb_some [OF rest(1), of "(a, b, c)" n] that rest(2) by (auto simp: ubuntu_floors not_less)
  have low: "band_series ''4.15.0'' [(24, s), (20, t)] (Some n) = None \<longleftrightarrow> n < 20" for s t
    by (simp add: band_series_def)
  show ?thesis
  proof (cases "(5, 0, 0) \<le> (a, b, c)")
    case True
    then have "a \<ge> 5" by auto
    with True up show ?thesis by (simp add: lad rest ubuntu_floors)
  next
    case False
    then have "a < 5" by auto
    then show ?thesis by (auto simp: lad rest ubuntu_floors low)
  qed
qed

theorem ubuntu_series_domain:
  "\<exists>r. ubuntu_ldiskfs_series (dot3 a b c @ ''-'' @ str_nat n @ ''-'' @ flavour) = Some r \<and>
    (r = None \<longleftrightarrow> a < 4 \<or> a = 4 \<and> b < 15 \<or> (a, b, c) = (4, 15, 0) \<and> n < 20)"
proof -
  have dig: "str_isdigit (str_nat n)" using str_nat_plain [of _ n] by (auto simp: str_isdigit_def list_all_iff)
  have "split_on CHR ''-'' (dot3 a b c @ ''-'' @ str_nat n @ ''-'' @ flavour) = dot3 a b c # str_nat n # split_on CHR ''-'' flavour"
    using split_on_append [of "CHR ''-''" "dot3 a b c"] split_on_append [of "CHR ''-''" "str_nat n"] dot3_no_dash [of a b c] str_nat_plain [of _ n]
    by auto
  then show ?thesis
    using version_tuple_dot3 [of "[]" a b c] dig ubuntu_climb_none [of a b c n]
    by (simp add: ubuntu_ldiskfs_series_def Let_def rc_suffix_def)
qed

text \<open>
  C39.  A short kernel name that is no directory of its own stands for the built kernel with the highest
  version: the choice is one of the directories the name begins, and at the first number in which two
  of them differ the larger one wins, however many digits it has.
\<close>

theorem resolve_kernel_newest:
  assumes "resolve_kernel_dir (Some ds) name = Some d" "name \<notin> set ds"
    and "old = s @ x # str_nat m @ r1" "new = s @ x # str_nat n @ r2" "m < n"
    and "\<not> isdecimal x" "r1 = [] \<or> \<not> isdecimal (hd r1)" "r2 = [] \<or> \<not> isdecimal (hd r2)"
    and "{old, new} \<subseteq> set ds" "startswith old (name @ ''-'')" "startswith new (name @ ''-'')"
  shows "d \<in> set ds \<and> startswith d (name @ ''-'') \<and> d \<noteq> old \<and> kernel_newer d new"
proof -
  let ?found = "filter (\<lambda>d. startswith d (name @ ''-'')) ds"
  have mem: "old \<in> set ?found" "new \<in> set ?found" using assms(9-11) by auto
  then have ne: "?found \<noteq> []" by (metis empty_iff empty_set)
  note res = resolve_cases [OF assms(1,2) refl ne]
  have newer: "kernel_newer d new" using res(2) mem(2) by (auto simp: list_all_iff)
  moreover have "d \<noteq> old"
  proof
    assume d: "d = old"
    with newer obtain k k' where k: "kernel_dir_version_key old = Some k" "kernel_dir_version_key new = Some k'" "k' \<le> k"
      by (auto simp: kernel_newer_def split: option.split_asm)
    from key_less [OF assms(6-8,5), of s k k'] k assms(3,4) show False by simp
  qed
  ultimately show ?thesis using res(1) by auto
qed

theorem resolve_kernel_newest_witness:
  "\<exists>d. resolve_kernel_dir (Some [''9-9.0-89.el9'', ''9-9.0-155.el9'']) ''9'' = Some d \<and> d \<noteq> ''9-9.0-89.el9'' \<and> kernel_newer d ''9-9.0-155.el9''"
proof -
  have "resolve_kernel_dir (Some [''9-9.0-89.el9'', ''9-9.0-155.el9'']) ''9'' \<noteq> None" by code_simp
  then obtain d where d: "resolve_kernel_dir (Some [''9-9.0-89.el9'', ''9-9.0-155.el9'']) ''9'' = Some d" by auto
  have num: "''9-9.0-89.el9'' = ''9-9.0'' @ CHR ''-'' # str_nat 89 @ ''.el9''" "''9-9.0-155.el9'' = ''9-9.0'' @ CHR ''-'' # str_nat 155 @ ''.el9''" by code_simp+
  show ?thesis using resolve_kernel_newest [OF d _ num] d by (simp add: isdecimal_def startswith_def)
qed

end
