(* ===== verification/LustreCompat.thy ===== *)
theory LustreCompat
  imports KernelVersions NameReg
begin

text \<open>
  Which kernels a Lustre source tree supports (\<^verbatim>\<open>lustre_compat.py\<close>): the readers of the tree's
  declarations, the gate \<open>validate_target\<close> over them and the command's use of it.  Files of the tree are
  the texts \<^verbatim>\<open>read_text\<close> returns; the \<^verbatim>\<open>patch\<close> program is a parameter.
\<close>

subsection \<open>The tree, the target and the environment\<close>

datatype lustre_mode = SERVER_LDISKFS | SERVER_ZFS | CLIENT

record target_conf =
  tg_mode :: lustre_mode
  tg_default :: string
  tg_entries :: "string list"
  tg_upstream :: bool
  tg_deb_source :: string
  tg_os_family :: string
  tg_os_name :: string
  tg_os_version :: string

text \<open>The files of a Lustre tree by name: \<^verbatim>\<open>which_patch\<close>, \<^verbatim>\<open>ChangeLog\<close>, those of \<^verbatim>\<open>targets\<close>, the series
  files of ldiskfs if there is such a directory, and the patches they name.\<close>

record lustre_tree =
  lt_which_patch :: "string option"
  lt_changelog :: "string option"
  lt_targets :: "string \<Rightarrow> string option"
  lt_series :: "(string \<times> string) list option"
  lt_patch :: "string \<Rightarrow> string option"

text \<open>A kernel build tree: the version its artifact records, whether it is a directory, its files.\<close>

record build_tree =
  bt_version :: "string option"
  bt_is_dir :: bool
  bt_file :: "string \<Rightarrow> string option"

text \<open>GNU patch, if the host has it, as a function from the text of a patch and the files to its exit status and
  the files after it, \<open>None\<close> when it cannot be run; the version recorded by the last build of an
  upstream kernel; the depth at which Python gives up a recursion.\<close>

record compat_env =
  ce_gnu :: bool
  ce_run :: "string \<Rightarrow> (string \<Rightarrow> string option) \<Rightarrow> (int \<times> (string \<Rightarrow> string option)) option"
  ce_upstream :: "string option"
  ce_depth :: nat

datatype compat_error = FileMissing | BadText

subsection \<open>Readers\<close>

definition WHICH_PATCH_HEADER :: string where
  "WHICH_PATCH_HEADER = ''PATCH SERIES FOR SERVER KERNELS:''"

definition table_row_dict :: "(string, string) dict \<Rightarrow> string \<Rightarrow> (string, string) dict" where
  "table_row_dict d line = (case split_ws line of series # version # _ \<Rightarrow> dict_set d series version | _ \<Rightarrow> d)"

definition parse_which_patch :: "lustre_tree \<Rightarrow> (compat_error, (string, string) dict) result" where
  "parse_which_patch tree =
     (case lt_which_patch tree of
        None \<Rightarrow> Inl FileMissing
      | Some body \<Rightarrow>
          let lines = map strip (splitlines body);
              table = drop 1 (dropWhile (\<lambda>l. \<not> startswith l WHICH_PATCH_HEADER) lines);
              d = foldl table_row_dict [] (takeWhile (\<lambda>l. l \<noteq> []) table)
          in if d = [] then Inl BadText else Inr d)"

definition kver_char :: "char \<Rightarrow> bool" where
  "kver_char c \<longleftrightarrow> isalpha_ascii c \<or> isdecimal c \<or> c \<in> set ''_.+-''"

definition is_kernel_version :: "string \<Rightarrow> bool" where
  "is_kernel_version tok \<longleftrightarrow> tok \<noteq> [] \<and> isdecimal (hd tok) \<and> list_all kver_char tok \<and> contains ''.'' tok"

definition extract_version :: "string \<Rightarrow> string option" where
  "extract_version line =
     (let stripped = strip line; parts = split_ws stripped
      in if stripped = [] then None
         else if startswith stripped ''vanilla linux'' then
           (if length parts \<ge> 3 \<and> is_kernel_version (parts ! 2) then Some (parts ! 2) else None)
         else if is_kernel_version (hd parts) then Some (hd parts) else None)"

datatype kernel_list = ServerPrimary | ServerBest | ClientPrimary | ClientBest

definition HEADERS :: "(kernel_list \<times> string) list" where
  "HEADERS = [(ServerPrimary, ''server primary kernels''), (ServerBest, ''other server kernels''),
     (ClientPrimary, ''client primary kernels''), (ClientBest, ''other clients known'')]"

text \<open>The lists so far, the one the next version goes to, and whether a heading was seen.\<close>

record changelog =
  cl_lists :: "kernel_list \<Rightarrow> string list"
  cl_current :: "kernel_list option"
  cl_seen :: bool

definition changelog_line :: "changelog \<Rightarrow> string \<Rightarrow> changelog" where
  "changelog_line st line =
     (let stripped = strip line
      in if startswith stripped ''*'' then
           let bullet = lower (strip (drop 1 stripped));
               matched = map_option fst (List.find (\<lambda>(_, needle). contains needle bullet) HEADERS)
           in st\<lparr>cl_current := matched, cl_seen := cl_seen st \<or> matched \<noteq> None\<rparr>
         else
           (case (cl_current st, extract_version line) of
              (Some k, Some ver) \<Rightarrow> st\<lparr>cl_lists := (cl_lists st)(k := cl_lists st k @ [ver])\<rparr>
            | _ \<Rightarrow> st))"

definition top_entry :: "string list \<Rightarrow> string list" where
  "top_entry lines = take 1 lines @ takeWhile (\<lambda>l. l = [] \<or> isspace (hd l)) (drop 1 lines)"

definition parse_changelog :: "lustre_tree \<Rightarrow> (compat_error, kernel_list \<Rightarrow> string list) result" where
  "parse_changelog tree =
     (case lt_changelog tree of
        None \<Rightarrow> Inl FileMissing
      | Some body \<Rightarrow>
          let st = foldl changelog_line \<lparr>cl_lists = (\<lambda>_. []), cl_current = None, cl_seen = False\<rparr> (top_entry (splitlines body))
          in if cl_seen st then Inr (cl_lists st) else Inl BadText)"

subsection \<open>Shell variables of a target file\<close>

definition quote_mark :: "char \<Rightarrow> bool" where
  "quote_mark c \<longleftrightarrow> c = CHR 0x22 \<or> c = CHR 0x27"

definition opt_quote :: "string \<Rightarrow> string" where
  "opt_quote s = (if s \<noteq> [] \<and> quote_mark (hd s) then tl s else s)"

text \<open>The value of an assignment on a line: the shortest text without quotes after which only a quote and
  white space follow.\<close>

definition assigned :: "string \<Rightarrow> string \<Rightarrow> string option" where
  "assigned name line =
     (if startswith line (name @ ''='') then
        let v = opt_quote (drop (length name + 1) line)
        in map_option (\<lambda>n. take n v)
             (List.find (\<lambda>n. list_all (\<lambda>c. \<not> quote_mark c) (take n v) \<and> list_all isspace (opt_quote (drop n v))) [1..<length v + 1])
      else None)"

text \<open>\<^verbatim>\<open>\w\<close> among the characters up to 255.\<close>

definition word_char :: "char \<Rightarrow> bool" where
  "word_char c \<longleftrightarrow>
     (let n = (of_char c :: nat)
      in isalpha_ascii c \<or> isdigit c \<or> c = CHR ''_'' \<or> n \<in> {170, 181, 186, 188, 189, 190} \<or> 192 \<le> n \<and> n \<noteq> 215 \<and> n \<noteq> 247)"

definition ref_at :: "string \<Rightarrow> string option" where
  "ref_at s =
     (let w = takeWhile word_char (drop 2 s)
      in if startswith s ''${'' \<and> w \<noteq> [] \<and> startswith (drop (length w + 2) s) ''}'' then Some w else None)"

function subst_refs :: "(string \<Rightarrow> string option option) \<Rightarrow> string \<Rightarrow> string option" where
  "subst_refs f [] = Some []"
| "subst_refs f (c # cs) =
     (case ref_at (c # cs) of
        None \<Rightarrow> map_option ((#) c) (subst_refs f cs)
      | Some w \<Rightarrow>
          Option.bind (f w) (\<lambda>r.
            map_option ((@) (get_or (''${'' @ w @ ''}'') r)) (subst_refs f (drop (length w + 2) cs))))"
  by pat_completeness auto
termination
  by (relation "measure (\<lambda>(f, s). length s)") auto

text \<open>\<open>None\<close> when the recursion is given up.\<close>

fun shell_var :: "nat \<Rightarrow> string \<Rightarrow> string \<Rightarrow> string option option" where
  "shell_var 0 body name = None"
| "shell_var (Suc d) body name =
     (case List.map_filter (assigned name) (split_on CHR 0x0A body) of
        [] \<Rightarrow> Some None
      | v # _ \<Rightarrow> map_option Some (subst_refs (shell_var d body) (strip v)))"

record target_in =
  ti_lnxmaj :: string
  ti_lnxrel :: string
  ti_srpm :: string
  ti_series :: string
  ti_lnxmin :: string

definition or_default :: "string \<Rightarrow> string option \<Rightarrow> string" where
  "or_default d v = (if get_or [] v = [] then d else get_or [] v)"

definition parse_target_in :: "nat \<Rightarrow> lustre_tree \<Rightarrow> string \<Rightarrow> (compat_error, target_in) result option" where
  "parse_target_in depth tree series =
     (case (case lt_targets tree (series @ ''.target.in'') of Some body \<Rightarrow> Some body | None \<Rightarrow> lt_targets tree (series @ ''.target'')) of
        None \<Rightarrow> Some (Inl FileMissing)
      | Some body \<Rightarrow>
          Option.bind (shell_var depth body ''lnxmaj'') (\<lambda>maj.
          Option.bind (shell_var depth body ''lnxrel'') (\<lambda>rel.
            if get_or [] maj = [] \<or> get_or [] rel = [] then Some (Inl BadText)
            else
              Option.bind (shell_var depth body ''KERNEL_SRPM'') (\<lambda>srpm.
              Option.bind (shell_var depth body ''SERIES'') (\<lambda>ser.
              map_option (\<lambda>lmin. Inr
                \<lparr>ti_lnxmaj = get_or [] maj, ti_lnxrel = get_or [] rel,
                 ti_srpm = or_default (''kernel-'' @ get_or [] maj @ ''-'' @ get_or [] rel @ ''.src.rpm'') srpm,
                 ti_series = or_default (series @ ''.series'') ser, ti_lnxmin = or_default [] lmin\<rparr>)
                (shell_var depth body ''lnxmin''))))))"

subsection \<open>The ldiskfs series and their patches\<close>

definition series_stem :: "string \<Rightarrow> string" where
  "series_stem name = (if length name = 7 then name else take (length name - 7) name)"

definition parse_ldiskfs_series :: "lustre_tree \<Rightarrow> string list" where
  "parse_ldiskfs_series tree =
     (case lt_series tree of
        None \<Rightarrow> []
      | Some files \<Rightarrow> map series_stem (filter (\<lambda>n. endswith n ''.series'') (map fst files)))"

text \<open>\<open>None\<close> when the file cannot be read.\<close>

definition parse_ldiskfs_series_file :: "lustre_tree \<Rightarrow> string \<Rightarrow> string list option" where
  "parse_ldiskfs_series_file tree stem =
     map_option (\<lambda>body. filter (\<lambda>l. l \<noteq> [] \<and> \<not> startswith l ''#'') (map strip (splitlines body)))
       (Option.bind (lt_series tree) (\<lambda>files. dict_get files (stem @ ''.series'')))"

text \<open>The file a header line of a patch names, without its first directory.\<close>

definition patch_target :: "string \<Rightarrow> string option" where
  "patch_target line =
     (if startswith line ''+++ '' \<or> startswith line ''--- '' then
        let w = takeWhile (\<lambda>c. \<not> isspace c) (drop 4 line)
        in if w = [] then None
           else (case partition1 CHR ''/'' w of (seg, found, after) \<Rightarrow> Some (if seg \<noteq> [] \<and> found \<and> after \<noteq> [] then after else w))
      else None)"

definition stage_file :: "(string \<Rightarrow> string option) \<Rightarrow> (string \<Rightarrow> string option) \<Rightarrow> string \<Rightarrow> string \<Rightarrow> string option" where
  "stage_file src work rel =
     (if startswith rel ''/'' \<or> src rel = None \<or> work rel \<noteq> None then work else work(rel := src rel))"

definition stage_patch :: "(string \<Rightarrow> string option) \<Rightarrow> (string \<Rightarrow> string option) \<Rightarrow> string \<Rightarrow> string \<Rightarrow> string option" where
  "stage_patch src work body = foldl (stage_file src) work (List.map_filter patch_target (split_on CHR 0x0A body))"

fun apply_patches :: "compat_env \<Rightarrow> (string \<Rightarrow> string option) \<Rightarrow> (string \<times> string) list \<Rightarrow> bool \<times> string list" where
  "apply_patches env work [] = (True, [])"
| "apply_patches env work ((name, body) # rest) =
     (case ce_run env body work of
        None \<Rightarrow> (False, [name])
      | Some (rc, work') \<Rightarrow> if rc \<noteq> 0 then (False, [name]) else apply_patches env work' rest)"

definition dry_apply_patches :: "compat_env \<Rightarrow> (string \<Rightarrow> string option) \<Rightarrow> string list \<Rightarrow> (string \<Rightarrow> string option) \<Rightarrow> bool \<times> string list" where
  "dry_apply_patches env read patches src =
     (case List.find (\<lambda>p. read p = None) patches of
        Some p \<Rightarrow> (False, [p])
      | None \<Rightarrow>
          let bodies = map (\<lambda>p. get_or [] (read p)) patches
          in apply_patches env (foldl (stage_patch src) (\<lambda>_. None) bodies) (zip patches bodies))"

subsection \<open>The gate\<close>

datatype val_status = VOk | VBestEffort | VRefuse | VError

datatype matched_in = WhichPatchPrimary | LdiskfsSeries | ChangelogPrimary | ChangelogBestEffort | ChangelogClientPrimary
  | ChangelogClientBestEffort | UpstreamAhead | WhichPatchZstream | ChangelogZstream | NotListed

record validation =
  va_status :: val_status
  va_kver :: "string option"
  va_in :: "matched_in option"

definition kver_from_target_in :: "target_in \<Rightarrow> string" where
  "kver_from_target_in ti = ti_lnxmaj ti @ ti_lnxmin ti @ ''-'' @ ti_lnxrel ti"

definition lustre_tail :: "string \<Rightarrow> bool" where
  "lustre_tail s \<longleftrightarrow> startswith s ''_lustre'' \<and>
     (let r = drop 7 s in r = [] \<or> hd r = CHR ''-'' \<and> tl r \<noteq> [] \<and>
        list_all (\<lambda>c. c \<in> set ''abcdefghijklmnopqrstuvwxyz0123456789'') (tl r))"

fun drop_lustre :: "string \<Rightarrow> string" where
  "drop_lustre [] = []"
| "drop_lustre (c # cs) =
     (if lustre_tail (c # cs) then []
      else if c = CHR ''_'' \<and> cs \<noteq> [] \<and> List.last cs = CHR 0x0A \<and> lustre_tail (c # butlast cs) then [CHR 0x0A]
      else c # drop_lustre cs)"

definition built_kver :: "build_tree option \<Rightarrow> string option" where
  "built_kver bt =
     (case Option.bind bt bt_version of None \<Rightarrow> None | Some v \<Rightarrow> if v = [] then None else Some (drop_lustre v))"

definition distro_tokens :: "target_conf \<Rightarrow> string list" where
  "distro_tokens tc =
     (let major = fst (partition1 CHR ''.'' (tg_os_version tc));
          tokens = [tg_os_name tc @ major] @ (if tg_os_family tc = ''rhel'' then [''rhel'' @ major, ''el'' @ major] else [])
      in filter (\<lambda>t. t \<noteq> []) tokens)"

definition ldiskfs_series_matches :: "string list \<Rightarrow> string option \<Rightarrow> string list \<Rightarrow> string option" where
  "ldiskfs_series_matches stems majmin tokens =
     (case majmin of
        None \<Rightarrow> None
      | Some mm \<Rightarrow>
          let candidates = filter (\<lambda>s. startswith s (''ldiskfs-'' @ mm @ ''.'')) (sort (remdups stems));
              same_distro = filter (\<lambda>s. list_ex (\<lambda>t. contains t s) tokens) candidates
          in if candidates = [] then None
             else if tokens = [] then Some (hd candidates)
             else if same_distro = [] then None
             else Some (List.last same_distro))"

text \<open>A version at the end of a kernel name: two or three numbers, and perhaps a release candidate.\<close>

definition number_end :: "string \<Rightarrow> bool" where
  "number_end s \<longleftrightarrow> s \<noteq> [] \<and> list_all isdecimal s"

definition rc_end :: "string \<Rightarrow> bool" where
  "rc_end s \<longleftrightarrow> (let rest = dropWhile isdecimal s in takeWhile isdecimal s \<noteq> [] \<and>
     (rest = [] \<or> startswith rest ''-rc'' \<and> number_end (drop 3 rest)))"

definition upstream_ver :: "string \<Rightarrow> bool" where
  "upstream_ver s \<longleftrightarrow>
     (case number_then CHR ''.'' s of
        None \<Rightarrow> False
      | Some r \<Rightarrow> rc_end r \<or> (case number_then CHR ''.'' r of None \<Rightarrow> False | Some r' \<Rightarrow> rc_end r'))"

fun upstream_search :: "string \<Rightarrow> string option" where
  "upstream_search [] = None"
| "upstream_search (c # cs) = (if upstream_ver (c # cs) then Some (c # cs) else upstream_search cs)"

definition chop_newline :: "string \<Rightarrow> string" where
  "chop_newline s = (if s \<noteq> [] \<and> List.last s = CHR 0x0A then butlast s else s)"

definition upstream_kver :: "compat_env \<Rightarrow> string option \<Rightarrow> string option" where
  "upstream_kver env kname =
     (case upstream_search (chop_newline (get_or [] kname)) of
        Some v \<Rightarrow> Some v
      | None \<Rightarrow> if get_or [] (ce_upstream env) = [] then None else ce_upstream env)"

definition valid :: "val_status \<Rightarrow> string \<Rightarrow> matched_in \<Rightarrow> validation" where
  "valid st kver i = \<lparr>va_status = st, va_kver = Some kver, va_in = Some i\<rparr>"

text \<open>The kernel version to judge; \<open>Inl\<close> when the target file cannot be read.\<close>

definition target_kver :: "compat_env \<Rightarrow> target_conf \<Rightarrow> lustre_tree \<Rightarrow> build_tree option \<Rightarrow> string option \<Rightarrow> string
    \<Rightarrow> (compat_error, string) result option" where
  "target_kver env tc tree bt kname series =
     (if tg_upstream tc then Some (Inr (or_default series (upstream_kver env kname)))
      else if tg_deb_source tc \<noteq> [] then Some (Inr series)
      else map_option (res_map (\<lambda>ti. or_default (kver_from_target_in ti) (built_kver bt))) (parse_target_in (ce_depth env) tree series))"

text \<open>The series that stands for a kernel \<^verbatim>\<open>which_patch\<close> does not list: \<open>Some (Inl ())\<close> when the tree does
  not ship the one the version needs.\<close>

definition match_stem :: "target_conf \<Rightarrow> string list \<Rightarrow> string \<Rightarrow> string \<Rightarrow> (unit, string option) result option" where
  "match_stem tc stems series kver =
     (if tg_upstream tc \<or> tg_os_name tc = ''debian'' then
        map_option (\<lambda>m. case m of Some s \<Rightarrow> if s \<in> set stems then Inr (Some s) else Inl () | None \<Rightarrow> Inr None) (vanilla_ldiskfs_series kver)
      else if tg_os_name tc = ''ubuntu'' then
        map_option (\<lambda>m. case m of Some s \<Rightarrow> if s \<in> set stems then Inr (Some s) else Inl () | None \<Rightarrow> Inr None) (ubuntu_ldiskfs_series kver)
      else Some (Inr (ldiskfs_series_matches stems (case kver_majmin series of Some m \<Rightarrow> Some m | None \<Rightarrow> kver_majmin kver) (distro_tokens tc))))"

definition patches_testable :: "compat_env \<Rightarrow> build_tree option \<Rightarrow> bool" where
  "patches_testable env bt \<longleftrightarrow>
     (case bt of None \<Rightarrow> False | Some b \<Rightarrow> bt_is_dir b \<and> bt_file b ''fs/ext4/sysfs.c'' \<noteq> None \<and> ce_gnu env)"

definition series_verdict :: "compat_env \<Rightarrow> lustre_tree \<Rightarrow> build_tree option \<Rightarrow> string \<Rightarrow> string \<Rightarrow> validation option" where
  "series_verdict env tree bt kver stem =
     (if patches_testable env bt then
        map_option (\<lambda>patches.
            if fst (dry_apply_patches env (lt_patch tree) patches (bt_file (the bt))) then valid VOk kver LdiskfsSeries
            else valid VRefuse kver NotListed)
          (parse_ldiskfs_series_file tree stem)
      else Some (valid VOk kver LdiskfsSeries))"

definition validate_ldiskfs :: "compat_env \<Rightarrow> target_conf \<Rightarrow> lustre_tree \<Rightarrow> build_tree option \<Rightarrow> string \<Rightarrow> string \<Rightarrow> validation option" where
  "validate_ldiskfs env tc tree bt series kver =
     (case parse_which_patch tree of
        Inl _ \<Rightarrow> Some \<lparr>va_status = VError, va_kver = Some kver, va_in = None\<rparr>
      | Inr wp \<Rightarrow>
          (case dict_get wp (series @ ''.series'') of
             Some declared \<Rightarrow>
               Some (if kver_matches declared kver then valid VOk kver WhichPatchPrimary
                     else if same_rhel_minor declared kver then valid VBestEffort kver WhichPatchZstream
                     else valid VRefuse kver NotListed)
           | None \<Rightarrow>
               Option.bind (match_stem tc (parse_ldiskfs_series tree) series kver) (\<lambda>m.
                 case m of
                   Inr (Some stem) \<Rightarrow> series_verdict env tree bt kver stem
                 | _ \<Rightarrow> Some (valid VRefuse kver NotListed))))"

definition validate_changelog :: "(string \<Rightarrow> bool) \<Rightarrow> string \<Rightarrow> string list \<Rightarrow> string list \<Rightarrow> matched_in \<Rightarrow> matched_in \<Rightarrow> validation \<Rightarrow> validation" where
  "validate_changelog match kver primary best in_primary in_best otherwise =
     (if list_ex match primary then valid VOk kver in_primary
      else if list_ex match best then valid VBestEffort kver in_best
      else if list_ex (\<lambda>d. same_rhel_minor d kver) (primary @ best) then valid VBestEffort kver ChangelogZstream
      else otherwise)"

definition client_match :: "target_conf \<Rightarrow> string \<Rightarrow> string \<Rightarrow> bool" where
  "client_match tc kver declared \<longleftrightarrow>
     kver_matches declared kver \<or>
     tg_deb_source tc \<noteq> [] \<and> kver_majmin kver \<noteq> None \<and> kver_majmin declared = kver_majmin kver"

definition validate_kver :: "compat_env \<Rightarrow> target_conf \<Rightarrow> lustre_tree \<Rightarrow> build_tree option \<Rightarrow> string \<Rightarrow> string \<Rightarrow> validation option" where
  "validate_kver env tc tree bt series kver =
     (case tg_mode tc of
        SERVER_LDISKFS \<Rightarrow> validate_ldiskfs env tc tree bt series kver
      | SERVER_ZFS \<Rightarrow>
          (case parse_changelog tree of
             Inl _ \<Rightarrow> Some \<lparr>va_status = VError, va_kver = Some kver, va_in = None\<rparr>
           | Inr cl \<Rightarrow>
               Some (validate_changelog (\<lambda>d. kver_matches d kver) kver (cl ServerPrimary) (cl ServerBest) ChangelogPrimary ChangelogBestEffort
                 (valid VRefuse kver NotListed)))
      | CLIENT \<Rightarrow>
          (case parse_changelog tree of
             Inl _ \<Rightarrow> Some \<lparr>va_status = VError, va_kver = Some kver, va_in = None\<rparr>
           | Inr cl \<Rightarrow>
               Some (validate_changelog (client_match tc kver) kver (cl ClientPrimary) (cl ClientBest) ChangelogClientPrimary ChangelogClientBestEffort
                 (if tg_upstream tc then valid VBestEffort kver UpstreamAhead else valid VRefuse kver NotListed))))"

definition target_series :: "target_conf \<Rightarrow> string option \<Rightarrow> string" where
  "target_series tc kname = (if get_or [] kname = [] then tg_default tc else short_kernel_name (tg_entries tc) (get_or [] kname))"

text \<open>\<open>None\<close> is an exception that leaves the function.\<close>

definition validate_target :: "compat_env \<Rightarrow> target_conf \<Rightarrow> lustre_tree \<Rightarrow> build_tree option \<Rightarrow> string option \<Rightarrow> validation option" where
  "validate_target env tc tree bt kname =
     (let series = target_series tc kname
      in Option.bind (target_kver env tc tree bt kname series) (\<lambda>r.
           case r of
             Inl _ \<Rightarrow> Some \<lparr>va_status = VError, va_kver = None, va_in = None\<rparr>
           | Inr kver \<Rightarrow> validate_kver env tc tree bt series kver))"

text \<open>Whether a build goes on.\<close>

definition gate_lustre_validation :: "bool \<Rightarrow> validation \<Rightarrow> bool" where
  "gate_lustre_validation force v =
     (case va_status v of VOk \<Rightarrow> True | VBestEffort \<Rightarrow> True | VRefuse \<Rightarrow> force | VError \<Rightarrow> False)"

subsection \<open>Lemmas: the gate\<close>

text \<open>The patches, read one by one, apply in turn, each to what the ones before it left.\<close>

definition applies_cleanly :: "compat_env \<Rightarrow> (string \<Rightarrow> string option) \<Rightarrow> string list \<Rightarrow> (string \<Rightarrow> string option) \<Rightarrow> bool" where
  "applies_cleanly env read patches work \<longleftrightarrow>
     (\<exists>works. length works = length patches + 1 \<and> hd works = work \<and>
        (\<forall>i < length patches. \<exists>body. read (patches ! i) = Some body \<and> ce_run env body (works ! i) = Some (0, works ! Suc i)))"

lemma applies_Nil: "applies_cleanly env read [] work"
  unfolding applies_cleanly_def by (rule exI [of _ "[work]"]) simp

lemma applies_Cons:
  assumes "read p = Some body" "ce_run env body work = Some (0, work')" "applies_cleanly env read ps work'"
  shows "applies_cleanly env read (p # ps) work"
proof -
  obtain works where w: "length works = length ps + 1" "hd works = work'"
    "\<forall>i < length ps. \<exists>body. read (ps ! i) = Some body \<and> ce_run env body (works ! i) = Some (0, works ! Suc i)"
    using assms(3) unfolding applies_cleanly_def by blast
  then have first: "works ! 0 = work'" by (cases works) auto
  have "\<exists>body. read ((p # ps) ! i) = Some body \<and> ce_run env body ((work # works) ! i) = Some (0, (work # works) ! Suc i)" if "i < length (p # ps)" for i
    using that assms(1,2) w(3) first by (cases i) auto
  then show ?thesis unfolding applies_cleanly_def using w(1) by (intro exI [of _ "work # works"]) auto
qed

lemma apply_patches_clean:
  assumes "list_all (\<lambda>p. read p \<noteq> None) ps" "fst (apply_patches env work (zip ps (map (\<lambda>p. get_or [] (read p)) ps)))"
  shows "applies_cleanly env read ps work"
  using assms
proof (induction ps arbitrary: work)
  case Nil
  show ?case by (rule applies_Nil)
next
  case (Cons p ps)
  then obtain body where body: "read p = Some body" by auto
  with Cons.prems(2) obtain work' where run: "ce_run env body work = Some (0, work')"
    "fst (apply_patches env work' (zip ps (map (\<lambda>p. get_or [] (read p)) ps)))"
    by (auto split: option.split_asm if_split_asm)
  show ?case using applies_Cons [of read p body env work work' ps, OF body run(1)] Cons.IH [of work'] Cons.prems(1) run(2) by simp
qed

lemma dry_apply_clean:
  assumes "fst (dry_apply_patches env read patches src)"
  shows "\<exists>work. applies_cleanly env read patches work"
proof -
  have found: "List.find (\<lambda>p. read p = None) patches = None" using assms by (auto simp: dry_apply_patches_def split: option.split_asm)
  then have "list_all (\<lambda>p. read p \<noteq> None) patches" by (auto simp: find_None_iff list_all_iff)
  from apply_patches_clean [OF this] assms found show ?thesis by (auto simp: dry_apply_patches_def Let_def)
qed

lemma sorted_filter_mem:
  "filter P (sort (remdups xs)) \<noteq> [] \<Longrightarrow> hd (filter P (sort (remdups xs))) \<in> set xs"
  "filter P (sort (remdups xs)) \<noteq> [] \<Longrightarrow> List.last (filter P (sort (remdups xs))) \<in> set xs"
  using hd_in_set [of "filter P (sort (remdups xs))"] last_in_set [of "filter P (sort (remdups xs))"] by auto

lemma series_matches_shipped:
  assumes "ldiskfs_series_matches stems mm tokens = Some s"
  shows "s \<in> set stems"
proof -
  obtain m where mm: "mm = Some m" using assms by (cases mm) (simp_all add: ldiskfs_series_matches_def)
  define P Q where "P = (\<lambda>s. startswith s (''ldiskfs-'' @ m @ ''.''))" and "Q = (\<lambda>s. list_ex (\<lambda>t. contains t s) tokens)"
  have "filter P (sort (remdups stems)) \<noteq> [] \<and> s = hd (filter P (sort (remdups stems))) \<or>
      filter Q (filter P (sort (remdups stems))) \<noteq> [] \<and> s = List.last (filter Q (filter P (sort (remdups stems))))"
    using assms unfolding mm ldiskfs_series_matches_def Let_def option.case P_def [symmetric] Q_def [symmetric]
    by (simp only: option.inject option.distinct split: if_split_asm) auto
  then show ?thesis using sorted_filter_mem [of _ stems] unfolding filter_filter by blast
qed

lemma match_stem_shipped: "match_stem tc stems series kver = Some (Inr (Some s)) \<Longrightarrow> s \<in> set stems"
  by (auto simp: match_stem_def dest: series_matches_shipped split: if_split_asm option.split_asm)

text \<open>What speaks for a kernel version in a tree: it is listed as tested or, for ldiskfs, there is a series of the
  tree whose patches apply where that can be tried; and what speaks for it weakly.\<close>

definition vouched :: "compat_env \<Rightarrow> target_conf \<Rightarrow> lustre_tree \<Rightarrow> build_tree option \<Rightarrow> string \<Rightarrow> string \<Rightarrow> bool" where
  "vouched env tc tree bt series kver \<longleftrightarrow>
     (case tg_mode tc of
        SERVER_LDISKFS \<Rightarrow>
          (\<exists>wp declared. parse_which_patch tree = Inr wp \<and> dict_get wp (series @ ''.series'') = Some declared \<and> kver_matches declared kver) \<or>
          (\<exists>stem \<in> set (parse_ldiskfs_series tree). patches_testable env bt \<longrightarrow>
             (\<exists>patches work. parse_ldiskfs_series_file tree stem = Some patches \<and> applies_cleanly env (lt_patch tree) patches work))
      | SERVER_ZFS \<Rightarrow> (\<exists>cl. parse_changelog tree = Inr cl \<and> (\<exists>d \<in> set (cl ServerPrimary). kver_matches d kver))
      | CLIENT \<Rightarrow> (\<exists>cl. parse_changelog tree = Inr cl \<and> (\<exists>d \<in> set (cl ClientPrimary). client_match tc kver d)))"

definition vouched_weakly :: "target_conf \<Rightarrow> lustre_tree \<Rightarrow> string \<Rightarrow> string \<Rightarrow> bool" where
  "vouched_weakly tc tree series kver \<longleftrightarrow>
     (case tg_mode tc of
        SERVER_LDISKFS \<Rightarrow>
          (\<exists>wp declared. parse_which_patch tree = Inr wp \<and> dict_get wp (series @ ''.series'') = Some declared \<and> same_rhel_minor declared kver)
      | SERVER_ZFS \<Rightarrow>
          (\<exists>cl. parse_changelog tree = Inr cl \<and>
             ((\<exists>d \<in> set (cl ServerBest). kver_matches d kver) \<or> (\<exists>d \<in> set (cl ServerPrimary @ cl ServerBest). same_rhel_minor d kver)))
      | CLIENT \<Rightarrow>
          (\<exists>cl. parse_changelog tree = Inr cl \<and>
             (tg_upstream tc \<or> (\<exists>d \<in> set (cl ClientBest). client_match tc kver d) \<or> (\<exists>d \<in> set (cl ClientPrimary @ cl ClientBest). same_rhel_minor d kver))))"

lemma valid_simps [simp]: "va_status (valid s k i) = s" "va_kver (valid s k i) = Some k" "va_in (valid s k i) = Some i"
  by (simp_all add: valid_def)

lemma series_verdict_ok:
  assumes "series_verdict env tree bt kver stem = Some v" "stem \<in> set (parse_ldiskfs_series tree)" "va_status v = VOk"
  shows "\<exists>stem \<in> set (parse_ldiskfs_series tree). patches_testable env bt \<longrightarrow>
    (\<exists>patches work. parse_ldiskfs_series_file tree stem = Some patches \<and> applies_cleanly env (lt_patch tree) patches work)"
  using assms dry_apply_clean [of env "lt_patch tree" _ "bt_file (the bt)"]
  by (fastforce simp: series_verdict_def split: if_split_asm)

lemma series_verdict_cases: "series_verdict env tree bt kver stem = Some v \<Longrightarrow> va_status v \<in> {VOk, VRefuse} \<and> va_kver v = Some kver"
  by (auto simp: series_verdict_def split: if_split_asm)

lemma validate_ldiskfs_sound:
  assumes "validate_ldiskfs env tc tree bt series kver = Some v" "tg_mode tc = SERVER_LDISKFS"
  shows "va_kver v = Some kver" "va_status v = VOk \<Longrightarrow> vouched env tc tree bt series kver"
    "va_status v = VBestEffort \<Longrightarrow> vouched_weakly tc tree series kver"
proof -
  have "va_kver v = Some kver \<and> (va_status v = VOk \<longrightarrow> vouched env tc tree bt series kver)
    \<and> (va_status v = VBestEffort \<longrightarrow> vouched_weakly tc tree series kver)"
  proof (cases "parse_which_patch tree")
    case (Inl e)
    then show ?thesis using assms(1) by (auto simp: validate_ldiskfs_def)
  next
    case (Inr wp)
    show ?thesis
    proof (cases "dict_get wp (series @ ''.series'')")
      case (Some declared)
      then show ?thesis using assms Inr by (auto simp: validate_ldiskfs_def vouched_def vouched_weakly_def split: if_split_asm)
    next
      case None
      then obtain m where m: "match_stem tc (parse_ldiskfs_series tree) series kver = Some m"
        "(case m of Inr (Some stem) \<Rightarrow> series_verdict env tree bt kver stem | _ \<Rightarrow> Some (valid VRefuse kver NotListed)) = Some v"
        using assms(1) Inr by (auto simp: validate_ldiskfs_def bind_eq_Some_conv)
      show ?thesis
      proof (cases "\<exists>stem. m = Inr (Some stem)")
        case True
        then obtain stem where stem: "series_verdict env tree bt kver stem = Some v" "stem \<in> set (parse_ldiskfs_series tree)"
          using m match_stem_shipped by auto
        show ?thesis
          using series_verdict_ok [OF stem] series_verdict_cases [OF stem(1)] assms(2) by (auto simp: vouched_def)
      next
        case False
        then show ?thesis using m(2) by (auto split: sum.split_asm option.split_asm)
      qed
    qed
  qed
  then show "va_kver v = Some kver" "va_status v = VOk \<Longrightarrow> vouched env tc tree bt series kver"
    "va_status v = VBestEffort \<Longrightarrow> vouched_weakly tc tree series kver" by auto
qed

lemma validate_changelog_sound:
  assumes "validate_changelog match kver primary best inp inb otherwise = v" "va_kver otherwise = Some kver" "va_status otherwise \<noteq> VOk"
  shows "va_kver v = Some kver" "va_status v = VOk \<Longrightarrow> \<exists>d \<in> set primary. match d"
    "va_status v = VBestEffort \<Longrightarrow> (\<exists>d \<in> set best. match d) \<or> (\<exists>d \<in> set (primary @ best). same_rhel_minor d kver) \<or> v = otherwise"
  using assms by (auto simp: validate_changelog_def list_ex_iff split: if_split_asm)

lemma validate_kver_sound:
  assumes "validate_kver env tc tree bt series kver = Some v"
  shows "va_kver v = Some kver" "va_status v = VOk \<Longrightarrow> vouched env tc tree bt series kver"
    "va_status v = VBestEffort \<Longrightarrow> vouched_weakly tc tree series kver"
proof -
  have "va_kver v = Some kver \<and> (va_status v = VOk \<longrightarrow> vouched env tc tree bt series kver)
    \<and> (va_status v = VBestEffort \<longrightarrow> vouched_weakly tc tree series kver)"
  proof (cases "tg_mode tc")
    case SERVER_LDISKFS
    with assms validate_ldiskfs_sound [of env tc tree bt series kver v] show ?thesis by (simp add: validate_kver_def)
  next
    case SERVER_ZFS
    show ?thesis
    proof (cases "parse_changelog tree")
      case (Inr cl)
      then have "validate_changelog (\<lambda>d. kver_matches d kver) kver (cl ServerPrimary) (cl ServerBest) ChangelogPrimary ChangelogBestEffort
          (valid VRefuse kver NotListed) = v"
        using assms SERVER_ZFS by (simp add: validate_kver_def)
      from validate_changelog_sound [OF this] SERVER_ZFS Inr show ?thesis by (auto simp: vouched_def vouched_weakly_def)
    qed (use assms SERVER_ZFS in \<open>auto simp: validate_kver_def\<close>)
  next
    case CLIENT
    show ?thesis
    proof (cases "parse_changelog tree")
      case (Inr cl)
      then have "validate_changelog (client_match tc kver) kver (cl ClientPrimary) (cl ClientBest) ChangelogClientPrimary ChangelogClientBestEffort
          (if tg_upstream tc then valid VBestEffort kver UpstreamAhead else valid VRefuse kver NotListed) = v"
        using assms CLIENT by (simp add: validate_kver_def)
      from validate_changelog_sound [OF this] CLIENT Inr show ?thesis by (auto simp: vouched_def vouched_weakly_def split: if_split_asm)
    qed (use assms CLIENT in \<open>auto simp: validate_kver_def\<close>)
  qed
  then show "va_kver v = Some kver" "va_status v = VOk \<Longrightarrow> vouched env tc tree bt series kver"
    "va_status v = VBestEffort \<Longrightarrow> vouched_weakly tc tree series kver" by auto
qed

lemma changelog_refuses:
  assumes "validate_kver env tc tree bt series kver = Some v" "va_status v = VRefuse" "tg_mode tc \<noteq> SERVER_LDISKFS"
  shows "\<not> vouched env tc tree bt series kver \<and> \<not> vouched_weakly tc tree series kver"
  using assms
  by (auto simp: validate_kver_def validate_changelog_def vouched_def vouched_weakly_def list_ex_iff
      split: lustre_mode.split_asm sum.split_asm if_split_asm)

lemma validate_target_kver:
  assumes "validate_target env tc tree bt kname = Some v" "va_status v \<noteq> VError"
  shows "\<exists>kver. validate_kver env tc tree bt (target_series tc kname) kver = Some v \<and>
    target_kver env tc tree bt kname (target_series tc kname) = Some (Inr kver)"
proof -
  obtain r where r: "target_kver env tc tree bt kname (target_series tc kname) = Some r"
    "(case r of Inl _ \<Rightarrow> Some \<lparr>va_status = VError, va_kver = None, va_in = None\<rparr>
      | Inr kver \<Rightarrow> validate_kver env tc tree bt (target_series tc kname) kver) = Some v"
    using assms(1) by (auto simp: validate_target_def Let_def bind_eq_Some_conv)
  with assms(2) show ?thesis by (cases r) auto
qed

subsection \<open>Properties of the gate\<close>


definition compat_env_example :: compat_env where
  "compat_env_example = \<lparr>ce_gnu = True, ce_run = (\<lambda>_ work. Some (0, work)), ce_upstream = None, ce_depth = 10\<rparr>"

definition rocky_example :: target_conf where
  "rocky_example = \<lparr>tg_mode = SERVER_LDISKFS, tg_default = ''5.14-rhel9.7'', tg_entries = [''5.14-rhel9.7''], tg_upstream = False,
     tg_deb_source = [], tg_os_family = ''rhel'', tg_os_name = ''rocky'', tg_os_version = ''9.7''\<rparr>"

definition lustre_tree_example :: "string list \<Rightarrow> lustre_tree" where
  "lustre_tree_example rows =
     \<lparr>lt_which_patch = Some (join [CHR 0x0A] (WHICH_PATCH_HEADER # rows)), lt_changelog = None,
      lt_targets = [''5.14-rhel9.7.target.in'' \<mapsto> join [CHR 0x0A] [''lnxmaj=5.14.0'', ''lnxrel=611.13.1.el9_7'']],
      lt_series = None, lt_patch = (\<lambda>_. None)\<rparr>"


text \<open>
  The docstring of \<^verbatim>\<open>_ldiskfs_series_matches\<close> promises the highest of several series of the distribution; the
  code takes the last one in the order of strings.
\<close>

theorem series_choice_not_highest:
  "ldiskfs_series_matches [''ldiskfs-5.14.0-70.13.1.el9'', ''ldiskfs-5.14.0-427.13.1.el9''] (Some ''5.14'') [''rocky9'', ''rhel9'', ''el9'']
     = Some ''ldiskfs-5.14.0-70.13.1.el9''"
  by code_simp

subsection \<open>Reading the declarations\<close>

text \<open>
  Variables of a target file resolve when their references do not go round, in as many steps as they are
  deep.
\<close>

lemma startswith_contains: "startswith s p \<Longrightarrow> contains p s"
  by (cases s) (auto simp: startswith_def)

lemma contains_drop: "contains p (drop n s) \<Longrightarrow> contains p s"
proof (induction n arbitrary: s)
  case (Suc n)
  then show ?case by (cases s) auto
qed simp

lemma ref_at_contains:
  assumes "ref_at s = Some w"
  shows "contains (''${'' @ w @ ''}'') s"
proof (rule startswith_contains)
  have w: "w = takeWhile word_char (drop 2 s)" "startswith s ''${''" "startswith (drop (length w + 2) s) ''}''"
    using assms by (auto simp: ref_at_def Let_def split: if_split_asm)
  obtain r where s: "s = ''${'' @ r" using w(2) by (metis startswith_def append_take_drop_id)
  obtain r' where r: "r = w @ r'" using w(1) s by (metis (no_types, lifting) append_eq_conv_conj takeWhile_dropWhile_id length_Cons list.size(3) numeral_2_eq_2 drop0 drop_Suc_Cons append_Cons append_Nil)
  obtain r'' where "r' = ''}'' @ r''" using w(3) by (metis startswith_def append_take_drop_id s r length_append append_eq_conv_conj add.commute drop_drop length_Cons list.size(3) numeral_2_eq_2)
  then show "startswith s (''${'' @ w @ ''}'')" using s r by (simp add: startswith_def)
qed

lemma subst_refs_some:
  "(\<And>w. contains (''${'' @ w @ ''}'') s \<Longrightarrow> f w \<noteq> None) \<Longrightarrow> subst_refs f s \<noteq> None"
proof (induction f s rule: subst_refs.induct)
  case (2 f c cs)
  show ?case
  proof (cases "ref_at (c # cs)")
    case None
    then show ?thesis using 2 by auto
  next
    case (Some w)
    then obtain r where r: "f w = Some r" using 2(3) ref_at_contains by blast
    moreover from r have "subst_refs f (drop (length w + 2) cs) \<noteq> None"
      using 2(2) [OF Some r] 2(3) contains_drop [of _ "length w + 2" cs] by auto
    ultimately show ?thesis using Some by auto
  qed
qed simp

theorem shell_var_returns:
  assumes "\<And>name v w. List.map_filter (assigned name) (split_on CHR 0x0A body) = v \<Longrightarrow> v \<noteq> [] \<Longrightarrow> contains (''${'' @ w @ ''}'') (strip (hd v)) \<Longrightarrow> rank w < rank name"
    and "rank name < depth"
  shows "shell_var depth body name \<noteq> None"
  using assms(2)
proof (induction depth arbitrary: name)
  case (Suc d)
  show ?case
  proof (cases "List.map_filter (assigned name) (split_on CHR 0x0A body)")
    case (Cons v vs)
    have "shell_var d body w \<noteq> None" if "contains (''${'' @ w @ ''}'') (strip v)" for w
      using Suc assms(1) [OF Cons, of w] that by fastforce
    from subst_refs_some [OF this] Cons show ?thesis by auto
  qed simp
qed simp

text \<open>The table of \<^verbatim>\<open>which_patch\<close>: a row has the series, the version and a label, and ends in no blank.\<close>

definition wp_row :: "string \<times> string \<times> string \<Rightarrow> string" where
  "wp_row = (\<lambda>(series, version, label). series @ '' '' @ version @ '' '' @ label)"

definition wp_row_ok :: "string \<times> string \<times> string \<Rightarrow> bool" where
  "wp_row_ok = (\<lambda>(series, version, label).
     series \<noteq> [] \<and> list_all (\<lambda>c. \<not> isspace c) series \<and> version \<noteq> [] \<and> list_all (\<lambda>c. \<not> isspace c) version \<and>
     label \<noteq> [] \<and> \<not> isspace (List.last label) \<and> list_all (\<lambda>c. \<not> islinebreak c) label)"

definition wp_text :: "string list \<Rightarrow> (string \<times> string \<times> string) list \<Rightarrow> string list \<Rightarrow> string" where
  "wp_text before rows after =
     concat (map (\<lambda>l. l @ [CHR 0x0A]) (before @ WHICH_PATCH_HEADER # map wp_row rows @ [] # after))"

lemma break_space: "islinebreak c \<Longrightarrow> isspace c"
  by (auto simp: islinebreak_def char_class_defs)

lemma wp_row_strip: "wp_row_ok r \<Longrightarrow> strip (wp_row r) = wp_row r"
  by (rule strip_clean) (auto simp: wp_row_ok_def wp_row_def list_all_iff hd_append split: prod.split_asm)

lemma wp_row_unbroken: "wp_row_ok r \<Longrightarrow> c \<in> set (wp_row r) \<Longrightarrow> \<not> islinebreak c"
  using break_space by (auto simp: wp_row_ok_def wp_row_def list_all_iff split: prod.split_asm) (auto simp: islinebreak_def)

lemma wp_row_read:
  assumes "wp_row_ok (s, v, l)"
  shows "table_row_dict d (wp_row (s, v, l)) = dict_set d s v"
proof -
  have sp: "isspace CHR 0x20" by (simp add: char_class_defs)
  have "split_ws (wp_row (s, v, l)) = s # v # split_ws l"
    using assms words_aux_head [of s "CHR 0x20" "[]" "v @ '' '' @ l"] words_aux_head [of v "CHR 0x20" "[]" l] sp
    by (simp add: wp_row_def wp_row_ok_def split_ws_def)
  then show ?thesis by (simp add: table_row_dict_def)
qed

lemma wp_rows_read:
  "list_all wp_row_ok rows \<Longrightarrow> distinct (map fst rows) \<Longrightarrow> set (map fst rows) \<inter> set (map fst d) = {} \<Longrightarrow>
   foldl table_row_dict d (map wp_row rows) = d @ map (\<lambda>(s, v, _). (s, v)) rows"
proof (induction rows arbitrary: d)
  case (Cons r rows)
  obtain s v l where r: "r = (s, v, l)" by (cases r) auto
  have "table_row_dict d (wp_row r) = d @ [(s, v)]"
    using Cons.prems r wp_row_read [of s v l d] dict_set_new [of s d v] by auto
  then show ?case using Cons.IH [of "d @ [(s, v)]"] Cons.prems r by auto
qed simp

text \<open>
  The table of kernels in \<^verbatim>\<open>which_patch\<close> reads back: whatever stands before the heading and after the blank line
  that ends it, every series is known with its version, without the label.
\<close>

theorem which_patch_roundtrip:
  assumes "lt_which_patch tree = Some (wp_text before rows after)" "rows \<noteq> []" "distinct (map fst rows)" "list_all wp_row_ok rows"
    and "list_all (\<lambda>l. list_all (\<lambda>c. \<not> islinebreak c) l) (before @ after)"
    and "list_all (\<lambda>l. \<not> startswith (strip l) WHICH_PATCH_HEADER) before"
  shows "parse_which_patch tree = Inr (map (\<lambda>(s, v, _). (s, v)) rows)"
proof -
  let ?lines = "before @ WHICH_PATCH_HEADER # map wp_row rows @ [] # after"
  have head: "list_all (\<lambda>c. \<not> islinebreak c) WHICH_PATCH_HEADER" "strip WHICH_PATCH_HEADER = WHICH_PATCH_HEADER" by code_simp+
  have "splitlines (wp_text before rows after) = ?lines"
    unfolding wp_text_def using assms(4,5) head(1) wp_row_unbroken by (intro splitlines_concat) (auto simp: list_all_iff)
  then have lines: "map strip (splitlines (wp_text before rows after)) = map strip before @ WHICH_PATCH_HEADER # map wp_row rows @ [] # map strip after"
    using assms(4) wp_row_strip head(2) by (auto simp: list_all_iff strip_def lstrip_def rstrip_def)
  have "dropWhile (\<lambda>l. \<not> startswith l WHICH_PATCH_HEADER) (map strip before @ WHICH_PATCH_HEADER # xs) = WHICH_PATCH_HEADER # xs" for xs
    using assms(6) by (subst dropWhile_append2) (auto simp: list_all_iff startswith_def)
  moreover have "takeWhile (\<lambda>l. l \<noteq> []) (map wp_row rows @ [] # map strip after) = map wp_row rows"
    using assms(4) by (subst takeWhile_append2) (auto simp: list_all_iff wp_row_def wp_row_ok_def)
  ultimately show ?thesis
    using assms(1,2) lines wp_rows_read [OF assms(4,3), of "[]"] by (simp add: parse_which_patch_def)
qed

theorem which_patch_roundtrip_witness:
  "parse_which_patch ((lustre_tree_example [])\<lparr>lt_which_patch := Some (wp_text [''notes''] [(''a.series'', ''5.14.0-1.el9'', ''(RHEL 9)'')] [''b.series 1''])\<rparr>)
     = Inr (map (\<lambda>(s, v, _). (s, v)) [(''a.series'', ''5.14.0-1.el9'', ''(RHEL 9)'')])"
proof (rule which_patch_roundtrip)
  show "lt_which_patch ((lustre_tree_example [])\<lparr>lt_which_patch := Some (wp_text [''notes''] [(''a.series'', ''5.14.0-1.el9'', ''(RHEL 9)'')] [''b.series 1''])\<rparr>)
      = Some (wp_text [''notes''] [(''a.series'', ''5.14.0-1.el9'', ''(RHEL 9)'')] [''b.series 1''])" by simp
qed code_simp+

end
