(* ===== verification/KeptBlocks.thy ===== *)
theory KeptBlocks
  imports LustreCompat ClusterConf
begin

text \<open>
  The marked blocks of \<^verbatim>\<open>cfg/local.sh\<close> that a deploy keeps (\<^verbatim>\<open>deploy.py\<close>): they are read before the file is
  replaced by the stock one and spliced back after.  The scripts for the guest are given by what their
  \<^verbatim>\<open>grep\<close>, \<^verbatim>\<open>sed\<close> and \<^verbatim>\<open>awk\<close> do to the text of the file; the markers hold no pattern characters.
\<close>

subsection \<open>Lines of a file\<close>

text \<open>The lines of a text with their newlines; the last may lack one.\<close>

fun chunks :: "string \<Rightarrow> string list" where
  "chunks [] = []"
| "chunks (c # cs) =
     (if c = CHR 0x0A then [c] # chunks cs
      else (case chunks cs of [] \<Rightarrow> [[c]] | w # ws \<Rightarrow> (c # w) # ws))"

definition awk_lines :: "string \<Rightarrow> string list" where
  "awk_lines t = map chop_newline (chunks t)"

text \<open>\<^verbatim>\<open>sed '/^B/,/^E/d'\<close>: a range goes to the end when no line ends it.\<close>

fun sed_delete :: "string \<Rightarrow> string \<Rightarrow> bool \<Rightarrow> string list \<Rightarrow> string list" where
  "sed_delete b e inside [] = []"
| "sed_delete b e inside (l # ls) =
     (if inside then sed_delete b e (\<not> startswith l e) ls
      else if startswith l b then sed_delete b e True ls
      else l # sed_delete b e False ls)"

text \<open>The \<^verbatim>\<open>awk\<close> program of \<^verbatim>\<open>splice_local_sh_block\<close>.\<close>

fun awk_splice :: "string \<Rightarrow> string \<Rightarrow> string list \<Rightarrow> bool \<Rightarrow> string list \<Rightarrow> string list" where
  "awk_splice b e block s [] = []"
| "awk_splice b e block s (l # ls) =
     (if startswith l b then block @ awk_splice b e block True ls
      else if startswith l e then awk_splice b e block False ls
      else if \<not> s then l # awk_splice b e block s ls
      else awk_splice b e block s ls)"

subsection \<open>Writing blocks\<close>

definition ENV_SAVED :: "string list" where
  "ENV_SAVED = [''MDSCOUNT'', ''OSTCOUNT'', ''FSTYPE'']"

definition ENV_SAVE_BEGIN :: string where
  "ENV_SAVE_BEGIN = ''# --- ltvm: target counts from the environment''"

definition ENV_SAVE_END :: string where
  "ENV_SAVE_END = ''# --- END ltvm: target counts from the environment''"

definition env_save_lines :: "string list" where
  "env_save_lines =
     (ENV_SAVE_BEGIN @ '' ---'') # map (\<lambda>v. ''_ltvm_env_'' @ v @ ''=${'' @ v @ ''-}'') ENV_SAVED @ [ENV_SAVE_END @ '' ---'']"

definition saves_env :: "string list \<Rightarrow> bool" where
  "saves_env ls \<longleftrightarrow> list_ex (\<lambda>l. startswith l (''_ltvm_env_'' @ List.last ENV_SAVED @ ''='')) ls"

definition ensure_env_save :: "string \<Rightarrow> string" where
  "ensure_env_save cfg =
     (if saves_env (chunks cfg) then cfg
      else unlines env_save_lines @ concat (sed_delete ENV_SAVE_BEGIN ENV_SAVE_END False (chunks cfg)))"

definition splice_local_sh_block :: "string \<Rightarrow> string \<Rightarrow> string \<Rightarrow> string \<Rightarrow> string" where
  "splice_local_sh_block cfg block b e =
     (let cfg1 = ensure_env_save cfg
      in if list_ex (\<lambda>l. startswith l b) (chunks cfg1)
         then unlines (awk_splice b e (awk_lines block) False (awk_lines cfg1))
         else cfg1 @ [CHR 0x0A] @ block)"

subsection \<open>Keeping blocks\<close>

definition kept_blocks :: "(string \<times> string) list" where
  "kept_blocks = [(''# --- OST count'', ''# --- END OST count''), (''# --- FSTYPE'', ''# --- END FSTYPE''),
     (''# --- Cluster configuration'', ''# --- END cluster configuration'')]"

definition find_block :: "string \<Rightarrow> string \<Rightarrow> string list \<Rightarrow> string list option" where
  "find_block b e lines =
     (case dropWhile (\<lambda>l. \<not> startswith l b) lines of
        [] \<Rightarrow> None
      | x # rest \<Rightarrow>
          (case dropWhile (\<lambda>l. \<not> startswith l e) rest of
             [] \<Rightarrow> None
           | z # _ \<Rightarrow> Some (x # takeWhile (\<lambda>l. \<not> startswith l e) rest @ [z])))"

text \<open>An older ltvm pinned FSTYPE outright.\<close>

definition fstype_migrate :: "string \<Rightarrow> string" where
  "fstype_migrate l =
     (let w = drop 7 l in if startswith l ''FSTYPE='' \<and> w \<noteq> [] \<and> list_all word_char w then fstype_line w else l)"

definition parse_kept_blocks :: "string \<Rightarrow> (string, string) dict" where
  "parse_kept_blocks body =
     List.map_filter (\<lambda>(b, e).
       map_option (\<lambda>ls. (b, unlines (if b = ''# --- FSTYPE'' then map fstype_migrate ls else ls))) (find_block b e (splitlines body)))
       kept_blocks"

definition restore_block :: "(string, string) dict \<Rightarrow> string set \<Rightarrow> string \<Rightarrow> string \<times> string \<Rightarrow> string" where
  "restore_block blocks skip cfg be =
     (case dict_get blocks (fst be) of
        Some block \<Rightarrow> if fst be \<in> skip then cfg else splice_local_sh_block cfg block (fst be) (snd be)
      | None \<Rightarrow> cfg)"

definition restore_kept_blocks :: "(string, string) dict \<Rightarrow> string set \<Rightarrow> string \<Rightarrow> string" where
  "restore_kept_blocks blocks skip cfg = foldl (restore_block blocks skip) cfg kept_blocks"

subsection \<open>Lemmas: files of whole lines\<close>

definition whole_lines :: "string list \<Rightarrow> bool" where
  "whole_lines ls \<longleftrightarrow> list_all (list_all (\<lambda>c. \<not> islinebreak c)) ls"

lemma whole_simps [simp]:
  "whole_lines []" "whole_lines (l # ls) \<longleftrightarrow> list_all (\<lambda>c. \<not> islinebreak c) l \<and> whole_lines ls"
  "whole_lines (ls @ ls') \<longleftrightarrow> whole_lines ls \<and> whole_lines ls'"
  by (simp_all add: whole_lines_def)

lemma chunks_line: "list_all (\<lambda>c. \<not> islinebreak c) l \<Longrightarrow> chunks (l @ CHR 0x0A # t) = (l @ [CHR 0x0A]) # chunks t"
  by (induction l) (auto simp: islinebreak_def)

lemma chunks_unlines: "whole_lines ls \<Longrightarrow> chunks (unlines ls) = map (\<lambda>l. l @ [CHR 0x0A]) ls"
  by (induction ls) (simp_all add: unlines_def chunks_line)

lemma awk_lines_unlines: "whole_lines ls \<Longrightarrow> awk_lines (unlines ls) = ls"
  by (simp add: awk_lines_def chunks_unlines chop_newline_def comp_def)

lemma startswith_line: "CHR 0x0A \<notin> set p \<Longrightarrow> startswith (l @ [CHR 0x0A]) p \<longleftrightarrow> startswith l p"
proof -
  assume p: "CHR 0x0A \<notin> set p"
  have "take (length p) (l @ [CHR 0x0A]) = p \<Longrightarrow> length p \<le> length l"
  proof (rule ccontr)
    assume t: "take (length p) (l @ [CHR 0x0A]) = p" and "\<not> length p \<le> length l"
    then have "take (length p) (l @ [CHR 0x0A]) = l @ [CHR 0x0A]" by simp
    with t have "p = l @ [CHR 0x0A]" by simp
    with p show False by simp
  qed
  moreover have "length (take (length p) l) = length p \<Longrightarrow> length p \<le> length l" by simp
  ultimately show ?thesis unfolding startswith_def by (metis append.right_neutral diff_is_0_eq' take0 take_append)
qed

lemma sed_delete_lines:
  "CHR 0x0A \<notin> set b \<Longrightarrow> CHR 0x0A \<notin> set e \<Longrightarrow>
   sed_delete b e inside (map (\<lambda>l. l @ [CHR 0x0A]) ls) = map (\<lambda>l. l @ [CHR 0x0A]) (sed_delete b e inside ls)"
  by (induction ls arbitrary: inside) (simp_all add: startswith_line)

lemma sed_delete_subset: "set (sed_delete b e inside ls) \<subseteq> set ls"
  by (induction ls arbitrary: inside) auto

lemma splitlines_whole_text: "whole_lines ls \<Longrightarrow> splitlines (unlines ls) = ls"
  unfolding unlines_def by (rule splitlines_concat) (auto simp: whole_lines_def list_all_iff)

lemma lines_aux_whole:
  "list_all (\<lambda>c. \<not> islinebreak c) acc \<Longrightarrow> whole_lines (lines_aux acc s)"
  by (induction acc s rule: lines_aux.induct) (auto simp: list_all_iff)

lemma splitlines_whole: "whole_lines (splitlines s)"
  unfolding splitlines_def by (rule lines_aux_whole) simp

text \<open>What saving the environment does to the lines.\<close>

definition env_lines :: "string list \<Rightarrow> string list" where
  "env_lines ls = (if saves_env ls then ls else env_save_lines @ sed_delete ENV_SAVE_BEGIN ENV_SAVE_END False ls)"

lemma env_save_facts:
  "whole_lines env_save_lines" "saves_env env_save_lines" "CHR 0x0A \<notin> set ENV_SAVE_BEGIN" "CHR 0x0A \<notin> set ENV_SAVE_END"
  "CHR 0x0A \<notin> set (''_ltvm_env_'' @ List.last ENV_SAVED @ ''='')"
  by code_simp+

lemma saves_env_append [simp]: "saves_env (ls @ ls') \<longleftrightarrow> saves_env ls \<or> saves_env ls'"
  by (simp add: saves_env_def)

lemma saves_env_lines: "saves_env (map (\<lambda>l. l @ [CHR 0x0A]) ls) \<longleftrightarrow> saves_env ls"
  unfolding saves_env_def using startswith_line [OF env_save_facts(5)] by (simp add: list_ex_iff)

lemma env_lines_whole: "whole_lines ls \<Longrightarrow> whole_lines (env_lines ls)"
  using env_save_facts(1) sed_delete_subset [of ENV_SAVE_BEGIN ENV_SAVE_END False ls]
  by (auto simp: env_lines_def whole_lines_def list_all_iff)

lemma ensure_env_save_lines:
  assumes "whole_lines ls"
  shows "ensure_env_save (unlines ls) = unlines (env_lines ls)"
  unfolding ensure_env_save_def env_lines_def chunks_unlines [OF assms] saves_env_lines sed_delete_lines [OF env_save_facts(3,4)]
  by (simp add: unlines_def)

lemma env_lines_saves: "saves_env (env_lines ls)"
  using env_save_facts(2) by (simp add: env_lines_def)

lemma env_lines_done: "env_lines (env_lines ls @ ls') = env_lines ls @ ls'"
  using env_lines_saves [of ls] by (simp add: env_lines_def [of "env_lines ls @ ls'"])

lemma splice_appends:
  assumes "whole_lines ls" "CHR 0x0A \<notin> set b" "\<not> list_ex (\<lambda>l. startswith l b) (env_lines ls)"
  shows "splice_local_sh_block (unlines ls) (unlines block) b e = unlines (env_lines ls @ [] # block)"
proof -
  have "\<not> list_ex (\<lambda>l. startswith l b) (chunks (unlines (env_lines ls)))"
    using assms(3) by (simp add: chunks_unlines [OF env_lines_whole [OF assms(1)]] list_ex_iff startswith_line [OF assms(2)])
  then show ?thesis using ensure_env_save_lines [OF assms(1)] by (simp add: splice_local_sh_block_def unlines_def)
qed

subsection \<open>Lemmas: the kept blocks\<close>

definition kept_marker :: "string \<Rightarrow> bool" where
  "kept_marker l \<longleftrightarrow> list_ex (\<lambda>(b, e). startswith l b \<or> startswith l e) kept_blocks"

lemma startswith_both: "startswith x p \<Longrightarrow> startswith x q \<Longrightarrow> startswith p q \<or> startswith q p"
  by (metis startswith_def append_take_drop_id le_cases min.absorb1 take_take)

text \<open>No marker begins another one, and none holds a line break.\<close>

lemma markers_apart:
  "list_all (\<lambda>(b, e). list_all (\<lambda>(b', e'). (b = b' \<or> \<not> startswith b b' \<and> \<not> startswith b' b) \<and> \<not> startswith b e' \<and> \<not> startswith e' b) kept_blocks) kept_blocks"
  "list_all (\<lambda>(b, e). CHR 0x0A \<notin> set b) kept_blocks" "distinct (map fst kept_blocks)"
  "list_all (\<lambda>l. \<not> kept_marker l) env_save_lines" "list_all (\<lambda>(b, e). startswith b ''# --- '' \<and> startswith e ''# --- '') kept_blocks"
  by code_simp+

lemma begin_unique: "(b, e) \<in> set kept_blocks \<Longrightarrow> (b', e') \<in> set kept_blocks \<Longrightarrow> startswith x b \<Longrightarrow> startswith x b' \<Longrightarrow> b = b'"
  using markers_apart(1) startswith_both [of x b b'] by (fastforce simp: list_all_iff)

lemma end_not_begin: "(b, e) \<in> set kept_blocks \<Longrightarrow> (b', e') \<in> set kept_blocks \<Longrightarrow> startswith x b \<Longrightarrow> \<not> startswith x e'"
  using markers_apart(1) startswith_both [of x b e'] by (fastforce simp: list_all_iff)

lemma env_lines_unmarked: "list_all (\<lambda>l. \<not> kept_marker l) ls \<Longrightarrow> list_all (\<lambda>l. \<not> kept_marker l) (env_lines ls)"
  using markers_apart(4) sed_delete_subset [of ENV_SAVE_BEGIN ENV_SAVE_END False ls]
  by (auto simp: env_lines_def list_all_iff)

text \<open>A block begins and ends with its own markers and holds no other.\<close>

definition block_of :: "string \<Rightarrow> string \<Rightarrow> string list \<Rightarrow> bool" where
  "block_of b e ls \<longleftrightarrow> ls \<noteq> [] \<and> tl ls \<noteq> [] \<and> startswith (hd ls) b \<and> startswith (List.last ls) e \<and>
     list_all (\<lambda>l. \<not> kept_marker l) (butlast (tl ls)) \<and> whole_lines ls"

lemma block_parts:
  assumes "block_of b e ls"
  obtains x inner z where "ls = x # inner @ [z]" "startswith x b" "startswith z e" "list_all (\<lambda>l. \<not> kept_marker l) inner" "whole_lines ls"
  using assms that [of "hd ls" "butlast (tl ls)" "List.last ls"] unfolding block_of_def
  by (metis append_butlast_last_id last_tl list.collapse)

lemma unmarked_begin: "(b, e) \<in> set kept_blocks \<Longrightarrow> \<not> kept_marker l \<Longrightarrow> \<not> startswith l b \<and> \<not> startswith l e"
  by (auto simp: kept_marker_def list_ex_iff)

lemma other_begin:
  assumes "block_of b e ls" "(b, e) \<in> set kept_blocks" "(b', e') \<in> set kept_blocks" "b \<noteq> b'" "l \<in> set ls"
  shows "\<not> startswith l b'"
proof -
  obtain x inner z where p: "ls = x # inner @ [z]" "startswith x b" "startswith z e" "list_all (\<lambda>l. \<not> kept_marker l) inner"
    using block_parts [OF assms(1)] by blast
  then consider "l = x" | "l \<in> set inner" | "l = z" using assms(5) by auto
  then show ?thesis
  proof cases
    case 1
    then show ?thesis using begin_unique [OF assms(2,3)] p(2) assms(4) by blast
  next
    case 2
    then show ?thesis using unmarked_begin [OF assms(3)] p(4) by (auto simp: list_all_iff)
  next
    case 3
    then show ?thesis using end_not_begin [OF assms(3,2)] p(3) by blast
  qed
qed

lemma find_block_here:
  assumes "block_of b e ls" "(b, e) \<in> set kept_blocks" "list_all (\<lambda>l. \<not> startswith l b) before"
  shows "find_block b e (before @ ls @ after) = Some ls"
proof -
  obtain x inner z where p: "ls = x # inner @ [z]" "startswith x b" "startswith z e" "list_all (\<lambda>l. \<not> kept_marker l) inner"
    using block_parts [OF assms(1)] by blast
  have inner: "\<forall>l \<in> set inner. \<not> startswith l e" using p(4) unmarked_begin [OF assms(2)] by (auto simp: list_all_iff)
  have "dropWhile (\<lambda>l. \<not> startswith l b) (before @ ls @ after) = x # inner @ z # after"
    using assms(3) p by (subst dropWhile_append2) (auto simp: list_all_iff)
  moreover have "dropWhile (\<lambda>l. \<not> startswith l e) (inner @ z # after) = z # after" "takeWhile (\<lambda>l. \<not> startswith l e) (inner @ z # after) = inner"
    using inner p(3) by (simp_all add: dropWhile_append2 takeWhile_append2)
  ultimately show ?thesis using p(1) by (simp add: find_block_def)
qed

lemma find_block_none: "list_all (\<lambda>l. \<not> startswith l b) ls \<Longrightarrow> find_block b e ls = None"
proof -
  assume "list_all (\<lambda>l. \<not> startswith l b) ls"
  then have "dropWhile (\<lambda>l. \<not> startswith l b) ls = []" by (simp add: list_all_iff)
  then show ?thesis unfolding find_block_def by (simp only: list.case)
qed

text \<open>Putting blocks back, on lines.\<close>

definition put_block :: "(string \<Rightarrow> string list option) \<Rightarrow> string list \<Rightarrow> string \<times> string \<Rightarrow> string list" where
  "put_block blk ls be = (case blk (fst be) of None \<Rightarrow> ls | Some block \<Rightarrow> env_lines ls @ [] # block)"

definition block_lines :: "(string \<Rightarrow> string list option) \<Rightarrow> string \<times> string \<Rightarrow> string list" where
  "block_lines blk be = (case blk (fst be) of None \<Rightarrow> [] | Some block \<Rightarrow> [] # block)"

definition blocks_ok :: "(string \<Rightarrow> string list option) \<Rightarrow> bool" where
  "blocks_ok blk \<longleftrightarrow> list_all (\<lambda>(b, e). case blk b of None \<Rightarrow> True | Some block \<Rightarrow> block_of b e block) kept_blocks"

lemma blocks_okD: "blocks_ok blk \<Longrightarrow> (b, e) \<in> set kept_blocks \<Longrightarrow> blk b = Some block \<Longrightarrow> block_of b e block"
  by (fastforce simp: blocks_ok_def list_all_iff split: option.split_asm)

lemma put_after_env: "foldl (put_block blk) (env_lines ls @ rest) ks = env_lines ls @ rest @ concat (map (block_lines blk) ks)"
proof (induction ks arbitrary: rest)
  case (Cons k ks)
  show ?case
  proof (cases "blk (fst k)")
    case None
    then show ?thesis using Cons by (simp add: put_block_def block_lines_def)
  next
    case (Some block)
    then have "put_block blk (env_lines ls @ rest) k = env_lines ls @ (rest @ [] # block)"
      by (simp add: put_block_def env_lines_done)
    then show ?thesis using Cons [of "rest @ [] # block"] Some by (simp add: block_lines_def)
  qed
qed simp

lemma put_blocks:
  "\<exists>base \<in> {ls, env_lines ls}. foldl (put_block blk) ls ks = base @ concat (map (block_lines blk) ks)"
proof (induction ks)
  case (Cons k ks)
  show ?case
  proof (cases "blk (fst k)")
    case None
    then show ?thesis using Cons by (simp add: put_block_def block_lines_def)
  next
    case (Some block)
    then have "put_block blk ls k = env_lines ls @ [] # block" "block_lines blk k = [] # block" by (simp_all add: put_block_def block_lines_def)
    then show ?thesis using put_after_env [of blk ls "[] # block" ks] by simp
  qed
qed simp

lemma begin_not_empty: "(b, e) \<in> set kept_blocks \<Longrightarrow> \<not> startswith [] b"
  using markers_apart(5) by (auto simp: list_all_iff startswith_def)

lemma env_lines_no_begin:
  assumes "(b, e) \<in> set kept_blocks" "list_all (\<lambda>l. \<not> startswith l b) ls"
  shows "list_all (\<lambda>l. \<not> startswith l b) (env_lines ls)"
  using assms markers_apart(4) unmarked_begin [OF assms(1)] sed_delete_subset [of ENV_SAVE_BEGIN ENV_SAVE_END False ls]
  by (auto simp: env_lines_def list_all_iff)

lemma restore_step:
  assumes "blocks_ok blk" "(b, e) \<in> set kept_blocks" "whole_lines ls" "list_all (\<lambda>l. \<not> startswith l b) ls"
    "(case dict_get blocks b of Some t \<Rightarrow> if b \<in> skip then None else Some t | None \<Rightarrow> None) = map_option unlines (blk b)"
  shows "restore_block blocks skip (unlines ls) (b, e) = unlines (put_block blk ls (b, e))"
proof (cases "blk b")
  case None
  then show ?thesis using assms(5) by (auto simp: restore_block_def put_block_def split: option.split_asm if_split_asm)
next
  case (Some block)
  have "CHR 0x0A \<notin> set b" using markers_apart(2) assms(2) by (auto simp: list_all_iff)
  moreover have "\<not> list_ex (\<lambda>l. startswith l b) (env_lines ls)"
    using env_lines_no_begin [OF assms(2,4)] by (auto simp: list_all_iff list_ex_iff)
  ultimately have "splice_local_sh_block (unlines ls) (unlines block) b e = unlines (env_lines ls @ [] # block)"
    using splice_appends [OF assms(3)] by blast
  then show ?thesis using assms(5) Some by (auto simp: restore_block_def put_block_def split: option.split_asm if_split_asm)
qed

lemma put_block_lines:
  assumes "blocks_ok blk" "(b, e) \<in> set kept_blocks" "whole_lines ls"
  shows "whole_lines (put_block blk ls (b, e))"
    and "(b', e') \<in> set kept_blocks \<Longrightarrow> b \<noteq> b' \<Longrightarrow> list_all (\<lambda>l. \<not> startswith l b') ls \<Longrightarrow> list_all (\<lambda>l. \<not> startswith l b') (put_block blk ls (b, e))"
proof -
  show "whole_lines (put_block blk ls (b, e))"
    using blocks_okD [OF assms(1,2)] assms(3) env_lines_whole [OF assms(3)] by (auto simp: put_block_def block_of_def split: option.split)
  assume b': "(b', e') \<in> set kept_blocks" "b \<noteq> b'" "list_all (\<lambda>l. \<not> startswith l b') ls"
  show "list_all (\<lambda>l. \<not> startswith l b') (put_block blk ls (b, e))"
    using env_lines_no_begin [OF b'(1,3)] b'(3) other_begin [OF blocks_okD [OF assms(1,2)] assms(2) b'(1,2)] begin_not_empty [OF b'(1)]
    by (auto simp: put_block_def list_all_iff split: option.split)
qed

lemma restore_blocks:
  assumes "blocks_ok blk" "set ks \<subseteq> set kept_blocks" "distinct (map fst ks)" "whole_lines ls"
    "list_all (\<lambda>(b, e). list_all (\<lambda>l. \<not> startswith l b) ls) ks"
    "\<And>b. (case dict_get blocks b of Some t \<Rightarrow> if b \<in> skip then None else Some t | None \<Rightarrow> None) = map_option unlines (blk b)"
  shows "foldl (restore_block blocks skip) (unlines ls) ks = unlines (foldl (put_block blk) ls ks)"
  using assms(2-5)
proof (induction ks arbitrary: ls)
  case (Cons k ks)
  obtain b e where k: "k = (b, e)" by fastforce
  have mem: "(b, e) \<in> set kept_blocks" using Cons.prems(1) k by auto
  have step: "restore_block blocks skip (unlines ls) k = unlines (put_block blk ls k)"
    using restore_step [OF assms(1) mem Cons.prems(3) _ assms(6)] Cons.prems(4) k by auto
  have "list_all (\<lambda>l. \<not> startswith l b') (put_block blk ls k)" if m: "(b', e') \<in> set ks" for b' e'
  proof -
    have "b' \<in> fst ` set ks" using m by force
    then have "b \<noteq> b'" using Cons.prems(2) k by auto
    moreover have "list_all (\<lambda>l. \<not> startswith l b') ls" using Cons.prems(4) m by (simp add: list_all_iff [of _ ks]) blast
    ultimately show ?thesis using put_block_lines(2) [OF assms(1) mem Cons.prems(3)] Cons.prems(1) m k by auto
  qed
  then have "list_all (\<lambda>(b', e'). list_all (\<lambda>l. \<not> startswith l b') (put_block blk ls k)) ks"
    unfolding list_all_iff [of _ ks] by auto
  then show ?case using Cons.IH [of "put_block blk ls k"] Cons.prems(1,2) put_block_lines(1) [OF assms(1) mem Cons.prems(3)] k step by simp
qed simp

text \<open>Reading what was put back.\<close>

lemma find_put_block:
  assumes "blocks_ok blk" "(b, e) \<in> set kept_blocks" "list_all (\<lambda>l. \<not> kept_marker l) ls"
  shows "find_block b e (foldl (put_block blk) ls kept_blocks) = blk b"
proof -
  obtain base where base: "base \<in> {ls, env_lines ls}" "foldl (put_block blk) ls kept_blocks = base @ concat (map (block_lines blk) kept_blocks)"
    using put_blocks by blast
  have unm: "list_all (\<lambda>l. \<not> startswith l b) base"
    using base(1) assms(3) env_lines_unmarked [OF assms(3)] unmarked_begin [OF assms(2)] by (auto simp: list_all_iff)
  obtain ks1 ks2 where ks: "kept_blocks = ks1 @ (b, e) # ks2" using assms(2) by (auto simp: in_set_conv_decomp)
  have other: "list_all (\<lambda>l. \<not> startswith l b) (concat (map (block_lines blk) ks))" if k: "set ks \<subseteq> set kept_blocks" "b \<notin> fst ` set ks" for ks
  proof -
    have "\<not> startswith l b" if l: "(b', e') \<in> set ks" "l \<in> set (block_lines blk (b', e'))" for b' e' l
    proof -
      have "b' \<noteq> b" using k(2) l(1) by force
      moreover have "(b', e') \<in> set kept_blocks" using k(1) l(1) by auto
      ultimately have "\<not> startswith l b" if "blk b' = Some block" "l \<in> set block" for block
        using other_begin [OF blocks_okD [OF assms(1) _ that(1)] _ assms(2) _ that(2)] by blast
      then show ?thesis
        using l(2) begin_not_empty [OF assms(2)] by (cases "blk b'") (auto simp: block_lines_def)
    qed
    then show ?thesis by (auto simp: list_all_iff)
  qed
  have "b \<notin> fst ` set ks1" "b \<notin> fst ` set ks2" using markers_apart(3) unfolding ks by auto
  then have sides: "list_all (\<lambda>l. \<not> startswith l b) (concat (map (block_lines blk) ks1))" "list_all (\<lambda>l. \<not> startswith l b) (concat (map (block_lines blk) ks2))"
    using other [of ks1] other [of ks2] unfolding ks by auto
  show ?thesis
  proof (cases "blk b")
    case None
    then have "block_lines blk (b, e) = []" by (simp add: block_lines_def)
    then have "list_all (\<lambda>l. \<not> startswith l b) (base @ concat (map (block_lines blk) kept_blocks))" using unm sides unfolding ks by simp
    then show ?thesis using find_block_none base(2) None by metis
  next
    case (Some block)
    then have "block_lines blk (b, e) = [] # block" by (simp add: block_lines_def)
    then have "base @ concat (map (block_lines blk) kept_blocks) =
        (base @ concat (map (block_lines blk) ks1) @ [[]]) @ block @ concat (map (block_lines blk) ks2)" unfolding ks by simp
    moreover have "list_all (\<lambda>l. \<not> startswith l b) (base @ concat (map (block_lines blk) ks1) @ [[]])"
      using unm sides(1) begin_not_empty [OF assms(2)] by simp
    ultimately show ?thesis using find_block_here [OF blocks_okD [OF assms(1,2) Some] assms(2)] base(2) Some by metis
  qed
qed

lemma put_blocks_whole:
  assumes "blocks_ok blk" "whole_lines ls"
  shows "whole_lines (foldl (put_block blk) ls kept_blocks)"
proof -
  have "whole_lines (foldl (put_block blk) ls ks)" if "set ks \<subseteq> set kept_blocks" for ks
    using that assms(2)
  proof (induction ks arbitrary: ls)
    case (Cons k ks)
    then show ?case using put_block_lines(1) [OF assms(1), of "fst k" "snd k" ls] by simp
  qed simp
  then show ?thesis by simp
qed

text \<open>The blocks of a file, with the old setting of FSTYPE brought up to date.\<close>

definition kept_lines :: "string \<Rightarrow> string \<times> string \<Rightarrow> string list option" where
  "kept_lines body be =
     map_option (\<lambda>ls. if fst be = ''# --- FSTYPE'' then map fstype_migrate ls else ls) (find_block (fst be) (snd be) (splitlines body))"

lemma parse_kept_lines:
  "parse_kept_blocks body = List.map_filter (\<lambda>be. map_option (\<lambda>ls. (fst be, unlines ls)) (kept_lines body be)) kept_blocks"
  unfolding parse_kept_blocks_def kept_lines_def option.map_comp comp_def case_prod_beta ..

lemma migrate_marker: "startswith l ''# --- '' \<Longrightarrow> fstype_migrate l = l"
  by (cases l) (auto simp: fstype_migrate_def startswith_def Let_def)

lemma migrate_line:
  assumes "fstype_migrate l \<noteq> l"
  shows "\<exists>w. fstype_migrate l = fstype_line w \<and> l = ''FSTYPE='' @ w"
proof -
  have "startswith l ''FSTYPE=''" "fstype_migrate l = fstype_line (drop 7 l)" using assms by (auto simp: fstype_migrate_def Let_def split: if_split_asm)
  moreover have "length ''FSTYPE='' = 7" by simp
  ultimately show ?thesis unfolding startswith_def by (metis append_take_drop_id)
qed

lemma fstype_line_stable: "fstype_migrate (fstype_line w) = fstype_line w"
proof -
  have "\<not> word_char CHR ''$''" by code_simp
  then show ?thesis by (simp add: fstype_migrate_def fstype_line_def Let_def)
qed

lemma migrate_idem: "fstype_migrate (fstype_migrate l) = fstype_migrate l"
  using migrate_line [of l] fstype_line_stable by metis

lemma marker_hash: "kept_marker l \<Longrightarrow> l \<noteq> [] \<and> hd l = CHR ''#''"
  by (cases l) (auto simp: kept_marker_def kept_blocks_def startswith_def)

lemma migrate_unmarked: "\<not> kept_marker l \<Longrightarrow> \<not> kept_marker (fstype_migrate l)"
  using migrate_line [of l] marker_hash [of "fstype_migrate l"] by (cases "fstype_migrate l = l") (auto simp: fstype_line_def)

lemma find_block_of:
  assumes "find_block b e ls = Some block" "whole_lines ls" "list_all (\<lambda>l. \<not> kept_marker l) (butlast (tl block))"
  shows "block_of b e block"
proof -
  obtain x rest where x: "dropWhile (\<lambda>l. \<not> startswith l b) ls = x # rest" using assms(1) by (cases "dropWhile (\<lambda>l. \<not> startswith l b) ls") (auto simp: find_block_def)
  obtain z after where z: "dropWhile (\<lambda>l. \<not> startswith l e) rest = z # after"
    using assms(1) x by (cases "dropWhile (\<lambda>l. \<not> startswith l e) rest") (auto simp: find_block_def)
  have block: "block = x # takeWhile (\<lambda>l. \<not> startswith l e) rest @ [z]" using assms(1) x z by (simp add: find_block_def)
  have "startswith x b" "startswith z e" using hd_dropWhile [of "\<lambda>l. \<not> startswith l b" ls] hd_dropWhile [of "\<lambda>l. \<not> startswith l e" rest] x z by auto
  moreover have "set (x # rest) \<subseteq> set ls" "set (z # after) \<subseteq> set rest" using set_dropWhileD x z by (metis subsetI)+
  moreover have "set (takeWhile (\<lambda>l. \<not> startswith l e) rest) \<subseteq> set rest" using set_takeWhileD by fastforce
  ultimately show ?thesis using block assms(2,3) by (auto simp: block_of_def whole_lines_def list_all_iff)
qed

lemma migrate_whole: "list_all (\<lambda>c. \<not> islinebreak c) l \<Longrightarrow> list_all (\<lambda>c. \<not> islinebreak c) (fstype_migrate l)"
  using migrate_line [of l] by (cases "fstype_migrate l = l") (auto simp: fstype_line_def islinebreak_def)

lemma startswith_trans:
  assumes "startswith x b" "startswith b p"
  shows "startswith x p"
proof -
  obtain q r where "x = b @ q" "b = p @ r" using assms unfolding startswith_def by (metis append_take_drop_id)
  then show ?thesis by simp
qed

lemma migrate_block:
  assumes "block_of b e block" "(b, e) \<in> set kept_blocks"
  shows "block_of b e (map fstype_migrate block)"
proof -
  obtain x inner z where p: "block = x # inner @ [z]" "startswith x b" "startswith z e" "list_all (\<lambda>l. \<not> kept_marker l) inner" "whole_lines block"
    using block_parts [OF assms(1)] by blast
  have "startswith b ''# --- ''" "startswith e ''# --- ''" using markers_apart(5) assms(2) by (auto simp: list_all_iff)
  then have "startswith x ''# --- ''" "startswith z ''# --- ''"
    using p(2,3) startswith_trans by blast+
  then have "fstype_migrate x = x" "fstype_migrate z = z" by (simp_all add: migrate_marker)
  then show ?thesis using p migrate_unmarked migrate_whole by (auto simp: block_of_def whole_lines_def list_all_iff)
qed

definition kept_clean :: "string \<Rightarrow> bool" where
  "kept_clean body \<longleftrightarrow> list_all (\<lambda>(b, e). case find_block b e (splitlines body) of
     None \<Rightarrow> True | Some block \<Rightarrow> list_all (\<lambda>l. \<not> kept_marker l) (butlast (tl block))) kept_blocks"

lemma kept_lines_block:
  assumes "kept_clean body" "(b, e) \<in> set kept_blocks" "kept_lines body (b, e) = Some block"
  shows "block_of b e block"
proof -
  obtain raw where raw: "find_block b e (splitlines body) = Some raw" "block = (if b = ''# --- FSTYPE'' then map fstype_migrate raw else raw)"
    using assms(3) by (auto simp: kept_lines_def)
  have "list_all (\<lambda>l. \<not> kept_marker l) (butlast (tl raw))" using assms(1,2) raw(1) by (auto simp: kept_clean_def list_all_iff [of _ kept_blocks])
  from find_block_of [OF raw(1) splitlines_whole this] raw(2) migrate_block assms(2) show ?thesis by auto
qed

lemma map_filter_get:
  "distinct (map fst ks) \<Longrightarrow>
   map_of (List.map_filter (\<lambda>be. map_option (\<lambda>x. (fst be, g x)) (f be)) ks) b = Option.bind (map_of ks b) (\<lambda>e. map_option g (f (b, e)))"
proof (induction ks)
  case (Cons k ks)
  obtain b' e' where k: "k = (b', e')" by fastforce
  have "map_of ks b = None" if "b = b'" using Cons.prems k that by (auto simp: map_of_eq_None_iff)
  then show ?case using Cons k by (cases "f k") (auto simp: map_filter_simps)
qed (simp add: map_filter_simps)

lemma map_filter_skip:
  "List.map_filter (\<lambda>be. map_option (\<lambda>x. (fst be, g x)) (if fst be \<in> skip then None else f be)) ks =
   filter (\<lambda>(b, _). b \<notin> skip) (List.map_filter (\<lambda>be. map_option (\<lambda>x. (fst be, g x)) (f be)) ks)"
  by (induction ks) (auto simp: map_filter_simps split: option.split)

definition restored :: "string \<Rightarrow> string set \<Rightarrow> string \<Rightarrow> string list option" where
  "restored old skip b = (if b \<in> skip then None else Option.bind (map_of kept_blocks b) (\<lambda>e. kept_lines old (b, e)))"

lemma kept_end: "(b, e) \<in> set kept_blocks \<Longrightarrow> map_of kept_blocks b = Some e"
  using markers_apart(3) by simp

lemma restored_ok:
  assumes "kept_clean old"
  shows "blocks_ok (restored old skip)"
proof -
  have "block_of b e block" if "(b, e) \<in> set kept_blocks" "restored old skip b = Some block" for b e block
    using kept_lines_block [OF assms that(1)] that kept_end [OF that(1)] by (auto simp: restored_def split: if_split_asm)
  then show ?thesis unfolding blocks_ok_def list_all_iff by (auto split: option.split)
qed

lemma map_filter_eq: "(\<And>x. x \<in> set ks \<Longrightarrow> f x = g x) \<Longrightarrow> List.map_filter f ks = List.map_filter g ks"
  by (induction ks) (simp_all add: map_filter_simps split: option.split)

lemma restored_get:
  "(case dict_get (parse_kept_blocks old) b of Some t \<Rightarrow> if b \<in> skip then None else Some t | None \<Rightarrow> None) = map_option unlines (restored old skip b)"
  using map_filter_get [OF markers_apart(3), of unlines "kept_lines old" b]
  by (cases "map_of kept_blocks b") (auto simp: parse_kept_lines restored_def split: option.split)

text \<open>
  C40.  A deploy keeps the settings of a VM: the blocks read before the file is replaced and put back into the
  stock one read the same afterwards, with FSTYPE in its present form, all but those the deploy
  writes itself.
\<close>

theorem kept_blocks_roundtrip:
  assumes "kept_clean old" "whole_lines stock" "list_all (\<lambda>l. \<not> kept_marker l) stock"
  shows "parse_kept_blocks (restore_kept_blocks (parse_kept_blocks old) skip (unlines stock)) =
    filter (\<lambda>(b, _). b \<notin> skip) (parse_kept_blocks old)"
proof -
  let ?blk = "restored old skip"
  let ?new = "foldl (put_block ?blk) stock kept_blocks"
  note ok = restored_ok [OF assms(1), of skip]
  have none: "list_all (\<lambda>(b, e). list_all (\<lambda>l. \<not> startswith l b) stock) kept_blocks"
    using assms(3) unmarked_begin by (fastforce simp: list_all_iff)
  have text_new: "restore_kept_blocks (parse_kept_blocks old) skip (unlines stock) = unlines ?new"
    unfolding restore_kept_blocks_def by (rule restore_blocks [OF ok subset_refl markers_apart(3) assms(2) none restored_get])
  have lines: "splitlines (unlines ?new) = ?new" by (rule splitlines_whole_text [OF put_blocks_whole [OF ok assms(2)]])
  have "kept_lines (unlines ?new) be = (if fst be \<in> skip then None else kept_lines old be)" if be: "be \<in> set kept_blocks" for be
  proof -
    obtain b e where k: "be = (b, e)" by fastforce
    have "find_block b e ?new = (if b \<in> skip then None else kept_lines old (b, e))"
      using find_put_block [OF ok _ assms(3)] be kept_end [of b e] k by (simp add: restored_def)
    then show ?thesis
      using lines k by (cases "find_block b e (splitlines old)") (auto simp: kept_lines_def migrate_idem)
  qed
  then have "parse_kept_blocks (unlines ?new) =
      List.map_filter (\<lambda>be. map_option (\<lambda>ls. (fst be, unlines ls)) (if fst be \<in> skip then None else kept_lines old be)) kept_blocks"
    unfolding parse_kept_lines by (intro map_filter_eq) auto
  then show ?thesis unfolding text_new map_filter_skip unfolding parse_kept_lines [of old] .
qed

definition local_sh_example :: string where
  "local_sh_example = unlines [''. defaults.sh'', ''# --- FSTYPE (generated by ltvm deploy) ---'', ''FSTYPE=zfs'', ''# --- END FSTYPE ---'']"

theorem kept_blocks_roundtrip_witness:
  "parse_kept_blocks (restore_kept_blocks (parse_kept_blocks local_sh_example) {''# --- OST count''} (unlines [''. defaults.sh'', ''X=1''])) =
    filter (\<lambda>(b, _). b \<notin> {''# --- OST count''}) (parse_kept_blocks local_sh_example)"
proof (rule kept_blocks_roundtrip)
  show "kept_clean local_sh_example" "whole_lines [''. defaults.sh'', ''X=1'']" "list_all (\<lambda>l. \<not> kept_marker l) [''. defaults.sh'', ''X=1'']"
    by code_simp+
qed

text \<open>An FSTYPE pinned by an older ltvm gives way to the environment after the deploy.\<close>

theorem kept_fstype_migrates:
  "parse_kept_blocks local_sh_example =
     [(''# --- FSTYPE'', unlines [''# --- FSTYPE (generated by ltvm deploy) ---'', ''FSTYPE=${_ltvm_env_FSTYPE:-zfs}'', ''# --- END FSTYPE ---''])]"
  by code_simp

text \<open>
  A block already in the file is rewritten where it stands: what comes before and after it, and so which of two
  assignments is the later one, stays.
\<close>

lemma awk_splice_outside:
  "list_all (\<lambda>l. \<not> startswith l b \<and> \<not> startswith l e) ls \<Longrightarrow>
   awk_splice b e block s (ls @ rest) = (if s then [] else ls) @ awk_splice b e block s rest"
  by (induction ls) auto

theorem splice_in_place:
  assumes "whole_lines (before @ x # inner @ z # after)" "whole_lines block" "saves_env (before @ x # inner @ z # after)"
    and "list_all (\<lambda>l. \<not> startswith l b \<and> \<not> startswith l e) (before @ inner @ after)"
    and "startswith x b" "startswith z e" "\<not> startswith z b" "CHR 0x0A \<notin> set b"
  shows "splice_local_sh_block (unlines (before @ x # inner @ z # after)) (unlines block) b e = unlines (before @ block @ after)"
proof -
  let ?ls = "before @ x # inner @ z # after"
  have env: "ensure_env_save (unlines ?ls) = unlines ?ls" using ensure_env_save_lines [OF assms(1)] assms(3) by (simp add: env_lines_def)
  have found: "list_ex (\<lambda>l. startswith l b) (chunks (unlines ?ls))"
    unfolding chunks_unlines [OF assms(1)] using assms(5) startswith_line [OF assms(8)] by simp
  have "awk_splice b e block False ?ls = before @ awk_splice b e block False (x # inner @ z # after)"
    using awk_splice_outside [of b e before block False "x # inner @ z # after"] assms(4) by simp
  also have "awk_splice b e block False (x # inner @ z # after) = block @ awk_splice b e block True (inner @ z # after)" using assms(5) by simp
  also have "awk_splice b e block True (inner @ z # after) = awk_splice b e block False after"
    using awk_splice_outside [of b e inner block True "z # after"] assms(4,6,7) by simp
  also have "awk_splice b e block False after = after" using awk_splice_outside [of b e after block False "[]"] assms(4) by simp
  finally show ?thesis
    unfolding splice_local_sh_block_def Let_def env awk_lines_unlines [OF assms(1)] awk_lines_unlines [OF assms(2)] using found by simp
qed

end
