(* ===== verification/LocalInstall.thy ===== *)
theory LocalInstall
  imports KernelVersions
begin

text \<open>
  Installing a Lustre build onto the machine itself and taking it off again (\<^verbatim>\<open>local_install.py\<close>, \<^verbatim>\<open>cli/make.py\<close>):
  the checks before, the manifest of what was installed and the removal by it.  The root file system
  maps paths, with the directory links on the way resolved (\<open>le_canon\<close>), to what is there; \<^verbatim>\<open>tar\<close>, \<^verbatim>\<open>rm\<close>,
  \<^verbatim>\<open>rmdir\<close> and the unloading of modules are parameters.  The build that fills the staging tree is left out.
\<close>

subsection \<open>State and parameters\<close>

text \<open>A link says whether it leads to a directory.\<close>

datatype root_node = FileNode string | LinkNode bool | DirNode

type_synonym root_fs = "(string list, root_node) dict"

datatype manifest_file = NoManifest | BadManifest | Manifest "string list" "string list"

record local_state =
  lo_fs :: root_fs
  lo_manifest :: manifest_file
  lo_modules :: string

record local_env =
  le_canon :: "string list \<Rightarrow> string list"
  le_rm_ok :: "string list \<Rightarrow> bool"
  le_rmdir_ok :: "string list \<Rightarrow> bool"
  le_tar :: "(string \<times> root_node) list \<Rightarrow> root_fs \<Rightarrow> (int \<times> int) \<times> root_fs"
  le_unload :: "string \<Rightarrow> string"
  le_rm_manifest :: bool

text \<open>What the checks look at: the system, the image stamp, the kernel command line, the scripts of an image,
  and the tree the command runs in.\<close>

record local_machine =
  lm_system :: string
  lm_stamp :: bool
  lm_cmdline :: string
  lm_marker :: bool
  lm_tree_dir :: bool
  lm_tree_has :: "string \<Rightarrow> bool"

datatype local_error = NotLinux string | NotLtvmMachine | TreeNotADir | NotALustreTree "string list" | UnreadableManifest
  | NothingInstalled | ModulesLoaded "string list" | FilesRemain nat nat | TarReadFailed int | TarWriteFailed int

datatype ltvm_evidence = ByStamp | ByCmdline | ByMarker | Forced

subsection \<open>Where it runs\<close>

definition ltvm_machine_evidence :: "local_machine \<Rightarrow> ltvm_evidence option" where
  "ltvm_machine_evidence m =
     (if lm_stamp m then Some ByStamp
      else if contains ''fc_ip='' (lm_cmdline m) \<or> contains ''fc_name='' (lm_cmdline m) then Some ByCmdline
      else if lm_marker m then Some ByMarker else None)"

definition check_is_ltvm_machine :: "bool \<Rightarrow> local_machine \<Rightarrow> (local_error, ltvm_evidence) result" where
  "check_is_ltvm_machine force m =
     (if lm_system m \<noteq> ''Linux'' then Inl (NotLinux (lm_system m))
      else (case ltvm_machine_evidence m of
              Some ev \<Rightarrow> Inr ev
            | None \<Rightarrow> if force then Inr Forced else Inl NotLtvmMachine))"

definition LUSTRE_TREE_MARKERS :: "string list" where
  "LUSTRE_TREE_MARKERS = [''configure.ac'', ''lustre'', ''lnet'']"

definition check_in_lustre_tree :: "local_machine \<Rightarrow> (local_error, unit) result" where
  "check_in_lustre_tree m =
     (let missing = filter (\<lambda>x. \<not> lm_tree_has m x) LUSTRE_TREE_MARKERS
      in if \<not> lm_tree_dir m then Inl TreeNotADir
         else if missing \<noteq> [] then Inl (NotALustreTree missing) else Inr ())"

definition guard :: "bool \<Rightarrow> local_machine \<Rightarrow> (local_error, ltvm_evidence) result" where
  "guard force m = res_bind (check_is_ltvm_machine force m) (\<lambda>ev. res_map (\<lambda>_. ev) (check_in_lustre_tree m))"

subsection \<open>Installing\<close>

definition dir_like :: "root_node \<Rightarrow> bool" where
  "dir_like n = (case n of FileNode _ \<Rightarrow> False | LinkNode d \<Rightarrow> d | DirNode \<Rightarrow> True)"

definition dir_key :: "string \<Rightarrow> int \<times> string" where
  "dir_key p = (- int (length (filter (\<lambda>c. c = CHR ''/'') p)), p)"

text \<open>\<^verbatim>\<open>os.walk\<close> lists a link to a directory among the directories.\<close>

definition staging_contents :: "(string \<times> root_node) list \<Rightarrow> string list \<times> string list" where
  "staging_contents staging =
     (sort (filter (\<lambda>r. \<not> startswith r ''.ltvm-'') (map fst (filter (\<lambda>(_, n). \<not> dir_like n) staging))),
      sort_key dir_key (map fst (filter (\<lambda>(_, n). dir_like n) staging)))"

definition install_staging_into_root :: "local_env \<Rightarrow> (string \<times> root_node) list \<Rightarrow> root_fs \<Rightarrow> (local_error, unit) result \<times> root_fs" where
  "install_staging_into_root env staging fs =
     (case le_tar env (filter (\<lambda>(r, _). \<not> startswith r ''.ltvm-'') staging) fs of ((src_rc, dst_rc), fs') \<Rightarrow>
        (if src_rc \<noteq> 0 then Inl (TarReadFailed src_rc) else if dst_rc \<noteq> 0 then Inl (TarWriteFailed dst_rc) else Inr (), fs'))"

definition do_install :: "local_env \<Rightarrow> bool \<Rightarrow> local_machine \<Rightarrow> (string \<times> root_node) list \<Rightarrow> (string \<times> root_node) list option \<Rightarrow> local_state
    \<Rightarrow> (local_error, nat) result \<times> local_state" where
  "do_install env force m staging zfs st =
     (case guard force m of
        Inl e \<Rightarrow> (Inl e, st)
      | Inr _ \<Rightarrow>
          let (files, dirs) = staging_contents staging;
              (r1, fs1) = (case zfs of None \<Rightarrow> (Inr (), lo_fs st) | Some z \<Rightarrow> install_staging_into_root env z (lo_fs st));
              (files', dirs') = (case zfs of
                  None \<Rightarrow> (files, dirs)
                | Some z \<Rightarrow> (case staging_contents z of (zf, zd) \<Rightarrow>
                    (sort (remdups (files @ zf)), sort_key dir_key (remdups (dirs @ zd)))))
          in (case r1 of
                Inl e \<Rightarrow> (Inl e, st\<lparr>lo_fs := fs1\<rparr>)
              | Inr _ \<Rightarrow>
                  (case install_staging_into_root env staging fs1 of
                     (Inl e, fs2) \<Rightarrow> (Inl e, st\<lparr>lo_fs := fs2\<rparr>)
                   | (Inr _, fs2) \<Rightarrow> (Inr (length files'), st\<lparr>lo_fs := fs2, lo_manifest := Manifest files' dirs'\<rparr>))))"

subsection \<open>Removing\<close>

text \<open>\<^verbatim>\<open>Path(rel).parts\<close> of a relative path.\<close>

definition rel_parts :: "string \<Rightarrow> string list" where
  "rel_parts rel = filter (\<lambda>w. w \<noteq> [] \<and> w \<noteq> ''.'') (split_on CHR ''/'' rel)"

definition safe_relative :: "string \<Rightarrow> bool" where
  "safe_relative rel \<longleftrightarrow>
     rel \<noteq> [] \<and> \<not> startswith rel ''/'' \<and> \<not> startswith rel ''-'' \<and> rel_parts rel \<noteq> [] \<and> ''..'' \<notin> set (rel_parts rel) \<and> ''.'' \<notin> set (rel_parts rel)"

definition root_path :: "local_env \<Rightarrow> string \<Rightarrow> string list" where
  "root_path env rel = le_canon env (rel_parts rel)"

definition still_there :: "root_fs \<Rightarrow> string list \<Rightarrow> bool" where
  "still_there fs p \<longleftrightarrow> dict_get fs p \<noteq> None"

definition removable :: "root_fs \<Rightarrow> string list \<Rightarrow> bool" where
  "removable fs p \<longleftrightarrow> (case dict_get fs p of Some (FileNode _) \<Rightarrow> True | Some (LinkNode _) \<Rightarrow> True | _ \<Rightarrow> False)"

definition RM_CHUNK :: nat where
  "RM_CHUNK = 500"

text \<open>\<^verbatim>\<open>rm -f\<close> removes what it can.\<close>

definition rm_files :: "local_env \<Rightarrow> string list list \<Rightarrow> root_fs \<Rightarrow> root_fs" where
  "rm_files env ps fs = filter (\<lambda>(q, _). \<not> (q \<in> set ps \<and> le_rm_ok env q)) fs"

function rm_chunks :: "local_env \<Rightarrow> string list list \<Rightarrow> root_fs \<Rightarrow> root_fs" where
  "rm_chunks env ps fs = (if ps = [] then fs else rm_chunks env (drop RM_CHUNK ps) (rm_files env (take RM_CHUNK ps) fs))"
  by pat_completeness auto
termination
  by (relation "measure (\<lambda>(env, ps, fs). length ps)") (auto simp: RM_CHUNK_def)

declare rm_chunks.simps [simp del]

definition remove_installed_files :: "local_env \<Rightarrow> string list \<Rightarrow> root_fs \<Rightarrow> nat \<times> root_fs" where
  "remove_installed_files env files fs =
     (let targets = filter (removable fs) (map (root_path env) (filter safe_relative files));
          fs' = rm_chunks env targets fs;
          leftover = filter (still_there fs') targets
      in (length targets - length leftover, fs'))"

definition surviving_installed_files :: "local_env \<Rightarrow> string list \<Rightarrow> root_fs \<Rightarrow> string list" where
  "surviving_installed_files env files fs = filter (\<lambda>rel. safe_relative rel \<and> still_there fs (root_path env rel)) files"

definition NEVER_PRUNE :: "string list" where
  "NEVER_PRUNE = [[], ''.'', ''usr'', ''etc'', ''lib'', ''lib64'', ''bin'', ''sbin'', ''var'', ''opt'', ''usr/bin'', ''usr/sbin'', ''usr/lib'',
     ''usr/lib64'', ''usr/share'', ''usr/include'', ''usr/local'', ''var/lib'', ''var/run'', ''etc/init.d'', ''lib/modules'', ''usr/lib/modules'']"

definition has_entries :: "root_fs \<Rightarrow> string list \<Rightarrow> bool" where
  "has_entries fs d \<longleftrightarrow> list_ex (\<lambda>(q, _). q \<noteq> [] \<and> butlast q = d) fs"

definition prune_dir :: "local_env \<Rightarrow> nat \<times> root_fs \<Rightarrow> string \<Rightarrow> nat \<times> root_fs" where
  "prune_dir env acc rel =
     (let p = root_path env rel; fs = snd acc
      in if \<not> safe_relative rel \<or> rel \<in> set NEVER_PRUNE then acc
         else if dict_get fs p \<noteq> Some DirNode \<or> has_entries fs p \<or> \<not> le_rmdir_ok env p then acc
         else (fst acc + 1, filter (\<lambda>(q, _). q \<noteq> p) fs))"

definition prune_empty_dirs :: "local_env \<Rightarrow> string list \<Rightarrow> root_fs \<Rightarrow> nat \<times> root_fs" where
  "prune_empty_dirs env dirs fs = foldl (prune_dir env) (0, fs) dirs"

subsection \<open>Uninstalling\<close>

definition LUSTRE_MODULES :: "string list" where
  "LUSTRE_MODULES = [''lustre'', ''lmv'', ''mdc'', ''osc'', ''lov'', ''fid'', ''fld'', ''ptlrpc'', ''obdclass'', ''ksocklnd'', ''lnet'', ''libcfs'']"

definition loaded_lustre_modules :: "string \<Rightarrow> string list" where
  "loaded_lustre_modules proc_modules =
     (let loaded = List.map_filter (\<lambda>l. case split_ws l of [] \<Rightarrow> None | w # _ \<Rightarrow> Some w) (splitlines proc_modules)
      in filter (\<lambda>m. m \<in> set loaded) LUSTRE_MODULES)"

text \<open>The modules that stay loaded, and the table of modules after.\<close>

definition unload_lustre_modules :: "local_env \<Rightarrow> string \<Rightarrow> string list \<times> string" where
  "unload_lustre_modules env proc_modules =
     (if loaded_lustre_modules proc_modules = [] then ([], proc_modules)
      else (loaded_lustre_modules (le_unload env proc_modules), le_unload env proc_modules))"

definition do_uninstall :: "local_env \<Rightarrow> bool \<Rightarrow> bool \<Rightarrow> bool \<Rightarrow> local_machine \<Rightarrow> local_state \<Rightarrow> (local_error, unit) result \<times> local_state" where
  "do_uninstall env force no_unload missing_ok m st =
     (case guard force m of
        Inl e \<Rightarrow> (Inl e, st)
      | Inr _ \<Rightarrow>
          (case lo_manifest st of
             BadManifest \<Rightarrow> (Inl UnreadableManifest, st)
           | NoManifest \<Rightarrow> (if missing_ok then Inr () else Inl NothingInstalled, st)
           | Manifest files dirs \<Rightarrow>
               let (still, mods) = (if no_unload then ([], lo_modules st) else unload_lustre_modules env (lo_modules st));
                   st1 = st\<lparr>lo_modules := mods\<rparr>
               in if still \<noteq> [] \<and> \<not> force then (Inl (ModulesLoaded still), st1)
                  else
                    let (removed, fs1) = remove_installed_files env files (lo_fs st1);
                        (pruned, fs2) = prune_empty_dirs env dirs fs1;
                        remaining = surviving_installed_files env files fs2
                    in if remaining = []
                       then (Inr (), st1\<lparr>lo_fs := fs2, lo_manifest := (if le_rm_manifest env then NoManifest else lo_manifest st1)\<rparr>)
                       else (Inl (FilesRemain removed (length remaining)), st1\<lparr>lo_fs := fs2\<rparr>)))"

definition do_reinstall :: "local_env \<Rightarrow> bool \<Rightarrow> bool \<Rightarrow> local_machine \<Rightarrow> (string \<times> root_node) list \<Rightarrow> (string \<times> root_node) list option \<Rightarrow> local_state
    \<Rightarrow> (local_error, nat) result \<times> local_state" where
  "do_reinstall env force no_unload m staging zfs st =
     (case do_uninstall env force no_unload True m st of
        (Inl e, st') \<Rightarrow> (Inl e, st')
      | (Inr _, st') \<Rightarrow> do_install env force m staging zfs st')"

subsection \<open>Lemmas: only what the manifest names\<close>

lemma get_filter_key: "dict_get (filter (\<lambda>(q, _). P q) fs) q = (if P q then dict_get fs q else None)"
  by (induction fs) auto

lemma rm_files_get: "dict_get (rm_files env ps fs) q = (if q \<in> set ps \<and> le_rm_ok env q then None else dict_get fs q)"
  using get_filter_key [of "\<lambda>q. \<not> (q \<in> set ps \<and> le_rm_ok env q)" fs q] by (simp add: rm_files_def)

text \<open>Removing in portions is removing at once.\<close>

lemma rm_chunks_all: "rm_chunks env ps fs = rm_files env ps fs"
proof (induction env ps fs rule: rm_chunks.induct)
  case (1 env ps fs)
  have split: "set ps = set (take RM_CHUNK ps) \<union> set (drop RM_CHUNK ps)" by (metis append_take_drop_id set_append)
  show ?case
  proof (cases "ps = []")
    case False
    then have "rm_chunks env ps fs = rm_files env (drop RM_CHUNK ps) (rm_files env (take RM_CHUNK ps) fs)"
      using 1 by (simp add: rm_chunks.simps [of env ps fs])
    also have "\<dots> = rm_files env ps fs" unfolding rm_files_def split by (auto intro!: filter_cong)
    finally show ?thesis .
  qed (simp add: rm_chunks.simps [of env "[]" fs] rm_files_def)
qed

definition file_target :: "local_env \<Rightarrow> string list \<Rightarrow> root_fs \<Rightarrow> string list \<Rightarrow> bool" where
  "file_target env files fs q \<longleftrightarrow> (\<exists>rel \<in> set files. safe_relative rel \<and> q = root_path env rel) \<and> removable fs q"

definition dir_target :: "local_env \<Rightarrow> string list \<Rightarrow> root_fs \<Rightarrow> root_fs \<Rightarrow> string list \<Rightarrow> bool" where
  "dir_target env dirs fs fs' q \<longleftrightarrow>
     (\<exists>rel \<in> set dirs. safe_relative rel \<and> rel \<notin> set NEVER_PRUNE \<and> q = root_path env rel) \<and> dict_get fs q = Some DirNode \<and> \<not> has_entries fs' q"

lemma removed_files_get:
  "dict_get (snd (remove_installed_files env files fs)) q = (if file_target env files fs q \<and> le_rm_ok env q then None else dict_get fs q)"
  by (auto simp: remove_installed_files_def Let_def rm_chunks_all rm_files_get file_target_def)

lemma has_entries_filter: "has_entries (filter P fs) d \<Longrightarrow> has_entries fs d"
  by (auto simp: has_entries_def list_ex_iff)

definition pruned :: "local_env \<Rightarrow> root_fs \<Rightarrow> string \<Rightarrow> bool" where
  "pruned env fs rel \<longleftrightarrow> safe_relative rel \<and> rel \<notin> set NEVER_PRUNE \<and> dict_get fs (root_path env rel) = Some DirNode \<and>
     \<not> has_entries fs (root_path env rel) \<and> le_rmdir_ok env (root_path env rel)"

lemma prune_dir_fs: "snd (prune_dir env acc rel) = (if pruned env (snd acc) rel then filter (\<lambda>(q, _). q \<noteq> root_path env rel) (snd acc) else snd acc)"
  unfolding prune_dir_def Let_def pruned_def by simp

lemma prune_dir_get: "dict_get (snd (prune_dir env acc rel)) q = (if pruned env (snd acc) rel \<and> q = root_path env rel then None else dict_get (snd acc) q)"
  using get_filter_key [of "\<lambda>x. x \<noteq> root_path env rel" "snd acc" q] by (cases "q = root_path env rel") (simp_all add: prune_dir_fs)

lemma prune_dir_shrinks: "\<exists>P. snd (prune_dir env acc rel) = filter P (snd acc)"
  by (cases "pruned env (snd acc) rel") (auto simp: prune_dir_fs intro: exI [of _ "\<lambda>_. True"])

lemma prune_dirs_shrink: "\<exists>P. snd (foldl (prune_dir env) acc dirs) = filter P (snd acc)"
proof (induction dirs arbitrary: acc)
  case (Cons d dirs)
  obtain P where "snd (prune_dir env acc d) = filter P (snd acc)" using prune_dir_shrinks by blast
  moreover obtain Q where "snd (foldl (prune_dir env) (prune_dir env acc d) dirs) = filter Q (snd (prune_dir env acc d))" using Cons by blast
  ultimately show ?case by (auto simp: filter_filter)
qed (auto intro: exI [of _ "\<lambda>_. True"])

lemma prune_dirs_get:
  "dict_get (snd (foldl (prune_dir env) acc dirs)) q = dict_get (snd acc) q \<or>
   dict_get (snd (foldl (prune_dir env) acc dirs)) q = None \<and> dir_target env dirs (snd acc) (snd (foldl (prune_dir env) acc dirs)) q"
proof (induction dirs arbitrary: acc)
  case (Cons d dirs)
  let ?acc = "prune_dir env acc d" and ?fin = "snd (foldl (prune_dir env) (prune_dir env acc d) dirs)"
  consider "dict_get ?fin q = dict_get (snd ?acc) q" | "dict_get ?fin q = None" "dir_target env dirs (snd ?acc) ?fin q"
    using Cons.IH [of ?acc] by (elim disjE conjE)
  then show ?case
  proof cases
    case 1
    show ?thesis
    proof (cases "dict_get (snd ?acc) q = dict_get (snd acc) q")
      case False
      then have pr: "pruned env (snd acc) d" "q = root_path env d" "dict_get (snd ?acc) q = None"
        unfolding prune_dir_get by (auto split: if_split_asm)
      obtain P where "?fin = filter P (snd acc)" using prune_dirs_shrink [of env acc "d # dirs"] by auto
      then have "\<not> has_entries ?fin q" using has_entries_filter [of P "snd acc" q] pr(1,2) by (auto simp: pruned_def)
      moreover have "dict_get ?fin q = None" using 1 pr(3) by simp
      ultimately show ?thesis using pr(1,2) unfolding dir_target_def pruned_def foldl.simps list.set by blast
    qed (use 1 in simp)
  next
    case 2
    then have "dict_get (snd ?acc) q = Some DirNode" by (simp add: dir_target_def)
    then have "dict_get (snd acc) q = Some DirNode" unfolding prune_dir_get by (simp split: if_split_asm)
    with 2 show ?thesis unfolding dir_target_def foldl.simps list.set by blast
  qed
qed simp

lemma uninstall_steps:
  assumes "do_uninstall env force no_unload missing_ok m st = (r, st')" "lo_manifest st = Manifest files dirs"
  shows "lo_fs st' = lo_fs st \<and> lo_manifest st' = lo_manifest st \<and> r \<noteq> Inr () \<or>
    lo_fs st' = snd (prune_empty_dirs env dirs (snd (remove_installed_files env files (lo_fs st)))) \<and>
      (r = Inr () \<longleftrightarrow> surviving_installed_files env files (lo_fs st') = []) \<and> (lo_manifest st' = lo_manifest st \<or> r = Inr ())"
proof (cases "guard force m")
  case (Inl e)
  then show ?thesis using assms(1) by (auto simp: do_uninstall_def)
next
  case (Inr ev)
  then show ?thesis using assms
    by (auto simp: do_uninstall_def Let_def split: prod.split_asm if_split_asm)
qed

subsection \<open>Properties\<close>


text \<open>What the round trip takes of \<^verbatim>\<open>tar\<close>: when it succeeds, the paths of the staging that are no directories hold files
  or links, and no path outside the staging changes.\<close>

definition tar_laws :: "local_env \<Rightarrow> bool" where
  "tar_laws env \<longleftrightarrow> (\<forall>staging fs fs'. le_tar env staging fs = ((0, 0), fs') \<longrightarrow>
     (\<forall>q. q \<notin> (\<lambda>(r, _). root_path env r) ` set staging \<longrightarrow> dict_get fs' q = dict_get fs q) \<and>
     (\<forall>(r, n) \<in> set staging. \<not> dir_like n \<longrightarrow> removable fs' (root_path env r)))"

text \<open>A staging tree whose paths are plain, and whose files are new to the machine.\<close>

definition staged :: "(string \<times> root_node) list \<Rightarrow> (string \<times> root_node) list" where
  "staged staging = filter (\<lambda>(r, _). \<not> startswith r ''.ltvm-'') staging"

definition fresh_staging :: "local_env \<Rightarrow> (string \<times> root_node) list \<Rightarrow> root_fs \<Rightarrow> bool" where
  "fresh_staging env staging fs \<longleftrightarrow>
     list_all (\<lambda>(r, n). safe_relative r \<and> (dir_like n \<or> dict_get fs (root_path env r) = None)) (staged staging)"

definition staged_dirs :: "local_env \<Rightarrow> (string \<times> root_node) list \<Rightarrow> string list set" where
  "staged_dirs env staging = (\<lambda>(r, _). root_path env r) ` {(r, n) \<in> set staging. dir_like n}"

lemma staging_files: "set (fst (staging_contents staging)) = fst ` {(r, n) \<in> set (staged staging). \<not> dir_like n}"
  by (force simp: staging_contents_def staged_def)

lemma staging_dirs: "set (snd (staging_contents staging)) = fst ` {(r, n) \<in> set staging. dir_like n}"
  by (force simp: staging_contents_def)

lemma installed:
  assumes "do_install env force m staging None st = (Inr n, st1)"
  shows "\<exists>ev. guard force m = Inr ev" "le_tar env (staged staging) (lo_fs st) = ((0, 0), lo_fs st1)"
    "lo_manifest st1 = Manifest (fst (staging_contents staging)) (snd (staging_contents staging))" "lo_modules st1 = lo_modules st"
  using assms
  by (auto simp: do_install_def install_staging_into_root_def staged_def Let_def split: sum.split_asm prod.split_asm if_split_asm)

text \<open>
  Uninstalling undoes an install: on a machine where the files are new, where Lustre is not loaded and nothing
  keeps \<^verbatim>\<open>rm\<close> from its work, every path but the directories of the build is afterwards what it was
  before, and the manifest is gone.
\<close>

theorem install_uninstall_roundtrip:
  assumes "tar_laws env" "le_rm_ok env = (\<lambda>_. True)" "le_rm_manifest env" "loaded_lustre_modules (lo_modules st) = []"
    and "fresh_staging env staging (lo_fs st)"
    and "do_install env force m staging None st = (Inr n, st1)" "do_uninstall env force no_unload missing_ok m st1 = (r, st2)"
  shows "r = Inr () \<and> lo_manifest st2 = NoManifest \<and> (q \<notin> staged_dirs env staging \<longrightarrow> dict_get (lo_fs st2) q = dict_get (lo_fs st) q)"
proof -
  define files where "files = fst (staging_contents staging)"
  define dirs where "dirs = snd (staging_contents staging)"
  define fs2 where "fs2 = snd (prune_empty_dirs env dirs (snd (remove_installed_files env files (lo_fs st1))))"
  note inst = installed [OF assms(6)]
  have tar: "\<And>q. q \<notin> (\<lambda>(r, _). root_path env r) ` set (staged staging) \<Longrightarrow> dict_get (lo_fs st1) q = dict_get (lo_fs st) q"
    "\<And>r n. (r, n) \<in> set (staged staging) \<Longrightarrow> \<not> dir_like n \<Longrightarrow> removable (lo_fs st1) (root_path env r)"
    using assms(1) inst(2) unfolding tar_laws_def by blast+
  have files: "\<exists>n. (rel, n) \<in> set (staged staging) \<and> \<not> dir_like n" if "rel \<in> set files" for rel using that by (auto simp: files_def staging_files)
  have mods: "unload_lustre_modules env (lo_modules st1) = ([], lo_modules st1)" using assms(4) inst(4) by (simp add: unload_lustre_modules_def)
  have gone: "dict_get (snd (remove_installed_files env files (lo_fs st1))) (root_path env rel) = None" if rel: "rel \<in> set files" for rel
  proof -
    obtain n where n: "(rel, n) \<in> set (staged staging)" "\<not> dir_like n" using files [OF rel] by blast
    then have "safe_relative rel" using assms(5) by (auto simp: fresh_staging_def list_all_iff)
    then have "file_target env files (lo_fs st1) (root_path env rel)" using rel tar(2) [OF n] by (auto simp: file_target_def)
    then show ?thesis using assms(2) by (simp add: removed_files_get)
  qed
  have prune: "dict_get fs2 q = dict_get (snd (remove_installed_files env files (lo_fs st1))) q \<or>
      dict_get fs2 q = None \<and> q \<in> root_path env ` set dirs" for q
    using prune_dirs_get [of env "(0, snd (remove_installed_files env files (lo_fs st1)))" dirs q] by (auto simp: fs2_def prune_empty_dirs_def dir_target_def)
  have none: "surviving_installed_files env files fs2 = []"
    using gone prune by (auto simp: surviving_installed_files_def still_there_def filter_empty_conv) (metis option.distinct(1))+
  have un: "r = Inr ()" "lo_manifest st2 = NoManifest" "lo_fs st2 = fs2"
    using assms(3,7) inst(1,3) mods none by (auto simp: do_uninstall_def Let_def files_def dirs_def fs2_def split: prod.split_asm if_split_asm)
  have "dict_get fs2 q = dict_get (lo_fs st) q" if "q \<notin> staged_dirs env staging"
  proof -
    have "q \<notin> root_path env ` set dirs" using that by (auto simp: dirs_def staging_dirs staged_dirs_def)
    then have same: "dict_get fs2 q = dict_get (snd (remove_installed_files env files (lo_fs st1))) q" using prune by blast
    show ?thesis
    proof (cases "\<exists>rel \<in> set files. q = root_path env rel")
      case True
      then obtain rel where rel: "rel \<in> set files" "q = root_path env rel" by blast
      then obtain n where "(rel, n) \<in> set (staged staging)" "\<not> dir_like n" using files by blast
      then have "dict_get (lo_fs st) q = None" using assms(5) rel(2) by (auto simp: fresh_staging_def list_all_iff)
      then show ?thesis using same gone [OF rel(1)] rel(2) by simp
    next
      case False
      then have "q \<notin> (\<lambda>(r, _). root_path env r) ` set (staged staging)"
        using that by (force simp: files_def staging_files staged_dirs_def staged_def)
      moreover have "\<not> file_target env files (lo_fs st1) q" using False by (auto simp: file_target_def)
      ultimately show ?thesis using same tar(1) by (simp add: removed_files_get)
    qed
  qed
  then show ?thesis using un by simp
qed

definition local_env_example :: local_env where
  "local_env_example = \<lparr>le_canon = (\<lambda>p. p), le_rm_ok = (\<lambda>_. True), le_rmdir_ok = (\<lambda>_. True),
     le_tar = (\<lambda>staging fs. ((0, 0), foldl (\<lambda>fs (r, n). if n = DirNode \<and> dict_get fs (rel_parts r) \<noteq> None then fs else dict_set fs (rel_parts r) n) fs staging)),
     le_unload = (\<lambda>t. t), le_rm_manifest = True\<rparr>"

definition node_example :: local_machine where
  "node_example = \<lparr>lm_system = ''Linux'', lm_stamp = True, lm_cmdline = [], lm_marker = False, lm_tree_dir = True, lm_tree_has = (\<lambda>_. True)\<rparr>"

definition local_state_example :: local_state where
  "local_state_example = \<lparr>lo_fs = [([''usr''], DirNode), ([''usr'', ''sh''], FileNode ''x'')], lo_manifest = NoManifest, lo_modules = []\<rparr>"

definition tar_step :: "root_fs \<Rightarrow> string \<times> root_node \<Rightarrow> root_fs" where
  "tar_step fs rn = (case rn of (r, n) \<Rightarrow> if n = DirNode \<and> dict_get fs (rel_parts r) \<noteq> None then fs else dict_set fs (rel_parts r) n)"

lemma tar_step_other: "q \<noteq> rel_parts (fst rn) \<Longrightarrow> dict_get (tar_step fs rn) q = dict_get fs q"
  by (auto simp: tar_step_def split: prod.split)

lemma tar_steps_other: "q \<notin> (\<lambda>(r, _). rel_parts r) ` set staging \<Longrightarrow> dict_get (foldl tar_step fs staging) q = dict_get fs q"
proof (induction staging arbitrary: fs)
  case (Cons rn staging)
  then show ?case using tar_step_other [of q rn fs] by (auto split: prod.split_asm)
qed simp

lemma removable_iff: "removable fs q \<longleftrightarrow> (\<exists>n. dict_get fs q = Some n \<and> n \<noteq> DirNode)"
  by (auto simp: removable_def split: option.split root_node.split)

lemma tar_steps_keep: "removable fs q \<Longrightarrow> removable (foldl tar_step fs staging) q"
proof (induction staging arbitrary: fs)
  case (Cons rn staging)
  have "removable (tar_step fs rn) q" using Cons.prems by (auto simp: removable_iff tar_step_def split: prod.split)
  then show ?case using Cons.IH by simp
qed simp

lemma tar_steps_file: "(r, n) \<in> set staging \<Longrightarrow> \<not> dir_like n \<Longrightarrow> removable (foldl tar_step fs staging) (rel_parts r)"
proof (induction staging arbitrary: fs)
  case (Cons rn staging)
  show ?case
  proof (cases "rn = (r, n)")
    case True
    then have "removable (tar_step fs rn) (rel_parts r)" using Cons.prems(2) by (auto simp: tar_step_def removable_iff dir_like_def)
    then show ?thesis using tar_steps_keep by simp
  qed (use Cons in auto)
qed simp

lemma tar_laws_example: "tar_laws local_env_example"
proof -
  have tar: "le_tar local_env_example staging fs = ((0, 0), foldl tar_step fs staging)" for staging fs
    by (simp add: local_env_example_def tar_step_def [abs_def])
  have "root_path local_env_example = rel_parts" by (auto simp: root_path_def local_env_example_def)
  then show ?thesis unfolding tar_laws_def tar using tar_steps_other tar_steps_file by auto
qed

theorem install_uninstall_roundtrip_witness:
  "\<exists>st1 st2. do_install local_env_example False node_example [(''usr/lfs'', FileNode ''y''), (''.ltvm-stamp'', FileNode [])] None local_state_example = (Inr 1, st1) \<and>
     do_uninstall local_env_example False False False node_example st1 = (Inr (), st2) \<and>
     dict_get (lo_fs st1) [''usr'', ''lfs''] = Some (FileNode ''y'') \<and> dict_get (lo_fs st2) [''usr'', ''lfs''] = dict_get (lo_fs local_state_example) [''usr'', ''lfs'']"
proof -
  let ?s = "[(''usr/lfs'', FileNode ''y''), (''.ltvm-stamp'', FileNode [])]"
  have "(case do_install local_env_example False node_example ?s None local_state_example of
      (Inr n, st1) \<Rightarrow> n = 1 \<and> dict_get (lo_fs st1) [''usr'', ''lfs''] = Some (FileNode ''y'') | _ \<Rightarrow> False)" by code_simp
  then obtain st1 where st1: "do_install local_env_example False node_example ?s None local_state_example = (Inr 1, st1)"
    "dict_get (lo_fs st1) [''usr'', ''lfs''] = Some (FileNode ''y'')" by (auto split: prod.split_asm sum.split_asm)
  obtain r st2 where st2: "do_uninstall local_env_example False False False node_example st1 = (r, st2)" by fastforce
  have "le_rm_ok local_env_example = (\<lambda>_. True)" "le_rm_manifest local_env_example" "loaded_lustre_modules (lo_modules local_state_example) = []"
    "fresh_staging local_env_example ?s (lo_fs local_state_example)" by (simp add: local_env_example_def, code_simp+)
  from install_uninstall_roundtrip [OF tar_laws_example this st1(1) st2, of "[''usr'', ''lfs'']"]
  have "r = Inr ()" "dict_get (lo_fs st2) [''usr'', ''lfs''] = dict_get (lo_fs local_state_example) [''usr'', ''lfs'']"
    by (auto simp: staged_dirs_def dir_like_def)
  then show ?thesis using st1 st2 by blast
qed

text \<open>A manifest someone has written into.\<close>

definition tampered_example :: local_state where
  "tampered_example = local_state_example\<lparr>lo_manifest := Manifest [''usr/sh'', ''../etc/passwd''] [''usr'']\<rparr>"


text \<open>
  A link to a directory is listed among the directories, which are removed only when they are none: it stays on the
  machine, and the uninstall reports success and drops the manifest.
\<close>

theorem directory_link_stays:
  "(case do_install local_env_example False node_example [(''usr/lk'', LinkNode True)] None local_state_example of (_, st1) \<Rightarrow>
      case do_uninstall local_env_example False False False node_example st1 of (r, st2) \<Rightarrow>
        r = Inr () \<and> lo_manifest st2 = NoManifest \<and> dict_get (lo_fs st2) [''usr'', ''lk''] = Some (LinkNode True))"
  by code_simp

text \<open>
  A second install replaces the manifest of the first: what only the first one put there is never removed.
\<close>

theorem second_install_strands:
  "(case do_install local_env_example False node_example [(''usr/a'', FileNode [])] None local_state_example of (_, st1) \<Rightarrow>
      case do_install local_env_example False node_example [(''usr/b'', FileNode [])] None st1 of (_, st2) \<Rightarrow>
        case do_uninstall local_env_example False False False node_example st2 of (r, st3) \<Rightarrow>
          r = Inr () \<and> lo_manifest st3 = NoManifest \<and> dict_get (lo_fs st3) [''usr'', ''a''] = Some (FileNode []))"
  by code_simp

end
