(* ===== verification/Vfio.thy ===== *)
theory Vfio
  imports PyStr
begin

text \<open>
  Handing a PCI device to a guest and back (\<^verbatim>\<open>vfio.py\<close>).  The state is what the module reads of
  sysfs: the devices with their driver, override and IDs, and the drivers there are.  What a
  write to sysfs does is the kernel's: a parameter, with the rules the module relies on as
  \<open>kernel_ok\<close>.
\<close>

subsection \<open>Sysfs\<close>

text \<open>\<open>pd_override\<close> is \<open>None\<close> on a kernel without \<^verbatim>\<open>driver_override\<close>; an ID is \<open>None\<close> when it cannot be
  read.\<close>

record pci_dev =
  pd_driver :: "string option"
  pd_override :: "string option"
  pd_vendor :: "string option"
  pd_device :: "string option"

record sysfs =
  sy_devs :: "string \<rightharpoonup> pci_dev"
  sy_drivers :: "string set"

datatype sys_write =
    WOverride string string
  | WNewId string string
  | WUnbind string string
  | WProbe string
  | WBind string string

datatype write_error = WDenied | WBusy | WExists | WFailed

datatype vfio_error =
    NoDevice string
  | NoVfio
  | NoIds string
  | NoDriver string
  | VWrite sys_write write_error

type_synonym kernel = "sys_write \<Rightarrow> sysfs \<Rightarrow> write_error option \<times> sysfs"

type_synonym 'a vfio_run = "(vfio_error, 'a) result \<times> sysfs"

definition VFIO :: string where
  "VFIO = ''vfio-pci''"

definition sysfs_write :: "kernel \<Rightarrow> sys_write \<Rightarrow> sysfs \<Rightarrow> unit vfio_run" where
  "sysfs_write kw w s = (case kw w s of (None, s') \<Rightarrow> (Inr (), s') | (Some e, s') \<Rightarrow> (Inl (VWrite w e), s'))"

definition vthen :: "'a vfio_run \<Rightarrow> ('a \<Rightarrow> sysfs \<Rightarrow> 'b vfio_run) \<Rightarrow> 'b vfio_run" where
  "vthen r f = (case r of (Inl e, s) \<Rightarrow> (Inl e, s) | (Inr x, s) \<Rightarrow> f x s)"

text \<open>\<^verbatim>\<open>EEXIST\<close> is what a write says whose effect is already there.\<close>

definition or_exists :: "unit vfio_run \<Rightarrow> unit vfio_run" where
  "or_exists r = (case r of (Inl (VWrite w WExists), s) \<Rightarrow> (Inr (), s) | _ \<Rightarrow> r)"

definition current_driver :: "string \<Rightarrow> sysfs \<Rightarrow> (vfio_error, string option) result" where
  "current_driver bdf s = (case sy_devs s bdf of None \<Rightarrow> Inl (NoDevice bdf) | Some d \<Rightarrow> Inr (pd_driver d))"

definition strip_0x :: "string \<Rightarrow> string" where
  "strip_0x v = (if startswith v ''0x'' then drop 2 v else v)"

subsection \<open>Bind and rebind\<close>

definition claim_device :: "kernel \<Rightarrow> string \<Rightarrow> pci_dev \<Rightarrow> string \<Rightarrow> string \<Rightarrow> sysfs \<Rightarrow> unit vfio_run" where
  "claim_device kw bdf d vendor device s =
     (if pd_override d \<noteq> None then sysfs_write kw (WOverride bdf (VFIO @ [CHR 0x0A])) s
      else or_exists (sysfs_write kw (WNewId (strip_0x (strip vendor)) (strip_0x (strip device))) s))"

definition unbind_old :: "kernel \<Rightarrow> string \<Rightarrow> string option \<Rightarrow> sysfs \<Rightarrow> unit vfio_run" where
  "unbind_old kw bdf old s = (case old of None \<Rightarrow> (Inr (), s) | Some drv \<Rightarrow> sysfs_write kw (WUnbind drv bdf) s)"

definition bind_vfio :: "kernel \<Rightarrow> string \<Rightarrow> bool \<Rightarrow> sysfs \<Rightarrow> unit vfio_run" where
  "bind_vfio kw bdf used_override s =
     vthen (or_exists (sysfs_write kw (if used_override then WProbe bdf else WBind VFIO bdf) s)) (\<lambda>_ s.
       case current_driver bdf s of
         Inl e \<Rightarrow> (Inl e, s)
       | Inr drv \<Rightarrow> if drv = Some VFIO then (Inr (), s) else or_exists (sysfs_write kw (WBind VFIO bdf) s))"

definition bind_to_vfio :: "kernel \<Rightarrow> string \<Rightarrow> sysfs \<Rightarrow> string option vfio_run" where
  "bind_to_vfio kw bdf s =
     (case sy_devs s bdf of
        None \<Rightarrow> (Inl (NoDevice bdf), s)
      | Some d \<Rightarrow>
          if pd_driver d = Some VFIO then (Inr None, s)
          else if VFIO \<notin> sy_drivers s then (Inl NoVfio, s)
          else
            (case (pd_vendor d, pd_device d) of
               (Some vendor, Some device) \<Rightarrow>
                 vthen (claim_device kw bdf d vendor device s) (\<lambda>_ s.
                 vthen (unbind_old kw bdf (pd_driver d) s) (\<lambda>_ s.
                 vthen (bind_vfio kw bdf (pd_override d \<noteq> None) s) (\<lambda>_ s.
                   (Inr (pd_driver d), s))))
             | _ \<Rightarrow> (Inl (NoIds bdf), s)))"

text \<open>The \<^verbatim>\<open>except OSError\<close> around the override does not see the error of the write, which is a
  \<^verbatim>\<open>VfioError\<close> by then.\<close>

definition drop_override :: "kernel \<Rightarrow> string \<Rightarrow> pci_dev \<Rightarrow> sysfs \<Rightarrow> unit vfio_run" where
  "drop_override kw bdf d s =
     (case pd_override d of
        None \<Rightarrow> (Inr (), s)
      | Some v \<Rightarrow>
          if strip v = VFIO \<or> strip v = [] then sysfs_write kw (WOverride bdf [CHR 0x0A]) s else (Inr (), s))"

definition rebind :: "kernel \<Rightarrow> string \<Rightarrow> string \<Rightarrow> sysfs \<Rightarrow> unit vfio_run" where
  "rebind kw bdf driver s =
     (case sy_devs s bdf of
        None \<Rightarrow> (Inl (NoDevice bdf), s)
      | Some d \<Rightarrow>
          if driver \<notin> sy_drivers s then (Inl (NoDriver driver), s)
          else
            vthen (drop_override kw bdf d s) (\<lambda>_ s.
              case current_driver bdf s of
                Inl e \<Rightarrow> (Inl e, s)
              | Inr cur \<Rightarrow>
                  if cur = Some driver then (Inr (), s)
                  else vthen (unbind_old kw bdf cur s) (\<lambda>_ s. sysfs_write kw (WBind driver bdf) s)))"

subsection \<open>Host checks\<close>

definition iommu_enabled :: "string option \<Rightarrow> bool \<Rightarrow> bool" where
  "iommu_enabled cmdline groups =
     (case cmdline of
        None \<Rightarrow> False
      | Some l \<Rightarrow> list_ex (\<lambda>t. t \<in> {''intel_iommu=on'', ''amd_iommu=on'', ''iommu=pt''}) (split_ws l) \<and> groups)"

definition looks_like_bdf :: "string \<Rightarrow> bool" where
  "looks_like_bdf s \<longleftrightarrow>
     length s = 12 \<and> s ! 4 = CHR '':'' \<and> s ! 7 = CHR '':'' \<and> s ! 10 = CHR ''.'' \<and>
     list_all (\<lambda>i. i \<in> {4, 7, 10} \<or> isxdigit (s ! i)) [0..<12]"

datatype ifname_error = NoNetdev string | NoPciParent string | BadLink string | NotBdf string

text \<open>\<open>net\<close>: the device link of each interface, \<open>None\<close> without one; \<open>links\<close> what a link resolves to.\<close>

definition resolve_ifname_to_bdf :: "(string \<rightharpoonup> string option) \<Rightarrow> (string \<rightharpoonup> string) \<Rightarrow> string \<Rightarrow> (ifname_error, string) result" where
  "resolve_ifname_to_bdf net links ifname =
     (case net ifname of
        None \<Rightarrow> Inl (NoNetdev ifname)
      | Some None \<Rightarrow> Inl (NoPciParent ifname)
      | Some (Some link) \<Rightarrow>
          (case links link of
             None \<Rightarrow> Inl (BadLink link)
           | Some bdf \<Rightarrow> if looks_like_bdf bdf then Inr bdf else Inl (NotBdf ifname)))"

subsection \<open>What the kernel promises\<close>

text \<open>A write about a device changes that device alone, and nothing when it fails.\<close>

definition keeps_rest :: "string \<Rightarrow> sysfs \<Rightarrow> sysfs \<Rightarrow> bool" where
  "keeps_rest bdf s s' \<longleftrightarrow> sy_drivers s' = sy_drivers s \<and> (\<forall>b. b \<noteq> bdf \<longrightarrow> sy_devs s' b = sy_devs s b)"

fun write_bdf :: "sys_write \<Rightarrow> string option" where
  "write_bdf (WOverride b _) = Some b"
| "write_bdf (WUnbind _ b) = Some b"
| "write_bdf (WProbe b) = Some b"
| "write_bdf (WBind _ b) = Some b"
| "write_bdf (WNewId _ _) = None"

text \<open>A write of the override stores the text without its newline, unbinding leaves the device
  without a driver, binding gives it the driver; probing an unbound device binds it to
  nothing or to the driver its override names.\<close>

definition write_done :: "sys_write \<Rightarrow> pci_dev \<Rightarrow> pci_dev \<Rightarrow> bool" where
  "write_done w d d' \<longleftrightarrow>
     (case w of
        WOverride _ v \<Rightarrow> d' = d\<lparr>pd_override := Some (strip v)\<rparr>
      | WUnbind _ _ \<Rightarrow> d' = d\<lparr>pd_driver := None\<rparr>
      | WProbe _ \<Rightarrow> d' = d \<or> pd_driver d = None \<and> d' = d\<lparr>pd_driver := pd_override d\<rparr>
      | WBind drv _ \<Rightarrow> d' = d\<lparr>pd_driver := Some drv\<rparr>
      | WNewId _ _ \<Rightarrow> False)"

definition kernel_ok :: "kernel \<Rightarrow> string \<Rightarrow> bool" where
  "kernel_ok kw bdf \<longleftrightarrow>
     (\<forall>w s r s' d. write_bdf w = Some bdf \<longrightarrow> sy_devs s bdf = Some d \<longrightarrow> kw w s = (r, s') \<longrightarrow>
        keeps_rest bdf s s' \<and>
        (\<exists>d'. sy_devs s' bdf = Some d' \<and> (if r = None then write_done w d d' else d' = d)))"

subsection \<open>Lemmas: one write\<close>

lemma keeps_rest_refl [simp]: "keeps_rest bdf s s"
  by (simp add: keeps_rest_def)

lemma keeps_rest_trans: "keeps_rest bdf a b \<Longrightarrow> keeps_rest bdf b c \<Longrightarrow> keeps_rest bdf a c"
  by (simp add: keeps_rest_def)

lemma write_step:
  assumes "kernel_ok kw bdf" "write_bdf w = Some bdf" "sy_devs s bdf = Some d" "sysfs_write kw w s = (r, s')"
  obtains d' where "keeps_rest bdf s s'" "sy_devs s' bdf = Some d'"
    "r = Inr () \<and> write_done w d d' \<or> (\<exists>e. r = Inl (VWrite w e)) \<and> d' = d"
proof -
  obtain e where run: "kw w s = (e, s')" and r: "r = (case e of None \<Rightarrow> Inr () | Some x \<Rightarrow> Inl (VWrite w x))"
    using assms(4) by (cases "kw w s") (auto simp: sysfs_write_def split: option.split_asm)
  from assms(1) [unfolded kernel_ok_def, rule_format, OF assms(2,3) run] r show ?thesis
    using that by (cases e) auto
qed

lemma or_exists_cases:
  assumes "or_exists (sysfs_write kw w s) = (r, s')"
  obtains r0 where "sysfs_write kw w s = (r0, s')" "r = Inr () \<or> r = r0"
  using assms by (cases "sysfs_write kw w s") (auto simp: or_exists_def split: sum.split_asm vfio_error.split_asm write_error.split_asm)

lemma vthen_cases:
  assumes "vthen run f = (r, s')"
  obtains e where "run = (Inl e, s')" "r = Inl e" | x s1 where "run = (Inr x, s1)" "f x s1 = (r, s')"
  using assms by (cases run) (auto simp: vthen_def split: sum.split_asm)

lemma override_texts: "strip (VFIO @ [CHR 0x0A]) = VFIO" "strip [CHR 0x0A] = []" "strip VFIO = VFIO" "strip [] = []"
  by code_simp+

subsection \<open>Lemmas: binding\<close>

lemma bind_vfio_effect:
  assumes "kernel_ok kw bdf" "sy_devs s bdf = Some d" "pd_driver d = None" "pd_override d = Some VFIO"
    "bind_vfio kw bdf True s = (r, s')"
  shows "keeps_rest bdf s s' \<and> (\<exists>drv. sy_devs s' bdf = Some (d\<lparr>pd_driver := drv\<rparr>) \<and>
    (r = Inr () \<and> (drv = None \<or> drv = Some VFIO) \<or> (\<exists>w e. r = Inl (VWrite w e) \<and> w \<in> {WProbe bdf, WBind VFIO bdf}) \<and> drv = None))"
proof -
  obtain r1 s1 where probe: "or_exists (sysfs_write kw (WProbe bdf) s) = (r1, s1)" by fastforce
  obtain r0 where raw: "sysfs_write kw (WProbe bdf) s = (r0, s1)" "r1 = Inr () \<or> r1 = r0" by (rule or_exists_cases [OF probe])
  obtain d1 where one: "keeps_rest bdf s s1" "sy_devs s1 bdf = Some d1"
    "r0 = Inr () \<and> write_done (WProbe bdf) d d1 \<or> (\<exists>e. r0 = Inl (VWrite (WProbe bdf) e)) \<and> d1 = d"
    by (rule write_step [OF assms(1) _ assms(2) raw(1)]) auto
  have d1: "d1 = d \<or> d1 = d\<lparr>pd_driver := Some VFIO\<rparr>" using one(3) assms(4) by (auto simp: write_done_def)
  have same: "d\<lparr>pd_driver := None\<rparr> = d" using assms(3) by simp
  note run = assms(5) [unfolded bind_vfio_def if_P [OF TrueI], unfolded probe]
  show ?thesis
  proof (cases r1)
    case (Inl e)
    then have "s' = s1" "r = Inl e" using run by (auto simp: vthen_def)
    moreover have "\<exists>x. e = VWrite (WProbe bdf) x" "d1 = d" using Inl raw(2) one(3) by auto
    ultimately show ?thesis using one same by auto
  next
    case (Inr u)
    show ?thesis
    proof (cases "pd_driver d1 = Some VFIO")
      case True
      then have "s' = s1" "r = Inr ()" using run Inr one(2) by (auto simp: vthen_def current_driver_def)
      then show ?thesis using one(1,2) True d1 assms(3) by auto
    next
      case False
      then have "d1 = d" using d1 by auto
      have "or_exists (sysfs_write kw (WBind VFIO bdf) s1) = (r, s')"
        using run Inr one(2) False by (simp add: vthen_def current_driver_def)
      then obtain r2 where raw2: "sysfs_write kw (WBind VFIO bdf) s1 = (r2, s')" "r = Inr () \<or> r = r2" by (rule or_exists_cases)
      obtain d2 where two: "keeps_rest bdf s1 s'" "sy_devs s' bdf = Some d2"
        "r2 = Inr () \<and> write_done (WBind VFIO bdf) d1 d2 \<or> (\<exists>e. r2 = Inl (VWrite (WBind VFIO bdf) e)) \<and> d2 = d1"
        by (rule write_step [OF assms(1) _ one(2) raw2(1)]) auto
      have "d2 = d\<lparr>pd_driver := Some VFIO\<rparr> \<and> r = Inr () \<or> d2 = d\<lparr>pd_driver := None\<rparr> \<and> (r = Inr () \<or> (\<exists>e. r = Inl (VWrite (WBind VFIO bdf) e)))"
        using two(3) raw2(2) \<open>d1 = d\<close> same by (auto simp: write_done_def)
      then show ?thesis using two(2) keeps_rest_trans [OF one(1) two(1)] by blast
    qed
  qed
qed

text \<open>The outcomes of binding a device that has a driver: refused before anything was unbound,
  bound, or stranded without a driver.\<close>

lemma bind_to_vfio_effect:
  assumes "kernel_ok kw bdf" "sy_devs s bdf = Some d" "pd_driver d = Some drv" "drv \<noteq> VFIO" "pd_override d \<noteq> None"
    "bind_to_vfio kw bdf s = (r, s')"
  shows "keeps_rest bdf s s' \<and> (\<exists>d'. sy_devs s' bdf = Some d' \<and>
    ((\<exists>e. r = Inl e \<and> (\<forall>x. e \<noteq> VWrite (WProbe bdf) x \<and> e \<noteq> VWrite (WBind VFIO bdf) x)) \<and> pd_driver d' = Some drv \<or>
     r = Inr (Some drv) \<and> (d' = d\<lparr>pd_driver := None, pd_override := Some VFIO\<rparr> \<or> d' = d\<lparr>pd_driver := Some VFIO, pd_override := Some VFIO\<rparr>) \<or>
     (\<exists>w e. r = Inl (VWrite w e) \<and> w \<in> {WProbe bdf, WBind VFIO bdf}) \<and> d' = d\<lparr>pd_driver := None, pd_override := Some VFIO\<rparr>))"
proof (cases "VFIO \<notin> sy_drivers s \<or> pd_vendor d = None \<or> pd_device d = None")
  case True
  then show ?thesis using assms(2-4,6) by (auto simp: bind_to_vfio_def split: if_splits option.split_asm)
next
  case False
  then obtain vendor device where ids: "pd_vendor d = Some vendor" "pd_device d = Some device" by auto
  obtain r1 s1 where claim: "sysfs_write kw (WOverride bdf (VFIO @ [CHR 0x0A])) s = (r1, s1)" by fastforce
  obtain r2 s2 where unbind: "sysfs_write kw (WUnbind drv bdf) s1 = (r2, s2)" by fastforce
  obtain r3 s3 where bind: "bind_vfio kw bdf True s2 = (r3, s3)" by fastforce
  have run: "vthen (r1, s1) (\<lambda>_ s. vthen (sysfs_write kw (WUnbind drv bdf) s) (\<lambda>_ s.
      vthen (bind_vfio kw bdf True s) (\<lambda>_ s. (Inr (Some drv), s)))) = (r, s')"
    using assms(2-6) False ids claim by (simp add: bind_to_vfio_def claim_device_def unbind_old_def)
  obtain d1 where one: "keeps_rest bdf s s1" "sy_devs s1 bdf = Some d1"
    "r1 = Inr () \<and> write_done (WOverride bdf (VFIO @ [CHR 0x0A])) d d1 \<or> (\<exists>e. r1 = Inl (VWrite (WOverride bdf (VFIO @ [CHR 0x0A])) e)) \<and> d1 = d"
    by (rule write_step [OF assms(1) _ assms(2) claim]) auto
  obtain d2 where two: "keeps_rest bdf s1 s2" "sy_devs s2 bdf = Some d2"
    "r2 = Inr () \<and> write_done (WUnbind drv bdf) d1 d2 \<or> (\<exists>e. r2 = Inl (VWrite (WUnbind drv bdf) e)) \<and> d2 = d1"
    by (rule write_step [OF assms(1) _ one(2) unbind]) auto
  show ?thesis
  proof (cases "r1 = Inr () \<and> r2 = Inr ()")
    case True
    have d2: "d2 = d\<lparr>pd_driver := None, pd_override := Some VFIO\<rparr>"
      using True one(3) two(3) by (auto simp: write_done_def override_texts)
    have three: "keeps_rest bdf s2 s3 \<and> (\<exists>new. sy_devs s3 bdf = Some (d2\<lparr>pd_driver := new\<rparr>) \<and>
        (r3 = Inr () \<and> (new = None \<or> new = Some VFIO) \<or> (\<exists>w e. r3 = Inl (VWrite w e) \<and> w \<in> {WProbe bdf, WBind VFIO bdf}) \<and> new = None))"
      using bind_vfio_effect [OF assms(1) two(2) _ _ bind] d2 by simp
    have "s' = s3" "r = (case r3 of Inl e \<Rightarrow> Inl e | Inr _ \<Rightarrow> Inr (Some drv))"
      using run True unbind bind by (auto simp: vthen_def split: sum.split_asm)
    moreover have "keeps_rest bdf s s3" using one(1) two(1) three keeps_rest_trans by blast
    ultimately show ?thesis using three by (elim conjE exE disjE) (auto simp: d2)
  next
    case no: False
    then consider e where "s' = s1" "r = Inl e" "r1 = Inl e" | e where "s' = s2" "r = Inl e" "r1 = Inr ()" "r2 = Inl e"
      using run unbind by (cases r1; cases r2) (auto simp: vthen_def)
    then show ?thesis
    proof cases
      case 1
      then show ?thesis using one assms(3) by auto
    next
      case 2
      then have "pd_driver d2 = Some drv" using one(3) two(3) assms(3) by (auto simp: write_done_def)
      then show ?thesis using 2 two keeps_rest_trans [OF one(1) two(1)] by auto
    qed
  qed
qed

lemma rebind_effect:
  assumes "kernel_ok kw bdf" "sy_devs s bdf = Some d" "pd_override d = Some VFIO" "pd_driver d \<noteq> Some drv"
    "rebind kw bdf drv s = (Inr (), s')"
  shows "keeps_rest bdf s s'" "sy_devs s' bdf = Some (d\<lparr>pd_driver := Some drv, pd_override := Some []\<rparr>)"
proof -
  obtain r1 s1 where drop: "sysfs_write kw (WOverride bdf [CHR 0x0A]) s = (r1, s1)" by fastforce
  obtain r2 s2 where unbind: "unbind_old kw bdf (pd_driver d) s1 = (r2, s2)" by fastforce
  obtain d1 where one: "keeps_rest bdf s s1" "sy_devs s1 bdf = Some d1"
    "r1 = Inr () \<and> write_done (WOverride bdf [CHR 0x0A]) d d1 \<or> (\<exists>e. r1 = Inl (VWrite (WOverride bdf [CHR 0x0A]) e)) \<and> d1 = d"
    by (rule write_step [OF assms(1) _ assms(2) drop]) auto
  have run: "vthen (r1, s1) (\<lambda>_ s. case current_driver bdf s of Inl e \<Rightarrow> (Inl e, s) | Inr cur \<Rightarrow>
      if cur = Some drv then (Inr (), s) else vthen (unbind_old kw bdf cur s) (\<lambda>_ s. sysfs_write kw (WBind drv bdf) s)) = (Inr (), s')"
    using assms(2,3,5) drop by (simp add: rebind_def drop_override_def override_texts split: if_splits)
  then have r1: "r1 = Inr ()" by (auto simp: vthen_def split: sum.split_asm)
  then have d1: "d1 = d\<lparr>pd_override := Some []\<rparr>" using one(3) by (simp add: write_done_def override_texts)
  have "vthen (r2, s2) (\<lambda>_ s. sysfs_write kw (WBind drv bdf) s) = (Inr (), s')"
    using run r1 one(2) d1 assms(4) unbind by (simp add: vthen_def current_driver_def)
  then have bind: "r2 = Inr ()" "sysfs_write kw (WBind drv bdf) s2 = (Inr (), s')" by (auto simp: vthen_def split: sum.split_asm)
  have two: "keeps_rest bdf s1 s2 \<and> sy_devs s2 bdf = Some (d1\<lparr>pd_driver := None\<rparr>)"
  proof (cases "pd_driver d")
    case None
    then have "s2 = s1" "d1\<lparr>pd_driver := None\<rparr> = d1" using unbind d1 by (simp_all add: unbind_old_def)
    then show ?thesis using one(2) by simp
  next
    case (Some old)
    then have "sysfs_write kw (WUnbind old bdf) s1 = (Inr (), s2)" using unbind bind(1) by (simp add: unbind_old_def)
    from write_step [OF assms(1) _ one(2) this] show ?thesis by (auto simp: write_done_def)
  qed
  from two have dev2: "sy_devs s2 bdf = Some (d1\<lparr>pd_driver := None\<rparr>)" by blast
  obtain d3 where three: "keeps_rest bdf s2 s'" "sy_devs s' bdf = Some d3" "d3 = d1\<lparr>pd_driver := Some drv\<rparr>"
    by (rule write_step [OF assms(1) _ dev2 bind(2)]) (auto simp: write_done_def)
  show "keeps_rest bdf s s'" using one(1) two three(1) keeps_rest_trans by blast
  show "sy_devs s' bdf = Some (d\<lparr>pd_driver := Some drv, pd_override := Some []\<rparr>)" using three(2,3) d1 by simp
qed

text \<open>
  C18.  A passthrough device comes back: binding it to vfio-pci and rebinding it to the driver
  the bind returned restores every device of the host as it was, the override included.
\<close>

theorem vfio_roundtrip:
  assumes "kernel_ok kw bdf" "sy_devs s bdf = Some d" "pd_driver d = Some drv" "drv \<noteq> VFIO" "pd_override d = Some []"
    "bind_to_vfio kw bdf s = (Inr r, s1)" "rebind kw bdf drv s1 = (Inr (), s2)"
  shows "r = Some drv \<and> sy_devs s2 = sy_devs s \<and> sy_drivers s2 = sy_drivers s"
proof -
  obtain d1 where d1: "keeps_rest bdf s s1" "sy_devs s1 bdf = Some d1" "r = Some drv"
    "d1 = d\<lparr>pd_driver := None, pd_override := Some VFIO\<rparr> \<or> d1 = d\<lparr>pd_driver := Some VFIO, pd_override := Some VFIO\<rparr>"
    using bind_to_vfio_effect [OF assms(1-4) _ assms(6)] assms(5) by auto
  have "pd_override d1 = Some VFIO" "pd_driver d1 \<noteq> Some drv" using d1(4) assms(4) by auto
  note back2 = rebind_effect [OF assms(1) d1(2) this assms(7)]
  have "d1\<lparr>pd_driver := Some drv, pd_override := Some []\<rparr> = d" using d1(4) assms(3,5) by auto
  then have "sy_devs s2 b = sy_devs s b" for b
    using back2 d1(1) assms(2) by (cases "b = bdf") (auto simp: keeps_rest_def)
  then show ?thesis using d1(1,3) back2(1) by (auto simp: keeps_rest_def)
qed

text \<open>
  A bind that fails at the bind itself strands the device: it is left without a driver and
  pinned to vfio-pci, and the error gives the caller no driver to go back to.
\<close>

theorem vfio_bind_strands:
  assumes "kernel_ok kw bdf" "sy_devs s bdf = Some d" "pd_driver d = Some drv" "drv \<noteq> VFIO" "pd_override d \<noteq> None"
    "bind_to_vfio kw bdf s = (Inl (VWrite w e), s')" "w = WProbe bdf \<or> w = WBind VFIO bdf"
  shows "sy_devs s' bdf = Some (d\<lparr>pd_driver := None, pd_override := Some VFIO\<rparr>)"
  using bind_to_vfio_effect [OF assms(1-6)] assms(7) by auto

subsection \<open>A concrete kernel\<close>

text \<open>\<open>kernel_example deny\<close> refuses to bind to the drivers in \<open>deny\<close> and probes as the override says.\<close>

definition set_dev :: "string \<Rightarrow> (pci_dev \<Rightarrow> pci_dev) \<Rightarrow> sysfs \<Rightarrow> sysfs" where
  "set_dev bdf f s = s\<lparr>sy_devs := (sy_devs s)(bdf := map_option f (sy_devs s bdf))\<rparr>"

definition kernel_example :: "string set \<Rightarrow> kernel" where
  "kernel_example deny w s =
     (case w of
        WOverride b v \<Rightarrow> (None, set_dev b (\<lambda>d. d\<lparr>pd_override := Some (strip v)\<rparr>) s)
      | WUnbind _ b \<Rightarrow> (None, set_dev b (\<lambda>d. d\<lparr>pd_driver := None\<rparr>) s)
      | WProbe b \<Rightarrow>
          (None, set_dev b (\<lambda>d. if pd_driver d = None \<and> pd_override d \<notin> Some ` deny then d\<lparr>pd_driver := pd_override d\<rparr> else d) s)
      | WBind drv b \<Rightarrow> if drv \<in> deny then (Some WFailed, s) else (None, set_dev b (\<lambda>d. d\<lparr>pd_driver := Some drv\<rparr>) s)
      | WNewId _ _ \<Rightarrow> (None, s))"

lemma kernel_example_ok: "kernel_ok (kernel_example deny) bdf"
  unfolding kernel_ok_def
  by (auto simp: kernel_example_def set_dev_def keeps_rest_def write_done_def split: sys_write.split_asm if_splits)

definition dev_example :: pci_dev where
  "dev_example = \<lparr>pd_driver = Some ''mlx5_core'', pd_override = Some [], pd_vendor = Some ''0x15b3'', pd_device = Some ''0x101e''\<rparr>"

definition sysfs_example :: sysfs where
  "sysfs_example = \<lparr>sy_devs = [''0000:85:00.1'' \<mapsto> dev_example], sy_drivers = {''vfio-pci'', ''mlx5_core''}\<rparr>"

theorem vfio_roundtrip_witness:
  "sy_devs (snd (rebind (kernel_example {}) ''0000:85:00.1'' ''mlx5_core''
     (snd (bind_to_vfio (kernel_example {}) ''0000:85:00.1'' sysfs_example)))) = sy_devs sysfs_example"
proof -
  let ?s1 = "snd (bind_to_vfio (kernel_example {}) ''0000:85:00.1'' sysfs_example)"
  have dev: "sy_devs sysfs_example ''0000:85:00.1'' = Some dev_example" "pd_driver dev_example = Some ''mlx5_core''"
    "''mlx5_core'' \<noteq> VFIO" "pd_override dev_example = Some []"
    by (simp_all add: sysfs_example_def dev_example_def VFIO_def)
  have "fst (bind_to_vfio (kernel_example {}) ''0000:85:00.1'' sysfs_example) = Inr (Some ''mlx5_core'')"
    "fst (rebind (kernel_example {}) ''0000:85:00.1'' ''mlx5_core'' ?s1) = Inr ()" by code_simp+
  then have "bind_to_vfio (kernel_example {}) ''0000:85:00.1'' sysfs_example = (Inr (Some ''mlx5_core''), ?s1)"
    "rebind (kernel_example {}) ''0000:85:00.1'' ''mlx5_core'' ?s1 = (Inr (), snd (rebind (kernel_example {}) ''0000:85:00.1'' ''mlx5_core'' ?s1))"
    by (metis prod.collapse)+
  from vfio_roundtrip [OF kernel_example_ok dev this] show ?thesis by simp
qed

theorem vfio_bind_strands_witness:
  "map_option pd_driver (sy_devs (snd (bind_to_vfio (kernel_example {''vfio-pci''}) ''0000:85:00.1'' sysfs_example)) ''0000:85:00.1'') = Some None"
proof -
  let ?run = "bind_to_vfio (kernel_example {''vfio-pci''}) ''0000:85:00.1'' sysfs_example"
  have dev: "sy_devs sysfs_example ''0000:85:00.1'' = Some dev_example" "pd_driver dev_example = Some ''mlx5_core''"
    "''mlx5_core'' \<noteq> VFIO" "pd_override dev_example \<noteq> None"
    by (simp_all add: sysfs_example_def dev_example_def VFIO_def)
  have "fst ?run = Inl (VWrite (WBind VFIO ''0000:85:00.1'') WFailed)" by code_simp
  then have "?run = (Inl (VWrite (WBind VFIO ''0000:85:00.1'') WFailed), snd ?run)" by (metis prod.collapse)
  from vfio_bind_strands [OF kernel_example_ok dev this] show ?thesis by simp
qed

end
