(* ===== verification/StorageTree.thy ===== *)
theory StorageTree
  imports PyStr
begin

unbundle bit_operations_syntax

text \<open>
  Trees of files and how \<^verbatim>\<open>storage.py\<close> copies, checks and surveys them.  A directory lists its
  entries in the order of their names, each name once; contents are bytes, here characters.
  How the kernel answers single reads, writes and seeks is a parameter, the loops over them are
  those of the code.
\<close>

subsection \<open>Trees\<close>

record fmeta =
  fm_mode :: nat
  fm_mtime :: int
  fm_uid :: nat

datatype tree =
    TFile fmeta string
  | TLink nat string
  | TDir fmeta "(string \<times> tree) list"
  | TSpecial fmeta

datatype storage_error =
    SOs "string list"
  | SEof
  | SNoProgress
  | SSpecial "string list"
  | SNames "string list"
  | SType "string list"
  | SLinkDiffers "string list"
  | SStatDiffers "string list"

definition S_ISGID :: nat where
  "S_ISGID = 1024"

definition S_ISVTX :: nat where
  "S_ISVTX = 512"

subsection \<open>Copying a file\<close>

text \<open>The data regions of a file as the kernel reports them, \<open>NoSeek\<close> when it does not, and how
  many bytes of a request at an offset a read returns and a write takes.\<close>

datatype seek_kind = NoSeek | Seeks "(nat \<times> nat) list"

record file_io =
  io_seek :: seek_kind
  io_read :: "nat \<Rightarrow> nat \<Rightarrow> nat"
  io_write :: "nat \<Rightarrow> nat \<Rightarrow> nat"

text \<open>\<^verbatim>\<open>lseek\<close> with \<^verbatim>\<open>SEEK_DATA\<close>, \<open>None\<close> for \<^verbatim>\<open>ENXIO\<close>, and the end of the data found.\<close>

definition seek_data :: "(nat \<times> nat) list \<Rightarrow> nat \<Rightarrow> (nat \<times> nat) option" where
  "seek_data regs off =
     map_option (\<lambda>(s, e). (max off s, e)) (find (\<lambda>(s, e). s < e \<and> off < e) regs)"

lemma seek_data_after: "seek_data regs off = Some (d, e) \<Longrightarrow> off \<le> d \<and> d < e"
  by (auto simp: seek_data_def find_Some_iff)

function extents_from :: "(nat \<times> nat) list \<Rightarrow> nat \<Rightarrow> nat \<Rightarrow> (nat \<times> nat) list" where
  "extents_from regs sz off =
     (if off < sz
      then (case seek_data regs off of
          None \<Rightarrow> []
        | Some (data, hole) \<Rightarrow> (data, hole - data) # extents_from regs sz hole)
      else [])"
  by pat_completeness auto

termination
  by (relation "measure (\<lambda>(_, sz, off). sz - off)") (use seek_data_after in fastforce)+

definition data_extents :: "seek_kind \<Rightarrow> nat \<Rightarrow> (nat \<times> nat) list" where
  "data_extents k sz =
     (case k of
        NoSeek \<Rightarrow> if sz = 0 then [] else [(0, sz)]
      | Seeks regs \<Rightarrow> if sz = 0 then [] else extents_from regs sz 0)"

definition ZERO :: char where
  "ZERO = CHR 0x00"

definition pwrite :: "string \<Rightarrow> nat \<Rightarrow> string \<Rightarrow> string" where
  "pwrite dst off buf =
     take off (dst @ replicate (off - length dst) ZERO) @ buf @ drop (off + length buf) dst"

definition ftruncate :: "string \<Rightarrow> nat \<Rightarrow> string" where
  "ftruncate dst sz = take sz dst @ replicate (sz - length dst) ZERO"

function write_pending :: "file_io \<Rightarrow> nat \<Rightarrow> string \<Rightarrow> string \<Rightarrow> (storage_error, nat \<times> string) result" where
  "write_pending io off pending dst =
     (if pending = [] then Inr (off, dst)
      else
        let written = min (io_write io off (length pending)) (length pending)
        in if written = 0 then Inl SNoProgress
           else write_pending io (off + written) (drop written pending) (pwrite dst off (take written pending)))"
  by pat_completeness auto

termination
  by (relation "measure (\<lambda>(_, _, pending, _). length pending)") auto

declare write_pending.simps [simp del]

definition CHUNK :: nat where
  "CHUNK = 4 * 2 ^ 20"

definition pread :: "file_io \<Rightarrow> string \<Rightarrow> nat \<Rightarrow> nat \<Rightarrow> string" where
  "pread io src n off = take (min n (io_read io off n)) (drop off src)"

lemma write_pending_Inr:
  assumes "write_pending io off pending dst = Inr r" "pending \<noteq> []"
  obtains w where "0 < w" "w \<le> length pending"
    "write_pending io (off + w) (drop w pending) (pwrite dst off (take w pending)) = Inr r"
proof (rule that [of "min (io_write io off (length pending)) (length pending)"])
qed (use assms in \<open>auto simp: write_pending.simps [of io off pending] Let_def split: if_split_asm\<close>)

lemma write_pending_Nil [simp]: "write_pending io off [] dst = Inr (off, dst)"
  by (simp add: write_pending.simps)

lemma write_pending_off: "write_pending io off pending dst = Inr (off', dst') \<Longrightarrow> off' = off + length pending"
proof (induction "length pending" arbitrary: off pending dst rule: less_induct)
  case less
  show ?case
  proof (cases "pending = []")
    case False
    obtain w where w: "0 < w" "w \<le> length pending"
      "write_pending io (off + w) (drop w pending) (pwrite dst off (take w pending)) = Inr (off', dst')"
      using less.prems False by (rule write_pending_Inr)
    from w less.hyps [OF _ w(3)] False show ?thesis by simp
  qed (use less.prems in simp)
qed

function copy_range :: "file_io \<Rightarrow> string \<Rightarrow> nat \<Rightarrow> nat \<Rightarrow> string \<Rightarrow> (storage_error, string) result" where
  "copy_range io src off end' dst =
     (if off < end'
      then
        let buf = pread io src (min CHUNK (end' - off)) off
        in if buf = [] then Inl SEof
           else (case write_pending io off buf dst of
               Inl e \<Rightarrow> Inl e
             | Inr (off', dst') \<Rightarrow> copy_range io src off' end' dst')
      else Inr dst)"
  by pat_completeness auto

termination
  by (relation "measure (\<lambda>(_, _, off, end', _). end' - off)") (auto dest!: write_pending_off intro!: diff_less_mono2)

declare extents_from.simps [simp del] copy_range.simps [simp del]

fun copy_extents :: "file_io \<Rightarrow> string \<Rightarrow> (nat \<times> nat) list \<Rightarrow> string \<Rightarrow> (storage_error, string) result" where
  "copy_extents io src [] dst = Inr dst"
| "copy_extents io src ((off, len) # rest) dst =
     res_bind (copy_range io src off (off + len) dst) (copy_extents io src rest)"

text \<open>\<open>sz\<close> is what \<^verbatim>\<open>lstat\<close> said of the source.\<close>

definition copy_file :: "file_io \<Rightarrow> string \<Rightarrow> nat \<Rightarrow> (storage_error, string) result" where
  "copy_file io src sz =
     res_map (\<lambda>dst. ftruncate dst sz) (copy_extents io src (data_extents (io_seek io) sz) [])"

subsection \<open>Copying a tree\<close>

definition share_mode :: "nat \<Rightarrow> bool \<Rightarrow> bool \<Rightarrow> nat" where
  "share_mode mode parent_setgid is_dir =
     (let mode = mode OR drop_bit 3 (mode AND 448)
      in if is_dir \<and> parent_setgid then mode OR S_ISGID else mode)"

text \<open>Which system calls fail, by the path below the root of the copy: making a directory or a
  file (\<open>ce_fail\<close>), setting mode and time (\<open>ce_late\<close>), reading a directory back (\<open>ce_scan\<close>).\<close>

record copy_env =
  ce_fail :: "string list \<Rightarrow> bool"
  ce_late :: "string list \<Rightarrow> bool"
  ce_scan :: "string list \<Rightarrow> bool"
  ce_io :: "string list \<Rightarrow> file_io"
  ce_uid :: nat

text \<open>\<open>sg\<close>: the directory the copy is made in has its setgid bit set, which the kernel hands down to
  every directory made below it.\<close>

definition copy_meta :: "copy_env \<Rightarrow> bool \<Rightarrow> bool \<Rightarrow> bool \<Rightarrow> fmeta \<Rightarrow> fmeta" where
  "copy_meta env share sg is_dir m =
     m\<lparr>fm_mode := (if share then share_mode (fm_mode m) sg is_dir else fm_mode m), fm_uid := ce_uid env\<rparr>"

fun copy_tree :: "copy_env \<Rightarrow> bool \<Rightarrow> bool \<Rightarrow> string list \<Rightarrow> tree \<Rightarrow> (storage_error, tree) result"
  and copy_entries :: "copy_env \<Rightarrow> bool \<Rightarrow> bool \<Rightarrow> string list \<Rightarrow> (string \<times> tree) list \<Rightarrow> (storage_error, (string \<times> tree) list) result"
where
  "copy_tree env share sg at (TLink uid target) = (if ce_fail env at then Inl (SOs at) else Inr (TLink (ce_uid env) target))"
| "copy_tree env share sg at (TDir m es) =
     (if ce_fail env at then Inl (SOs at)
      else
        res_bind (copy_entries env share sg at es) (\<lambda>es'.
          if ce_late env at then Inl (SOs at) else Inr (TDir (copy_meta env share sg True m) es')))"
| "copy_tree env share sg at (TFile m data) =
     (if ce_fail env at then Inl (SOs at)
      else
        res_bind (copy_file (ce_io env at) data (length data)) (\<lambda>data'.
          if ce_late env at then Inl (SOs at) else Inr (TFile (copy_meta env share sg False m) data')))"
| "copy_tree env share sg at (TSpecial m) = Inl (SSpecial at)"
| "copy_entries env share sg at [] = Inr []"
| "copy_entries env share sg at ((name, t) # es) =
     res_bind (copy_tree env share sg (at @ [name]) t) (\<lambda>t'.
       res_map (Cons (name, t')) (copy_entries env share sg at es))"

subsection \<open>Checking a copy\<close>

type_synonym entries = "(string \<times> tree) list"

definition check_entry :: "string list \<Rightarrow> tree \<Rightarrow> tree \<Rightarrow> (storage_error, (string list \<times> entries \<times> entries) list) result" where
  "check_entry r ta tb =
     (case (ta, tb) of
        (TDir _ a, TDir _ b) \<Rightarrow> Inr [(r, a, b)]
      | (TLink _ s, TLink _ t) \<Rightarrow> if s \<noteq> t then Inl (SLinkDiffers r) else Inr []
      | (TFile m d, TFile m' d') \<Rightarrow>
          if (length d, fm_mtime m) \<noteq> (length d', fm_mtime m') then Inl (SStatDiffers r) else Inr []
      | (TSpecial m, TSpecial m') \<Rightarrow> if fm_mtime m \<noteq> fm_mtime m' then Inl (SStatDiffers r) else Inr []
      | _ \<Rightarrow> Inl (SType r))"

text \<open>The entries of a directory against those of its copy, which has the same names: the
  directories among them are put on the stack.\<close>

fun check_entries :: "string list \<Rightarrow> entries \<Rightarrow> entries \<Rightarrow> (storage_error, (string list \<times> entries \<times> entries) list) result" where
  "check_entries rel [] b = Inr []"
| "check_entries rel ((name, ta) # a) b =
     (case dict_get b name of
        None \<Rightarrow> Inl (SNames rel)
      | Some tb \<Rightarrow>
          res_bind (check_entry (rel @ [name]) ta tb) (\<lambda>push. res_map (\<lambda>rest. push @ rest) (check_entries rel a b)))"

fun weight :: "tree \<Rightarrow> nat" and weights :: "entries \<Rightarrow> nat" where
  "weight (TDir m es) = Suc (weights es)"
| "weight (TFile m d) = 1"
| "weight (TLink u s) = 1"
| "weight (TSpecial m) = 1"
| "weights [] = 0"
| "weights ((n, t) # es) = weight t + weights es"

definition stack_weight :: "(string list \<times> entries \<times> entries) list \<Rightarrow> nat" where
  "stack_weight stack = sum_list (map (\<lambda>(_, a, _). Suc (weights a)) stack)"

lemma stack_weight_simps [simp]:
  "stack_weight [] = 0"
  "stack_weight ((r, a, b) # s) = Suc (weights a) + stack_weight s"
  "stack_weight (s @ t) = stack_weight s + stack_weight t"
  "stack_weight (rev s) = stack_weight s"
  by (simp_all add: stack_weight_def rev_map [symmetric])

lemma check_entry_weight: "check_entry r ta tb = Inr push \<Longrightarrow> stack_weight push \<le> weight ta"
  by (auto simp: check_entry_def split: tree.splits if_split_asm)

lemma check_entries_weight: "check_entries rel a b = Inr push \<Longrightarrow> stack_weight push \<le> weights a"
  by (induction rel a b arbitrary: push rule: check_entries.induct)
    (fastforce simp: res_bind_eq_Inr res_map_eq_Inr dest!: check_entry_weight split: option.split_asm)+

function verify_dirs :: "copy_env \<Rightarrow> (string list \<times> entries \<times> entries) list \<Rightarrow> (storage_error, unit) result" where
  "verify_dirs env [] = Inr ()"
| "verify_dirs env ((rel, a, b) # stack) =
     (if ce_scan env rel then Inl (SOs rel)
      else if set (map fst a) \<noteq> set (map fst b) then Inl (SNames rel)
      else
        (case check_entries rel a b of
           Inl e \<Rightarrow> Inl e
         | Inr push \<Rightarrow> verify_dirs env (rev push @ stack)))"
  by pat_completeness auto

termination
  by (relation "measure (\<lambda>(_, stack). stack_weight stack)") (auto dest!: check_entries_weight)

definition verify_copy :: "copy_env \<Rightarrow> tree \<Rightarrow> tree \<Rightarrow> (storage_error, unit) result" where
  "verify_copy env src dst =
     (case (src, dst) of
        (TDir _ a, TDir _ b) \<Rightarrow> verify_dirs env [([], a, b)]
      | _ \<Rightarrow> Inl (SOs []))"

subsection \<open>Surveying a tree\<close>

datatype survey_problem =
    SvUnreadable "string list"
  | SvNotWritable "string list" nat nat
  | SvSticky "string list" nat
  | SvNoRead "string list"
  | SvMore nat

record survey_env =
  sv_uid :: nat
  sv_scan :: "string list \<Rightarrow> bool"
  sv_access :: "string list \<Rightarrow> bool"
  sv_readable :: "string list \<Rightarrow> bool"
  sv_blocks :: "string list \<Rightarrow> nat"

fun tree_uid :: "tree \<Rightarrow> nat" where
  "tree_uid (TFile m d) = fm_uid m"
| "tree_uid (TDir m es) = fm_uid m"
| "tree_uid (TSpecial m) = fm_uid m"
| "tree_uid (TLink u s) = u"

definition survey_entry :: "survey_env \<Rightarrow> bool \<Rightarrow> string list \<Rightarrow> tree \<Rightarrow> nat \<times> survey_problem list" where
  "survey_entry env sticky p t =
     (let own = (if sticky \<and> tree_uid t \<noteq> sv_uid env then [SvSticky p (tree_uid t)] else [])
      in case t of
           TFile m d \<Rightarrow> (sv_blocks env p * 512, own @ (if sv_readable env p then [] else [SvNoRead p]))
         | _ \<Rightarrow> (0, own))"

definition add_survey :: "nat \<times> survey_problem list \<Rightarrow> nat \<times> survey_problem list \<Rightarrow> nat \<times> survey_problem list" where
  "add_survey x y = (fst x + fst y, snd x @ snd y)"

text \<open>\<^verbatim>\<open>os.walk\<close>: a directory, its entries, then the directories among them.\<close>

fun survey_walk :: "survey_env \<Rightarrow> string list \<Rightarrow> tree \<Rightarrow> nat \<times> survey_problem list"
  and survey_below :: "survey_env \<Rightarrow> string list \<Rightarrow> entries \<Rightarrow> nat \<times> survey_problem list"
where
  "survey_walk env at (TDir m es) =
     (if \<not> sv_scan env at then (0, [SvUnreadable at])
      else
        let sticky = fm_mode m AND S_ISVTX \<noteq> 0 \<and> fm_uid m \<noteq> sv_uid env
        in add_survey (0, if sv_access env at then [] else [SvNotWritable at (fm_uid m) (fm_mode m)])
             (add_survey
               (foldr (\<lambda>(n, t). add_survey (survey_entry env sticky (at @ [n]) t)) es (0, []))
               (survey_below env at es)))"
| "survey_walk env at t = (0, [])"
| "survey_below env at [] = (0, [])"
| "survey_below env at ((n, t) # es) = add_survey (survey_walk env (at @ [n]) t) (survey_below env at es)"

definition survey :: "survey_env \<Rightarrow> tree \<Rightarrow> nat \<times> survey_problem list" where
  "survey env t =
     (case survey_walk env [] t of (bytes, ps) \<Rightarrow>
        (bytes, take 5 ps @ (if length ps > 5 then [SvMore (length ps - 5)] else [])))"

subsection \<open>Lemmas: a copied file is the file\<close>

lemma pwrite_Nil: "off \<le> length dst \<Longrightarrow> pwrite dst off [] = dst"
  by (simp add: pwrite_def)

lemma length_pwrite: "length (pwrite dst off buf) = max (length dst) (off + length buf)"
  by (auto simp: pwrite_def)

lemma pwrite_nth:
  assumes "i < length (pwrite dst off buf)"
  shows "pwrite dst off buf ! i = (if off \<le> i \<and> i < off + length buf then buf ! (i - off)
    else if i < length dst then dst ! i else ZERO)"
proof -
  define front where "front = take off (dst @ replicate (off - length dst) ZERO)"
  have len: "length front = off" and nth: "i < off \<Longrightarrow> front ! i = (if i < length dst then dst ! i else ZERO)"
    by (auto simp: front_def nth_append)
  have "pwrite dst off buf = front @ buf @ drop (off + length buf) dst" by (simp add: pwrite_def front_def)
  with len nth assms show ?thesis by (auto simp: nth_append length_pwrite)
qed

lemma pwrite_take:
  assumes "w \<le> length buf" "0 < w"
  shows "pwrite (pwrite dst off (take w buf)) (off + w) (drop w buf) = pwrite dst off buf"
proof (rule nth_equalityI)
  show "length (pwrite (pwrite dst off (take w buf)) (off + w) (drop w buf)) = length (pwrite dst off buf)"
    using assms by (simp add: length_pwrite)
  fix i assume "i < length (pwrite (pwrite dst off (take w buf)) (off + w) (drop w buf))"
  then show "pwrite (pwrite dst off (take w buf)) (off + w) (drop w buf) ! i = pwrite dst off buf ! i"
    using assms by (auto simp: pwrite_nth length_pwrite)
qed

lemma write_pending_result:
  "write_pending io off pending dst = Inr (off', dst') \<Longrightarrow> pending \<noteq> [] \<Longrightarrow> dst' = pwrite dst off pending"
proof (induction "length pending" arbitrary: off pending dst rule: less_induct)
  case less
  obtain w where w: "0 < w" "w \<le> length pending"
    "write_pending io (off + w) (drop w pending) (pwrite dst off (take w pending)) = Inr (off', dst')"
    using less.prems by (rule write_pending_Inr)
  show ?case
  proof (cases "drop w pending = []")
    case True
    then show ?thesis using w by simp
  next
    case False
    then show ?thesis using less.hyps [OF _ w(3)] w(1) less.prems(2) pwrite_take [OF w(2,1)] by simp
  qed
qed

lemma write_pending_ends:
  assumes "\<forall>off n. 0 < n \<longrightarrow> 0 < io_write io off n"
  shows "\<exists>r. write_pending io off pending dst = Inr r"
proof (induction "length pending" arbitrary: off pending dst rule: less_induct)
  case less
  show ?case
  proof (cases "pending = []")
    case False
    let ?w = "min (io_write io off (length pending)) (length pending)"
    have "0 < ?w" using False assms by simp
    moreover from this have "\<exists>r. write_pending io (off + ?w) (drop ?w pending) (pwrite dst off (take ?w pending)) = Inr r"
      using False by (intro less.hyps) simp
    ultimately show ?thesis using False by (simp add: write_pending.simps [of io off pending] Let_def)
  qed simp
qed

lemma copy_range_Inr:
  assumes "copy_range io src off end' dst = Inr dst'" "off < end'"
  obtains k where "0 < k" "k \<le> end' - off" "off + k \<le> length src"
    "copy_range io src (off + k) end' (pwrite dst off (take k (drop off src))) = Inr dst'"
proof -
  define buf where "buf = pread io src (min CHUNK (end' - off)) off"
  have step: "buf \<noteq> []" "(case write_pending io off buf dst of Inl e \<Rightarrow> Inl e
      | Inr (off', dst') \<Rightarrow> copy_range io src off' end' dst') = Inr dst'"
    using assms by (auto simp: copy_range.simps [of io src off] buf_def Let_def split: if_split_asm)
  then obtain off1 dst1 where w: "write_pending io off buf dst = Inr (off1, dst1)"
    and rest: "copy_range io src off1 end' dst1 = Inr dst'" by (auto split: sum.split_asm)
  have take_len: "take n xs = take (length (take n xs)) xs" for n and xs :: string by (cases "n \<le> length xs") auto
  have "buf = take (length buf) (drop off src)" unfolding buf_def pread_def by (rule take_len)
  moreover have "length buf \<le> end' - off" "length buf \<le> length src - off" by (simp_all add: buf_def pread_def)
  moreover have "off < length src" using step(1) by (auto simp: buf_def pread_def)
  ultimately have "buf = take (length buf) (drop off src)" "length buf \<le> end' - off" "off + length buf \<le> length src"
    by simp_all
  then show thesis
    using that [of "length buf"] step(1) rest write_pending_off [OF w] write_pending_result [OF w step(1)] by simp
qed

lemma copy_range_result:
  assumes "copy_range io src off end' dst = Inr dst'" "off < end'"
  shows "dst' = pwrite dst off (take (end' - off) (drop off src)) \<and> end' \<le> length src"
  using assms
proof (induction "end' - off" arbitrary: off dst rule: less_induct)
  case less
  obtain k where k: "0 < k" "k \<le> end' - off" "off + k \<le> length src"
    "copy_range io src (off + k) end' (pwrite dst off (take k (drop off src))) = Inr dst'"
    using less.prems by (rule copy_range_Inr)
  show ?case
  proof (cases "off + k < end'")
    case True
    let ?buf = "take (end' - off) (drop off src)"
    from less.hyps [OF _ k(4) True] k(1) True
    have "dst' = pwrite (pwrite dst off (take k (drop off src))) (off + k) (take (end' - (off + k)) (drop (off + k) src))"
      and le: "end' \<le> length src" by auto
    moreover have "take k ?buf = take k (drop off src)" "drop k ?buf = take (end' - (off + k)) (drop (off + k) src)"
      using k(2) by (simp_all add: min_def drop_take add.commute)
    ultimately show ?thesis using pwrite_take [of k ?buf dst off] k(1,2) le by simp
  next
    case False
    then have "end' = off + k" using k(2) less.prems(2) by simp
    then show ?thesis using k(3,4) by (simp add: copy_range.simps)
  qed
qed

lemma copy_range_ends:
  assumes "\<forall>off n. 0 < n \<longrightarrow> 0 < io_read io off n \<and> 0 < io_write io off n" "end' \<le> length src"
  shows "\<exists>r. copy_range io src off end' dst = Inr r"
proof (induction "end' - off" arbitrary: off dst rule: less_induct)
  case less
  define buf where "buf = pread io src (min CHUNK (end' - off)) off"
  obtain off1 dst1 where w: "write_pending io off buf dst = Inr (off1, dst1)"
    using write_pending_ends [of io off buf dst] assms(1) by auto
  show ?case
  proof (cases "off < end'")
    case True
    then have ne: "buf \<noteq> []" using assms by (simp add: buf_def pread_def CHUNK_def)
    then have "off1 > off" using write_pending_off [OF w] by simp
    then show ?thesis
      using less.hyps [of off1 dst1] True ne w by (simp add: copy_range.simps [of io src off] Let_def buf_def [symmetric])
  qed (simp add: copy_range.simps)
qed

text \<open>What a seek promises: no data is skipped, and data ends within the file.\<close>

definition seek_law :: "(nat \<times> nat) list \<Rightarrow> string \<Rightarrow> bool" where
  "seek_law regs src \<longleftrightarrow>
     (\<forall>off < length src.
        case seek_data regs off of
          None \<Rightarrow> \<forall>i. off \<le> i \<and> i < length src \<longrightarrow> src ! i = ZERO
        | Some (d, e) \<Rightarrow> e \<le> length src \<and> (\<forall>i. off \<le> i \<and> i < d \<longrightarrow> src ! i = ZERO))"

definition seek_kind_law :: "seek_kind \<Rightarrow> string \<Rightarrow> bool" where
  "seek_kind_law k src = (case k of NoSeek \<Rightarrow> True | Seeks regs \<Rightarrow> seek_law regs src)"

text \<open>The bytes written so far, with a hole after them, are those of the source up to an offset.\<close>

definition copied_to :: "string \<Rightarrow> nat \<Rightarrow> string \<Rightarrow> bool" where
  "copied_to src off dst \<longleftrightarrow>
     length dst \<le> off \<and> (\<forall>i < off. src ! i = (if i < length dst then dst ! i else ZERO))"

lemma copied_range:
  assumes "copied_to src off dst" "off \<le> d" "d < e" "e \<le> length src" "\<forall>i. off \<le> i \<and> i < d \<longrightarrow> src ! i = ZERO"
  shows "copied_to src e (pwrite dst d (take (e - d) (drop d src)))"
proof -
  let ?buf = "take (e - d) (drop d src)"
  have len: "length ?buf = e - d" "length (pwrite dst d ?buf) = e"
    using assms by (auto simp: copied_to_def length_pwrite)
  have "src ! i = (if i < length dst then dst ! i else ZERO)" if "i < d" for i
    using assms(1,5) that by (cases "i < off") (auto simp: copied_to_def)
  then have "src ! i = pwrite dst d ?buf ! i" if "i < e" for i
    using assms that len by (cases "i < d") (simp_all add: pwrite_nth)
  with len show ?thesis by (simp add: copied_to_def)
qed

lemma copied_all: "copied_to src (length src) dst \<Longrightarrow> ftruncate dst (length src) = src"
  by (rule nth_equalityI) (auto simp: copied_to_def ftruncate_def nth_append)

lemma copy_extents_result:
  assumes "seek_law regs src" "copied_to src off dst" "off \<le> length src"
    "copy_extents io src (extents_from regs (length src) off) dst = Inr dst'"
  shows "copied_to src (length src) dst'"
  using assms
proof (induction regs "length src" off arbitrary: dst rule: extents_from.induct)
  case (1 regs off)
  show ?case
  proof (cases "off < length src")
    case False
    then show ?thesis using 1 by (auto simp: extents_from.simps)
  next
    case True
    show ?thesis
    proof (cases "seek_data regs off")
      case None
      then have zero: "\<forall>i. off \<le> i \<and> i < length src \<longrightarrow> src ! i = ZERO"
        using 1(2) True by (auto simp: seek_law_def)
      have "src ! i = (if i < length dst then dst ! i else ZERO)" if "i < length src" for i
        using 1(3) zero that by (cases "i < off") (auto simp: copied_to_def)
      then have "copied_to src (length src) dst" using 1(3) True by (simp add: copied_to_def)
      then show ?thesis using 1(5) None True by (simp add: extents_from.simps [of regs])
    next
      case (Some p)
      then obtain d e where p: "seek_data regs off = Some (d, e)" by (cases p) auto
      have de: "off \<le> d" "d < e" using seek_data_after [OF p] by auto
      have e: "e \<le> length src" "\<forall>i. off \<le> i \<and> i < d \<longrightarrow> src ! i = ZERO"
        using 1(2) True p by (auto simp: seek_law_def)
      from 1(5) p True obtain dst1 where r: "copy_range io src d (d + (e - d)) dst = Inr dst1"
        and rest: "copy_extents io src (extents_from regs (length src) e) dst1 = Inr dst'"
        by (subst (asm) extents_from.simps) (auto simp: res_bind_eq_Inr)
      have "dst1 = pwrite dst d (take (e - d) (drop d src))" using copy_range_result [OF r] de by simp
      then have "copied_to src e dst1" using copied_range [OF 1(3) de e] by simp
      with 1(1) [OF True p refl 1(2)] rest e(1) show ?thesis by blast
    qed
  qed
qed

lemma copy_extents_ends:
  assumes "\<forall>off n. 0 < n \<longrightarrow> 0 < io_read io off n \<and> 0 < io_write io off n" "\<forall>(d, n) \<in> set xs. d + n \<le> length src"
  shows "\<exists>r. copy_extents io src xs dst = Inr r"
  using assms(2)
proof (induction xs arbitrary: dst)
  case (Cons x xs)
  then obtain d n where x: "x = (d, n)" "d + n \<le> length src" by (cases x) auto
  from copy_range_ends [OF assms(1) x(2), of d dst] Cons show ?case by (auto simp: x)
qed simp

lemma extents_within:
  assumes "seek_law regs src" "(d, n) \<in> set (extents_from regs (length src) off)"
  shows "d + n \<le> length src"
  using assms(2)
proof (induction "length src - off" arbitrary: off rule: less_induct)
  case less
  note ext = extents_from.simps [of regs "length src" off]
  have off: "off < length src"
  proof (rule ccontr)
    assume "\<not> off < length src"
    then show False using less.prems ext by simp
  qed
  obtain a e where p: "seek_data regs off = Some (a, e)"
  proof (cases "seek_data regs off")
    case None
    then show thesis using less.prems ext off by simp
  qed (use that in auto)
  then have "(d, n) = (a, e - a) \<or> (d, n) \<in> set (extents_from regs (length src) e)"
    using less.prems off by (simp add: extents_from.simps [of regs "length src" off])
  moreover have "e \<le> length src" "off \<le> a" "a < e" using assms(1) off p seek_data_after [OF p] by (auto simp: seek_law_def)
  ultimately show ?case using less.hyps [of e] off by auto
qed

lemma copy_file_same:
  assumes "seek_kind_law (io_seek io) src" "copy_file io src (length src) = Inr dst"
  shows "dst = src"
proof -
  obtain d where d: "copy_extents io src (data_extents (io_seek io) (length src)) [] = Inr d" "dst = ftruncate d (length src)"
    using assms(2) by (auto simp: copy_file_def res_map_eq_Inr)
  have start: "copied_to src 0 []" by (simp add: copied_to_def)
  have "copied_to src (length src) d"
  proof (cases "io_seek io")
    case NoSeek
    then show ?thesis
      using d(1) start copy_range_result [of io src 0 "length src" "[]" d] copied_range [OF start, of 0 "length src"]
      by (cases "src = []") (auto simp: data_extents_def res_bind_eq_Inr)
  next
    case (Seeks regs)
    then show ?thesis
      using d(1) start assms(1) copy_extents_result [of regs src 0 "[]" io d]
      by (cases "src = []") (auto simp: data_extents_def seek_kind_law_def)
  qed
  then show ?thesis using d(2) copied_all by simp
qed

lemma copy_file_ends:
  assumes "seek_kind_law (io_seek io) src" "\<forall>off n. 0 < n \<longrightarrow> 0 < io_read io off n \<and> 0 < io_write io off n"
  shows "\<exists>dst. copy_file io src (length src) = Inr dst"
proof -
  have "\<forall>(d, n) \<in> set (data_extents (io_seek io) (length src)). d + n \<le> length src"
    using assms(1) extents_within [of _ src]
    by (cases "io_seek io") (force simp: data_extents_def seek_kind_law_def split: if_split_asm)+
  from copy_extents_ends [OF assms(2) this, of "[]"] show ?thesis by (auto simp: copy_file_def)
qed

text \<open>
  C30.  A copied file is the file, holes and all: whatever regions the kernel reports and however
  short its reads and writes are, a copy that ends without an error has the contents of the
  source, and if every read and write makes some progress it does end so.
\<close>

theorem copy_file_exact:
  assumes "seek_kind_law (io_seek io) src"
  shows "(\<forall>dst. copy_file io src (length src) = Inr dst \<longrightarrow> dst = src) \<and>
    ((\<forall>off n. 0 < n \<longrightarrow> 0 < io_read io off n \<and> 0 < io_write io off n) \<longrightarrow> copy_file io src (length src) = Inr src)"
proof -
  note same = copy_file_same [OF assms]
  moreover have "copy_file io src (length src) = Inr src"
    if "\<forall>off n. 0 < n \<longrightarrow> 0 < io_read io off n \<and> 0 < io_write io off n"
    using copy_file_ends [OF assms that] same by blast
  ultimately show ?thesis by blast
qed

definition sparse_io :: file_io where
  "sparse_io = \<lparr>io_seek = Seeks [(2, 5), (7, 8)], io_read = (\<lambda>off n. 2), io_write = (\<lambda>off n. 1)\<rparr>"

definition sparse_example :: string where
  "sparse_example = [ZERO, ZERO, CHR ''a'', ZERO, CHR ''b'', ZERO, ZERO, CHR ''c'', ZERO]"

lemma sparse_law: "seek_kind_law (io_seek sparse_io) sparse_example"
proof -
  let ?regs = "[(2, 5), (7, 8)]"
  have "list_all (\<lambda>off. case seek_data ?regs off of
      None \<Rightarrow> list_all (\<lambda>i. sparse_example ! i = ZERO) [off..<length sparse_example]
    | Some (d, e) \<Rightarrow> e \<le> length sparse_example \<and> list_all (\<lambda>i. sparse_example ! i = ZERO) [off..<d])
    [0..<length sparse_example]" (is "list_all ?P _") by code_simp
  then have "?P off" if "off < length sparse_example" for off using that by (simp add: list_all_iff)
  then have "seek_law ?regs sparse_example" unfolding seek_law_def by (fastforce simp: list_all_iff split: option.splits)
  then show ?thesis by (simp add: seek_kind_law_def sparse_io_def)
qed

theorem copy_file_exact_witness: "copy_file sparse_io sparse_example 9 = Inr sparse_example"
proof -
  have "length sparse_example = 9" by (simp add: sparse_example_def)
  with copy_file_exact [OF sparse_law] show ?thesis by (simp add: sparse_io_def)
qed

subsection \<open>Lemmas: what the check accepts\<close>

text \<open>What a copy has to keep: the names and types at every level, the targets of links, and the
  size and time of files.\<close>

fun same_tree :: "tree \<Rightarrow> tree \<Rightarrow> bool" and same_entries :: "entries \<Rightarrow> entries \<Rightarrow> bool" where
  "same_tree (TDir m a) t = (case t of TDir m' b \<Rightarrow> set (map fst a) = set (map fst b) \<and> same_entries a b | _ \<Rightarrow> False)"
| "same_tree (TLink u s) t = (case t of TLink u' s' \<Rightarrow> s = s' | _ \<Rightarrow> False)"
| "same_tree (TFile m d) t = (case t of TFile m' d' \<Rightarrow> length d = length d' \<and> fm_mtime m = fm_mtime m' | _ \<Rightarrow> False)"
| "same_tree (TSpecial m) t = (case t of TSpecial m' \<Rightarrow> fm_mtime m = fm_mtime m' | _ \<Rightarrow> False)"
| "same_entries [] b = True"
| "same_entries ((n, t) # a) b = (case dict_get b n of None \<Rightarrow> False | Some t' \<Rightarrow> same_tree t t' \<and> same_entries a b)"

definition same_dirs :: "(string list \<times> entries \<times> entries) list \<Rightarrow> bool" where
  "same_dirs stack \<longleftrightarrow> (\<forall>(r, a, b) \<in> set stack. set (map fst a) = set (map fst b) \<and> same_entries a b)"

lemma same_dirs_simps [simp]:
  "same_dirs []"
  "same_dirs ((r, a, b) # s) \<longleftrightarrow> (set (map fst a) = set (map fst b) \<and> same_entries a b) \<and> same_dirs s"
  "same_dirs (s @ t) \<longleftrightarrow> same_dirs s \<and> same_dirs t"
  "same_dirs (rev s) \<longleftrightarrow> same_dirs s"
  by (simp_all add: same_dirs_def ball_Un)

lemma check_entry_same: "same_tree ta tb \<longleftrightarrow> (\<exists>push. check_entry r ta tb = Inr push \<and> same_dirs push)"
  by (cases ta; cases tb) (auto simp: check_entry_def)

lemma check_entries_same: "same_entries a b \<longleftrightarrow> (\<exists>push. check_entries rel a b = Inr push \<and> same_dirs push)"
proof (induction rel a b rule: check_entries.induct)
  case (2 rel name ta a b)
  show ?case
  proof (cases "dict_get b name")
    case (Some tb)
    then show ?thesis
      using 2 check_entry_same [of ta tb "rel @ [name]"] by (auto simp: res_bind_eq_Inr res_map_eq_Inr)
  qed simp
qed simp

lemma verify_dirs_same:
  assumes "\<forall>r. \<not> ce_scan env r"
  shows "verify_dirs env stack = Inr () \<longleftrightarrow> same_dirs stack"
  using assms
proof (induction env stack rule: verify_dirs.induct)
  case (2 env rel a b stack)
  show ?case
  proof (cases "set (map fst a) = set (map fst b)")
    case True
    show ?thesis
    proof (cases "check_entries rel a b")
      case (Inr push)
      then show ?thesis
        using 2 True check_entries_same [of a b rel] by (auto simp del: set_map)
    qed (use 2 True check_entries_same [of a b rel] in auto)
  qed (use 2 in simp)
qed simp

text \<open>
  The check of a copy accepts exactly what it should: a worklist over the two trees finds no
  difference if and only if they have the same names, types, link targets, file sizes and times
  at every level.
\<close>

theorem verify_copy_exact:
  assumes "\<forall>r. \<not> ce_scan env r"
  shows "verify_copy env (TDir m a) t = Inr () \<longleftrightarrow> same_tree (TDir m a) t"
  using verify_dirs_same [OF assms, of "[([], a, b)]" for b] by (cases t) (simp_all add: verify_copy_def)

definition meta_example :: fmeta where
  "meta_example = \<lparr>fm_mode = 420, fm_mtime = 7, fm_uid = 0\<rparr>"

definition tree_example :: tree where
  "tree_example =
     TDir meta_example [(''kernel'', TDir meta_example [(''vmlinux'', TFile meta_example [ZERO, CHR ''k'', ZERO])]),
       (''latest'', TLink 0 ''kernel'')]"

definition io_example :: file_io where
  "io_example = \<lparr>io_seek = Seeks [(1, 2)], io_read = (\<lambda>_ _. 1), io_write = (\<lambda>_ _. 1)\<rparr>"

definition copy_example :: copy_env where
  "copy_example = \<lparr>ce_fail = (\<lambda>_. False), ce_late = (\<lambda>_. False), ce_scan = (\<lambda>_. False), ce_io = (\<lambda>_. io_example), ce_uid = 5\<rparr>"

theorem verify_copy_exact_witness:
  "verify_copy copy_example tree_example tree_example = Inr () \<and>
   verify_copy copy_example tree_example (TDir meta_example []) \<noteq> Inr ()"
proof -
  have scan: "\<forall>r. \<not> ce_scan copy_example r" by (simp add: copy_example_def)
  have "same_tree tree_example tree_example" "\<not> same_tree tree_example (TDir meta_example [])" by code_simp+
  then show ?thesis unfolding tree_example_def verify_copy_exact [OF scan] by simp
qed

subsection \<open>Lemmas: a copied tree\<close>

text \<open>The copy a destination should hold: the same contents, the modes of a shared directory, the
  files of the user who copies.\<close>

fun shared_tree :: "copy_env \<Rightarrow> bool \<Rightarrow> bool \<Rightarrow> tree \<Rightarrow> tree" and shared_entries :: "copy_env \<Rightarrow> bool \<Rightarrow> bool \<Rightarrow> entries \<Rightarrow> entries" where
  "shared_tree env share sg (TDir m es) = TDir (copy_meta env share sg True m) (shared_entries env share sg es)"
| "shared_tree env share sg (TFile m d) = TFile (copy_meta env share sg False m) d"
| "shared_tree env share sg (TLink u s) = TLink (ce_uid env) s"
| "shared_tree env share sg (TSpecial m) = TSpecial m"
| "shared_entries env share sg [] = []"
| "shared_entries env share sg ((n, t) # es) = (n, shared_tree env share sg t) # shared_entries env share sg es"

text \<open>The data regions the kernel reports for the files of a tree are those of their contents.\<close>

fun tree_seeks :: "copy_env \<Rightarrow> string list \<Rightarrow> tree \<Rightarrow> bool" and entries_seek :: "copy_env \<Rightarrow> string list \<Rightarrow> entries \<Rightarrow> bool" where
  "tree_seeks env at (TDir m es) = entries_seek env at es"
| "tree_seeks env at (TFile m d) = seek_kind_law (io_seek (ce_io env at)) d"
| "tree_seeks env at (TLink u s) = True"
| "tree_seeks env at (TSpecial m) = True"
| "entries_seek env at [] = True"
| "entries_seek env at ((n, t) # es) = (tree_seeks env (at @ [n]) t \<and> entries_seek env at es)"

lemma copy_tree_shared:
  "tree_seeks env at t \<Longrightarrow> copy_tree env share sg at t = Inr t' \<Longrightarrow> t' = shared_tree env share sg t"
  "entries_seek env at es \<Longrightarrow> copy_entries env share sg at es = Inr es' \<Longrightarrow> es' = shared_entries env share sg es"
  by (induction env share sg at t and env share sg at es arbitrary: t' and es' rule: copy_tree_copy_entries.induct)
    (auto simp: res_bind_eq_Inr res_map_eq_Inr dest: copy_file_same split: if_split_asm)

fun wf_tree :: "tree \<Rightarrow> bool" and wf_entries :: "entries \<Rightarrow> bool" where
  "wf_tree (TDir m es) \<longleftrightarrow> distinct (map fst es) \<and> wf_entries es"
| "wf_tree (TFile m d) \<longleftrightarrow> True"
| "wf_tree (TLink u s) \<longleftrightarrow> True"
| "wf_tree (TSpecial m) \<longleftrightarrow> True"
| "wf_entries [] \<longleftrightarrow> True"
| "wf_entries ((n, t) # es) \<longleftrightarrow> wf_tree t \<and> wf_entries es"

lemma shared_entries_map: "shared_entries env share sg es = map (\<lambda>(n, t). (n, shared_tree env share sg t)) es"
  by (induction es) auto

lemma shared_names [simp]: "map fst (shared_entries env share sg es) = map fst es"
  by (simp add: shared_entries_map case_prod_unfold)

lemma shared_entry: "distinct (map fst es) \<Longrightarrow> (n, t) \<in> set es \<Longrightarrow> dict_get (shared_entries env share sg es) n = Some (shared_tree env share sg t)"
  by (rule map_of_is_SomeI) (simp, force simp: shared_entries_map)

lemma shared_same:
  "wf_tree t \<Longrightarrow> same_tree t (shared_tree env share sg t)"
  "wf_entries es \<Longrightarrow> (\<forall>(n, t) \<in> set es. dict_get b n = Some (shared_tree env share sg t)) \<Longrightarrow> same_entries es b"
proof (induction env share sg t and env share sg es arbitrary: and b rule: shared_tree_shared_entries.induct)
  case (1 env share sg m es)
  have "\<forall>(n, t) \<in> set es. dict_get (shared_entries env share sg es) n = Some (shared_tree env share sg t)"
    using 1(2) shared_entry [of es] by (auto simp del: map_of_eq_Some_iff)
  then have "same_entries es (shared_entries env share sg es)" using 1 by (simp del: map_of_eq_Some_iff)
  moreover have "set (map fst es) = set (map fst (shared_entries env share sg es))" by (simp only: shared_names)
  ultimately show ?case by (simp del: set_map)
qed (auto simp: copy_meta_def)

lemma copy_tree_verified:
  assumes "wf_tree t" "tree_seeks env [] t" "copy_tree env share sg [] t = Inr t'" "\<forall>r. \<not> ce_scan env r" "t = TDir m es"
  shows "t' = shared_tree env share sg t" "verify_copy env t t' = Inr ()"
proof -
  show t': "t' = shared_tree env share sg t" by (rule copy_tree_shared(1) [OF assms(2,3)])
  have "same_tree t t'" using shared_same(1) [OF assms(1)] t' by simp
  then show "verify_copy env t t' = Inr ()"
    using verify_dirs_same [OF assms(4), of "[([], es, b)]" for b] unfolding assms(5)
    by (cases t') (simp_all add: verify_copy_def)
qed

end
