(* ===== verification/StorageMove.thy ===== *)
theory StorageMove
  imports QemuRun ImageStore StorageTree
begin

text \<open>
  Archiving and restoring artifacts (\<^verbatim>\<open>storage.py\<close>): moving a tree to the same place on other
  storage and leaving a link, and back.  The files are the entries of the directories the
  moves work in, by absolute path; the directories above them are real and exist once made.
  Which system calls fail, devices and real paths are parameters.
\<close>

subsection \<open>Files\<close>

type_synonym files = "string \<rightharpoonup> tree"

datatype fsop = ORename string string | OSymlink string | OUnlink string | OMkdir string

text \<open>\<open>se_left\<close> is what removing a tree leaves of it, \<open>None\<close> when it is gone.\<close>

record fs_env =
  se_ok :: "fsop \<Rightarrow> bool"
  se_left :: "string \<Rightarrow> tree option"
  se_dev :: "string \<Rightarrow> nat"
  se_real :: "files \<Rightarrow> string \<Rightarrow> string"
  se_setgid :: "string \<Rightarrow> bool"
  se_pid :: string
  se_copy :: copy_env

datatype move_error =
    MNotDir string
  | MElsewhere string
  | MExists string
  | MCopy storage_error
  | MAside string
  | MRename string
  | MLink string
  | MOs string

definition is_link :: "tree option \<Rightarrow> bool" where
  "is_link e = (case e of Some (TLink _ _) \<Rightarrow> True | _ \<Rightarrow> False)"

definition is_real_dir :: "tree option \<Rightarrow> bool" where
  "is_real_dir e = (case e of Some (TDir _ _) \<Rightarrow> True | _ \<Rightarrow> False)"

text \<open>\<^verbatim>\<open>rename\<close> over an entry that exists: a directory over an empty one, another file over
  anything but a directory.\<close>

definition may_replace :: "tree \<Rightarrow> tree option \<Rightarrow> bool" where
  "may_replace t e =
     (case e of
        None \<Rightarrow> True
      | Some (TDir _ es) \<Rightarrow> is_real_dir (Some t) \<and> es = []
      | Some _ \<Rightarrow> \<not> is_real_dir (Some t))"

definition os_rename :: "fs_env \<Rightarrow> string \<Rightarrow> string \<Rightarrow> files \<Rightarrow> files option" where
  "os_rename env a b fs =
     (case fs a of
        Some t \<Rightarrow> if se_ok env (ORename a b) \<and> may_replace t (fs b) then Some (fs(a := None, b \<mapsto> t)) else None
      | None \<Rightarrow> None)"

definition os_symlink :: "fs_env \<Rightarrow> string \<Rightarrow> string \<Rightarrow> files \<Rightarrow> files option" where
  "os_symlink env target p fs =
     (if se_ok env (OSymlink p) \<and> fs p = None then Some (fs(p \<mapsto> TLink (ce_uid (se_copy env)) target)) else None)"

definition os_unlink :: "fs_env \<Rightarrow> string \<Rightarrow> files \<Rightarrow> files option" where
  "os_unlink env p fs =
     (if se_ok env (OUnlink p) \<and> fs p \<noteq> None \<and> \<not> is_real_dir (fs p) then Some (fs(p := None)) else None)"

definition rmtree_quiet :: "fs_env \<Rightarrow> string \<Rightarrow> files \<Rightarrow> files" where
  "rmtree_quiet env p fs = (if is_real_dir (fs p) then fs(p := se_left env p) else fs)"

definition base_name :: "string \<Rightarrow> string" where
  "base_name p = rev (takeWhile (\<lambda>c. c \<noteq> CHR ''/'') (rev p))"

definition beside :: "fs_env \<Rightarrow> string \<Rightarrow> string \<Rightarrow> string" where
  "beside env p suffix = parent_dir p @ ''/.'' @ base_name p @ ''.ltvm-'' @ se_pid env @ suffix"

subsection \<open>Moving a tree\<close>

text \<open>The copy is made and checked beside the destination; within one file system the tree itself
  will be renamed.\<close>

definition stage :: "fs_env \<Rightarrow> bool \<Rightarrow> bool \<Rightarrow> string \<Rightarrow> string \<Rightarrow> tree \<Rightarrow> files \<Rightarrow> (move_error, string) result \<times> files" where
  "stage env share same_fs src dest t fs =
     (if same_fs then (Inr src, fs)
      else
        let staged = beside env dest ''-copy''
        in if fs staged \<noteq> None then (Inl (MCopy (SOs [])), rmtree_quiet env staged fs)
           else
             (case res_bind (copy_tree (se_copy env) share (se_setgid env (parent_dir dest)) [] t) (\<lambda>t'.
                 res_map (\<lambda>_. t') (verify_copy (se_copy env) t t')) of
                Inl e \<Rightarrow> (Inl (MCopy e), fs(staged := se_left env staged))
              | Inr t' \<Rightarrow> (Inr staged, fs(staged \<mapsto> t'))))"

definition undo_copy :: "fs_env \<Rightarrow> bool \<Rightarrow> string \<Rightarrow> files \<Rightarrow> files" where
  "undo_copy env same_fs staged fs = (if same_fs then fs else rmtree_quiet env staged fs)"

text \<open>\<open>put_back_link\<close>, which raises when the link cannot be put back.\<close>

definition put_back_link :: "fs_env \<Rightarrow> bool \<Rightarrow> string \<Rightarrow> files \<Rightarrow> files option" where
  "put_back_link env aside dest fs =
     (if aside then os_rename env (beside env dest ''-link'') dest fs else Some fs)"

text \<open>The name switch: the old link out of the way, the tree to its name.\<close>

definition switch_in :: "fs_env \<Rightarrow> bool \<Rightarrow> bool \<Rightarrow> string \<Rightarrow> string \<Rightarrow> files \<Rightarrow> (move_error, unit) result \<times> files" where
  "switch_in env same_fs replace_link staged dest fs =
     (case (if replace_link then os_rename env dest (beside env dest ''-link'') fs else Some fs) of
        None \<Rightarrow> (Inl (MAside dest), undo_copy env same_fs staged fs)
      | Some fs1 \<Rightarrow>
          (case os_rename env staged dest fs1 of
             Some fs2 \<Rightarrow> (Inr (), fs2)
           | None \<Rightarrow>
               (case put_back_link env replace_link dest fs1 of
                  None \<Rightarrow> (Inl (MOs dest), fs1)
                | Some fs2 \<Rightarrow> (Inl (MRename dest), undo_copy env same_fs staged fs2))))"

definition put_in_place :: "fs_env \<Rightarrow> bool \<Rightarrow> bool \<Rightarrow> bool \<Rightarrow> string \<Rightarrow> string \<Rightarrow> tree \<Rightarrow> files \<Rightarrow> (move_error, unit) result \<times> files" where
  "put_in_place env share same_fs replace_link src dest t fs =
     (case stage env share same_fs src dest t fs of
        (Inl e, fs1) \<Rightarrow> (Inl e, fs1)
      | (Inr staged, fs1) \<Rightarrow> switch_in env same_fs replace_link staged dest fs1)"

text \<open>The link left behind: the first component is where the old tree is now, \<open>None\<close> for an error.\<close>

definition leave_link :: "fs_env \<Rightarrow> bool \<Rightarrow> string \<Rightarrow> string \<Rightarrow> files \<Rightarrow> string option option \<times> files" where
  "leave_link env same_fs src dest fs =
     (if same_fs then
        (case os_symlink env dest src fs of None \<Rightarrow> (None, fs) | Some fs1 \<Rightarrow> (Some None, fs1))
      else
        let link_tmp = beside env src ''-link''; old = beside env src ''-old''
        in case os_symlink env dest link_tmp fs of
             None \<Rightarrow> (None, fs)
           | Some fs1 \<Rightarrow>
               (case os_rename env src old fs1 of
                  None \<Rightarrow> (None, get_or fs1 (os_unlink env link_tmp fs1))
                | Some fs2 \<Rightarrow>
                    (case os_rename env link_tmp src fs2 of
                       Some fs3 \<Rightarrow> (Some (Some old), fs3)
                     | None \<Rightarrow>
                         (case os_rename env old src fs2 of
                            None \<Rightarrow> (None, fs2)
                          | Some fs3 \<Rightarrow> (None, get_or fs3 (os_unlink env link_tmp fs3))))))"

definition undo_switch :: "fs_env \<Rightarrow> bool \<Rightarrow> bool \<Rightarrow> string \<Rightarrow> string \<Rightarrow> files \<Rightarrow> (move_error, string option) result \<times> files" where
  "undo_switch env same_fs replace_link src dest fs =
     (case (if same_fs then os_rename env dest src fs else Some (rmtree_quiet env dest fs)) of
        None \<Rightarrow> (Inl (MOs src), fs)
      | Some fs1 \<Rightarrow>
          (case put_back_link env replace_link dest fs1 of
             None \<Rightarrow> (Inl (MOs dest), fs1)
           | Some fs2 \<Rightarrow> (Inl (MLink src), fs2)))"

text \<open>The result is the warning: the path of an old copy that could not be removed.\<close>

definition retire_old :: "fs_env \<Rightarrow> bool \<Rightarrow> string \<Rightarrow> string option \<Rightarrow> files \<Rightarrow> string option \<times> files" where
  "retire_old env replace_link dest retire fs =
     (let aside = beside env dest ''-link'';
          fs1 = (if replace_link then get_or fs (os_unlink env aside fs) else fs)
      in case retire of
           None \<Rightarrow> (None, fs1)
         | Some p \<Rightarrow> (if se_left env p = None then None else Some p, fs1(p := se_left env p)))"

definition move_steps :: "fs_env \<Rightarrow> bool \<Rightarrow> bool \<Rightarrow> bool \<Rightarrow> bool \<Rightarrow> string \<Rightarrow> string \<Rightarrow> tree \<Rightarrow> files
    \<Rightarrow> (move_error, string option) result \<times> files" where
  "move_steps env link_back share same_fs replace_link src dest t fs =
     (case put_in_place env share same_fs replace_link src dest t fs of
        (Inl e, fs1) \<Rightarrow> (Inl e, fs1)
      | (Inr _, fs2) \<Rightarrow>
          (case (if link_back then leave_link env same_fs src dest fs2
                 else (Some (if same_fs then None else Some src), fs2)) of
             (None, fs3) \<Rightarrow> undo_switch env same_fs replace_link src dest fs3
           | (Some retire, fs3) \<Rightarrow>
               (case retire_old env replace_link dest retire fs3 of (warning, fs4) \<Rightarrow> (Inr warning, fs4))))"

definition relocate :: "fs_env \<Rightarrow> bool \<Rightarrow> bool \<Rightarrow> string \<Rightarrow> string \<Rightarrow> files \<Rightarrow> (move_error, string option) result \<times> files" where
  "relocate env link_back share src dest fs =
     (case fs src of
        Some (TDir m es) \<Rightarrow>
          if is_link (fs dest) \<and> se_real env fs dest \<noteq> se_real env fs src then (Inl (MElsewhere dest), fs)
          else if \<not> is_link (fs dest) \<and> fs dest \<noteq> None then (Inl (MExists dest), fs)
          else if \<not> se_ok env (OMkdir (parent_dir dest)) then (Inl (MOs (parent_dir dest)), fs)
          else move_steps env link_back share (se_dev env src = se_dev env (parent_dir dest)) (is_link (fs dest)) src dest (TDir m es) fs
      | _ \<Rightarrow> (Inl (MNotDir src), fs))"

subsection \<open>Lemmas: names beside a path\<close>

lemma length_parent_base: "length p \<le> length (parent_dir p) + 1 + length (base_name p)"
proof -
  have "length (takeWhile (\<lambda>c. c \<noteq> CHR ''/'') (rev p)) + length (dropWhile (\<lambda>c. c \<noteq> CHR ''/'') (rev p)) = length p"
    by (metis length_append length_rev takeWhile_dropWhile_id)
  then show ?thesis by (simp add: parent_dir_def base_name_def)
qed

lemma beside_other [simp]: "beside env p suffix \<noteq> p" "p \<noteq> beside env p suffix"
proof -
  have "length (beside env p suffix) > length p" using length_parent_base [of p] by (simp add: beside_def)
  then show "beside env p suffix \<noteq> p" "p \<noteq> beside env p suffix" by auto
qed

lemma beside_suffix:
  assumes "s \<noteq> []" "s' \<noteq> []" "last s \<noteq> last s'"
  shows "beside env p s \<noteq> beside env q s'"
proof
  assume "beside env p s = beside env q s'"
  then have "last (beside env p s) = last (beside env q s')" by simp
  with assms show False by (simp add: beside_def)
qed

lemma beside_distinct [simp]:
  "beside env p ''-copy'' \<noteq> beside env q ''-link''" "beside env p ''-copy'' \<noteq> beside env q ''-old''"
  "beside env p ''-link'' \<noteq> beside env q ''-copy''" "beside env p ''-link'' \<noteq> beside env q ''-old''"
  "beside env p ''-old'' \<noteq> beside env q ''-copy''" "beside env p ''-old'' \<noteq> beside env q ''-link''"
  by (rule beside_suffix; simp)+

subsection \<open>Lemmas: the steps of a move\<close>

text \<open>The names the move uses for itself are free.\<close>

definition move_ready :: "fs_env \<Rightarrow> string \<Rightarrow> string \<Rightarrow> files \<Rightarrow> bool" where
  "move_ready env src dest fs \<longleftrightarrow>
     fs (beside env dest ''-copy'') = None \<and> fs (beside env dest ''-link'') = None \<and>
     fs (beside env src ''-link'') = None \<and> fs (beside env src ''-old'') = None \<and>
     src \<noteq> dest \<and> beside env src ''-link'' \<noteq> dest \<and> beside env src ''-old'' \<noteq> dest \<and>
     beside env src ''-link'' \<noteq> beside env dest ''-link''"

text \<open>The steps that take a failed move back, and the removal of what it leaves, work.\<close>

definition undo_works :: "fs_env \<Rightarrow> string \<Rightarrow> string \<Rightarrow> bool" where
  "undo_works env src dest \<longleftrightarrow>
     (\<forall>p. se_left env p = None) \<and> se_ok env (ORename (beside env dest ''-link'') dest) \<and>
     se_ok env (ORename dest src) \<and> se_ok env (ORename (beside env src ''-old'') src) \<and>
     se_ok env (OUnlink (beside env src ''-link'')) \<and> se_ok env (OUnlink (beside env dest ''-link''))"

text \<open>A tree that can be copied: well formed, with the regions of its files reported right, and the
  copy readable.\<close>

definition copyable :: "fs_env \<Rightarrow> tree \<Rightarrow> bool" where
  "copyable env t \<longleftrightarrow> wf_tree t \<and> tree_seeks (se_copy env) [] t \<and> is_real_dir (Some t)"

definition moved_tree :: "fs_env \<Rightarrow> bool \<Rightarrow> string \<Rightarrow> string \<Rightarrow> tree \<Rightarrow> tree" where
  "moved_tree env share src dest t =
     (if se_dev env src = se_dev env (parent_dir dest) then t
      else shared_tree (se_copy env) share (se_setgid env (parent_dir dest)) t)"

lemma shared_real_dir [simp]: "is_real_dir (Some (shared_tree env share sg t)) = is_real_dir (Some t)"
  by (cases t) (simp_all add: is_real_dir_def)

lemma moved_real_dir [simp]: "is_real_dir (Some (moved_tree env share src dest t)) = is_real_dir (Some t)"
  by (simp add: moved_tree_def)

lemma stage_done:
  assumes "copyable env t" "stage env share same_fs src dest t fs = (Inr staged, fs1)"
    "same_fs = (se_dev env src = se_dev env (parent_dir dest))"
  shows "staged = (if same_fs then src else beside env dest ''-copy'')"
    "fs1 = (if same_fs then fs else fs(beside env dest ''-copy'' \<mapsto> moved_tree env share src dest t))"
    "\<not> same_fs \<Longrightarrow> fs (beside env dest ''-copy'') = None"
  using assms
  by (auto simp: stage_def copyable_def moved_tree_def Let_def res_bind_eq_Inr res_map_eq_Inr
      dest: copy_tree_shared(1) split: if_split_asm sum.split_asm)

lemma stage_failed:
  assumes "stage env share same_fs src dest t fs = (Inl e, fs1)" "fs (beside env dest ''-copy'') = None"
  shows "fs1 = fs(beside env dest ''-copy'' := se_left env (beside env dest ''-copy''))"
  using assms by (auto simp: stage_def Let_def split: if_split_asm sum.split_asm)

lemma os_rename_Some:
  "os_rename env a b fs = Some fs' \<longleftrightarrow>
     (\<exists>t. fs a = Some t \<and> se_ok env (ORename a b) \<and> may_replace t (fs b) \<and> fs' = fs(a := None, b \<mapsto> t))"
  by (auto simp: os_rename_def split: option.split)

lemma switch_done:
  assumes "switch_in env same_fs rl staged dest fs1 = (Inr u, fs2)" "fs1 staged = Some t" "staged \<noteq> dest"
    "staged \<noteq> beside env dest ''-link''"
  shows "fs2 = (if rl then fs1(beside env dest ''-link'' := fs1 dest, staged := None, dest \<mapsto> t)
    else fs1(staged := None, dest \<mapsto> t))"
  using assms
  by (auto simp: switch_in_def os_rename_Some fun_eq_iff split: option.split_asm if_split_asm)

lemma switch_failed:
  assumes "switch_in env same_fs rl staged dest fs1 = (Inl e, fs2)" "fs1 (beside env dest ''-link'') = None"
    "se_ok env (ORename (beside env dest ''-link'') dest)" "staged \<noteq> beside env dest ''-link''" "rl = is_link (fs1 dest)"
  shows "fs2 = undo_copy env same_fs staged fs1"
proof (cases rl)
  case False
  then show ?thesis using assms(1) by (auto simp: switch_in_def put_back_link_def split: option.split_asm)
next
  case True
  then obtain u l where l: "fs1 dest = Some (TLink u l)"
    using assms(5) by (auto simp: is_link_def split: option.split_asm tree.split_asm)
  let ?aside = "beside env dest ''-link''"
  have undone: "put_back_link env True dest (fs1(dest := None, ?aside \<mapsto> TLink u l)) = Some fs1"
    using assms(2,3) l
    by (auto simp: put_back_link_def os_rename_def may_replace_def fun_eq_iff)
  show ?thesis
    using assms(1) True l undone by (auto simp: switch_in_def os_rename_Some split: option.split_asm)
qed

lemma leave_link_same:
  "leave_link env True src dest fs = (r, fs') \<Longrightarrow>
     r = None \<and> fs' = fs \<or> r = Some None \<and> fs src = None \<and> fs' = fs(src \<mapsto> TLink (ce_uid (se_copy env)) dest)"
  by (auto simp: leave_link_def os_symlink_def split: option.split_asm if_split_asm)

lemma leave_link_across:
  assumes "leave_link env False src dest fs = (r, fs')" "fs src = Some t" "is_real_dir (Some t)"
    "fs (beside env src ''-link'') = None" "fs (beside env src ''-old'') = None"
  obtains
      (ok) "r = Some (Some (beside env src ''-old''))"
        "fs' = fs(src \<mapsto> TLink (ce_uid (se_copy env)) dest, beside env src ''-old'' \<mapsto> t)"
    | (undone) "r = None" "fs' = fs"
    | (link_left) "r = None" "fs' = fs(beside env src ''-link'' \<mapsto> TLink (ce_uid (se_copy env)) dest)"
        "\<not> se_ok env (OUnlink (beside env src ''-link''))"
    | (old_left) "r = None" "\<not> se_ok env (ORename (beside env src ''-old'') src)"
        "fs' = fs(beside env src ''-link'' \<mapsto> TLink (ce_uid (se_copy env)) dest, src := None, beside env src ''-old'' \<mapsto> t)"
proof -
  define lt where "lt = beside env src ''-link''"
  define old where "old = beside env src ''-old''"
  define link where "link = TLink (ce_uid (se_copy env)) dest"
  have ne: "lt \<noteq> src" "old \<noteq> src" "lt \<noteq> old" by (simp_all add: lt_def old_def)
  note start = assms(1) [unfolded leave_link_def Let_def if_False, folded lt_def old_def]
  note free = assms(4,5) [folded lt_def old_def]
  show thesis
  proof (cases "se_ok env (OSymlink lt)")
    case False
    then show thesis using start by (intro undone) (simp_all add: os_symlink_def)
  next
    case True
    define fs1 where "fs1 = fs(lt \<mapsto> link)"
    have sym: "os_symlink env dest lt fs = Some fs1" using True free by (simp add: os_symlink_def fs1_def link_def)
    define fs2 where "fs2 = fs1(src := None, old \<mapsto> t)"
    have unlinked: "get_or fs1 (os_unlink env lt fs1) = (if se_ok env (OUnlink lt) then fs else fs1)"
      using free by (auto simp: os_unlink_def fs1_def link_def is_real_dir_def)
    have ren: "os_rename env src old fs1 = (if se_ok env (ORename src old) then Some fs2 else None)"
      using assms(2,3) free ne by (simp add: os_rename_def fs1_def fs2_def may_replace_def)
    have over: "os_rename env lt src fs2 = (if se_ok env (ORename lt src) then Some (fs2(lt := None, src \<mapsto> link)) else None)"
      using ne by (simp add: os_rename_def fs2_def fs1_def may_replace_def)
    have undo: "os_rename env old src fs2 = (if se_ok env (ORename old src) then Some fs1 else None)"
      using ne assms(2) free by (auto simp: os_rename_def fs2_def fs1_def may_replace_def fun_eq_iff)
    have linked: "fs2(lt := None, src \<mapsto> link) = fs(src \<mapsto> link, old \<mapsto> t)"
      using ne free by (auto simp: fs2_def fs1_def fun_eq_iff)
    have result: "(case os_rename env src old fs1 of None \<Rightarrow> (None, get_or fs1 (os_unlink env lt fs1))
        | Some fs2 \<Rightarrow> (case os_rename env lt src fs2 of Some fs3 \<Rightarrow> (Some (Some old), fs3)
          | None \<Rightarrow> (case os_rename env old src fs2 of None \<Rightarrow> (None, fs2)
            | Some fs3 \<Rightarrow> (None, get_or fs3 (os_unlink env lt fs3))))) = (r, fs')"
      using start by (simp add: sym)
    show thesis
    proof (cases "se_ok env (ORename src old) \<and> se_ok env (ORename lt src)")
      case True
      then show thesis using result ren over linked by (intro ok) (simp_all add: lt_def old_def link_def)
    next
      case False
      then have "r = None \<and> (fs' = get_or fs1 (os_unlink env lt fs1) \<or> fs' = fs2 \<and> \<not> se_ok env (ORename old src))"
        using result ren over undo by (auto split: if_split_asm)
      then show thesis
        using unlinked undone link_left old_left
        by (auto simp: lt_def old_def link_def fs1_def fs2_def split: if_split_asm)
    qed
  qed
qed

lemma switch_keeps:
  assumes "switch_in env same_fs rl staged dest fs1 = (Inl e, fs2)" "fs1 p = Some t" "p \<noteq> dest" "p \<noteq> beside env dest ''-link''"
    "same_fs \<or> p \<noteq> staged"
  shows "fs2 p = Some t"
  using assms
  by (auto simp: switch_in_def put_back_link_def os_rename_Some undo_copy_def rmtree_quiet_def split: option.split_asm if_split_asm)

text \<open>The files once the names are switched.\<close>

definition switched :: "fs_env \<Rightarrow> bool \<Rightarrow> string \<Rightarrow> string \<Rightarrow> tree \<Rightarrow> files \<Rightarrow> files" where
  "switched env share src dest t fs =
     fs(beside env dest ''-link'' := (if is_link (fs dest) then fs dest else None),
        src := (if se_dev env src = se_dev env (parent_dir dest) then None else Some t),
        dest \<mapsto> moved_tree env share src dest t)"

lemma put_in_place_phases:
  assumes "put_in_place env share same_fs rl src dest t fs = (r, fs')" "fs src = Some t" "copyable env t" "move_ready env src dest fs"
    and same: "same_fs = (se_dev env src = se_dev env (parent_dir dest))" and rl: "rl = is_link (fs dest)"
  shows "case r of Inl e \<Rightarrow> fs' src = Some t \<and> (undo_works env src dest \<longrightarrow> fs' = fs)
    | Inr _ \<Rightarrow> fs' = switched env share src dest t fs"
proof -
  define staged where "staged = (if same_fs then src else beside env dest ''-copy'')"
  define fs1 where "fs1 = (if same_fs then fs else fs(beside env dest ''-copy'' \<mapsto> moved_tree env share src dest t))"
  note ready = assms(4) [unfolded move_ready_def]
  have ne: "staged \<noteq> dest" "staged \<noteq> beside env dest ''-link''" "src \<noteq> beside env dest ''-link''" "src \<noteq> beside env dest ''-copy''"
    using ready assms(2) by (auto simp: staged_def)
  have at: "fs1 staged = Some (moved_tree env share src dest t)" "fs1 src = Some t" "fs1 dest = fs dest"
      "fs1 (beside env dest ''-link'') = None"
    using assms(2) ne ready by (auto simp: fs1_def staged_def moved_tree_def same)
  obtain sr fsa where st: "stage env share same_fs src dest t fs = (sr, fsa)" by fastforce
  show ?thesis
  proof (cases sr)
    case (Inl e)
    have "fsa = fs(beside env dest ''-copy'' := se_left env (beside env dest ''-copy''))"
      using stage_failed [OF st [unfolded Inl]] ready by simp
    moreover have "(r, fs') = (Inl e, fsa)" using assms(1) st Inl by (simp add: put_in_place_def)
    ultimately show ?thesis using assms(2) ne ready by (auto simp: undo_works_def)
  next
    case (Inr sp)
    have "sp = staged" "fsa = fs1"
      using stage_done(1,2) [OF assms(3) st [unfolded Inr] same] by (simp_all add: staged_def fs1_def)
    with assms(1) st Inr have sw: "switch_in env same_fs rl staged dest fs1 = (r, fs')" by (simp add: put_in_place_def)
    show ?thesis
    proof (cases r)
      case (Inl e)
      have "fs' src = Some t" using switch_keeps [OF sw [unfolded Inl] at(2)] ready ne by (auto simp: staged_def)
      moreover have "fs' = fs" if "undo_works env src dest"
        using switch_failed [OF sw [unfolded Inl] at(4)] that ne at rl ready assms(3)
        by (auto simp: undo_works_def undo_copy_def rmtree_quiet_def fs1_def staged_def copyable_def)
      ultimately show ?thesis using Inl by simp
    next
      case (Inr u)
      have "fs' = switched env share src dest t fs"
        using switch_done [OF sw [unfolded Inr] at(1) ne(1,2)] ready ne assms(2)
        by (auto simp: switched_def rl [symmetric] same [symmetric] fs1_def staged_def fun_eq_iff at(3))
      then show ?thesis using Inr by simp
    qed
  qed
qed

lemma relocate_phases:
  assumes "relocate env link_back share src dest fs = (r, fs')" "fs src = Some t" "copyable env t" "move_ready env src dest fs"
    and same: "same_fs = (se_dev env src = se_dev env (parent_dir dest))" and rl: "rl = is_link (fs dest)"
  obtains (early) e where "r = Inl e" "fs' src = Some t" "undo_works env src dest \<Longrightarrow> fs' = fs"
    | (late) rt fs3 where "is_link (fs dest) \<or> fs dest = None"
        "(if link_back then leave_link env same_fs src dest (switched env share src dest t fs)
          else (Some (if same_fs then None else Some src), switched env share src dest t fs)) = (rt, fs3)"
        "(r, fs') = (case rt of None \<Rightarrow> undo_switch env same_fs rl src dest fs3
          | Some retire \<Rightarrow> (case retire_old env rl dest retire fs3 of (warning, fs4) \<Rightarrow> (Inr warning, fs4)))"
proof -
  obtain m es where t: "t = TDir m es" using assms(3) by (cases t) (auto simp: copyable_def is_real_dir_def)
  have run: "(\<exists>e. r = Inl e) \<and> fs' = fs \<or>
      (is_link (fs dest) \<or> fs dest = None) \<and> (r, fs') = move_steps env link_back share same_fs rl src dest t fs"
    using assms(1,2) unfolding relocate_def t same rl by (auto split: if_split_asm)
  obtain pr fs2 where pl: "put_in_place env share same_fs rl src dest t fs = (pr, fs2)" by fastforce
  note place = put_in_place_phases [OF pl assms(2-4) same rl]
  show thesis
  proof (cases "(\<exists>e. r = Inl e) \<and> fs' = fs")
    case True
    then show thesis using assms(2) early by blast
  next
    case False
    with run have free: "is_link (fs dest) \<or> fs dest = None" by auto
    from False run pl have steps: "(r, fs') = (case pr of Inl e \<Rightarrow> (Inl e, fs2)
      | Inr _ \<Rightarrow> (case (if link_back then leave_link env same_fs src dest fs2
          else (Some (if same_fs then None else Some src), fs2)) of
            (None, fs3) \<Rightarrow> undo_switch env same_fs rl src dest fs3
          | (Some retire, fs3) \<Rightarrow> (case retire_old env rl dest retire fs3 of (warning, fs4) \<Rightarrow> (Inr warning, fs4))))"
      by (auto simp: move_steps_def split: sum.split)
    show thesis
    proof (cases pr)
      case (Inl e)
      then show thesis using steps place by (intro early [of e]) simp_all
    next
      case (Inr u)
      obtain rt fs3 where "(if link_back then leave_link env same_fs src dest fs2
          else (Some (if same_fs then None else Some src), fs2)) = (rt, fs3)" by fastforce
      then show thesis using steps place Inr free by (intro late) (auto split: option.split)
    qed
  qed
qed

lemma put_back_undoes:
  assumes "se_ok env (ORename (beside env dest ''-link'') dest)" "rl = is_link e"
    "fs (beside env dest ''-link'') = (if rl then e else None)" "fs dest = None" "rl \<or> e = None"
  shows "put_back_link env rl dest fs = Some (fs(beside env dest ''-link'' := None, dest := e))"
  using assms by (cases e) (auto simp: put_back_link_def os_rename_def may_replace_def is_link_def fun_eq_iff split: tree.splits)

lemma undo_switch_undoes:
  assumes "undo_works env src dest" "fs src = Some t" "copyable env t" "move_ready env src dest fs" "is_link (fs dest) \<or> fs dest = None"
    and same: "same_fs = (se_dev env src = se_dev env (parent_dir dest))"
  shows "undo_switch env same_fs (is_link (fs dest)) src dest (switched env share src dest t fs) = (Inl (MLink src), fs)"
proof -
  let ?sw = "switched env share src dest t fs" and ?aside = "beside env dest ''-link''"
  define fs1 where "fs1 = ?sw(dest := None, src \<mapsto> t)"
  note ready = assms(4) [unfolded move_ready_def]
  have ne: "src \<noteq> dest" "?aside \<noteq> src" "fs ?aside = None" using ready assms(2) by auto
  have dir: "is_real_dir (Some t)" using assms(3) by (simp add: copyable_def)
  have first: "(if same_fs then os_rename env dest src ?sw else Some (rmtree_quiet env dest ?sw)) = Some fs1"
    using assms(1) ne dir
    by (auto simp: same os_rename_def switched_def undo_works_def may_replace_def moved_tree_def rmtree_quiet_def fs1_def)
  have "put_back_link env (is_link (fs dest)) dest fs1 = Some (fs1(?aside := None, dest := fs dest))"
    using assms(1,5) ne by (intro put_back_undoes) (auto simp: undo_works_def fs1_def switched_def)
  moreover have "fs1(?aside := None, dest := fs dest) = fs"
    using ne assms(2) by (auto simp: fs1_def switched_def fun_eq_iff)
  ultimately show ?thesis using first by (simp add: undo_switch_def)
qed

lemma retire_done:
  assumes "undo_works env src dest" "fs3 (beside env dest ''-link'') = (if is_link e then e else None)"
    "retire_old env (is_link e) dest retire fs3 = (w, fs4)"
  shows "w = None" "fs4 = (case retire of None \<Rightarrow> fs3(beside env dest ''-link'' := None)
    | Some p \<Rightarrow> fs3(beside env dest ''-link'' := None, p := None))"
proof -
  have "(if is_link e then get_or fs3 (os_unlink env (beside env dest ''-link'') fs3) else fs3) =
      fs3(beside env dest ''-link'' := None)"
    using assms(1,2)
    by (auto simp: os_unlink_def undo_works_def is_link_def is_real_dir_def fun_eq_iff split: option.split_asm tree.split_asm)
  with assms(1,3) show "w = None" "fs4 = (case retire of None \<Rightarrow> fs3(beside env dest ''-link'' := None)
    | Some p \<Rightarrow> fs3(beside env dest ''-link'' := None, p := None))"
    by (auto simp: retire_old_def undo_works_def Let_def split: option.split_asm)
qed

definition relocated :: "fs_env \<Rightarrow> bool \<Rightarrow> bool \<Rightarrow> string \<Rightarrow> string \<Rightarrow> tree \<Rightarrow> files \<Rightarrow> files" where
  "relocated env link_back share src dest t fs =
     fs(src := (if link_back then Some (TLink (ce_uid (se_copy env)) dest) else None), dest \<mapsto> moved_tree env share src dest t)"

lemma retire_finish:
  assumes "(r, fs') = (case retire_old env (is_link (fs dest)) dest retire fs3 of (warning, fs4) \<Rightarrow> (Inr warning, fs4))"
    "fs3 (beside env dest ''-link'') = switched env share src dest t fs (beside env dest ''-link'')"
    "undo_works env src dest" "move_ready env src dest fs" "fs src = Some t"
  shows "r = Inr None" "fs' = (case retire of None \<Rightarrow> fs3(beside env dest ''-link'' := None)
    | Some p \<Rightarrow> fs3(beside env dest ''-link'' := None, p := None))"
proof -
  obtain w fs4 where ro: "retire_old env (is_link (fs dest)) dest retire fs3 = (w, fs4)" by fastforce
  have "beside env dest ''-link'' \<noteq> src" using assms(4,5) by (auto simp: move_ready_def)
  then have "fs3 (beside env dest ''-link'') = (if is_link (fs dest) then fs dest else None)"
    using assms(2) by (simp add: switched_def)
  from retire_done [OF assms(3) this ro] assms(1) ro
  show "r = Inr None" "fs' = (case retire of None \<Rightarrow> fs3(beside env dest ''-link'' := None)
    | Some p \<Rightarrow> fs3(beside env dest ''-link'' := None, p := None))" by simp_all
qed

lemma relocated_plain:
  assumes "fs src = Some t" "move_ready env src dest fs" "same_fs = (se_dev env src = se_dev env (parent_dir dest))"
  shows "(case (if same_fs then None else Some src) of
      None \<Rightarrow> (switched env share src dest t fs)(beside env dest ''-link'' := None)
    | Some p \<Rightarrow> (switched env share src dest t fs)(beside env dest ''-link'' := None, p := None)) =
    relocated env False share src dest t fs"
  using assms by (auto simp: switched_def relocated_def move_ready_def fun_eq_iff)

lemma relocated_link:
  assumes "fs src = Some t" "move_ready env src dest fs"
  shows "(switched env share src dest t fs)(src \<mapsto> TLink (ce_uid (se_copy env)) dest, beside env dest ''-link'' := None) =
      relocated env True share src dest t fs"
    "(switched env share src dest t fs)(src \<mapsto> TLink (ce_uid (se_copy env)) dest, beside env src ''-old'' \<mapsto> t',
        beside env dest ''-link'' := None, beside env src ''-old'' := None) = relocated env True share src dest t fs"
  using assms by (auto simp: switched_def relocated_def move_ready_def fun_eq_iff)

lemma switched_at:
  assumes "fs src = Some t" "move_ready env src dest fs" "same_fs = (se_dev env src = se_dev env (parent_dir dest))"
  shows "switched env share src dest t fs src = (if same_fs then None else Some t)"
    "switched env share src dest t fs dest = Some (moved_tree env share src dest t)"
    "switched env share src dest t fs (beside env src ''-link'') = None"
    "switched env share src dest t fs (beside env src ''-old'') = None"
  using assms by (auto simp: switched_def move_ready_def)

lemma relocate_atomic:
  assumes "relocate env link_back share src dest fs = (r, fs')" "fs src = Some t" "copyable env t" "move_ready env src dest fs"
    "undo_works env src dest"
  shows "r = Inr None \<and> fs' = relocated env link_back share src dest t fs \<or> (\<exists>e. r = Inl e) \<and> fs' = fs"
proof -
  define same_fs where "same_fs = (se_dev env src = se_dev env (parent_dir dest))"
  let ?sw = "switched env share src dest t fs" and ?aside = "beside env dest ''-link''" and ?old = "beside env src ''-old''"
  let ?link = "TLink (ce_uid (se_copy env)) dest"
  note at = switched_at [OF assms(2,4) same_fs_def, of share]
  have ne: "?aside \<noteq> src" "?aside \<noteq> ?old" "beside env src ''-link'' \<noteq> ?aside" "?old \<noteq> src"
    using assms(2,4) by (auto simp: move_ready_def)
  note finish = retire_finish [OF _ _ assms(5,4,2)]
  show ?thesis
    using assms(1-4) same_fs_def refl
  proof (cases rule: relocate_phases)
    case (early e)
    then show ?thesis using assms(5) by simp
  next
    case (late rt fs3)
    note undo = undo_switch_undoes [OF assms(5,2,3,4) late(1) same_fs_def, of share]
    consider (plain) "rt = Some (if same_fs then None else Some src)" "fs3 = ?sw" "\<not> link_back"
      | (failed) "rt = None" "fs3 = ?sw"
      | (linked) "link_back" "same_fs" "rt = Some None" "fs3 = ?sw(src \<mapsto> ?link)"
      | (moved) "link_back" "\<not> same_fs" "rt = Some (Some ?old)" "fs3 = ?sw(src \<mapsto> ?link, ?old \<mapsto> t)"
    proof (cases link_back; cases same_fs)
      assume lb: link_back and "\<not> same_fs"
      then have ll: "leave_link env False src dest ?sw = (rt, fs3)" "?sw src = Some t" "is_real_dir (Some t)"
        using late(2) at assms(3) by (auto simp: copyable_def)
      from ll at(3,4) show thesis
      proof (cases rule: leave_link_across)
        case ok
        then show thesis using moved lb \<open>\<not> same_fs\<close> by blast
      qed (use failed assms(5) in \<open>auto simp: undo_works_def\<close>)
    qed (use late(2) plain failed linked leave_link_same [of env src dest ?sw rt fs3] in auto)
    then show ?thesis
    proof cases
      case plain
      let ?retire = "if same_fs then None else Some src"
      have "(r, fs') = (case retire_old env (is_link (fs dest)) dest ?retire fs3 of (warning, fs4) \<Rightarrow> (Inr warning, fs4))"
        using late(3) plain(1) by simp
      from finish [OF this, of share] plain relocated_plain [OF assms(2,4) same_fs_def, of share]
      show ?thesis by (cases same_fs) simp_all
    next
      case failed
      then show ?thesis using late(3) undo by simp
    next
      case linked
      then show ?thesis using finish [of r fs' None fs3 share] late(3) relocated_link(1) [OF assms(2,4)] ne by simp
    next
      case moved
      then show ?thesis using finish [of r fs' "Some ?old" fs3 share] late(3) relocated_link(2) [OF assms(2,4)] ne by simp
    qed
  qed
qed


lemma undo_switch_old:
  assumes "fs3 p = Some t" "p \<noteq> src" "p \<noteq> dest" "p \<noteq> beside env dest ''-link''" "undo_switch env same_fs rl src dest fs3 = (r, fs')"
  shows "fs' p = Some t"
  using assms by (auto simp: undo_switch_def put_back_link_def os_rename_Some rmtree_quiet_def split: option.split_asm if_split_asm)

lemma undo_switch_across:
  assumes "fs3 src = Some t" "src \<noteq> dest" "src \<noteq> beside env dest ''-link''" "undo_switch env False rl src dest fs3 = (r, fs')"
  shows "fs' src = Some t"
  using assms by (auto simp: undo_switch_def put_back_link_def os_rename_Some rmtree_quiet_def split: option.split_asm if_split_asm)

lemma undo_switch_same:
  assumes "fs3 dest = Some t" "src \<noteq> dest" "src \<noteq> beside env dest ''-link''" "undo_switch env True rl src dest fs3 = (r, fs')"
  shows "fs' src = Some t \<or> fs' dest = Some t"
  using assms by (auto simp: undo_switch_def put_back_link_def os_rename_Some split: option.split_asm if_split_asm)

lemma retire_keeps_dest:
  assumes "retire_old env rl dest retire fs3 = (w, fs4)" "fs3 dest = Some t" "retire \<noteq> Some dest"
  shows "fs4 dest = Some t"
  using assms by (auto simp: retire_old_def Let_def os_unlink_def get_or_def split: option.split_asm if_split_asm)

lemma late_keeps:
  assumes "(if link_back then leave_link env same_fs src dest sw
      else (Some (if same_fs then None else Some src), sw)) = (rt, fs3)"
    "(r, fs') = (case rt of None \<Rightarrow> undo_switch env same_fs rl src dest fs3
      | Some retire \<Rightarrow> (case retire_old env rl dest retire fs3 of (warning, fs4) \<Rightarrow> (Inr warning, fs4)))"
    and at: "sw src = (if same_fs then None else Some t)" "sw dest = Some t'" "sw (beside env src ''-link'') = None"
      "sw (beside env src ''-old'') = None" "is_real_dir (Some t)" "same_fs \<longrightarrow> t' = t"
    and ne: "src \<noteq> dest" "src \<noteq> beside env dest ''-link''" "beside env src ''-link'' \<noteq> dest" "beside env src ''-old'' \<noteq> dest"
  shows "fs' src = Some t \<or> fs' dest = Some t' \<or> fs' (beside env src ''-old'') = Some t"
proof (cases rt)
  case (Some retire)
  have "fs3 dest = Some t' \<and> retire \<noteq> Some dest"
  proof (cases "link_back \<and> \<not> same_fs")
    case True
    then have "leave_link env False src dest sw = (rt, fs3)" "sw src = Some t" using assms(1) at by auto
    from this at(5,3,4) show ?thesis by (cases rule: leave_link_across) (use Some at ne in auto)
  next
    case False
    then show ?thesis using Some assms(1) at ne leave_link_same [of env src dest sw rt fs3] by (auto split: if_split_asm)
  qed
  moreover obtain w where "retire_old env rl dest retire fs3 = (w, fs')" using assms(2) Some by (auto split: prod.split_asm)
  ultimately show ?thesis using retire_keeps_dest by metis
next
  case None
  then have undo: "undo_switch env same_fs rl src dest fs3 = (r, fs')" using assms(2) by simp
  show ?thesis
  proof (cases same_fs)
    case True
    then have "fs3 = sw" using assms(1) None leave_link_same [of env src dest sw rt fs3] by (auto split: if_split_asm)
    then show ?thesis using undo_switch_same [of fs3 dest t src env rl r fs'] undo True at ne by auto
  next
    case False
    then have "leave_link env False src dest sw = (rt, fs3)" "sw src = Some t" using assms(1) None at by (auto split: if_split_asm)
    from this at(5,3,4) show ?thesis
    proof (cases rule: leave_link_across)
      case old_left
      then have "fs3 (beside env src ''-old'') = Some t" by simp
      with undo_switch_old [OF this _ _ _ undo] ne show ?thesis by simp
    qed (use None False undo undo_switch_across [of fs3 src t dest env rl r fs'] at ne in auto)
  qed
qed

text \<open>
  C12.  No failure loses a tree: whichever system calls fail, those of the undoing included, the
  whole tree, or its checked copy, is afterwards at its old place, at its destination or beside
  the old place.
\<close>

theorem relocate_never_loses:
  assumes "fs src = Some t" "copyable env t" "move_ready env src dest fs" "relocate env link_back share src dest fs = (r, fs')"
  shows "fs' src = Some t \<or> fs' dest = Some (moved_tree env share src dest t) \<or> fs' (beside env src ''-old'') = Some t"
proof -
  define same_fs where "same_fs = (se_dev env src = se_dev env (parent_dir dest))"
  have ne: "src \<noteq> dest" "src \<noteq> beside env dest ''-link''" "beside env src ''-link'' \<noteq> dest" "beside env src ''-old'' \<noteq> dest"
    using assms(1,3) by (auto simp: move_ready_def)
  have dir: "is_real_dir (Some t)" and same: "same_fs \<longrightarrow> moved_tree env share src dest t = t"
    using assms(2) by (simp_all add: copyable_def moved_tree_def same_fs_def)
  show ?thesis
    using assms(4,1,2,3) same_fs_def refl
  proof (cases rule: relocate_phases)
    case (late rt fs3)
    show ?thesis
      by (rule late_keeps [OF late(2,3) switched_at [OF assms(1,3) same_fs_def] dir same ne])
  qed simp
qed

subsection \<open>A move across file systems\<close>

definition hot_example :: string where
  "hot_example = ''/h/r9/x86''"

definition cold_example :: string where
  "cold_example = ''/c/r9/x86''"

definition files_example :: files where
  "files_example = [hot_example \<mapsto> tree_example]"

definition fs_env_example :: "(fsop \<Rightarrow> bool) \<Rightarrow> fs_env" where
  "fs_env_example ok =
     \<lparr>se_ok = ok, se_left = (\<lambda>_. None), se_dev = (\<lambda>p. if startswith p ''/h'' then 1 else 2), 
      se_real = (\<lambda>fs p. case fs p of Some (TLink _ q) \<Rightarrow> q | _ \<Rightarrow> p),
      se_setgid = (\<lambda>_. True), se_pid = ''77'', se_copy = copy_example\<lparr>ce_io := (\<lambda>_. io_example\<lparr>io_seek := NoSeek\<rparr>)\<rparr>\<rparr>"

lemma example_ready: "move_ready (fs_env_example ok) hot_example cold_example files_example"
proof -
  have "hot_example \<noteq> beside (fs_env_example ok) cold_example s" "beside (fs_env_example ok) cold_example s \<noteq> hot_example" "hot_example \<noteq> cold_example"
    "beside (fs_env_example ok) hot_example s \<noteq> cold_example"
    "beside (fs_env_example ok) hot_example s \<noteq> beside (fs_env_example ok) cold_example s" for s
    by (simp_all add: beside_def parent_dir_def base_name_def hot_example_def cold_example_def)
  then show ?thesis by (auto simp: move_ready_def files_example_def)
qed

lemma example_copyable: "copyable (fs_env_example ok) tree_example"
  by (simp add: copyable_def tree_example_def is_real_dir_def fs_env_example_def seek_kind_law_def io_example_def)


theorem relocate_never_loses_witness:
  "snd (relocate (fs_env_example (\<lambda>op. op \<noteq> ORename ''/h/r9/.x86.ltvm-77-old'' hot_example)) True True hot_example cold_example files_example)
     \<noteq> Map.empty"
proof -
  let ?env = "fs_env_example (\<lambda>op. op \<noteq> ORename ''/h/r9/.x86.ltvm-77-old'' hot_example)"
  obtain r fs' where run: "relocate ?env True True hot_example cold_example files_example = (r, fs')" by fastforce
  have "files_example hot_example = Some tree_example" by (simp add: files_example_def)
  from relocate_never_loses [OF this example_copyable example_ready run] run show ?thesis by auto
qed

end
