(* ===== verification/StorageCmd.thy ===== *)
theory StorageCmd
  imports StorageMove
begin

unbundle bit_operations_syntax

text \<open>
  \<^verbatim>\<open>ltvm target archive\<close> and \<^verbatim>\<open>restore\<close> (\<^verbatim>\<open>storage.py\<close>): the settings, which VMs use a tree, the plan
  and its checks, and the moves with the references they change.
\<close>

subsection \<open>Settings\<close>

datatype setting_problem = SetParse | SetRelative string | SetMissing | SetNotDir string

text \<open>\<open>raw\<close> is the value the configuration parser gives, \<open>Inl\<close> when it cannot read the file.\<close>

definition read_setting_path :: "(unit, string) result \<Rightarrow> (setting_problem, string option) result" where
  "read_setting_path raw =
     (case raw of
        Inl _ \<Rightarrow> Inl SetParse
      | Inr r \<Rightarrow>
          let r = strip r
          in if r = [] then Inr None else if \<not> startswith r ''/'' then Inl (SetRelative r) else Inr (Some r))"

definition cold_root :: "(string \<Rightarrow> bool) \<Rightarrow> (unit, string) result \<Rightarrow> (setting_problem, string) result" where
  "cold_root is_dir raw =
     (case read_setting_path raw of
        Inl p \<Rightarrow> Inl p
      | Inr None \<Rightarrow> Inl SetMissing
      | Inr (Some path) \<Rightarrow> if is_dir path then Inr path else Inl (SetNotDir path))"

subsection \<open>Paths\<close>

fun path_comps :: "bool \<Rightarrow> string list \<Rightarrow> string list \<Rightarrow> string list" where
  "path_comps rooted new [] = rev new"
| "path_comps rooted new (c # cs) =
     (if c = [] \<or> c = ''.'' then path_comps rooted new cs
      else if c \<noteq> ''..'' \<or> \<not> rooted \<and> new = [] \<or> (new \<noteq> [] \<and> hd new = ''..'') then path_comps rooted (c # new) cs
      else path_comps rooted (drop 1 new) cs)"

definition normpath :: "string \<Rightarrow> string" where
  "normpath p =
     (if p = [] then ''.''
      else
        let slashes = (if \<not> startswith p ''/'' then [] else if startswith p ''//'' \<and> \<not> startswith p ''///'' then ''//'' else ''/'');
            path = slashes @ join ''/'' (path_comps (slashes \<noteq> []) [] (split_on CHR ''/'' p))
        in if path = [] then ''.'' else path)"

definition abspath :: "string \<Rightarrow> string \<Rightarrow> string" where
  "abspath cwd p = normpath (if startswith p ''/'' then p else cwd @ ''/'' @ p)"

definition path_under :: "string \<Rightarrow> string \<Rightarrow> string \<Rightarrow> bool" where
  "path_under cwd path root =
     (let p = normpath (abspath cwd path); r = normpath (abspath cwd root)
      in p = r \<or> startswith p (rstrip_char CHR ''/'' r @ ''/''))"

fun common_prefix :: "string list \<Rightarrow> string list \<Rightarrow> nat" where
  "common_prefix (a # as) (b # bs) = (if a = b then Suc (common_prefix as bs) else 0)"
| "common_prefix _ _ = 0"

definition relpath :: "string \<Rightarrow> string \<Rightarrow> string \<Rightarrow> string" where
  "relpath cwd path start =
     (let s = filter (\<lambda>c. c \<noteq> []) (split_on CHR ''/'' (abspath cwd start));
          p = filter (\<lambda>c. c \<noteq> []) (split_on CHR ''/'' (abspath cwd path));
          i = common_prefix s p;
          rel = replicate (length s - i) ''..'' @ drop i p
      in if rel = [] then ''.'' else join ''/'' rel)"

subsection \<open>Directories shared with a group\<close>

record sharing =
  sh_group :: string
  sh_setgid :: bool
  sh_group_writable :: bool
  sh_default_acl :: bool

text \<open>What \<^verbatim>\<open>stat\<close> says of a directory, with the name of its group and whether it has a default ACL.\<close>

record dir_stat =
  ds_is_dir :: bool
  ds_mode :: nat
  ds_gid :: nat
  ds_group :: string
  ds_acl :: bool

definition S_IWGRP :: nat where
  "S_IWGRP = 16"

definition sharing_of :: "nat \<Rightarrow> dir_stat option \<Rightarrow> sharing option" where
  "sharing_of my_gid st =
     (case st of
        None \<Rightarrow> None
      | Some s \<Rightarrow>
          if \<not> ds_is_dir s then None
          else
            let setgid = (ds_mode s AND S_ISGID \<noteq> 0); gw = (ds_mode s AND S_IWGRP \<noteq> 0)
            in if \<not> setgid \<and> \<not> (gw \<and> ds_gid s \<noteq> my_gid) then None
               else Some \<lparr>sh_group = ds_group s, sh_setgid = setgid, sh_group_writable = gw, sh_default_acl = ds_acl s\<rparr>)"

text \<open>The umask after \<^verbatim>\<open>share_new_files\<close>; \<open>old - (old AND 56)\<close> is \<^verbatim>\<open>old & ~0o070\<close>.\<close>

definition share_new_files :: "string list \<Rightarrow> nat \<Rightarrow> bool \<times> nat" where
  "share_new_files shared_roots old = (if shared_roots = [] then (False, old) else (True, old - (old AND 56)))"

fun volume_specs :: "string list \<Rightarrow> string list" where
  "volume_specs [] = []"
| "volume_specs (tok # rest) =
     (if (tok = ''-v'' \<or> tok = ''--volume'') \<and> rest \<noteq> [] then hd rest # volume_specs rest
      else if startswith tok ''--volume='' then drop 9 tok # volume_specs rest
      else volume_specs rest)"

definition shares_volume :: "string \<Rightarrow> (string \<Rightarrow> string) \<Rightarrow> string list \<Rightarrow> string \<Rightarrow> bool" where
  "shares_volume cwd real roots spec =
     (let parts = split_on CHR '':'' spec
      in \<not> length parts < 2 \<and> \<not> (length parts > 2 \<and> ''ro'' \<in> set (split_on CHR '','' (parts ! 2))) \<and>
         list_ex (\<lambda>r. path_under cwd (real (hd parts)) (real r)) roots)"

definition podman_share_args :: "string \<Rightarrow> (string \<Rightarrow> string) \<Rightarrow> string list \<Rightarrow> string list \<Rightarrow> string list" where
  "podman_share_args cwd real roots cmd =
     (if roots \<noteq> [] \<and> list_ex (shares_volume cwd real roots) (volume_specs cmd)
      then [''--umask'', ''0002'', ''-e'', ''CCACHE_UMASK=002''] else [])"

subsection \<open>What is archived\<close>

definition archived :: "(string \<Rightarrow> string) \<Rightarrow> files \<Rightarrow> string \<Rightarrow> string option" where
  "archived real fs arch_dir = (if is_link (fs arch_dir) then Some (real arch_dir) else None)"

definition storage_fields :: "(string \<Rightarrow> string) \<Rightarrow> files \<Rightarrow> string \<Rightarrow> string \<times> string option" where
  "storage_fields real fs arch_dir =
     (case archived real fs arch_dir of None \<Rightarrow> (''hot'', None) | Some cold \<Rightarrow> (''cold'', Some cold))"

text \<open>\<open>ls\<close> are the sorted names in \<open>path\<close>, \<open>None\<close> when it cannot be read or is no directory.\<close>

definition archived_links :: "string \<Rightarrow> (string \<Rightarrow> string) \<Rightarrow> (string \<Rightarrow> bool) \<Rightarrow> (setting_problem, string) result
    \<Rightarrow> files \<Rightarrow> string list option \<Rightarrow> string \<Rightarrow> (string \<times> string) list" where
  "archived_links cwd real is_dir cold fs ls path =
     (case cold of
        Inl _ \<Rightarrow> []
      | Inr c \<Rightarrow>
          let candidates =
                (if is_link (fs path) then [path]
                 else case ls of None \<Rightarrow> [] | Some names \<Rightarrow> filter (\<lambda>p. is_link (fs p)) (map (\<lambda>n. path @ ''/'' @ n) names))
          in filter (\<lambda>(_, r). is_dir r \<and> path_under cwd r (real c)) (map (\<lambda>l. (l, real l)) candidates))"

subsection \<open>References of VMs\<close>

datatype ref_what = RefImage | RefKernel | RefBacking

record vmref =
  vr_vm :: string
  vr_running :: bool
  vr_what :: ref_what
  vr_path :: string
  vr_overlay :: "string option"
  vr_has_info :: bool

record storage_host =
  sh_files :: files
  sh_infos :: sockets
  sh_store :: store_fs

text \<open>\<open>sc_ls\<close> are the sorted names in a directory, \<open>sc_existing\<close> the nearest ancestor of a path that
  exists, \<open>sc_access\<close> whether the user may write a path, \<open>sc_shared\<close> whether a directory is shared
  with a group, \<open>sc_locked\<close> whether another process holds the lock of the target; \<open>sc_rebase\<close> is
  \<^verbatim>\<open>qemu-img rebase -u\<close>.\<close>

record storage_env =
  sc_fs :: fs_env
  sc_hot :: string
  sc_cold :: "(setting_problem, string) result"
  sc_ls :: "files \<Rightarrow> string \<Rightarrow> string list"
  sc_names :: "string list"
  sc_stems :: "string list"
  sc_overlays :: string
  sc_procs :: procs
  sc_pidfiles :: pidfiles
  sc_cwd :: string
  sc_survey :: "string \<Rightarrow> survey_env"
  sc_existing :: "string \<Rightarrow> string"
  sc_access :: "string \<Rightarrow> bool"
  sc_free :: int
  sc_shared :: "string \<Rightarrow> bool"
  sc_locked :: bool
  sc_rebase :: "string \<Rightarrow> string \<Rightarrow> store_fs \<Rightarrow> store_fs option"

definition backing_ref :: "storage_env \<Rightarrow> store_fs \<Rightarrow> string \<Rightarrow> string \<Rightarrow> bool \<Rightarrow> bool \<Rightarrow> vmref list" where
  "backing_ref env store name stem run info =
     (let overlay = sc_overlays env @ ''/'' @ stem @ ''.qcow2''
      in case overlay_backing_file store overlay of
           None \<Rightarrow> []
         | Some b \<Rightarrow> [\<lparr>vr_vm = name, vr_running = run, vr_what = RefBacking, vr_path = b, vr_overlay = Some overlay, vr_has_info = info\<rparr>])"

definition vm_refs :: "storage_env \<Rightarrow> storage_host \<Rightarrow> string \<Rightarrow> vmref list" where
  "vm_refs env st name =
     (case vm_load (sh_infos st) name of
        Inl _ \<Rightarrow> []
      | Inr vm \<Rightarrow>
          let run = fst (is_running (sc_procs env) (sc_pidfiles env) vm);
              named = (\<lambda>what path. if path = [] then []
                else [\<lparr>vr_vm = name, vr_running = run, vr_what = what, vr_path = path, vr_overlay = None, vr_has_info = True\<rparr>])
          in named RefImage (vm_image vm) @ named RefKernel (vm_kernel vm) @ backing_ref env (sh_store st) name (vm_name vm) run True)"

definition vm_references :: "storage_env \<Rightarrow> storage_host \<Rightarrow> vmref list" where
  "vm_references env st =
     concat (map (vm_refs env st) (sc_names env)) @
     concat (map (\<lambda>s. if s \<in> set (sc_names env) then [] else backing_ref env (sh_store st) s s False False) (sc_stems env))"

subsection \<open>The plan\<close>

datatype storage_problem =
    PSetting setting_problem
  | PName string
  | PArchived string
  | PNothing string
  | PExists string
  | PElsewhere string
  | PBoth string
  | PRunning "string set"
  | PUsed "string set"
  | POverlay string
  | PSurvey string "survey_problem list"
  | PNotWritable string
  | PSpace int int
  | PLocked
  | PMove move_error

record move =
  mv_arch :: string
  mv_hot :: string
  mv_cold :: string
  mv_src :: string
  mv_dest :: string
  mv_refs :: "vmref list"
  mv_repoint :: "(vmref \<times> string) list"

definition valid_name :: "string \<Rightarrow> (storage_problem, unit) result" where
  "valid_name name =
     (if name = [] \<or> startswith name ''.'' \<or> CHR ''/'' \<in> set name \<or> name = ''cache'' then Inl (PName name) else Inr ())"

definition new_move :: "string \<Rightarrow> string \<Rightarrow> string \<Rightarrow> bool \<Rightarrow> move" where
  "new_move a hot cold to_cold =
     \<lparr>mv_arch = a, mv_hot = hot, mv_cold = cold, mv_src = (if to_cold then hot else cold),
      mv_dest = (if to_cold then cold else hot), mv_refs = [], mv_repoint = []\<rparr>"

definition plan_one :: "storage_env \<Rightarrow> files \<Rightarrow> bool \<Rightarrow> string \<Rightarrow> string \<Rightarrow> string \<Rightarrow> (storage_problem, move) result" where
  "plan_one env fs to_cold hot_t cold_t a =
     (let hot = hot_t @ ''/'' @ a; cold = cold_t @ ''/'' @ a
      in if to_cold then
           (if is_link (fs hot) then Inl (PArchived hot)
            else if \<not> is_real_dir (fs hot) then Inl (PNothing hot)
            else if fs cold \<noteq> None then Inl (PExists cold)
            else Inr (new_move a hot cold True))
         else
           (if \<not> is_real_dir (fs cold) then Inl (PNothing cold)
            else if is_link (fs hot) then
              (if se_real (sc_fs env) fs hot \<noteq> se_real (sc_fs env) fs cold then Inl (PElsewhere hot)
               else Inr (new_move a hot cold False))
            else if fs hot \<noteq> None then Inl (PBoth a)
            else Inr (new_move a hot cold False)))"

definition arches :: "storage_env \<Rightarrow> files \<Rightarrow> string option \<Rightarrow> string \<Rightarrow> string list" where
  "arches env fs arch dir =
     (case arch of
        Some a \<Rightarrow> [a]
      | None \<Rightarrow> filter (\<lambda>n. is_real_dir (fs (dir @ ''/'' @ n)) \<and> \<not> startswith n ''.'') (sc_ls env fs dir))"

definition plan :: "storage_env \<Rightarrow> files \<Rightarrow> string \<Rightarrow> string option \<Rightarrow> bool \<Rightarrow> (storage_problem, move list) result" where
  "plan env fs target arch to_cold =
     res_bind (valid_name target) (\<lambda>_.
     res_bind (case arch of None \<Rightarrow> Inr () | Some a \<Rightarrow> valid_name a) (\<lambda>_.
     res_bind (map_err PSetting (sc_cold env)) (\<lambda>cold.
       let hot_t = sc_hot env @ ''/'' @ target; cold_t = cold @ ''/'' @ target; dir = (if to_cold then hot_t else cold_t)
       in res_bind (res_list (plan_one env fs to_cold hot_t cold_t) (arches env fs arch dir)) (\<lambda>moves.
            if moves = [] then Inl (PNothing dir) else Inr moves))))"

subsection \<open>Who uses the trees\<close>

definition path_join :: "string \<Rightarrow> string \<Rightarrow> string" where
  "path_join p rel = (if rel = ''.'' then p else p @ ''/'' @ rel)"

text \<open>One reference against one move: whether it is into the tree, and where it has to point after a
  restore.\<close>

definition match_ref :: "storage_env \<Rightarrow> files \<Rightarrow> bool \<Rightarrow> vmref \<Rightarrow> move \<Rightarrow> move" where
  "match_ref env fs to_cold ref m =
     (let via_hot = path_under (sc_cwd env) (vr_path ref) (mv_hot m);
          via_cold = path_under (sc_cwd env) (vr_path ref) (mv_cold m);
          real = se_real (sc_fs env) fs (vr_path ref);
          real_src = se_real (sc_fs env) fs (mv_src m)
      in if \<not> (via_hot \<or> via_cold \<or> path_under (sc_cwd env) real real_src) then m
         else
           let m' = m\<lparr>mv_refs := mv_refs m @ [ref]\<rparr>
           in if to_cold \<or> via_hot then m'
              else
                let rel = (if via_cold then relpath (sc_cwd env) (normpath (vr_path ref)) (mv_cold m)
                           else relpath (sc_cwd env) real real_src)
                in m'\<lparr>mv_repoint := mv_repoint m' @ [(ref, path_join (mv_hot m) rel)]\<rparr>)"

definition match_refs :: "storage_env \<Rightarrow> files \<Rightarrow> bool \<Rightarrow> vmref list \<Rightarrow> move list \<Rightarrow> move list" where
  "match_refs env fs to_cold refs moves = map (\<lambda>m. fold (match_ref env fs to_cold) refs m) moves"

definition refusal :: "storage_env \<Rightarrow> bool \<Rightarrow> move list \<Rightarrow> storage_problem option" where
  "refusal env force moves =
     (let refs = concat (map mv_refs moves);
          running = map vr_vm (filter vr_running refs);
          users = map vr_vm refs;
          unwritable = filter (\<lambda>(r, _). vr_what r = RefBacking \<and> (case vr_overlay r of None \<Rightarrow> False | Some o' \<Rightarrow> \<not> sc_access env o'))
            (concat (map mv_repoint moves))
      in if running \<noteq> [] then Some (PRunning (set running))
         else if users \<noteq> [] \<and> \<not> force then Some (PUsed (set users))
         else case unwritable of [] \<Rightarrow> None | (r, _) # _ \<Rightarrow> Some (POverlay (vr_vm r)))"

subsection \<open>Checks before anything moves\<close>

definition HEADROOM_BYTES :: int where
  "HEADROOM_BYTES = 1024 ^ 3"

definition survey_move :: "storage_env \<Rightarrow> files \<Rightarrow> move \<Rightarrow> (storage_problem, nat) result" where
  "survey_move env fs m =
     (case fs (mv_src m) of
        None \<Rightarrow> Inr 0
      | Some t \<Rightarrow>
          (case survey (sc_survey env (mv_src m)) t of (bytes, problems) \<Rightarrow>
             if problems \<noteq> [] then Inl (PSurvey (mv_src m) problems) else Inr bytes))"

definition check_access :: "storage_env \<Rightarrow> move list \<Rightarrow> (storage_problem, unit) result" where
  "check_access env moves =
     (case find (\<lambda>d. \<not> sc_access env d) (concat (map (\<lambda>m. [parent_dir (mv_src m), sc_existing env (parent_dir (mv_dest m))]) moves)) of
        Some d \<Rightarrow> Inl (PNotWritable d)
      | None \<Rightarrow> Inr ())"

definition check_space :: "storage_env \<Rightarrow> nat \<Rightarrow> (storage_problem, unit) result" where
  "check_space env bytes =
     (if sc_free env < int bytes + HEADROOM_BYTES then Inl (PSpace (int bytes) (sc_free env)) else Inr ())"

definition move_checks :: "storage_env \<Rightarrow> storage_host \<Rightarrow> string \<Rightarrow> string option \<Rightarrow> bool \<Rightarrow> bool \<Rightarrow> (storage_problem, move list) result" where
  "move_checks env st target arch to_cold force =
     res_bind (plan env (sh_files st) target arch to_cold) (\<lambda>moves0.
       let moves = match_refs env (sh_files st) to_cold (vm_references env st) moves0
       in case refusal env force moves of
            Some p \<Rightarrow> Inl p
          | None \<Rightarrow>
              res_bind (res_list (survey_move env (sh_files st)) moves) (\<lambda>sizes.
              res_bind (check_access env moves) (\<lambda>_.
              res_bind (if se_dev (sc_fs env) (mv_src (hd moves)) = se_dev (sc_fs env) (sc_existing env (parent_dir (mv_dest (hd moves)))) then Inr ()
                        else check_space env (sum_list sizes)) (\<lambda>_.
                if sc_locked env then Inl PLocked else Inr moves))))"

subsection \<open>The moves\<close>

definition field_of :: "ref_what \<Rightarrow> string" where
  "field_of w = (if w = RefImage then ''IMAGE'' else ''KERNEL'')"

definition repoint :: "storage_env \<Rightarrow> vmref \<Rightarrow> string \<Rightarrow> storage_host \<Rightarrow> storage_host option" where
  "repoint env ref new st =
     (case vr_what ref of
        RefBacking \<Rightarrow>
          (case vr_overlay ref of
             None \<Rightarrow> None
           | Some overlay \<Rightarrow> map_option (\<lambda>s. st\<lparr>sh_store := s\<rparr>) (sc_rebase env overlay new (sh_store st)))
      | w \<Rightarrow>
          (case vm_load (sh_infos st) (vr_vm ref) of
             Inl _ \<Rightarrow> None
           | Inr vm \<Rightarrow>
               (case vm_update_fields (vm_name vm) [(field_of w, new)] (sh_infos st) of
                  Inl _ \<Rightarrow> None
                | Inr infos \<Rightarrow> Some (st\<lparr>sh_infos := infos\<rparr>))))"

text \<open>The references that could not be changed become warnings.\<close>

fun repoint_all :: "storage_env \<Rightarrow> (vmref \<times> string) list \<Rightarrow> storage_host \<Rightarrow> (vmref \<times> string) list \<times> storage_host" where
  "repoint_all env [] st = ([], st)"
| "repoint_all env ((ref, new) # rest) st =
     (case repoint env ref new st of
        None \<Rightarrow> (case repoint_all env rest st of (failed, st') \<Rightarrow> ((ref, new) # failed, st'))
      | Some st1 \<Rightarrow> repoint_all env rest st1)"

record moved =
  md_arch :: string
  md_left :: "string option"
  md_failed :: "(vmref \<times> string) list"

fun run_moves :: "storage_env \<Rightarrow> bool \<Rightarrow> bool \<Rightarrow> move list \<Rightarrow> storage_host \<Rightarrow> (storage_problem, moved list) result \<times> storage_host" where
  "run_moves env to_cold share [] st = (Inr [], st)"
| "run_moves env to_cold share (m # ms) st =
     (case relocate (sc_fs env) to_cold share (mv_src m) (mv_dest m) (sh_files st) of
        (Inl e, fs) \<Rightarrow> (Inl (PMove e), st\<lparr>sh_files := fs\<rparr>)
      | (Inr left, fs) \<Rightarrow>
          (case repoint_all env (mv_repoint m) (st\<lparr>sh_files := fs\<rparr>) of (failed, st1) \<Rightarrow>
             (case run_moves env to_cold share ms st1 of
                (Inl e, st2) \<Rightarrow> (Inl e, st2)
              | (Inr done', st2) \<Rightarrow> (Inr (\<lparr>md_arch = mv_arch m, md_left = left, md_failed = failed\<rparr> # done'), st2))))"

definition move_target :: "storage_env \<Rightarrow> string \<Rightarrow> string option \<Rightarrow> bool \<Rightarrow> bool \<Rightarrow> storage_host
    \<Rightarrow> (storage_problem, moved list) result \<times> storage_host" where
  "move_target env target arch to_cold force st =
     (case move_checks env st target arch to_cold force of
        Inl e \<Rightarrow> (Inl e, st)
      | Inr moves \<Rightarrow>
          run_moves env to_cold
            (sc_shared env (if to_cold then (case sc_cold env of Inr c \<Rightarrow> c | Inl _ \<Rightarrow> []) else sc_hot env)) moves st)"

subsection \<open>Lemmas: the plan and the references\<close>

lemma match_ref_keeps [simp]:
  "mv_src (match_ref env fs to_cold ref m) = mv_src m" "mv_dest (match_ref env fs to_cold ref m) = mv_dest m"
  "mv_hot (match_ref env fs to_cold ref m) = mv_hot m" "mv_cold (match_ref env fs to_cold ref m) = mv_cold m"
  "mv_arch (match_ref env fs to_cold ref m) = mv_arch m"
  "mv_repoint (match_ref env fs True ref m) = mv_repoint m"
  by (auto simp: match_ref_def Let_def)

lemma match_fold_keeps [simp]:
  "mv_src (fold (match_ref env fs to_cold) refs m) = mv_src m" "mv_dest (fold (match_ref env fs to_cold) refs m) = mv_dest m"
  "mv_hot (fold (match_ref env fs to_cold) refs m) = mv_hot m" "mv_cold (fold (match_ref env fs to_cold) refs m) = mv_cold m"
  "mv_repoint (fold (match_ref env fs True) refs m) = mv_repoint m"
  by (induction refs arbitrary: m) simp_all

lemma match_ref_refs: "set (mv_refs m) \<subseteq> set (mv_refs (match_ref env fs to_cold ref m))"
  by (auto simp: match_ref_def Let_def)

lemma match_fold_refs: "set (mv_refs m) \<subseteq> set (mv_refs (fold (match_ref env fs to_cold) refs m))"
proof (induction refs arbitrary: m)
  case (Cons r refs)
  from match_ref_refs Cons [of "match_ref env fs to_cold r m"] show ?case unfolding fold_Cons comp_apply by (rule subset_trans)
qed simp

text \<open>A path into one of the trees of a move.\<close>

definition into :: "storage_env \<Rightarrow> string \<Rightarrow> move \<Rightarrow> bool" where
  "into env path m \<longleftrightarrow> path_under (sc_cwd env) path (mv_hot m) \<or> path_under (sc_cwd env) path (mv_cold m)"

lemma match_fold_member:
  "r \<in> set refs \<Longrightarrow> into env (vr_path r) m \<Longrightarrow> r \<in> set (mv_refs (fold (match_ref env fs to_cold) refs m))"
proof (induction refs arbitrary: m)
  case (Cons r' refs)
  show ?case
  proof (cases "r = r'")
    case True
    then have "r \<in> set (mv_refs (match_ref env fs to_cold r' m))" using Cons.prems(2) by (auto simp: match_ref_def into_def Let_def)
    then show ?thesis using match_fold_refs [of "match_ref env fs to_cold r' m" env fs to_cold refs] by auto
  next
    case False
    then show ?thesis using Cons by (simp add: into_def)
  qed
qed simp


subsection \<open>Lemmas: archive and restore\<close>

text \<open>What a reader of a file sees: everything but owner and mode.\<close>

fun plain_tree :: "tree \<Rightarrow> tree" and plain_entries :: "entries \<Rightarrow> entries" where
  "plain_tree (TDir m es) = TDir (m\<lparr>fm_mode := 0, fm_uid := 0\<rparr>) (plain_entries es)"
| "plain_tree (TFile m d) = TFile (m\<lparr>fm_mode := 0, fm_uid := 0\<rparr>) d"
| "plain_tree (TLink u s) = TLink 0 s"
| "plain_tree (TSpecial m) = TSpecial m"
| "plain_entries [] = []"
| "plain_entries ((n, t) # es) = (n, plain_tree t) # plain_entries es"

lemma plain_shared:
  "plain_tree (shared_tree env share sg t) = plain_tree t"
  "plain_entries (shared_entries env share sg es) = plain_entries es"
  by (induction t and es rule: plain_tree_plain_entries.induct) (simp_all add: copy_meta_def)

lemma plain_moved: "plain_tree (moved_tree env share src dest t) = plain_tree t"
  by (simp add: moved_tree_def plain_shared)

lemma wf_shared: "wf_tree t \<Longrightarrow> wf_tree (shared_tree env share sg t)"
  "wf_entries es \<Longrightarrow> wf_entries (shared_entries env share sg es)"
  by (induction t and es rule: plain_tree_plain_entries.induct) simp_all

lemma seeks_shared: "tree_seeks env at (shared_tree env' share sg t) = tree_seeks env at t"
  "entries_seek env at (shared_entries env' share sg es) = entries_seek env at es"
  by (induction env at t and env at es rule: tree_seeks_entries_seek.induct) simp_all

lemma copyable_moved: "copyable env t \<Longrightarrow> copyable env (moved_tree env share src dest t)"
  by (simp add: copyable_def moved_tree_def wf_shared seeks_shared)

text \<open>The node at a path below an arch directory, through the link an archive leaves.\<close>

fun tree_at :: "string list \<Rightarrow> tree \<Rightarrow> tree option" where
  "tree_at [] t = Some t"
| "tree_at (n # ns) (TDir m es) = (case dict_get es n of None \<Rightarrow> None | Some t \<Rightarrow> tree_at ns t)"
| "tree_at (n # ns) t = None"

definition seen_at :: "files \<Rightarrow> string \<Rightarrow> string list \<Rightarrow> tree option" where
  "seen_at fs p rel =
     map_option plain_tree (Option.bind (case fs p of Some (TLink _ q) \<Rightarrow> fs q | e \<Rightarrow> e) (tree_at rel))"

lemma plain_get: "dict_get (plain_entries es) n = map_option plain_tree (dict_get es n)"
  by (induction es) auto

lemma plain_at: "map_option plain_tree (tree_at rel t) = map_option plain_tree (tree_at rel (plain_tree t))"
proof (induction rel t rule: tree_at.induct)
  case (1 t)
  have "plain_tree (plain_tree t) = plain_tree t" "plain_entries (plain_entries es) = plain_entries es" for t es
    by (induction t and es rule: plain_tree_plain_entries.induct) simp_all
  then show ?case by simp
next
  case (2 n ns m es)
  then show ?case by (cases "dict_get es n") (simp_all add: plain_get)
qed simp_all

lemma seen_plain:
  assumes "fs p = Some t" "is_real_dir (Some t)" "fs' p = Some (TLink u q)" "fs' q = Some t'" "plain_tree t' = plain_tree t"
  shows "seen_at fs' p rel = seen_at fs p rel"
  using assms plain_at [of rel t] plain_at [of rel t'] by (cases t) (simp_all add: seen_at_def is_real_dir_def)

lemma move_target_single:
  assumes "move_target env target (Some a) to_cold force st = (Inr done', st')" "sc_cold env = Inr cold"
    and hot: "hot = sc_hot env @ ''/'' @ target @ ''/'' @ a" and cold: "cold_a = cold @ ''/'' @ target @ ''/'' @ a"
  obtains share w fs' rp failed where
    "relocate (sc_fs env) to_cold share (if to_cold then hot else cold_a) (if to_cold then cold_a else hot) (sh_files st) = (Inr w, fs')"
    "repoint_all env rp (st\<lparr>sh_files := fs'\<rparr>) = (failed, st')" "to_cold \<longrightarrow> rp = []" "to_cold \<longrightarrow> sh_files st cold_a = None"
proof -
  obtain moves where checks: "move_checks env st target (Some a) to_cold force = Inr moves"
    using assms(1) by (auto simp: move_target_def split: sum.split_asm)
  obtain m where p: "plan_one env (sh_files st) to_cold (sc_hot env @ ''/'' @ target) (cold @ ''/'' @ target) a = Inr m"
    and moves: "moves = match_refs env (sh_files st) to_cold (vm_references env st) [m]"
    using checks assms(2)
    by (auto simp: move_checks_def plan_def arches_def map_err_def Let_def res_bind_eq_Inr split: option.split_asm sum.split_asm if_split_asm)
  let ?m = "fold (match_ref env (sh_files st) to_cold) (vm_references env st) m"
  have m: "m = new_move a hot cold_a to_cold" "to_cold \<longrightarrow> sh_files st cold_a = None"
    using p by (auto simp: plan_one_def Let_def hot cold split: if_split_asm)
  have at: "mv_src ?m = (if to_cold then hot else cold_a)" "mv_dest ?m = (if to_cold then cold_a else hot)"
    "to_cold \<longrightarrow> mv_repoint ?m = []" by (auto simp: m(1) new_move_def)
  obtain share where run: "run_moves env to_cold share [?m] st = (Inr done', st')"
    using assms(1) checks by (simp add: move_target_def moves match_refs_def)
  then show thesis
    using that at m(2) by (auto split: sum.split_asm prod.split_asm)
qed

lemma repoint_files: "repoint env ref new st = Some st' \<Longrightarrow> sh_files st' = sh_files st"
  by (auto simp: repoint_def split: ref_what.split_asm option.split_asm sum.split_asm)

lemma repoint_all_files: "sh_files (snd (repoint_all env rp st)) = sh_files st"
proof (induction env rp st rule: repoint_all.induct)
  case (2 env ref new rest st)
  then show ?case by (cases "repoint env ref new st"; cases "repoint_all env rest st") (simp_all add: repoint_files)
qed simp

lemma archive_effect:
  assumes "move_target env target (Some a) True force st = (Inr done', st')" "sc_cold env = Inr cold"
    "hot = sc_hot env @ ''/'' @ target @ ''/'' @ a" "cold_a = cold @ ''/'' @ target @ ''/'' @ a"
    "sh_files st hot = Some t" "copyable (sc_fs env) t" "move_ready (sc_fs env) hot cold_a (sh_files st)" "undo_works (sc_fs env) hot cold_a"
  obtains share where "st' = st\<lparr>sh_files := relocated (sc_fs env) True share hot cold_a t (sh_files st)\<rparr>" "sh_files st cold_a = None"
proof -
  from assms(1-4) show thesis
  proof (cases rule: move_target_single)
    case (1 share w fs' rp failed)
    then have "relocate (sc_fs env) True share hot cold_a (sh_files st) = (Inr w, fs')" by simp
    from relocate_atomic [OF this assms(5-8)] have "fs' = relocated (sc_fs env) True share hot cold_a t (sh_files st)" by simp
    with 1 show thesis using that [of share] by auto
  qed
qed

text \<open>
  Archiving is invisible: after an archive every path below \<^verbatim>\<open><hot>/<target>/<arch>\<close> leads,
  through the link left there, to a file of the same contents, size, time and links as before;
  records and overlays of VMs are not touched, nor any other place.
\<close>

theorem archive_invisible:
  assumes "move_target env target (Some a) True force st = (Inr done', st')" "sc_cold env = Inr cold"
    "hot = sc_hot env @ ''/'' @ target @ ''/'' @ a" "cold_a = cold @ ''/'' @ target @ ''/'' @ a"
    "sh_files st hot = Some t" "copyable (sc_fs env) t" "move_ready (sc_fs env) hot cold_a (sh_files st)" "undo_works (sc_fs env) hot cold_a"
  shows "(\<forall>rel. seen_at (sh_files st') hot rel = seen_at (sh_files st) hot rel) \<and> sh_infos st' = sh_infos st \<and>
    sh_store st' = sh_store st \<and> (\<forall>p. p \<notin> {hot, cold_a} \<longrightarrow> sh_files st' p = sh_files st p)"
proof -
  obtain share where st': "st' = st\<lparr>sh_files := relocated (sc_fs env) True share hot cold_a t (sh_files st)\<rparr>"
    using archive_effect [OF assms] by blast
  have ne: "hot \<noteq> cold_a" using assms(7) by (simp add: move_ready_def)
  have "seen_at (sh_files st') hot rel = seen_at (sh_files st) hot rel" for rel
    using assms(6) ne
    by (intro seen_plain [where t = t and q = cold_a and fs = "sh_files st" and t' = "moved_tree (sc_fs env) share hot cold_a t", OF assms(5)]) (auto simp: st' relocated_def copyable_def plain_moved)
  then show ?thesis by (simp add: st' relocated_def)
qed


subsection \<open>An archive and a restore\<close>

definition storage_env_example :: storage_env where
  "storage_env_example =
     \<lparr>sc_fs = fs_env_example (\<lambda>_. True), sc_hot = ''/h'', sc_cold = Inr ''/c'', sc_ls = (\<lambda>_ _. [''x86'']), sc_names = [''v''],
      sc_stems = [], sc_overlays = ''/o'',
      sc_procs = [5 \<mapsto> \<lparr>qp_comm = ''qemu-system-x86'', qp_argv = Some [''qemu'', ''-name'', ''v'']\<rparr>], sc_pidfiles = Map.empty,
      sc_cwd = ''/'',
      sc_survey = (\<lambda>_. \<lparr>sv_uid = 0, sv_scan = (\<lambda>_. True), sv_access = (\<lambda>_. True), sv_readable = (\<lambda>_. True), sv_blocks = (\<lambda>_. 1)\<rparr>),
      sc_existing = id, sc_access = (\<lambda>_. True), sc_free = 2 ^ 31, sc_shared = (\<lambda>_. True), sc_locked = False, sc_rebase = (\<lambda>_ _. Some)\<rparr>"

definition store_empty :: store_fs where
  "store_empty = \<lparr>sf_files = Map.empty, sf_links = Map.empty\<rparr>"

definition storage_host_example :: storage_host where
  "storage_host_example = \<lparr>sh_files = files_example, sh_infos = Map.empty, sh_store = store_empty\<rparr>"

definition storage_host_used :: storage_host where
  "storage_host_used =
     storage_host_example\<lparr>sh_infos := [''v'' \<mapsto> ''NAME=v'' @ [CHR 0x0A] @ ''PID=5'' @ [CHR 0x0A] @ ''IMAGE=/h/r9/x86/kernel/vmlinux'']\<rparr>"


abbreviation archive_run :: "(storage_problem, moved list) result \<times> storage_host" where
  "archive_run \<equiv> move_target storage_env_example ''r9'' (Some ''x86'') True False storage_host_example"

lemma archive_run_ok: "\<exists>done'. archive_run = (Inr done', snd archive_run)"
proof -
  have "case fst archive_run of Inl _ \<Rightarrow> False | Inr _ \<Rightarrow> True" by code_simp
  then show ?thesis by (cases archive_run) (auto split: sum.split_asm)
qed

lemma restore_run_ok:
  "\<exists>done' st2. move_target storage_env_example ''r9'' (Some ''x86'') False False (snd archive_run) = (Inr done', st2)"
proof -
  have "case fst (move_target storage_env_example ''r9'' (Some ''x86'') False False (snd archive_run)) of Inl _ \<Rightarrow> False | Inr _ \<Rightarrow> True"
    by code_simp
  then show ?thesis
    by (cases "move_target storage_env_example ''r9'' (Some ''x86'') False False (snd archive_run)") (auto split: sum.split_asm)
qed

lemma storage_example_paths:
  "sc_cold storage_env_example = Inr ''/c''" "hot_example = sc_hot storage_env_example @ ''/'' @ ''r9'' @ ''/'' @ ''x86''"
  "cold_example = ''/c'' @ ''/'' @ ''r9'' @ ''/'' @ ''x86''" "sh_files storage_host_example hot_example = Some tree_example"
  "undo_works (sc_fs storage_env_example) p q" "sc_fs storage_env_example = fs_env_example (\<lambda>_. True)"
  "sh_files storage_host_example = files_example"
  by (simp_all add: storage_env_example_def hot_example_def cold_example_def storage_host_example_def files_example_def
      undo_works_def fs_env_example_def)

theorem archive_invisible_witness:
  "seen_at (sh_files (snd archive_run)) hot_example [''kernel'', ''vmlinux''] = seen_at files_example hot_example [''kernel'', ''vmlinux'']"
proof -
  obtain d where run: "archive_run = (Inr d, snd archive_run)" using archive_run_ok by blast
  from archive_invisible [OF run storage_example_paths(1-4) _ _ storage_example_paths(5)] show ?thesis
    by (simp add: storage_example_paths(6,7) example_ready example_copyable)
qed


text \<open>
  A VM whose record cannot be read is not protected: its name is taken, so its overlay is not
  looked at, and the backing file the overlay names counts for nobody.
\<close>

definition overlay_cold :: string where
  "overlay_cold = QCOW2_MAGIC @ replicate 11 (CHR 0x00) @ [CHR 0x14] @ replicate 3 (CHR 0x00) @ [CHR 0x10] @ ''/c/r9/x86/latest''"

definition storage_host_corrupt :: storage_host where
  "storage_host_corrupt =
     storage_host_example\<lparr>sh_infos := [''v'' \<mapsto> ''PID=x''], sh_store := \<lparr>sf_files = [''/o/v.qcow2'' \<mapsto> overlay_cold], sf_links = Map.empty\<rparr>\<rparr>"

theorem unreadable_vm_unprotected:
  "overlay_backing_file (sh_store storage_host_corrupt) ''/o/v.qcow2'' = Some ''/c/r9/x86/latest'' \<and>
   vm_references (storage_env_example\<lparr>sc_stems := [''v'']\<rparr>) storage_host_corrupt = [] \<and>
   vm_references (storage_env_example\<lparr>sc_stems := [''v''], sc_names := []\<rparr>) storage_host_corrupt \<noteq> []"
  by code_simp

end
