(* ===== verification/Rootless.thy ===== *)
theory Rootless
  imports NameReg
begin

unbundle bit_operations_syntax

text \<open>
  Running VMs without root (\<^verbatim>\<open>rootless.py\<close>): the registry of names in \<^verbatim>\<open>hosts.d\<close>, the rules of QEMU's
  bridge helper, whether a process can work without root, and giving root up for the user of a
  VM.  Linux only: what the module does on macOS is left out.
\<close>

subsection \<open>The registry in \<open>hosts.d\<close>\<close>

text \<open>One file per name; a new text arrives by a rename, so it is there whole or not at all.\<close>

type_synonym hosts_dir = "string \<rightharpoonup> string"

definition write_hosts_entry :: "string \<Rightarrow> string \<Rightarrow> string \<Rightarrow> hosts_dir \<Rightarrow> hosts_dir" where
  "write_hosts_entry name ip marker dir =
     dir(name \<mapsto> ip @ [CHR 0x09] @ name @ '' '' @ marker @ '':'' @ name @ [CHR 0x0A])"

definition read_hosts_ip :: "string \<Rightarrow> hosts_dir \<Rightarrow> string option" where
  "read_hosts_ip name dir =
     (case dir name of
        None \<Rightarrow> None
      | Some text' \<Rightarrow> (case split_ws (universal_newlines text') of [] \<Rightarrow> None | w # _ \<Rightarrow> Some w))"

definition remove_hosts_entry :: "string \<Rightarrow> hosts_dir \<Rightarrow> hosts_dir" where
  "remove_hosts_entry name dir = dir(name := None)"

subsection \<open>The bridge helper\<close>

record file_stat =
  st_reg :: bool
  st_lnk :: bool
  st_uid :: nat
  st_mode :: nat

definition S_ISUID :: nat where
  "S_ISUID = 2048"

definition S_IXOTH :: nat where
  "S_IXOTH = 1"

definition is_setuid_root :: "file_stat option \<Rightarrow> bool" where
  "is_setuid_root st =
     (case st of
        None \<Rightarrow> False
      | Some s \<Rightarrow> st_reg s \<and> st_uid s = 0 \<and> st_mode s AND S_ISUID \<noteq> 0 \<and> st_mode s AND S_IXOTH \<noteq> 0)"

definition HELPER_CANDIDATES :: "string list" where
  "HELPER_CANDIDATES = [''/usr/lib/qemu/qemu-bridge-helper'', ''/usr/libexec/qemu-bridge-helper'']"

definition installed_helper :: "(string \<Rightarrow> file_stat option) \<Rightarrow> string option" where
  "installed_helper stat = find (\<lambda>p. case stat p of None \<Rightarrow> False | Some s \<Rightarrow> st_reg s) HELPER_CANDIDATES"

definition bridge_helper :: "(string \<Rightarrow> file_stat option) \<Rightarrow> string option" where
  "bridge_helper stat = find (\<lambda>p. is_setuid_root (stat p)) HELPER_CANDIDATES"

definition acl_words :: "string \<Rightarrow> (string \<times> string) option" where
  "acl_words raw =
     (let words = split_ws (fst (partition1 CHR ''#'' raw))
      in if length words \<noteq> 2 then None else Some (words ! 0, words ! 1))"

text \<open>The loop body for one line, with the call for an included file as its argument.\<close>

definition acl_line_rules :: "(string \<Rightarrow> (string \<times> string) list) \<Rightarrow> string \<Rightarrow> (string \<times> string) list" where
  "acl_line_rules included raw =
     (case acl_words raw of
        None \<Rightarrow> []
      | Some (verb, arg) \<Rightarrow>
          if verb = ''include'' then included arg
          else if verb = ''allow'' \<or> verb = ''deny'' then [(verb, arg)]
          else [])"

function acl_rules :: "(string \<rightharpoonup> string) \<Rightarrow> nat \<Rightarrow> string \<Rightarrow> (string \<times> string) list" where
  "acl_rules files depth path =
     (if depth > 4 then []
      else
        case files path of
          None \<Rightarrow> []
        | Some text' \<Rightarrow>
            concat (map (acl_line_rules (\<lambda>arg. acl_rules files (depth + 1) arg)) (splitlines (universal_newlines text'))))"
  by pat_completeness auto

termination
  by (relation "measure (\<lambda>(_, depth, _). 5 - depth)") auto

declare acl_rules.simps [simp del]

definition bridge_denied :: "(string \<rightharpoonup> string) \<Rightarrow> string \<Rightarrow> string \<Rightarrow> bool" where
  "bridge_denied files bridge acl =
     list_ex (\<lambda>(v, a). v = ''deny'' \<and> (a = bridge \<or> a = ''all'')) (acl_rules files 0 acl)"

definition bridge_allowed :: "(string \<rightharpoonup> string) \<Rightarrow> string \<Rightarrow> string \<Rightarrow> bool" where
  "bridge_allowed files bridge acl =
     (if bridge_denied files bridge acl then False
      else list_ex (\<lambda>(v, a). v = ''allow'' \<and> (a = bridge \<or> a = ''all'')) (acl_rules files 0 acl))"

subsection \<open>Whether a process can do without root\<close>

text \<open>
  The identity of a process, an account with its groups (\<^verbatim>\<open>os.getgrouplist\<close>), and what the checks
  read: \<open>rl_access\<close> is \<^verbatim>\<open>_accessible\<close> with the mode the code asks of the path, write and search for
  a directory, read and write for \<^verbatim>\<open>/dev/kvm\<close>; \<open>rl_kvm\<close> says whether that device exists.
\<close>

record ids =
  id_ruid :: nat
  id_euid :: nat
  id_suid :: nat
  id_rgid :: nat
  id_egid :: nat
  id_sgid :: nat
  id_groups :: "nat list"

record passwd =
  pw_name :: string
  pw_uid :: nat
  pw_gid :: nat
  pw_dir :: string
  pw_groups :: "nat list"

record rootless_env =
  rl_stat :: "string \<Rightarrow> file_stat option"
  rl_files :: "string \<rightharpoonup> string"
  rl_access :: "ids \<Rightarrow> string \<Rightarrow> bool"
  rl_kvm :: bool
  rl_bridge :: string
  rl_vm_dir :: string

datatype not_ready =
    NoHelper
  | NotSetuid string
  | NotAllowed
  | NotWritable string
  | NoKvm

definition BRIDGE_ACL :: string where
  "BRIDGE_ACL = ''/etc/qemu/bridge.conf''"

definition KVM_DEVICE :: string where
  "KVM_DEVICE = ''/dev/kvm''"

definition shared_dirs :: "string \<Rightarrow> string list" where
  "shared_dirs vm_dir = [vm_dir, vm_dir @ ''/overlays'', vm_dir @ ''/sockets'', vm_dir @ ''/hosts.d'']"

definition check_shared_dirs :: "rootless_env \<Rightarrow> ids \<Rightarrow> not_ready list" where
  "check_shared_dirs env i =
     (case find (\<lambda>d. \<not> rl_access env i d) (shared_dirs (rl_vm_dir env)) of None \<Rightarrow> [] | Some d \<Rightarrow> [NotWritable d])"

definition readiness :: "rootless_env \<Rightarrow> ids \<Rightarrow> not_ready list" where
  "readiness env i =
     (case bridge_helper (rl_stat env) of
        None \<Rightarrow> (case installed_helper (rl_stat env) of None \<Rightarrow> [NoHelper] | Some f \<Rightarrow> [NotSetuid f])
      | Some _ \<Rightarrow> if \<not> bridge_allowed (rl_files env) (rl_bridge env) BRIDGE_ACL then [NotAllowed] else []) @
     check_shared_dirs env i @
     (if rl_kvm env \<and> \<not> rl_access env i KVM_DEVICE then [NoKvm] else [])"

definition ready :: "rootless_env \<Rightarrow> ids \<Rightarrow> bool" where
  "ready env i \<longleftrightarrow> id_euid i \<noteq> 0 \<and> readiness env i = []"

definition root_only :: "file_stat option \<Rightarrow> bool" where
  "root_only st = (case st of None \<Rightarrow> False | Some s \<Rightarrow> \<not> st_lnk s \<and> st_uid s = 0 \<and> st_mode s AND 18 = 0)"

subsection \<open>Giving root up\<close>

text \<open>
  \<^verbatim>\<open>_acting_as\<close>: the effective identity for the checks, and what the \<^verbatim>\<open>finally\<close> restores.  A
  process that root started has the saved user 0, which lets it take the effective user 0 again.
\<close>

definition act_as :: "passwd \<Rightarrow> ids \<Rightarrow> ids" where
  "act_as user i = i\<lparr>id_groups := pw_groups user, id_egid := pw_gid user, id_euid := pw_uid user\<rparr>"

definition restore_ids :: "ids \<Rightarrow> ids \<Rightarrow> ids" where
  "restore_ids saved i = i\<lparr>id_euid := 0, id_egid := id_egid saved, id_groups := id_groups saved\<rparr>"

text \<open>\<^verbatim>\<open>setgid\<close> and \<^verbatim>\<open>setuid\<close> of a process with effective user 0 change all three.\<close>

definition become :: "passwd \<Rightarrow> ids \<Rightarrow> ids" where
  "become user i =
     i\<lparr>id_groups := pw_groups user, id_rgid := pw_gid user, id_egid := pw_gid user, id_sgid := pw_gid user,
       id_ruid := pw_uid user, id_euid := pw_uid user, id_suid := pw_uid user\<rparr>"

definition drop_env :: "passwd \<Rightarrow> (string \<rightharpoonup> string) \<Rightarrow> (string \<rightharpoonup> string)" where
  "drop_env user e =
     (e(''HOME'' \<mapsto> pw_dir user, ''USER'' \<mapsto> pw_name user, ''LOGNAME'' \<mapsto> pw_name user))
       (''SUDO_USER'' := None, ''SUDO_UID'' := None, ''SUDO_GID'' := None, ''SUDO_COMMAND'' := None)"

type_synonym process = "ids \<times> (string \<rightharpoonup> string)"

definition drop_to :: "rootless_env \<Rightarrow> passwd \<Rightarrow> process \<Rightarrow> bool \<times> process" where
  "drop_to env user p =
     (let i = fst p; acting = act_as user i; problems = readiness env acting; i' = restore_ids i acting
      in if problems \<noteq> [] then (False, (i', snd p)) else (True, (become user i', drop_env user (snd p))))"

definition sudo_user :: "(string \<rightharpoonup> passwd) \<Rightarrow> process \<Rightarrow> passwd option" where
  "sudo_user db p =
     (let name = get_or [] (snd p ''SUDO_USER'')
      in if id_euid (fst p) \<noteq> 0 \<or> name = [] \<or> name = ''root'' then None else db name)"

definition drop_to_sudo_user :: "rootless_env \<Rightarrow> (string \<rightharpoonup> passwd) \<Rightarrow> process \<Rightarrow> bool \<times> process" where
  "drop_to_sudo_user env db p = (case sudo_user db p of None \<Rightarrow> (False, p) | Some user \<Rightarrow> drop_to env user p)"

definition drop_to_owner :: "rootless_env \<Rightarrow> (nat \<rightharpoonup> passwd) \<Rightarrow> string list \<Rightarrow> process \<Rightarrow> bool \<times> process" where
  "drop_to_owner env db paths p =
     (if id_euid (fst p) \<noteq> 0 then (False, p)
      else
        case uniq (map st_uid (List.map_filter (rl_stat env) paths)) of
          [uid] \<Rightarrow> if uid = 0 then (False, p) else (case db uid of None \<Rightarrow> (False, p) | Some user \<Rightarrow> drop_to env user p)
        | _ \<Rightarrow> (False, p))"

subsection \<open>Lemmas: \<open>hosts.d\<close> is a registry like \<^verbatim>\<open>/etc/hosts\<close>\<close>

lemma read_written:
  assumes "reg_name n" "reg_addr a"
  shows "read_hosts_ip n (write_hosts_entry n a MARKER dir) = Some a"
proof -
  have "CHR 0x0D \<notin> set (hosts_entry n a)" using hosts_entry_unbroken [OF assms] by (auto simp: unbroken_def islinebreak_def list_all_iff)
  then have "universal_newlines (hosts_entry n a @ [CHR 0x0A]) = hosts_entry n a @ [CHR 0x0A]"
    by (intro universal_newlines_id) simp
  moreover obtain ws where "split_ws (hosts_entry n a @ [CHR 0x0A]) = a # ws"
  proof -
    have "isspace CHR 0x09" by (simp add: isspace_def ascii_space_def)
    with words_aux_head [of a "CHR 0x09" "[]"] assms(2) that show thesis
      by (simp add: split_ws_def hosts_entry_def reg_addr_def)
  qed
  ultimately show ?thesis by (simp add: read_hosts_ip_def write_hosts_entry_def hosts_entry_def marker_line_def)
qed

interpretation hosts_d: name_registry "\<lambda>n a. write_hosts_entry n a MARKER" remove_hosts_entry read_hosts_ip "\<lambda>_. True" reg_name reg_addr
proof
  fix s :: hosts_dir and n a m
  assume n: "reg_name n" and m: "reg_name m"
  show "read_hosts_ip m (remove_hosts_entry n s) = (if m = n then None else read_hosts_ip m s)"
    by (simp add: read_hosts_ip_def remove_hosts_entry_def)
  assume "reg_addr a"
  with n read_written show "read_hosts_ip m (write_hosts_entry n a MARKER s) = (if m = n then Some a else read_hosts_ip m s)"
    by (auto simp: read_hosts_ip_def write_hosts_entry_def)
qed simp_all

text \<open>
  The two registries of names agree: run over any sequence of registrations and removals,
  \<^verbatim>\<open>/etc/hosts\<close> and \<^verbatim>\<open>hosts.d\<close> answer with the same address for every name, if they did before.
\<close>

theorem registries_agree:
  assumes "newline_text s" "list_all etc_hosts.ok_op ops" "reg_name n" "\<forall>m. reg_name m \<longrightarrow> hosts_ip m s = read_hosts_ip m dir"
  shows "hosts_ip n (fold etc_hosts.run_op ops s) = read_hosts_ip n (fold hosts_d.run_op ops dir)"
  using etc_hosts.run_ops_refine [OF assms(1,2), of "\<lambda>m. hosts_ip m s"]
    hosts_d.run_ops_refine [OF TrueI assms(2), of dir "\<lambda>m. hosts_ip m s"] assms(3,4) by simp

theorem registries_agree_witness:
  "read_hosts_ip ''a'' (fold hosts_d.run_op [Register ''a'' ''10.0.0.2'', Register ''b'' ''10.0.0.3'', Unregister ''b''] Map.empty) =
   hosts_ip ''a'' (fold etc_hosts.run_op [Register ''a'' ''10.0.0.2'', Register ''b'' ''10.0.0.3'', Unregister ''b''] [])"
proof -
  have "newline_text []" "reg_name ''a''" "reg_name ''b''" "reg_addr ''10.0.0.2''" "reg_addr ''10.0.0.3''" by code_simp+
  moreover have "hosts_ip m [] = read_hosts_ip m Map.empty" for m
    by (simp add: hosts_ip_def read_hosts_ip_def splitlines_def)
  ultimately show ?thesis
    using registries_agree [of "[]" "[Register ''a'' ''10.0.0.2'', Register ''b'' ''10.0.0.3'', Unregister ''b'']" "''a''" Map.empty] by simp
qed

subsection \<open>Lemmas: root is given up whole or not at all\<close>

text \<open>
  Giving root up is all or nothing: a root process that tries the identity of a user and finds
  it not sufficient is the same process afterwards, groups and environment included; otherwise no
  real, effective or saved id, no group and no sudo variable of root is left, and the user can run
  VMs without root.
\<close>

theorem drop_to_all_or_nothing:
  assumes "id_euid i = 0" "drop_to env user (i, e) = (dropped, (i', e'))"
  shows "if dropped then
      (id_ruid i', id_euid i', id_suid i') = (pw_uid user, pw_uid user, pw_uid user) \<and>
      (id_rgid i', id_egid i', id_sgid i') = (pw_gid user, pw_gid user, pw_gid user) \<and>
      id_groups i' = pw_groups user \<and> e' ''SUDO_USER'' = None \<and> e' ''USER'' = Some (pw_name user) \<and>
      readiness env (act_as user i) = []
    else i' = i \<and> e' = e"
  using assms by (cases dropped) (auto simp: drop_to_def Let_def become_def restore_ids_def act_as_def drop_env_def split: if_split_asm)

definition user_example :: passwd where
  "user_example = \<lparr>pw_name = ''u'', pw_uid = 1000, pw_gid = 100, pw_dir = ''/home/u'', pw_groups = [100, 36]\<rparr>"

definition root_ids :: ids where
  "root_ids = \<lparr>id_ruid = 0, id_euid = 0, id_suid = 0, id_rgid = 0, id_egid = 0, id_sgid = 0, id_groups = [0]\<rparr>"

definition rootless_example :: rootless_env where
  "rootless_example =
     \<lparr>rl_stat = (\<lambda>p. if p = ''/usr/libexec/qemu-bridge-helper'' then Some \<lparr>st_reg = True, st_lnk = False, st_uid = 0, st_mode = 2541\<rparr> else None),
      rl_files = [''/etc/qemu/bridge.conf'' \<mapsto> ''include /etc/qemu/ltvm.conf'', ''/etc/qemu/ltvm.conf'' \<mapsto> ''allow fcbr0 # ltvm''],
      rl_access = (\<lambda>i p. 36 \<in> set (id_groups i)), rl_kvm = True, rl_bridge = ''fcbr0'', rl_vm_dir = ''/v''\<rparr>"

theorem drop_to_all_or_nothing_witness:
  "id_groups (fst (snd (drop_to rootless_example user_example (root_ids, [''SUDO_USER'' \<mapsto> ''u''])))) = [100, 36] \<and>
   snd (drop_to rootless_example (user_example\<lparr>pw_groups := []\<rparr>) (root_ids, Map.empty)) = (root_ids, Map.empty)"
proof -
  have yes: "fst (drop_to rootless_example user_example (root_ids, [''SUDO_USER'' \<mapsto> ''u'']))" by code_simp
  have no: "\<not> fst (drop_to rootless_example (user_example\<lparr>pw_groups := []\<rparr>) (root_ids, Map.empty))" by code_simp
  have root: "id_euid root_ids = 0" by (simp add: root_ids_def)
  obtain d i e where a: "drop_to rootless_example user_example (root_ids, [''SUDO_USER'' \<mapsto> ''u'']) = (d, (i, e))" by (metis prod.collapse)
  obtain d' i' e' where b: "drop_to rootless_example (user_example\<lparr>pw_groups := []\<rparr>) (root_ids, Map.empty) = (d', (i', e'))" by (metis prod.collapse)
  from drop_to_all_or_nothing [OF root a] drop_to_all_or_nothing [OF root b] yes no a b show ?thesis by (simp add: user_example_def)
qed

lemma drop_to_owner_owns:
  assumes "drop_to_owner env db paths p = (True, p')" "\<And>u a. db u = Some a \<Longrightarrow> pw_uid a = u" "path \<in> set paths" "rl_stat env path = Some s"
  shows "st_uid s = id_euid (fst p')" "st_uid s \<noteq> 0"
proof -
  obtain u a where u: "uniq (map st_uid (List.map_filter (rl_stat env) paths)) = [u]" "u \<noteq> 0" "db u = Some a" "drop_to env a p = (True, p')"
    using assms(1) by (auto simp: drop_to_owner_def split: if_split_asm list.split_asm option.split_asm)
  have "st_uid s \<in> set (uniq (map st_uid (List.map_filter (rl_stat env) paths)))"
    using assms(3,4) by (force simp: List.map_filter_def)
  with u show "st_uid s = id_euid (fst p')" "st_uid s \<noteq> 0"
    using assms(2) by (auto simp: drop_to_def Let_def become_def split: if_split_asm)
qed

subsection \<open>Lemmas: what the helper's rules allow\<close>

text \<open>The rules of a file and of those it includes, at most four levels down.\<close>

inductive acl_has :: "(string \<rightharpoonup> string) \<Rightarrow> nat \<Rightarrow> string \<Rightarrow> string \<times> string \<Rightarrow> bool" for files where
  rule: "depth \<le> 4 \<Longrightarrow> files path = Some t \<Longrightarrow> raw \<in> set (splitlines (universal_newlines t)) \<Longrightarrow>
    acl_words raw = Some (verb, arg) \<Longrightarrow> verb = ''allow'' \<or> verb = ''deny'' \<Longrightarrow> acl_has files depth path (verb, arg)"
| incl: "depth \<le> 4 \<Longrightarrow> files path = Some t \<Longrightarrow> raw \<in> set (splitlines (universal_newlines t)) \<Longrightarrow>
    acl_words raw = Some (''include'', arg) \<Longrightarrow> acl_has files (Suc depth) arg r \<Longrightarrow> acl_has files depth path r"

lemma acl_line_ruleI: "acl_words raw = Some (verb, arg) \<Longrightarrow> verb = ''allow'' \<or> verb = ''deny'' \<Longrightarrow> acl_line_rules inc raw = [(verb, arg)]"
  by (auto simp: acl_line_rules_def)

lemma acl_line_inclI: "acl_words raw = Some (''include'', arg) \<Longrightarrow> acl_line_rules inc raw = inc arg"
  by (simp add: acl_line_rules_def)

lemma acl_line_rulesE:
  assumes "r \<in> set (acl_line_rules inc raw)"
  obtains (rule) verb arg where "acl_words raw = Some (verb, arg)" "verb = ''allow'' \<or> verb = ''deny''" "r = (verb, arg)"
    | (incl) arg where "acl_words raw = Some (''include'', arg)" "r \<in> set (inc arg)"
proof -
  obtain verb arg where w: "acl_words raw = Some (verb, arg)" using assms by (cases "acl_words raw") (auto simp: acl_line_rules_def)
  then show thesis
    using assms that by (cases "verb = ''include''"; cases "verb = ''allow'' \<or> verb = ''deny''") (simp_all only: acl_line_rules_def option.case prod.case if_True if_False list.set empty_iff insert_iff simp_thms)
qed

lemma acl_rules_mem:
  "r \<in> set (acl_rules files depth path) \<longleftrightarrow>
     depth \<le> 4 \<and> (\<exists>t. files path = Some t \<and>
       (\<exists>raw \<in> set (splitlines (universal_newlines t)). r \<in> set (acl_line_rules (acl_rules files (Suc depth)) raw)))"
  by (cases "files path") (auto simp: acl_rules.simps [of files depth path])

lemma acl_rules_sound: "r \<in> set (acl_rules files depth path) \<Longrightarrow> acl_has files depth path r"
proof (induction "5 - depth" arbitrary: depth path rule: less_induct)
  case less
  then obtain t raw where at: "depth \<le> 4" "files path = Some t" "raw \<in> set (splitlines (universal_newlines t))"
    and line: "r \<in> set (acl_line_rules (acl_rules files (Suc depth)) raw)" by (auto simp: acl_rules_mem)
  from line show ?case
  proof (cases rule: acl_line_rulesE)
    case (rule verb arg)
    with at acl_has.rule show ?thesis by metis
  next
    case (incl arg)
    with at less.hyps [of "Suc depth" arg] show ?thesis by (auto intro: acl_has.incl)
  qed
qed

lemma acl_rules_complete: "acl_has files depth path r \<Longrightarrow> r \<in> set (acl_rules files depth path)"
proof (induction rule: acl_has.induct)
  case (rule depth path t raw verb arg)
  then have "(verb, arg) \<in> set (acl_line_rules (acl_rules files (Suc depth)) raw)" by (simp add: acl_line_ruleI)
  with rule show ?case unfolding acl_rules_mem [of _ files depth] by blast
next
  case (incl depth path t raw arg r)
  then have "r \<in> set (acl_line_rules (acl_rules files (Suc depth)) raw)" by (simp add: acl_line_inclI)
  with incl show ?case unfolding acl_rules_mem [of _ files depth] by blast
qed

text \<open>
  The bridge check agrees with the rules as a whole: a bridge is allowed exactly when some
  allow rule for it or for all is reached, through at most four includes and cycles or not, and no
  deny rule is, wherever the two stand.
\<close>

theorem bridge_allowed_exact:
  "bridge_allowed files bridge acl \<longleftrightarrow>
     (\<exists>a. (a = bridge \<or> a = ''all'') \<and> acl_has files 0 acl (''allow'', a)) \<and>
     \<not> (\<exists>a. (a = bridge \<or> a = ''all'') \<and> acl_has files 0 acl (''deny'', a))"
proof -
  have "acl_has files 0 acl r \<longleftrightarrow> r \<in> set (acl_rules files 0 acl)" for r using acl_rules_sound acl_rules_complete by blast
  then show ?thesis by (auto simp: bridge_allowed_def bridge_denied_def list_ex_iff)
qed

end
