(* ===== verification/Spec2Isabelle.thy ===== *)
theory Spec2Isabelle
  imports SuiteRun HostCleanup Snapshots ConsoleLog KeptBlocks LocalInstall Vfio StorageCmd Rootless
begin

text \<open>
  A verification development of ltvm (lustre-test-vms), the tool that creates and runs QEMU
  virtual machines and clusters of them for testing Lustre.  File names below are those under
  \<^verbatim>\<open>src/ltvm_pkg/\<close>.

  \<^bold>\<open>The program.\<close>  A host keeps one \<^verbatim>\<open>.info\<close> file per VM in a state directory; every command
  reads these files, decides, changes files, processes and devices, and writes them back under
  locks.  Around that core are a parser for the NIC specifications, the allocation of
  addresses, the claims by which sessions reserve VMs, the registry of VM names in
  \<^verbatim>\<open>/etc/hosts\<close> and the ssh configuration, the launch of QEMU within a memory budget, the store
  of base images that the overlays of VMs stand on and the storage they are archived to, clusters with their roles, targets and
  failover pairs, and the binding of PCI devices.  Several processes may run commands at the same
  time.

  \<^bold>\<open>Shared theories.\<close>
  \<^item> \<open>Prelude\<close>: results with errors as values (\<open>result\<close>, \<open>res_bind\<close>, \<open>map_err\<close>),
    dictionaries as association lists in insertion order, lemmas on lists and options.
  \<^item> \<open>PyStr\<close>: the string and integer operations of Python the sources use, with their text
    round trips.  A string is a list of characters of 8 bits, read as Latin-1: what the code
    does with characters past 0xFF is not covered.
  \<^item> \<open>Codec\<close>: the locales \<open>codec\<close> and \<open>piped_codec\<close> (a printer and a reader that
    agree, also through joined lists) and the reading and updating of \<open>KEY=value\<close> files; the
    NIC specifications, plain strings and VM records interpret them.
  \<^item> \<open>IpNet\<close>: addresses and networks as Python's \<^verbatim>\<open>ipaddress\<close> parses, prints and compares them.

  \<^bold>\<open>One VM.\<close>
  \<^item> \<open>NicSpec\<close> (\<^verbatim>\<open>nic_spec.py\<close>): the parser, the printer and the loader of stored
    specifications; what parses is well formed and reads back.
  \<^item> \<open>VmState\<close> (\<^verbatim>\<open>vm_owner.py\<close>, VM half of \<^verbatim>\<open>vm_state.py\<close>): the record \<open>vminfo\<close> with its 36
    fields, \<^verbatim>\<open>save\<close>, \<^verbatim>\<open>load\<close> and the field updates.  Saved records load back, and interleaved
    updates by processes with stale copies are all kept.
  \<^item> \<open>NicNetwork\<close>, \<open>AddrAlloc\<close> (\<^verbatim>\<open>nic_network.py\<close>, \<^verbatim>\<open>nic_allocation.py\<close>, \<^verbatim>\<open>nic_cmdline.py\<close>,
    \<^verbatim>\<open>alloc_ip\<close> of \<^verbatim>\<open>vm_net.py\<close>): pools of addresses and what a create takes from them.  The locale
    \<open>address_pool\<close> has the circular scan; the configured networks and the default range
    interpret it.  The addresses given out are new, different and in range, and the scan finds
    one whenever one is free.
  \<^item> \<open>VmClaim\<close> (\<^verbatim>\<open>vm_claim.py\<close>): claims, their expiry and the operations on them; runs of many
    sessions are the relation \<open>claim_run\<close>.  Nobody loses a live claim to an unforced operation.
  \<^item> \<open>NameReg\<close> (\<^verbatim>\<open>vm_net.py\<close>): \<^verbatim>\<open>/etc/hosts\<close>, the ssh configuration, TAP names and MAC addresses.
    The locale \<open>name_registry\<close> has what a registry of names promises; \<^verbatim>\<open>/etc/hosts\<close> interprets it.
  \<^item> \<open>Rootless\<close> (\<^verbatim>\<open>rootless.py\<close>, Linux): the registry in \<^verbatim>\<open>hosts.d\<close>, a second interpretation of
    \<open>name_registry\<close>, which agrees with \<^verbatim>\<open>/etc/hosts\<close>; the rules of the bridge helper, whether a
    process can do without root, and giving root up, all of it or nothing.
  \<^item> \<open>CreateChecks\<close> (\<^verbatim>\<open>vm_commands.py\<close>, \<^verbatim>\<open>deploy.py\<close>): names, sizes, kernel arguments, NICs and
    disk counts before a create, and the test disks a VM is configured with.
  \<^item> \<open>QemuRun\<close> (\<^verbatim>\<open>qemu_run.py\<close>, \<^verbatim>\<open>vm_state.py\<close>): which process is a VM, the memory budget, the wait
    for memory, processors, NUMA nodes, disks and the whole QEMU command line.
  \<^item> \<open>ImageStore\<close> (\<^verbatim>\<open>image_store.py\<close>): versions of base images, the backing file in a qcow2 header,
    pruning and the check before a boot.
  \<^item> \<open>Vfio\<close> (\<^verbatim>\<open>vfio.py\<close>): binding a PCI device to vfio-pci and back, over the rules of the kernel.

  \<^bold>\<open>The host.\<close>
  \<^item> \<open>VmLifecycle\<close> (\<^verbatim>\<open>vm_commands.py\<close>, \<^verbatim>\<open>qemu_run.py\<close>): the record \<open>host\<close> (VM files, claims, name
    files, processes, pid files, TAP devices, bindings, images, clusters) and the commands create,
    start, set, stop and destroy on it, with their checks, commits and rollbacks.
  \<^item> \<open>VmStore\<close>: the locale \<open>vm_store\<close>, the state directory as a map from names to records;
    interpreted on \<^verbatim>\<open>load\<close>, \<^verbatim>\<open>save\<close> and the removal of a file.
  \<^item> \<open>HostInvariants\<close>: the relations \<open>host_step\<close> (a commit may follow checks of an older state)
    and \<open>serial_step\<close> (one command at a time), and what they keep: addresses are never shared
    under any interleaving; failover disks are attached once when commands do not overlap, and
    a race breaks that.
  \<^item> \<open>HostCleanup\<close>: a create that fails leaves nothing of its own, a destroy removes exactly what
    belongs to the VM, and the two cases where it takes or leaves more.
  \<^item> \<open>Snapshots\<close> (\<^verbatim>\<open>vm_commands.py\<close>): snapshots of a VM's disk.  A restore brings back what was taken, and a
    VM that ran comes back after either, also when \<^verbatim>\<open>qemu-img\<close> fails.
  \<^item> \<open>ConsoleLog\<close> (\<^verbatim>\<open>vm_commands.py\<close>): the end of a console log and following it.  What is written to
    the log is shown, through reboots that truncate it.

  \<^bold>\<open>Clusters.\<close>
  \<^item> \<open>ClusterState\<close> (cluster half of \<^verbatim>\<open>vm_state.py\<close>): the record of a cluster, over decoded JSON.
  \<^item> \<open>ClusterCreate\<close> (\<^verbatim>\<open>vm_cluster.py\<close>): node specifications, roles, failover partners, the memory
    check, the waves of creates and the removal of orphaned records.
  \<^item> \<open>ClusterConf\<close> (\<^verbatim>\<open>vm_cluster.py\<close>, \<^verbatim>\<open>deploy.py\<close>): LNet networks, OSTs in files and the block
    of \<^verbatim>\<open>cfg/local.sh\<close>; the devices it names on a node are the disks the node has.
  \<^item> \<open>ClusterFacets\<close>, \<open>ClusterFailover\<close> (\<^verbatim>\<open>cluster_failover.py\<close>): the facets read back from that
    block, and failover and failback with their faults.  A failover touches only the primary, a
    failback mounts each facet once, and the one path that leaves a link down is exhibited.
  \<^item> \<open>KeptBlocks\<close> (\<^verbatim>\<open>deploy.py\<close>): the marked blocks of \<^verbatim>\<open>cfg/local.sh\<close> over a deploy.  What is kept reads the
    same after it, and a block that is there is rewritten in place.

  \<^bold>\<open>Test suites.\<close>
  \<^item> \<open>SuiteResults\<close> (\<^verbatim>\<open>suite_run.py\<close>): the reader of results files and their summary.  Tests that run
    other tests, and files cut off anywhere, read back with every status where it belongs.
  \<^item> \<open>SuiteProbe\<close>: the names, settings and script of a run, and the report of the runs of a guest.
    What is quoted reads back as the same words; crashes are told from reboots that were asked for.
  \<^item> \<open>SuiteRun\<close>: the checks before a start, over claims, VMs, clusters and facets, the launch and the
    wait.  A suite starts on an idle target of one's own, the wait ends, and its exit status is true.

  \<^bold>\<open>Kernels and Lustre trees.\<close>
  \<^item> \<open>KernelVersions\<close> (\<^verbatim>\<open>target_config.py\<close>, \<^verbatim>\<open>lustre_compat.py\<close>): names of built kernels, versions and the ladders
    of ldiskfs series.  A short name means the newest build, a version the last rung not above it.
  \<^item> \<open>LustreCompat\<close> (\<^verbatim>\<open>lustre_compat.py\<close>, \<^verbatim>\<open>cli/build.py\<close>): the declarations of a Lustre tree and the gate
    before a build.  What passes has the tree's word for the kernel.
  \<^item> \<open>LocalInstall\<close> (\<^verbatim>\<open>local_install.py\<close>, \<^verbatim>\<open>cli/make.py\<close>): installing a build onto the machine itself and taking it off.
    An uninstall removes only what its manifest names; two cases where it leaves something are exhibited.

  \<^bold>\<open>Artifacts.\<close>
  \<^item> \<open>StorageTree\<close> (\<^verbatim>\<open>storage.py\<close>): trees of files, the sparse copy with its read, write and seek
    loops, the check of a copy and the survey of a tree.  A copy is exact, and the check accepts
    exactly what it should.
  \<^item> \<open>StorageMove\<close>: \<^verbatim>\<open>relocate\<close> with each system call that may fail and each step that undoes it.  A
    move happens or leaves everything as it was; no failure loses the tree.
  \<^item> \<open>StorageCmd\<close>: archive and restore with their plan, the references of VMs and the refusals.
    Archiving is invisible to paths, restoring undoes it, and nothing moves under a running VM.

  \<^bold>\<open>How code becomes definitions.\<close>  A command is a function from the state it finds to a result
  and the state it leaves; \<^verbatim>\<open>die\<close>, an exception and an early return are values of an error
  datatype, and the texts of messages are reduced to what they interpolate.  A locked
  read-modify-write is one step.  What is outside the repository is an argument: digests
  (\<open>md5\<close>), the clock, the outcome of external tools and of the guest, the kernel behind
  sysfs, which system calls fail, \<^verbatim>\<open>failover-facets.sh\<close> in a client.  The records \<open>host_env\<close>,
  \<open>claim_env\<close>, \<open>cluster_env\<close>, \<open>machine_env\<close>, \<open>fo_env\<close>, \<open>suite_env\<close>, \<open>snap_env\<close>, \<open>compat_env\<close>, \<open>local_env\<close>, \<open>fs_env\<close> and \<open>storage_env\<close> collect them, and the laws a theorem needs of them are its named
  hypotheses, with an instance in its witness.

  \<^bold>\<open>Loops and bounds.\<close>  Loops over data are structural recursion and need no fuel.  The wait for
  memory (\<open>launch_wait\<close>) may run as long as the host has none: it is a partial function, with
  a proof that it returns once the clock advances by a fixed amount per poll.  Waiting for a suite (\<open>suite_wait\<close>) is one too,
  with a bound on its polls when a timeout is given; one poll of a console log (\<open>follow_poll\<close>) always returns.  The polls of a
  failover script are the list of answers up to its deadline.  Following symbolic links stops
  after 40, as on Linux.  References between shell variables are followed to a depth that is a
  parameter, Python's limit; a lemma shows that the depth of the references is enough.  The scans of address pools are bounded by the size of the pool.

  \<^bold>\<open>Not modelled.\<close>  Building kernels, images, Lustre, ZFS and MOFED in containers, fetching and
  packaging releases, installing and uninstalling the host, command-line parsing, completion,
  telemetry and update checks: these call external tools in sequence and keep no state that
  other components rely on.  macOS paths, QMP, ssh sessions, and guest scripts are left out
  of the components that have them.
\<close>

end
